(* ===== verification/Prelude.thy ===== *)
theory Prelude
  imports Main "HOL-Library.Word"
begin

text \<open>
  Shared vocabulary of the development: the machine integer types, the faults a piece of the
  code can run into, the result type of fallible operations with its sequencing operator,
  and the generic list lemmas that the component theories use.
\<close>

type_synonym u64 = "64 word"
type_synonym u32 = "32 word"
type_synonym u16 = "16 word"
type_synonym u8 = "8 word"

text \<open>
  How a run can fail: a \<open>BUG_ON\<close> of the kernel module, an index outside an array, a
  failed \<open>assert\<close>, a call of \<open>exit\<close> or \<open>abort\<close>, a null pointer that is read, and a
  loop that is still running when the supplied script of its environment is used up.
\<close>

datatype fault = BugOn | OutOfBounds | AssertFailed | ExitCalled | NullDeref | StillSpinning

type_synonym 'a result = "fault + 'a"

fun bindR :: "'e + 'a \<Rightarrow> ('a \<Rightarrow> 'e + 'b) \<Rightarrow> 'e + 'b" where
  "bindR (Inl e) f = Inl e"
| "bindR (Inr x) f = f x"

named_theorems step_defs \<open>definitions of the operations of a component\<close>

lemma bindR_Inr_iff: "bindR m f = Inr y \<longleftrightarrow> (\<exists>x. m = Inr x \<and> f x = Inr y)"
  by (cases m) auto

lemma bindR_Inl_iff: "bindR m f = Inl e \<longleftrightarrow> m = Inl e \<or> (\<exists>x. m = Inr x \<and> f x = Inl e)"
  by (cases m) auto

lemma bindR_InrE:
  assumes "bindR m f = Inr y"
  obtains x where "m = Inr x" and "f x = Inr y"
  using assms by (auto simp: bindR_Inr_iff)

lemma bindR_assoc: "bindR (bindR m f) g = bindR m (\<lambda>x. bindR (f x) g)"
  by (cases m) auto

lemma bindR_cong:
  "m = m' \<Longrightarrow> (\<And>x. m' = Inr x \<Longrightarrow> f x = g x) \<Longrightarrow> bindR m f = bindR m' g"
  by (cases m') auto

subsection \<open>Lists\<close>

lemma last_Cons_append_Cons [simp]: "last (p # xs @ y # ys) = last (y # ys)"
  by (induction xs arbitrary: p) auto

lemma in_set_split_distinct:
  assumes "x \<in> set xs" "distinct xs"
  obtains ys zs where "xs = ys @ x # zs" "x \<notin> set ys" "x \<notin> set zs"
    "remove1 x xs = ys @ zs" "distinct (ys @ zs)"
proof -
  from assms(1) obtain ys zs where s: "xs = ys @ x # zs" "x \<notin> set ys"
    by (meson split_list_first)
  with assms(2) show thesis
    by (intro that [of ys zs]) (auto simp: remove1_append)
qed

lemma length_le_of_int_bounds:
  assumes "distinct xs" "set xs \<subseteq> {0..<int n}"
  shows "length xs \<le> n"
proof -
  have "card (set xs) \<le> card {0..<int n}" by (rule card_mono) (use assms in auto)
  then show ?thesis using assms(1) by (simp add: distinct_card)
qed

subsection \<open>Words\<close>

lemma word_less_plus_1:
  assumes "unat (x :: u64) < 2 ^ 64 - 1"
  shows "x < x + 1"
proof -
  have "unat (x + 1) = (unat x + 1) mod 2 ^ 64" by (simp add: unat_word_ariths)
  also have "\<dots> = unat x + 1" using assms by (intro mod_less) simp
  finally show ?thesis by (simp add: word_less_nat_alt)
qed

lemma uint_less_pow2:
  assumes "unat (a :: 'a::len word) < 2 ^ n"
  shows "uint a < 2 ^ n"
proof -
  have "int (unat a) < int (2 ^ n)" using assms by (simp only: of_nat_less_iff)
  then show ?thesis by simp
qed

lemma sint_of_int_small:
  "- (2 ^ 63) \<le> x \<Longrightarrow> x < 2 ^ 63 \<Longrightarrow> sint (word_of_int x :: u64) = x"
  by (simp add: sint_sbintrunc' signed_take_bit_int_eq_self)

lemma sint32_of_int_small:
  "- (2 ^ 31) \<le> x \<Longrightarrow> x < 2 ^ 31 \<Longrightarrow> sint (word_of_int x :: u32) = x"
  by (simp add: sint_sbintrunc' signed_take_bit_int_eq_self)

end
