(* ===== verification/Listarray.thy ===== *)
theory Listarray
  imports Prelude
begin

text \<open>
  The array-based doubly linked list of \<open>listarray.h\<close>, in which the kernel module keeps the
  identifiers of the active threads. The model keeps the source's representation (the
  \<open>next\<close>/\<open>prev\<close> array, \<open>head\<close>, \<open>tail\<close>, \<open>count\<close>, \<open>max_index\<close>); the abstraction is the list
  of the indices in link order. Indices outside the array are a fault of the model, and so is
  the \<open>BUG_ON\<close> of the two updates. Every value stored in the \<open>int16_t\<close> links is proved to be
  in the range of that type.
\<close>

subsection \<open>Representation\<close>

definition LISTARRAY_MAX_SIZE :: int where "LISTARRAY_MAX_SIZE = 4096"
definition LISTARRAY_ENTRY_NULL :: int where "LISTARRAY_ENTRY_NULL = -1"
definition LISTARRAY_ENTRY_DEAD :: int where "LISTARRAY_ENTRY_DEAD = LISTARRAY_MAX_SIZE + 1"

lemmas la_consts = LISTARRAY_MAX_SIZE_def LISTARRAY_ENTRY_NULL_def LISTARRAY_ENTRY_DEAD_def

record listarray_entry =
  la_next :: int
  la_prev :: int

record listarray =
  la_entries :: "int \<Rightarrow> listarray_entry"
  la_head :: int
  la_tail :: int
  la_count :: int
  la_max_index :: int

definition la_index_ok :: "int \<Rightarrow> bool" where
  "la_index_ok i \<longleftrightarrow> 0 \<le> i \<and> i < LISTARRAY_MAX_SIZE"

definition set_next :: "int \<Rightarrow> int \<Rightarrow> listarray \<Rightarrow> listarray" where
  "set_next i v la = la\<lparr>la_entries := (la_entries la)(i := (la_entries la i)\<lparr>la_next := v\<rparr>)\<rparr>"

definition set_prev :: "int \<Rightarrow> int \<Rightarrow> listarray \<Rightarrow> listarray" where
  "set_prev i v la = la\<lparr>la_entries := (la_entries la)(i := (la_entries la i)\<lparr>la_prev := v\<rparr>)\<rparr>"

text \<open>The same writes with the bounds of the C array: an index outside it is a fault.\<close>

definition put_next :: "int \<Rightarrow> int \<Rightarrow> listarray \<Rightarrow> listarray result" where
  "put_next i v la = (if la_index_ok i then Inr (set_next i v la) else Inl OutOfBounds)"

definition put_prev :: "int \<Rightarrow> int \<Rightarrow> listarray \<Rightarrow> listarray result" where
  "put_prev i v la = (if la_index_ok i then Inr (set_prev i v la) else Inl OutOfBounds)"

subsection \<open>Operations\<close>

definition listarray_init :: "listarray \<Rightarrow> listarray" where
  "listarray_init la =
     la\<lparr>la_head := LISTARRAY_ENTRY_NULL, la_tail := LISTARRAY_ENTRY_NULL,
        la_count := 0, la_max_index := 0,
        la_entries := (\<lambda>i. if la_index_ok i
          then \<lparr>la_next = LISTARRAY_ENTRY_DEAD, la_prev = LISTARRAY_ENTRY_DEAD\<rparr>
          else la_entries la i)\<rparr>"

definition listarray_count :: "listarray \<Rightarrow> int" where
  "listarray_count la = la_count la"

definition listarray_insert :: "listarray \<Rightarrow> int \<Rightarrow> listarray result" where
  "listarray_insert la index =
    (if \<not> la_index_ok index then Inl OutOfBounds
     else if \<not> (la_next (la_entries la index) = LISTARRAY_ENTRY_DEAD \<and>
                la_prev (la_entries la index) = LISTARRAY_ENTRY_DEAD) then Inl BugOn
     else
       bindR
         (if la_tail la = LISTARRAY_ENTRY_NULL
          then put_prev index LISTARRAY_ENTRY_NULL (la\<lparr>la_head := index, la_tail := index\<rparr>)
          else bindR (put_next (la_tail la) index la) (\<lambda>la1.
               bindR (put_prev index (la_tail la1) la1) (\<lambda>la2.
               Inr (la2\<lparr>la_tail := index\<rparr>)))) (\<lambda>la3.
       bindR (put_next index LISTARRAY_ENTRY_NULL la3) (\<lambda>la4.
       let la5 = la4\<lparr>la_count := la_count la4 + 1\<rparr>
       in Inr (if index > la_max_index la5 then la5\<lparr>la_max_index := index\<rparr> else la5))))"

definition listarray_remove :: "listarray \<Rightarrow> int \<Rightarrow> listarray result" where
  "listarray_remove la index =
    (if la_count la \<le> 0 then Inl BugOn
     else if \<not> la_index_ok index then Inl OutOfBounds
     else
       let p = la_prev (la_entries la index); n = la_next (la_entries la index) in
       bindR
         (if p = LISTARRAY_ENTRY_NULL \<and> n = LISTARRAY_ENTRY_NULL
          then Inr (la\<lparr>la_head := LISTARRAY_ENTRY_NULL, la_tail := LISTARRAY_ENTRY_NULL\<rparr>)
          else if p = LISTARRAY_ENTRY_NULL
          then put_prev n LISTARRAY_ENTRY_NULL (la\<lparr>la_head := n\<rparr>)
          else if n = LISTARRAY_ENTRY_NULL
          then put_next p LISTARRAY_ENTRY_NULL (la\<lparr>la_tail := p\<rparr>)
          else bindR (put_next p n la) (put_prev n p)) (\<lambda>la1.
       bindR (put_next index LISTARRAY_ENTRY_DEAD la1) (\<lambda>la2.
       bindR (put_prev index LISTARRAY_ENTRY_DEAD la2) (\<lambda>la3.
       Inr (la3\<lparr>la_count := la_count la3 - 1\<rparr>)))))"

definition listarray_in_list :: "listarray \<Rightarrow> int \<Rightarrow> bool" where
  "listarray_in_list la index \<longleftrightarrow>
     la_next (la_entries la index) \<noteq> LISTARRAY_ENTRY_DEAD \<and>
     la_prev (la_entries la index) \<noteq> LISTARRAY_ENTRY_DEAD"

text \<open>
  The two iteration macros, as the list of the indices their loop variable takes. The first
  follows \<open>next\<close> until \<open>NULL\<close>; it is given fuel, and \<open>listarray_foreach_elems\<close> below shows that
  \<open>LISTARRAY_MAX_SIZE + 1\<close> is always enough on a well-formed list.
\<close>

fun la_walk :: "nat \<Rightarrow> (int \<Rightarrow> listarray_entry) \<Rightarrow> int \<Rightarrow> int list option" where
  "la_walk 0 E i = None"
| "la_walk (Suc fuel) E i =
     (if i = LISTARRAY_ENTRY_NULL then Some []
      else map_option (\<lambda>is. i # is) (la_walk fuel E (la_next (E i))))"

definition listarray_foreach :: "listarray \<Rightarrow> int list result" where
  "listarray_foreach la =
     (case la_walk (Suc (nat LISTARRAY_MAX_SIZE)) (la_entries la) (la_head la) of
        None \<Rightarrow> Inl StillSpinning | Some is \<Rightarrow> Inr is)"

definition listarray_foreach_allelements :: "listarray \<Rightarrow> int list" where
  "listarray_foreach_allelements la = [0..la_max_index la]"

subsection \<open>Well-formedness and abstraction\<close>

text \<open>
  \<open>la_seg E p xs n\<close>: the entries \<open>xs\<close> form a doubly linked segment of \<open>E\<close> whose first entry
  points back to \<open>p\<close> and whose last entry points forward to \<open>n\<close>.
\<close>

fun la_seg :: "(int \<Rightarrow> listarray_entry) \<Rightarrow> int \<Rightarrow> int list \<Rightarrow> int \<Rightarrow> bool" where
  "la_seg E p [] n = True"
| "la_seg E p (x # xs) n =
     (la_prev (E x) = p \<and> la_next (E x) = hd (xs @ [n]) \<and> la_seg E x xs n)"

definition la_abs :: "listarray \<Rightarrow> int list \<Rightarrow> bool" where
  "la_abs la xs \<longleftrightarrow>
     distinct xs \<and> set xs \<subseteq> {i. la_index_ok i} \<and>
     la_seg (la_entries la) LISTARRAY_ENTRY_NULL xs LISTARRAY_ENTRY_NULL \<and>
     la_head la = hd (xs @ [LISTARRAY_ENTRY_NULL]) \<and>
     la_tail la = last (LISTARRAY_ENTRY_NULL # xs) \<and>
     la_count la = int (length xs) \<and>
     (\<forall>i. la_index_ok i \<and> i \<notin> set xs \<longrightarrow>
        la_next (la_entries la i) = LISTARRAY_ENTRY_DEAD \<and>
        la_prev (la_entries la i) = LISTARRAY_ENTRY_DEAD) \<and>
     la_index_ok (la_max_index la) \<and> (\<forall>x \<in> set xs. x \<le> la_max_index la)"

lemma la_seg_append:
  "la_seg E p (xs @ ys) n \<longleftrightarrow> la_seg E p xs (hd (ys @ [n])) \<and> la_seg E (last (p # xs)) ys n"
  by (induction xs arbitrary: p) (auto simp: hd_append)

lemma la_seg_cong:
  "(\<And>x. x \<in> set xs \<Longrightarrow> E x = E' x) \<Longrightarrow> la_seg E p xs n = la_seg E' p xs n"
  by (induction xs arbitrary: p) auto

lemma la_seg_upd [simp]: "i \<notin> set xs \<Longrightarrow> la_seg (E(i := v)) p xs n = la_seg E p xs n"
  by (rule la_seg_cong) auto

lemma la_seg_next: "la_seg E p (xs @ x # ys) n \<Longrightarrow> la_next (E x) = hd (ys @ [n])"
  by (simp add: la_seg_append)

lemma la_seg_prev: "la_seg E p (xs @ x # ys) n \<Longrightarrow> la_prev (E x) = last (p # xs)"
  by (simp add: la_seg_append)

lemma la_index_ok_simps [simp]:
  "la_index_ok i \<Longrightarrow> i \<noteq> LISTARRAY_ENTRY_NULL"
  "la_index_ok i \<Longrightarrow> i \<noteq> LISTARRAY_ENTRY_DEAD"
  "\<not> la_index_ok LISTARRAY_ENTRY_NULL"
  "\<not> la_index_ok LISTARRAY_ENTRY_DEAD"
  "LISTARRAY_ENTRY_NULL \<noteq> LISTARRAY_ENTRY_DEAD"
  "LISTARRAY_ENTRY_DEAD \<noteq> LISTARRAY_ENTRY_NULL"
  by (auto simp: la_index_ok_def la_consts)

lemma la_walk_seg:
  assumes "la_seg E p xs LISTARRAY_ENTRY_NULL" "\<forall>x \<in> set xs. la_index_ok x"
    "length xs < fuel"
  shows "la_walk fuel E (hd (xs @ [LISTARRAY_ENTRY_NULL])) = Some xs"
  using assms
proof (induction xs arbitrary: p fuel)
  case Nil
  then show ?case by (cases fuel) auto
next
  case (Cons x xs)
  then obtain f where f: "fuel = Suc f" "length xs < f" by (cases fuel) auto
  from Cons.prems have "la_walk f E (hd (xs @ [LISTARRAY_ENTRY_NULL])) = Some xs"
    by (intro Cons.IH[of x]) (auto simp: f)
  with Cons.prems f show ?case by auto
qed

lemma la_abs_length: "la_abs la xs \<Longrightarrow> length xs \<le> nat LISTARRAY_MAX_SIZE"
  by (rule length_le_of_int_bounds)
     (auto simp: la_abs_def la_index_ok_def LISTARRAY_MAX_SIZE_def)

lemma listarray_foreach_elems: "la_abs la xs \<Longrightarrow> listarray_foreach la = Inr xs"
  using la_walk_seg[of "la_entries la" LISTARRAY_ENTRY_NULL xs "Suc (nat LISTARRAY_MAX_SIZE)"]
    la_abs_length[of la xs]
  by (auto simp: listarray_foreach_def la_abs_def subset_iff)

lemma la_abs_unique: "la_abs la xs \<Longrightarrow> la_abs la ys \<Longrightarrow> xs = ys"
  by (drule listarray_foreach_elems)+ simp

lemma la_abs_init: "la_abs (listarray_init la) []"
  by (auto simp: la_abs_def listarray_init_def la_index_ok_def la_consts)

lemma la_abs_count: "la_abs la xs \<Longrightarrow> listarray_count la = int (length xs)"
  by (simp add: la_abs_def listarray_count_def)

lemma la_seg_ends_ok:
  assumes "la_seg E p xs n" "x \<in> set xs" "\<forall>x \<in> set xs. la_index_ok x"
    "p = LISTARRAY_ENTRY_NULL \<or> la_index_ok p" "n = LISTARRAY_ENTRY_NULL \<or> la_index_ok n"
  shows "(la_next (E x) = LISTARRAY_ENTRY_NULL \<or> la_index_ok (la_next (E x))) \<and>
         (la_prev (E x) = LISTARRAY_ENTRY_NULL \<or> la_index_ok (la_prev (E x)))"
  using assms
proof (induction xs arbitrary: p)
  case (Cons y ys)
  then show ?case by (cases ys) auto
qed simp

lemma la_abs_in_list:
  assumes "la_abs la xs" "la_index_ok i"
  shows "listarray_in_list la i \<longleftrightarrow> i \<in> set xs"
proof (cases "i \<in> set xs")
  case True
  then have "(la_next (la_entries la i) = LISTARRAY_ENTRY_NULL \<or> la_index_ok (la_next (la_entries la i))) \<and>
         (la_prev (la_entries la i) = LISTARRAY_ENTRY_NULL \<or> la_index_ok (la_prev (la_entries la i)))"
    using assms(1) by (intro la_seg_ends_ok) (auto simp: la_abs_def)
  with True show ?thesis by (auto simp: listarray_in_list_def)
qed (use assms in \<open>auto simp: listarray_in_list_def la_abs_def\<close>)

subsection \<open>The updates refine the list operations\<close>

lemma la_upd_simps [simp]:
  "la_entries (set_next i v la) = (la_entries la)(i := (la_entries la i)\<lparr>la_next := v\<rparr>)"
  "la_entries (set_prev i v la) = (la_entries la)(i := (la_entries la i)\<lparr>la_prev := v\<rparr>)"
  "la_head (set_next i v la) = la_head la" "la_head (set_prev i v la) = la_head la"
  "la_tail (set_next i v la) = la_tail la" "la_tail (set_prev i v la) = la_tail la"
  "la_count (set_next i v la) = la_count la" "la_count (set_prev i v la) = la_count la"
  "la_max_index (set_next i v la) = la_max_index la"
  "la_max_index (set_prev i v la) = la_max_index la"
  by (simp_all add: set_next_def set_prev_def)

lemma listarray_insert_abs:
  assumes abs: "la_abs la xs" and ok: "la_index_ok i" and new: "i \<notin> set xs"
  obtains la' where "listarray_insert la i = Inr la'" "la_abs la' (xs @ [i])"
proof (cases xs rule: rev_cases)
  case Nil
  with abs ok show thesis
    by (intro that[OF _ ]) (auto simp: listarray_insert_def put_next_def put_prev_def la_abs_def Let_def)
next
  case (snoc ys t)
  have t: "la_tail la = t" "t \<noteq> LISTARRAY_ENTRY_NULL" "t \<noteq> i" "la_index_ok t" "t \<notin> set ys"
    using abs new snoc by (auto simp: la_abs_def)
  let ?E = "(la_entries la)(t := (la_entries la t)\<lparr>la_next := i\<rparr>,
               i := \<lparr>la_next = LISTARRAY_ENTRY_NULL, la_prev = t\<rparr>)"
  have "la_seg ?E LISTARRAY_ENTRY_NULL ys t"
    using abs new snoc t(5) by (auto simp: la_abs_def la_seg_append)
  moreover have "la_prev (la_entries la t) = last (LISTARRAY_ENTRY_NULL # ys)"
    using abs snoc by (simp add: la_abs_def la_seg_append)
  ultimately have seg: "la_seg ?E LISTARRAY_ENTRY_NULL (xs @ [i]) LISTARRAY_ENTRY_NULL"
    using snoc t by (auto simp: la_seg_append)
  have dead: "la_next (la_entries la i) = LISTARRAY_ENTRY_DEAD"
      "la_prev (la_entries la i) = LISTARRAY_ENTRY_DEAD"
    using abs ok new by (auto simp: la_abs_def)
  have E: "(la_entries la)(t := (la_entries la t)\<lparr>la_next := i\<rparr>, i := (la_entries la i)
             \<lparr>la_prev := t, la_next := LISTARRAY_ENTRY_NULL\<rparr>) = ?E"
    by (rule ext) (auto intro: listarray_entry.equality)
  show thesis
  proof (rule that)
    show "listarray_insert la i = Inr (la\<lparr>la_entries := ?E, la_tail := i,
            la_count := la_count la + 1,
            la_max_index := if i > la_max_index la then i else la_max_index la\<rparr>)"
      using ok dead t E
      by (auto simp: listarray_insert_def put_next_def put_prev_def Let_def set_next_def set_prev_def)
    show "la_abs (la\<lparr>la_entries := ?E, la_tail := i, la_count := la_count la + 1,
            la_max_index := if i > la_max_index la then i else la_max_index la\<rparr>) (xs @ [i])"
      using abs ok new seg snoc t unfolding la_abs_def
      by (auto simp: hd_append)
  qed
qed

lemma la_abs_unlink:
  assumes abs: "la_abs la (ys @ i # zs)"
    and eqs: "la_head la1 = hd (ys @ zs @ [LISTARRAY_ENTRY_NULL])"
      "la_tail la1 = last (LISTARRAY_ENTRY_NULL # ys @ zs)"
      "la_count la1 = la_count la" "la_max_index la1 = la_max_index la"
    and seg: "la_seg (la_entries la1) LISTARRAY_ENTRY_NULL (ys @ zs) LISTARRAY_ENTRY_NULL"
    and frame: "\<And>j. j \<notin> set ys \<union> set zs \<Longrightarrow> la_entries la1 j = la_entries la j"
  shows "la_abs ((set_prev i LISTARRAY_ENTRY_DEAD (set_next i LISTARRAY_ENTRY_DEAD la1))
           \<lparr>la_count := la_count la1 - 1\<rparr>) (ys @ zs)"
  using abs eqs seg frame unfolding la_abs_def by (auto simp: hd_append)

lemma la_abs_neighbours:
  assumes "la_abs la (ys @ i # zs)"
  shows "la_prev (la_entries la i) = last (LISTARRAY_ENTRY_NULL # ys)"
    "la_next (la_entries la i) = hd (zs @ [LISTARRAY_ENTRY_NULL])"
    "la_seg (la_entries la) LISTARRAY_ENTRY_NULL ys i"
    "la_seg (la_entries la) i zs LISTARRAY_ENTRY_NULL"
  using assms by (auto simp: la_abs_def la_seg_append)

lemma listarray_remove_abs_split:
  assumes abs: "la_abs la (ys @ i # zs)"
  obtains la' where "listarray_remove la i = Inr la'" "la_abs la' (ys @ zs)"
proof -
  note n = la_abs_neighbours[OF abs]
  have ok: "la_index_ok i" "la_count la > 0" "\<forall>x \<in> set ys \<union> set zs. la_index_ok x"
    and dist: "distinct ys" "distinct zs" "set ys \<inter> set zs = {}" "i \<notin> set ys" "i \<notin> set zs"
    and ends: "la_head la = hd (ys @ [i])" "la_tail la = last (i # zs)"
    using abs by (auto simp: la_abs_def hd_append)
  let ?fin = "\<lambda>la1. (set_prev i LISTARRAY_ENTRY_DEAD (set_next i LISTARRAY_ENTRY_DEAD la1))
                 \<lparr>la_count := la_count la1 - 1\<rparr>"
  consider (only) "ys = []" "zs = []" | (first) z zs' where "ys = []" "zs = z # zs'"
    | (final) ys' y where "ys = ys' @ [y]" "zs = []"
    | (mid) ys' y z zs' where "ys = ys' @ [y]" "zs = z # zs'"
    by (metis neq_Nil_conv rev_exhaust)
  then show thesis
  proof cases
    case only
    let ?la1 = "la\<lparr>la_head := LISTARRAY_ENTRY_NULL, la_tail := LISTARRAY_ENTRY_NULL\<rparr>"
    have "la_abs (?fin ?la1) (ys @ zs)" by (rule la_abs_unlink[OF abs]) (use only n in auto)
    moreover have "listarray_remove la i = Inr (?fin ?la1)"
      using ok n only by (auto simp: listarray_remove_def put_next_def put_prev_def Let_def)
    ultimately show thesis by (rule that[rotated])
  next
    case first
    let ?la1 = "set_prev z LISTARRAY_ENTRY_NULL (la\<lparr>la_head := z\<rparr>)"
    have "la_abs (?fin ?la1) (ys @ zs)"
      by (rule la_abs_unlink[OF abs]) (use first n dist ends in auto)
    moreover have "listarray_remove la i = Inr (?fin ?la1)"
      using ok n first by (auto simp: listarray_remove_def put_next_def put_prev_def Let_def)
    ultimately show thesis by (rule that[rotated])
  next
    case final
    let ?la1 = "set_next y LISTARRAY_ENTRY_NULL (la\<lparr>la_tail := y\<rparr>)"
    have "la_abs (?fin ?la1) (ys @ zs)"
      by (rule la_abs_unlink[OF abs]) (use final n dist ends in \<open>auto simp: la_seg_append hd_append\<close>)
    moreover have "listarray_remove la i = Inr (?fin ?la1)"
      using ok n final by (auto simp: listarray_remove_def put_next_def put_prev_def Let_def)
    ultimately show thesis by (rule that[rotated])
  next
    case mid
    let ?la1 = "set_prev z y (set_next y z la)"
    have "la_abs (?fin ?la1) (ys @ zs)"
      by (rule la_abs_unlink[OF abs]) (use mid n dist ends in \<open>auto simp: la_seg_append hd_append\<close>)
    moreover have "listarray_remove la i = Inr (?fin ?la1)"
      using ok n mid by (auto simp: listarray_remove_def put_next_def put_prev_def Let_def)
    ultimately show thesis by (rule that[rotated])
  qed
qed

lemma listarray_remove_abs:
  assumes "la_abs la xs" "i \<in> set xs"
  obtains la' where "listarray_remove la i = Inr la'" "la_abs la' (remove1 i xs)"
proof -
  have "distinct xs" using assms(1) by (simp add: la_abs_def)
  with assms(2) obtain ys zs where s: "xs = ys @ i # zs" "remove1 i xs = ys @ zs"
    by (blast elim: in_set_split_distinct)
  with assms(1) obtain la' where "listarray_remove la i = Inr la'" "la_abs la' (ys @ zs)"
    by (blast elim: listarray_remove_abs_split)
  with s show thesis by (auto intro: that)
qed

text \<open>The faults: a double insertion and a removal from an empty list hit the \<open>BUG_ON\<close>; the removal
  of an index that is not in a non-empty list is not caught by it and writes at
  \<open>LISTARRAY_ENTRY_DEAD\<close>, one past the end of the array.\<close>

lemma listarray_insert_member: "la_abs la xs \<Longrightarrow> i \<in> set xs \<Longrightarrow> listarray_insert la i = Inl BugOn"
  using la_abs_in_list[of la xs i]
  by (auto simp: listarray_insert_def la_abs_def listarray_in_list_def subset_iff)

lemma listarray_insert_bad_index: "\<not> la_index_ok i \<Longrightarrow> listarray_insert la i = Inl OutOfBounds"
  by (simp add: listarray_insert_def)

lemma listarray_remove_empty: "la_abs la [] \<Longrightarrow> listarray_remove la i = Inl BugOn"
  by (simp add: listarray_remove_def la_abs_def)

lemma listarray_remove_absent:
  "la_abs la xs \<Longrightarrow> xs \<noteq> [] \<Longrightarrow> i \<notin> set xs \<Longrightarrow> listarray_remove la i = Inl OutOfBounds"
  by (auto simp: listarray_remove_def la_abs_def put_next_def Let_def)

lemma la_abs_allelements: "la_abs la xs \<Longrightarrow> set xs \<subseteq> set (listarray_foreach_allelements la)"
  by (auto simp: la_abs_def listarray_foreach_allelements_def la_index_ok_def subset_iff)

subsection \<open>The interface the clock code relies on\<close>

text \<open>
  A registry of indices: what \<open>clock_main.c\<close> and \<open>search_entries.h\<close> use of the list. The laws
  say that the operations are those of a list without repetitions, appended to at its end, and
  which calls are refused.
\<close>

locale index_registry =
  fixes repr :: "'s \<Rightarrow> int list \<Rightarrow> bool"
    and ins :: "'s \<Rightarrow> int \<Rightarrow> 's result"
    and rem :: "'s \<Rightarrow> int \<Rightarrow> 's result"
    and elems :: "'s \<Rightarrow> int list result"
    and count :: "'s \<Rightarrow> int"
    and mem :: "'s \<Rightarrow> int \<Rightarrow> bool"
    and ok :: "int \<Rightarrow> bool"
  assumes repr_ok: "repr s xs \<Longrightarrow> distinct xs \<and> (\<forall>x \<in> set xs. ok x)"
    and elems_repr: "repr s xs \<Longrightarrow> elems s = Inr xs"
    and count_repr: "repr s xs \<Longrightarrow> count s = int (length xs)"
    and mem_repr: "repr s xs \<Longrightarrow> ok i \<Longrightarrow> mem s i \<longleftrightarrow> i \<in> set xs"
    and ins_new: "repr s xs \<Longrightarrow> ok i \<Longrightarrow> i \<notin> set xs \<Longrightarrow> \<exists>s'. ins s i = Inr s' \<and> repr s' (xs @ [i])"
    and ins_dup: "repr s xs \<Longrightarrow> i \<in> set xs \<Longrightarrow> ins s i = Inl BugOn"
    and ins_bad: "\<not> ok i \<Longrightarrow> ins s i = Inl OutOfBounds"
    and rem_mem: "repr s xs \<Longrightarrow> i \<in> set xs \<Longrightarrow> \<exists>s'. rem s i = Inr s' \<and> repr s' (remove1 i xs)"
    and rem_empty: "repr s [] \<Longrightarrow> rem s i = Inl BugOn"
    and rem_absent: "repr s xs \<Longrightarrow> xs \<noteq> [] \<Longrightarrow> i \<notin> set xs \<Longrightarrow> rem s i = Inl OutOfBounds"
begin

lemma ins_InrD:
  assumes "repr s xs" "ins s i = Inr s'"
  shows "ok i \<and> i \<notin> set xs \<and> repr s' (xs @ [i])"
  using assms ins_dup[of s xs i] ins_bad[of i s] ins_new[of s xs i] by fastforce

lemma rem_InrD:
  assumes "repr s xs" "rem s i = Inr s'"
  shows "i \<in> set xs \<and> repr s' (remove1 i xs)"
  using assms rem_empty[of s i] rem_absent[of s xs i] rem_mem[of s xs i]
  by (cases "xs = []") fastforce+

lemma count_one: "repr s xs \<Longrightarrow> count s = 1 \<Longrightarrow> i \<in> set xs \<Longrightarrow> xs = [i]"
  by (auto simp: count_repr length_Suc_conv)

lemma ins_rem:
  assumes "repr s xs" "ins s i = Inr s'"
  shows "\<exists>s''. rem s' i = Inr s'' \<and> repr s'' xs"
proof -
  from ins_InrD[OF assms] have i: "i \<notin> set xs" "repr s' (xs @ [i])" by auto
  then have "\<exists>s''. rem s' i = Inr s'' \<and> repr s'' (remove1 i (xs @ [i]))"
    by (intro rem_mem) auto
  with i show ?thesis by (simp add: remove1_append)
qed

lemma rem_ins:
  assumes "repr s xs" "rem s i = Inr s'"
  shows "\<exists>s''. ins s' i = Inr s'' \<and> repr s'' (remove1 i xs @ [i])"
  using rem_InrD[OF assms] repr_ok[OF assms(1)] ins_new[of s' "remove1 i xs" i] by auto

end

interpretation la: index_registry la_abs listarray_insert listarray_remove listarray_foreach
  listarray_count listarray_in_list la_index_ok
proof
  show "la_abs s xs \<Longrightarrow> distinct xs \<and> (\<forall>x\<in>set xs. la_index_ok x)" for s xs
    by (auto simp: la_abs_def)
next
  show "\<exists>s'. listarray_insert s i = Inr s' \<and> la_abs s' (xs @ [i])"
    if "la_abs s xs" "la_index_ok i" "i \<notin> set xs" for s xs i
    using listarray_insert_abs[OF that] by blast
next
  show "\<exists>s'. listarray_remove s i = Inr s' \<and> la_abs s' (remove1 i xs)"
    if "la_abs s xs" "i \<in> set xs" for s xs i
    using listarray_remove_abs[OF that] by blast
qed (auto simp: listarray_foreach_elems la_abs_count la_abs_in_list listarray_insert_member
      listarray_insert_bad_index listarray_remove_empty listarray_remove_absent)

subsection \<open>Properties\<close>

text \<open>A run of insertions and removals, on the array and on plain lists.\<close>

datatype la_op = LaInsert int | LaRemove int

fun la_run :: "listarray \<Rightarrow> la_op list \<Rightarrow> listarray result" where
  "la_run la [] = Inr la"
| "la_run la (LaInsert i # ops) = bindR (listarray_insert la i) (\<lambda>la'. la_run la' ops)"
| "la_run la (LaRemove i # ops) = bindR (listarray_remove la i) (\<lambda>la'. la_run la' ops)"

fun list_run :: "int list \<Rightarrow> la_op list \<Rightarrow> int list result" where
  "list_run xs [] = Inr xs"
| "list_run xs (LaInsert i # ops) =
     (if \<not> la_index_ok i then Inl OutOfBounds
      else if i \<in> set xs then Inl BugOn else list_run (xs @ [i]) ops)"
| "list_run xs (LaRemove i # ops) =
     (if xs = [] then Inl BugOn
      else if i \<notin> set xs then Inl OutOfBounds else list_run (remove1 i xs) ops)"

lemma la_run_refines:
  "la_abs la xs \<Longrightarrow>
     (case list_run xs ops of Inl e \<Rightarrow> la_run la ops = Inl e
      | Inr ys \<Rightarrow> \<exists>la'. la_run la ops = Inr la' \<and> la_abs la' ys)"
proof (induction xs ops arbitrary: la rule: list_run.induct)
  case (2 xs i ops)
  show ?case
  proof (cases "la_index_ok i \<and> i \<notin> set xs")
    case True
    with "2.prems" obtain la' where "listarray_insert la i = Inr la'" "la_abs la' (xs @ [i])"
      using la.ins_new by blast
    then have "la_run la (LaInsert i # ops) = la_run la' ops" by simp
    moreover have "list_run xs (LaInsert i # ops) = list_run (xs @ [i]) ops" using True by simp
    ultimately show ?thesis using True "2.IH" \<open>la_abs la' (xs @ [i])\<close> by (simp only:) blast
  qed (use "2.prems" la.ins_dup la.ins_bad in auto)
next
  case (3 xs i ops)
  show ?case
  proof (cases "i \<in> set xs")
    case True
    with "3.prems" obtain la' where "listarray_remove la i = Inr la'" "la_abs la' (remove1 i xs)"
      using la.rem_mem by blast
    then have "la_run la (LaRemove i # ops) = la_run la' ops" by simp
    moreover have "list_run xs (LaRemove i # ops) = list_run (remove1 i xs) ops"
      using True by auto
    moreover have "xs \<noteq> []" using True by auto
    ultimately show ?thesis using True "3.IH" \<open>la_abs la' (remove1 i xs)\<close> by (simp only:) blast
  next
    case False
    with "3.prems" la.rem_empty la.rem_absent show ?thesis by (cases "xs = []") auto
  qed
qed auto

lemma la_links_range:
  assumes "la_abs la xs" "la_index_ok i"
  shows "la_next (la_entries la i) \<in> {-1..4097} \<and> la_prev (la_entries la i) \<in> {-1..4097}"
proof (cases "i \<in> set xs")
  case True
  with assms have "(la_next (la_entries la i) = LISTARRAY_ENTRY_NULL \<or> la_index_ok (la_next (la_entries la i))) \<and>
         (la_prev (la_entries la i) = LISTARRAY_ENTRY_NULL \<or> la_index_ok (la_prev (la_entries la i)))"
    by (intro la_seg_ends_ok) (auto simp: la_abs_def)
  then show ?thesis by (auto simp: la_index_ok_def la_consts)
qed (use assms in \<open>auto simp: la_abs_def la_consts\<close>)

text \<open>
  C18. The list array is a list: after \<open>listarray_init\<close>, any sequence of insertions and removals
  behaves as the same sequence on a plain list without repetitions, faults included (a second
  insertion and a removal from the empty list stop at the \<open>BUG_ON\<close>; the removal of an absent
  index from a non-empty list runs out of the array), and the iteration macro then terminates
  and visits exactly the elements of that list, in insertion order.
\<close>

theorem listarray_refines_list:
  "(case list_run [] ops of
      Inl e \<Rightarrow> la_run (listarray_init la0) ops = Inl e
    | Inr xs \<Rightarrow> \<exists>la. la_run (listarray_init la0) ops = Inr la \<and>
        listarray_foreach la = Inr xs \<and> listarray_count la = int (length xs) \<and>
        (\<forall>i. la_index_ok i \<longrightarrow> (listarray_in_list la i \<longleftrightarrow> i \<in> set xs)) \<and>
        set xs \<subseteq> set (listarray_foreach_allelements la))"
  using la_run_refines[OF la_abs_init[of la0], of ops] la.elems_repr la.count_repr la.mem_repr
    la_abs_allelements
  by (auto split: sum.splits)

theorem listarray_refines_list_witness:
  "\<forall>la0. \<exists>la. la_run (listarray_init la0) [LaInsert 3, LaInsert 7, LaInsert 5, LaRemove 7] = Inr la \<and>
     listarray_foreach la = Inr [3, 5] \<and> \<not> listarray_in_list la 7"
proof
  fix la0
  show "\<exists>la. la_run (listarray_init la0) [LaInsert 3, LaInsert 7, LaInsert 5, LaRemove 7] = Inr la \<and>
     listarray_foreach la = Inr [3, 5] \<and> \<not> listarray_in_list la 7"
    using listarray_refines_list[where ops = "[LaInsert 3, LaInsert 7, LaInsert 5, LaRemove 7]"
        and ?la0.0 = la0]
    by (auto simp: la_index_ok_def la_consts)
qed

text \<open>
  C28. The links fit their type: the values \<open>listarray_insert\<close> and \<open>listarray_remove\<close> leave in the
  \<open>next\<close> and \<open>prev\<close> fields of a reachable list are in the range of \<open>int16_t\<close>, so that storing
  an \<open>int\<close> index there never truncates it, and so are \<open>head\<close>, \<open>tail\<close> and the count.
\<close>

theorem listarray_fits_int16:
  assumes "la_run (listarray_init la0) ops = Inr la" and "la_index_ok i"
  shows "la_next (la_entries la i) \<in> {-(2 ^ 15)..<2 ^ 15} \<and>
    la_prev (la_entries la i) \<in> {-(2 ^ 15)..<2 ^ 15} \<and>
    la_head la \<in> {-(2 ^ 15)..<2 ^ 15} \<and> la_tail la \<in> {-(2 ^ 15)..<2 ^ 15} \<and>
    0 \<le> listarray_count la \<and> listarray_count la \<le> LISTARRAY_MAX_SIZE"
proof -
  from la_run_refines[OF la_abs_init[of la0], of ops] assms(1)
  obtain xs where abs: "la_abs la xs" by (auto split: sum.splits)
  have "la_head la \<in> {-(2 ^ 15)..<2 ^ 15}"
    using abs by (cases xs) (auto simp: la_abs_def la_index_ok_def la_consts)
  moreover have "la_tail la \<in> {-(2 ^ 15)..<2 ^ 15}"
    using abs by (cases xs rule: rev_cases) (auto simp: la_abs_def la_index_ok_def la_consts)
  moreover have "0 \<le> listarray_count la \<and> listarray_count la \<le> LISTARRAY_MAX_SIZE"
    using abs la_abs_length[OF abs] by (auto simp: la.count_repr LISTARRAY_MAX_SIZE_def)
  ultimately show ?thesis using la_links_range[OF abs assms(2)] by simp
qed

lemma la_run_sample: "\<exists>la. la_run (listarray_init la0) [LaInsert 4095] = Inr la"
  using la_run_refines[OF la_abs_init[of la0], of "[LaInsert 4095]"]
  by (auto simp: la_index_ok_def la_consts)

theorem listarray_fits_int16_witness:
  "\<forall>la0. \<exists>la. la_run (listarray_init la0) [LaInsert 4095] = Inr la \<and>
     la_tail la \<in> {-(2 ^ 15)..<2 ^ 15}"
proof
  fix la0
  obtain la where r: "la_run (listarray_init la0) [LaInsert 4095] = Inr la"
    using la_run_sample by blast
  from listarray_fits_int16[OF this, of 0] have "la_tail la \<in> {-(2 ^ 15)..<2 ^ 15}"
    by (simp add: la_index_ok_def la_consts)
  with r show "\<exists>la. la_run (listarray_init la0) [LaInsert 4095] = Inr la \<and>
      la_tail la \<in> {-(2 ^ 15)..<2 ^ 15}" by blast
qed

text \<open>A concrete array holding a given list, for the closed instances of the later theories.\<close>

definition la_empty :: listarray where
  "la_empty = listarray_init \<lparr>la_entries = \<lambda>_. \<lparr>la_next = 0, la_prev = 0\<rparr>, la_head = 0,
     la_tail = 0, la_count = 0, la_max_index = 0\<rparr>"

definition la_of_list :: "int list \<Rightarrow> listarray" where
  "la_of_list xs = (case la_run la_empty (map LaInsert xs) of Inl _ \<Rightarrow> la_empty | Inr la \<Rightarrow> la)"

lemma list_run_inserts:
  "distinct (xs @ ys) \<Longrightarrow> \<forall>i \<in> set ys. la_index_ok i \<Longrightarrow> list_run xs (map LaInsert ys) = Inr (xs @ ys)"
  by (induction ys arbitrary: xs) auto

lemma la_abs_of_list [simp]:
  assumes "distinct xs" "\<forall>i \<in> set xs. la_index_ok i"
  shows "la_abs (la_of_list xs) xs"
proof -
  have "la_abs la_empty []" unfolding la_empty_def by (rule la_abs_init)
  from la_run_refines[OF this, of "map LaInsert xs"] assms
  show ?thesis by (auto simp: list_run_inserts la_of_list_def)
qed

end
