(* ===== verification/Task_Clock.thy ===== *)
theory Task_Clock
  imports Listarray
begin

text \<open>
  The state of the logical clock module and the accessors of \<open>utility.h\<close> and \<open>bounded_tso.h\<close>.

  The structures \<open>task_clock_group_info\<close> and \<open>task_clock_entry_info\<close> are declared in the patched
  kernel's \<open>linux/task_clock.h\<close>, which is not part of the repository; the records below hold
  exactly the fields that the module's own code reads and writes, the tick counters at the width
  they are printed and added with (64 bits). \<open>task_clock_user_status\<close> is declared in
  \<open>determ_clock.h\<close>. Fields that only ever hold 0 and 1 and are only tested for being set are
  booleans. The page of user statuses is shared with the process: one cell per thread, written
  through \<open>current->task_clock.user_status\<close> and through \<open>user_status_arr\<close>.
\<close>

subsection \<open>Compile-time configuration and calling context\<close>

text \<open>
  The module is built with any of \<open>-DNO_INSTRUCTION_COUNTING\<close>, \<open>-DUSE_BOUNDED_FENCE\<close> and
  \<open>-DUSE_ADAPTIVE_OVERFLOW_PERIOD\<close>; the definitions take the choice as an argument.
\<close>

record kconfig =
  instruction_counting :: bool
  use_bounded_fence :: bool
  use_adaptive_period :: bool

text \<open>
  One attempt of reading the performance counter: the value of the MSR, the value \<open>rdpmc\<close>
  returns, and, when an NMI interrupts the attempt before its \<open>cmpxchg\<close>, what the NMI leaves in
  the event's \<open>prev_count\<close> and \<open>count\<close>.
\<close>

record counter_read =
  rd_raw :: u64
  rd_pmc :: u64
  rd_nmi :: "(u64 \<times> u64) option"

text \<open>
  The context of a call: the calling thread, whether it runs in an NMI, what the calling kernel
  stack holds where a local array is not initialised, and the counter readings it will see.
\<close>

record kctx =
  cur_tid :: int
  in_nmi :: bool
  stack_garbage :: "int \<Rightarrow> int"
  counter_reads :: "counter_read list"

subsection \<open>State\<close>

text \<open>The part of a \<open>perf_event\<close> the module touches; \<open>hw_msr\<close> is the counter register itself.\<close>

record perf_event =
  ev_count :: u64
  hw_prev_count :: u64
  hw_sample_period :: u64
  hw_period_left :: u64
  hw_msr :: u64
  ev_last_written :: u64
  ev_poll_in :: bool
  ev_wakeups :: nat

record task_clock_entry =
  ce_ticks :: u64
  ce_base_ticks :: u64
  ce_chunk_ticks :: u64
  ce_initialized :: bool
  ce_waiting :: bool
  ce_sleeping :: bool
  ce_inactive :: bool
  ce_count_ticks :: int
  ce_userspace_reading :: bool
  ce_event :: perf_event

record task_clock_user_status =
  us_lowest_clock :: bool
  us_ticks :: u64
  us_notifying_clock :: u64
  us_notifying_id :: u64
  us_notifying_sample :: u64
  us_notifying_diff :: u64
  us_single_active_thread :: bool
  us_activated_lowest :: bool
  us_scaling_whole :: u8
  us_scaling_fraction :: u8
  us_hwc_idx :: u32
  us_period_sets :: u64
  us_hit_bounded_fence :: bool

text \<open>
  The group of the process. The last three fields are the effects the module has on the rest of
  the kernel: queued \<open>irq_work\<close>, the trap flag of a thread's saved registers, and how many
  \<open>SIGUSR1\<close> a thread was sent.
\<close>

record task_clock_group =
  tg_lowest_tid :: int
  tg_lowest_ticks :: u64
  tg_notification_needed :: bool
  tg_nmi_new_low :: bool
  tg_user_status :: "int \<Rightarrow> task_clock_user_status"
  tg_user_status_mapped :: bool
  tg_active_threads :: listarray
  tg_clocks :: "int \<Rightarrow> task_clock_entry"
  tg_pending_work :: bool
  tg_trap_flag :: "int \<Rightarrow> bool"
  tg_sigusr1 :: "int \<Rightarrow> nat"

definition upd_clock ::
  "int \<Rightarrow> (task_clock_entry \<Rightarrow> task_clock_entry) \<Rightarrow> task_clock_group \<Rightarrow> task_clock_group" where
  "upd_clock tid f g = g\<lparr>tg_clocks := (tg_clocks g)(tid := f (tg_clocks g tid))\<rparr>"

definition upd_user ::
  "int \<Rightarrow> (task_clock_user_status \<Rightarrow> task_clock_user_status) \<Rightarrow> task_clock_group \<Rightarrow> task_clock_group" where
  "upd_user tid f g = g\<lparr>tg_user_status := (tg_user_status g)(tid := f (tg_user_status g tid))\<rparr>"

definition upd_event ::
  "int \<Rightarrow> (perf_event \<Rightarrow> perf_event) \<Rightarrow> task_clock_group \<Rightarrow> task_clock_group" where
  "upd_event tid f = upd_clock tid (\<lambda>c. c\<lparr>ce_event := f (ce_event c)\<rparr>)"

subsection \<open>Accessors of utility.h\<close>

definition set_base_ticks :: "int \<Rightarrow> u64 \<Rightarrow> task_clock_group \<Rightarrow> task_clock_group" where
  "set_base_ticks tid val = upd_clock tid (\<lambda>c. c\<lparr>ce_base_ticks := val\<rparr>)"

definition get_base_ticks :: "task_clock_group \<Rightarrow> int \<Rightarrow> u64" where
  "get_base_ticks g tid = ce_base_ticks (tg_clocks g tid)"

definition tick_counter_turn_off :: "kctx \<Rightarrow> task_clock_group \<Rightarrow> task_clock_group" where
  "tick_counter_turn_off ctx = upd_clock (cur_tid ctx) (\<lambda>c. c\<lparr>ce_count_ticks := 0\<rparr>)"

definition tick_counter_turn_on :: "kctx \<Rightarrow> task_clock_group \<Rightarrow> task_clock_group" where
  "tick_counter_turn_on ctx = upd_clock (cur_tid ctx) (\<lambda>c. c\<lparr>ce_count_ticks := 1\<rparr>)"

definition tick_counter_is_running :: "kctx \<Rightarrow> task_clock_group \<Rightarrow> bool" where
  "tick_counter_is_running ctx g \<longleftrightarrow> ce_count_ticks (tg_clocks g (cur_tid ctx)) \<noteq> 0"

definition inc_clock_ticks_no_chunk_add :: "int \<Rightarrow> u64 \<Rightarrow> task_clock_group \<Rightarrow> task_clock_group" where
  "inc_clock_ticks_no_chunk_add tid val = upd_clock tid (\<lambda>c. c\<lparr>ce_ticks := ce_ticks c + val\<rparr>)"

definition set_clock_ticks :: "int \<Rightarrow> u64 \<Rightarrow> task_clock_group \<Rightarrow> task_clock_group" where
  "set_clock_ticks tid val = upd_clock tid (\<lambda>c. c\<lparr>ce_ticks := val\<rparr>)"

definition get_clock_ticks :: "task_clock_group \<Rightarrow> int \<Rightarrow> u64" where
  "get_clock_ticks g tid = ce_ticks (tg_clocks g tid) + ce_base_ticks (tg_clocks g tid)"

definition clock_is_lower :: "task_clock_group \<Rightarrow> int \<Rightarrow> int \<Rightarrow> bool" where
  "clock_is_lower g tid1 tid2 \<longleftrightarrow>
     get_clock_ticks g tid1 < get_clock_ticks g tid2 \<or>
     (get_clock_ticks g tid1 = get_clock_ticks g tid2 \<and> tid1 < tid2)"

subsection \<open>The bounded fence macros of bounded\_tso.h\<close>

definition IMPRECISE_OVERFLOW_BUFFER :: u64 where "IMPRECISE_OVERFLOW_BUFFER = 200"
definition BOUNDED_CHUNK_SIZE :: u64 where "BOUNDED_CHUNK_SIZE = 1024000000"
definition IMPRECISE_BOUNDED_CHUNK_SIZE :: u64 where
  "IMPRECISE_BOUNDED_CHUNK_SIZE = BOUNDED_CHUNK_SIZE - IMPRECISE_OVERFLOW_BUFFER"

lemmas chunk_consts =
  IMPRECISE_BOUNDED_CHUNK_SIZE_def BOUNDED_CHUNK_SIZE_def IMPRECISE_OVERFLOW_BUFFER_def

definition get_chunk_ticks :: "task_clock_group \<Rightarrow> int \<Rightarrow> u64" where
  "get_chunk_ticks g tid = ce_chunk_ticks (tg_clocks g tid)"

definition reset_chunk_ticks :: "int \<Rightarrow> task_clock_group \<Rightarrow> task_clock_group" where
  "reset_chunk_ticks tid = upd_clock tid (\<lambda>c. c\<lparr>ce_chunk_ticks := 0\<rparr>)"

definition hit_bounded_fence :: "kconfig \<Rightarrow> kctx \<Rightarrow> task_clock_group \<Rightarrow> bool" where
  "hit_bounded_fence cfg ctx g \<longleftrightarrow>
     use_bounded_fence cfg \<and> us_hit_bounded_fence (tg_user_status g (cur_tid ctx))"

definition hit_bounded_fence_enable :: "kconfig \<Rightarrow> kctx \<Rightarrow> task_clock_group \<Rightarrow> task_clock_group" where
  "hit_bounded_fence_enable cfg ctx g =
     (if use_bounded_fence cfg
      then upd_user (cur_tid ctx) (\<lambda>u. u\<lparr>us_hit_bounded_fence := True\<rparr>) g else g)"

definition hit_bounded_fence_disable :: "kconfig \<Rightarrow> kctx \<Rightarrow> task_clock_group \<Rightarrow> task_clock_group" where
  "hit_bounded_fence_disable cfg ctx g =
     (if use_bounded_fence cfg
      then upd_user (cur_tid ctx) (\<lambda>u. u\<lparr>us_hit_bounded_fence := False\<rparr>) g else g)"

definition bound_overflow_period :: "kconfig \<Rightarrow> task_clock_group \<Rightarrow> int \<Rightarrow> u64 \<Rightarrow> u64" where
  "bound_overflow_period cfg g tid period =
     (if use_bounded_fence cfg
      then (if period + get_chunk_ticks g tid > IMPRECISE_BOUNDED_CHUNK_SIZE
            then IMPRECISE_BOUNDED_CHUNK_SIZE - get_chunk_ticks g tid else period)
      else period)"

definition single_stepping_dec :: "kconfig \<Rightarrow> int \<Rightarrow> task_clock_group \<Rightarrow> task_clock_group" where
  "single_stepping_dec cfg tid g =
     (if use_bounded_fence cfg
      then upd_clock tid (\<lambda>c. c\<lparr>ce_count_ticks := ce_count_ticks c - 1\<rparr>) g else g)"

definition single_stepping_done :: "kconfig \<Rightarrow> task_clock_group \<Rightarrow> int \<Rightarrow> bool" where
  "single_stepping_done cfg g tid \<longleftrightarrow>
     use_bounded_fence cfg \<and> ce_count_ticks (tg_clocks g tid) \<le> 2"

definition single_stepping_enable ::
  "kconfig \<Rightarrow> int \<Rightarrow> u64 \<Rightarrow> task_clock_group \<Rightarrow> task_clock_group" where
  "single_stepping_enable cfg tid val g =
     (if use_bounded_fence cfg
      then upd_clock tid (\<lambda>c. c\<lparr>ce_count_ticks := uint (val + 2)\<rparr>) g else g)"

definition single_stepping_on :: "kconfig \<Rightarrow> task_clock_group \<Rightarrow> int \<Rightarrow> bool" where
  "single_stepping_on cfg g tid \<longleftrightarrow>
     use_bounded_fence cfg \<and> ce_count_ticks (tg_clocks g tid) > 1"

definition single_stepping_reset :: "kconfig \<Rightarrow> int \<Rightarrow> task_clock_group \<Rightarrow> task_clock_group" where
  "single_stepping_reset cfg tid g =
     (if use_bounded_fence cfg
      then upd_clock tid (\<lambda>c. c\<lparr>ce_count_ticks := 0\<rparr>) g else g)"

subsection \<open>Entry state macros of utility.h\<close>

definition clear_entry_state :: "kconfig \<Rightarrow> kctx \<Rightarrow> task_clock_group \<Rightarrow> task_clock_group" where
  "clear_entry_state cfg ctx g =
     hit_bounded_fence_disable cfg ctx
       (upd_clock (cur_tid ctx)
          (\<lambda>c. c\<lparr>ce_inactive := False, ce_waiting := False, ce_sleeping := False\<rparr>) g)"

definition clear_entry_state_by_id :: "kctx \<Rightarrow> int \<Rightarrow> task_clock_group \<Rightarrow> task_clock_group" where
  "clear_entry_state_by_id ctx tid g =
     upd_user (cur_tid ctx) (\<lambda>u. u\<lparr>us_hit_bounded_fence := False\<rparr>)
       (upd_clock tid
          (\<lambda>c. c\<lparr>ce_inactive := False, ce_waiting := False, ce_sleeping := False\<rparr>) g)"

definition mark_as_inactive :: "int \<Rightarrow> task_clock_group \<Rightarrow> task_clock_group result" where
  "mark_as_inactive tid g =
     (let g1 = upd_clock tid (\<lambda>c. c\<lparr>ce_inactive := True\<rparr>) g in
      bindR (listarray_remove (tg_active_threads g1) tid)
        (\<lambda>la. Inr (g1\<lparr>tg_active_threads := la\<rparr>)))"

definition mark_as_active :: "int \<Rightarrow> task_clock_group \<Rightarrow> task_clock_group result" where
  "mark_as_active tid g =
     (let g1 = upd_clock tid (\<lambda>c. c\<lparr>ce_inactive := False\<rparr>) g in
      bindR (listarray_insert (tg_active_threads g1) tid)
        (\<lambda>la. Inr (g1\<lparr>tg_active_threads := la\<rparr>)))"

definition current_is_only_active_thread :: "kctx \<Rightarrow> task_clock_group \<Rightarrow> bool" where
  "current_is_only_active_thread ctx g \<longleftrightarrow>
     listarray_count (tg_active_threads g) = 1 \<and> \<not> ce_inactive (tg_clocks g (cur_tid ctx))"

subsection \<open>Reading the state back\<close>

lemma upd_clock_simps [simp]:
  "tg_clocks (upd_clock t f g) = (tg_clocks g)(t := f (tg_clocks g t))"
  "tg_user_status (upd_clock t f g) = tg_user_status g"
  "tg_active_threads (upd_clock t f g) = tg_active_threads g"
  "tg_lowest_tid (upd_clock t f g) = tg_lowest_tid g"
  "tg_lowest_ticks (upd_clock t f g) = tg_lowest_ticks g"
  "tg_notification_needed (upd_clock t f g) = tg_notification_needed g"
  "tg_nmi_new_low (upd_clock t f g) = tg_nmi_new_low g"
  "tg_pending_work (upd_clock t f g) = tg_pending_work g"
  "tg_trap_flag (upd_clock t f g) = tg_trap_flag g"
  "tg_sigusr1 (upd_clock t f g) = tg_sigusr1 g"
  "tg_user_status_mapped (upd_clock t f g) = tg_user_status_mapped g"
  by (simp_all add: upd_clock_def)

lemma upd_user_simps [simp]:
  "tg_clocks (upd_user t h g) = tg_clocks g"
  "tg_user_status (upd_user t h g) = (tg_user_status g)(t := h (tg_user_status g t))"
  "tg_active_threads (upd_user t h g) = tg_active_threads g"
  "tg_lowest_tid (upd_user t h g) = tg_lowest_tid g"
  "tg_lowest_ticks (upd_user t h g) = tg_lowest_ticks g"
  "tg_notification_needed (upd_user t h g) = tg_notification_needed g"
  "tg_nmi_new_low (upd_user t h g) = tg_nmi_new_low g"
  "tg_pending_work (upd_user t h g) = tg_pending_work g"
  "tg_trap_flag (upd_user t h g) = tg_trap_flag g"
  "tg_sigusr1 (upd_user t h g) = tg_sigusr1 g"
  "tg_user_status_mapped (upd_user t h g) = tg_user_status_mapped g"
  by (simp_all add: upd_user_def)

lemmas clock_macros =
  set_base_ticks_def get_base_ticks_def tick_counter_turn_off_def tick_counter_turn_on_def
  tick_counter_is_running_def inc_clock_ticks_no_chunk_add_def set_clock_ticks_def
  get_chunk_ticks_def reset_chunk_ticks_def hit_bounded_fence_def hit_bounded_fence_enable_def
  hit_bounded_fence_disable_def single_stepping_dec_def single_stepping_done_def
  single_stepping_enable_def single_stepping_on_def single_stepping_reset_def
  clear_entry_state_def clear_entry_state_by_id_def upd_event_def

lemma get_clock_ticks_cong:
  "ce_ticks (tg_clocks g t) = ce_ticks (tg_clocks g' t) \<Longrightarrow>
   ce_base_ticks (tg_clocks g t) = ce_base_ticks (tg_clocks g' t) \<Longrightarrow>
   get_clock_ticks g t = get_clock_ticks g' t"
  by (simp add: get_clock_ticks_def)

subsection \<open>Concrete groups\<close>

text \<open>
  Closed states for the instances of the theorems: the threads \<open>xs\<close> are initialised and active
  with the given clocks and waiting flags, every other thread is neither.
\<close>

definition sample_event :: perf_event where
  "sample_event = \<lparr>ev_count = 0, hw_prev_count = 0, hw_sample_period = 5000, hw_period_left = 0,
     hw_msr = 0, ev_last_written = 0, ev_poll_in = False, ev_wakeups = 0\<rparr>"

definition sample_entry :: "bool \<Rightarrow> u64 \<Rightarrow> bool \<Rightarrow> task_clock_entry" where
  "sample_entry active clock waiting = \<lparr>ce_ticks = clock, ce_base_ticks = 0, ce_chunk_ticks = 0,
     ce_initialized = active, ce_waiting = waiting, ce_sleeping = False, ce_inactive = \<not> active,
     ce_count_ticks = 0, ce_userspace_reading = False, ce_event = sample_event\<rparr>"

definition sample_status :: task_clock_user_status where
  "sample_status = \<lparr>us_lowest_clock = False, us_ticks = 0, us_notifying_clock = 0,
     us_notifying_id = 0, us_notifying_sample = 0, us_notifying_diff = 0,
     us_single_active_thread = False, us_activated_lowest = False, us_scaling_whole = 1,
     us_scaling_fraction = 0, us_hwc_idx = -1, us_period_sets = 0, us_hit_bounded_fence = False\<rparr>"

definition sample_group :: "int list \<Rightarrow> (int \<Rightarrow> u64) \<Rightarrow> (int \<Rightarrow> bool) \<Rightarrow> task_clock_group" where
  "sample_group xs clock waiting = \<lparr>tg_lowest_tid = -1, tg_lowest_ticks = 0,
     tg_notification_needed = True, tg_nmi_new_low = False, tg_user_status = \<lambda>_. sample_status,
     tg_user_status_mapped = True, tg_active_threads = la_of_list xs,
     tg_clocks = \<lambda>i. sample_entry (i \<in> set xs) (clock i) (waiting i),
     tg_pending_work = False, tg_trap_flag = \<lambda>_. False, tg_sigusr1 = \<lambda>_. 0\<rparr>"

definition sample_ctx :: "int \<Rightarrow> bool \<Rightarrow> kctx" where
  "sample_ctx tid nmi = \<lparr>cur_tid = tid, in_nmi = nmi, stack_garbage = \<lambda>_. 0, counter_reads = []\<rparr>"

lemmas sample_defs = sample_group_def sample_entry_def sample_status_def sample_ctx_def
  sample_event_def

end
