(* ===== verification/Search_Entries.thy ===== *)
theory Search_Entries
  imports Task_Clock
begin

text \<open>
  The searches of \<open>search_entries.h\<close> for the thread with the lowest clock. Outside an NMI they
  follow the list of active threads, inside one they scan the indices up to \<open>max_index\<close>. The
  search compares clocks, and thread identifiers where clocks are equal, which is a strict
  linear order; this is stated as a locale and proved once.
\<close>

subsection \<open>Operations\<close>

definition is_lowest :: "task_clock_group \<Rightarrow> int \<Rightarrow> bool" where
  "is_lowest g tid \<longleftrightarrow>
     tid = tg_lowest_tid g \<or> get_clock_ticks g tid < get_clock_ticks g (tg_lowest_tid g)"

text \<open>The loop variable of either iteration macro, by the calling context.\<close>

definition search_indices :: "kctx \<Rightarrow> task_clock_group \<Rightarrow> int list result" where
  "search_indices ctx g =
     (if in_nmi ctx then Inr (listarray_foreach_allelements (tg_active_threads g))
      else listarray_foreach (tg_active_threads g))"

definition active_thread_count :: "kctx \<Rightarrow> task_clock_group \<Rightarrow> int result" where
  "active_thread_count ctx g =
     bindR (search_indices ctx g) (\<lambda>is.
       Inr (foldl (\<lambda>count i. if ce_initialized (tg_clocks g i) \<and> \<not> ce_inactive (tg_clocks g i) \<and>
                               \<not> ce_sleeping (tg_clocks g i) then count + 1 else count) 0 is))"

text \<open>The body of the search loops: keep the lower of the candidate and the minimum so far.\<close>

definition lower_of :: "(int \<Rightarrow> bool) \<Rightarrow> (int \<Rightarrow> int \<Rightarrow> bool) \<Rightarrow> int \<Rightarrow> int \<Rightarrow> int" where
  "lower_of eligible lower min_tid i =
     (if eligible i \<and> (min_tid < 0 \<or> lower i min_tid) then i else min_tid)"

definition search_for_lowest :: "kctx \<Rightarrow> task_clock_group \<Rightarrow> int result" where
  "search_for_lowest ctx g =
     bindR (search_indices ctx g) (\<lambda>is.
       Inr (foldl (lower_of
              (\<lambda>i. ce_initialized (tg_clocks g i) \<and> \<not> ce_inactive (tg_clocks g i))
              (clock_is_lower g)) (-1) is))"

definition search_for_lowest_waiting_exclude_current ::
  "kctx \<Rightarrow> task_clock_group \<Rightarrow> int \<Rightarrow> int result" where
  "search_for_lowest_waiting_exclude_current ctx g tid =
     bindR (search_indices ctx g) (\<lambda>is.
       let min_tid = foldl (lower_of
              (\<lambda>i. ce_initialized (tg_clocks g i) \<and> \<not> ce_inactive (tg_clocks g i) \<and>
                   ce_waiting (tg_clocks g i) \<and> i \<noteq> tid)
              (clock_is_lower g)) (-1) is
       in Inr (if min_tid \<ge> 0 then min_tid else -1))"

text \<open>
  \<open>__search_for_lowest_waiting\<close> marks the waiting threads in an array of 128 integers on its
  stack that it never clears: the array starts as whatever the stack holds. Marking or reading
  an identifier of 128 or more is out of its bounds.
\<close>

definition THREAD_ARR_SIZE :: int where "THREAD_ARR_SIZE = 128"

fun mark_waiting :: "task_clock_group \<Rightarrow> int list \<Rightarrow> (int \<Rightarrow> int) \<Rightarrow> (int \<Rightarrow> int) result" where
  "mark_waiting g [] arr = Inr arr"
| "mark_waiting g (i # is) arr =
     (if ce_waiting (tg_clocks g i)
      then (if 0 \<le> i \<and> i < THREAD_ARR_SIZE then mark_waiting g is (arr(i := 1))
            else Inl OutOfBounds)
      else mark_waiting g is arr)"

definition search_for_lowest_waiting :: "kctx \<Rightarrow> task_clock_group \<Rightarrow> int result" where
  "search_for_lowest_waiting ctx g =
     bindR (listarray_foreach (tg_active_threads g)) (\<lambda>is.
     bindR (mark_waiting g is (stack_garbage ctx)) (\<lambda>thread_arr.
     bindR (search_for_lowest ctx g) (\<lambda>low.
       if low \<ge> 0
       then (if low < THREAD_ARR_SIZE
             then Inr (if thread_arr low = 1 then low else -1)
             else Inl OutOfBounds)
       else Inr (-1))))"

text \<open>The printing variant differs in a \<open>printk\<close> only.\<close>

definition search_for_lowest_waiting_print :: "kctx \<Rightarrow> task_clock_group \<Rightarrow> int result" where
  "search_for_lowest_waiting_print ctx g = search_for_lowest_waiting ctx g"

text \<open>
  The debugging variant also writes, for every index of the list, the index or the index plus 100
  (as a byte) to the caller's array.
\<close>

definition search_for_lowest_waiting_debug ::
  "kctx \<Rightarrow> task_clock_group \<Rightarrow> (int \<times> u8 list) result" where
  "search_for_lowest_waiting_debug ctx g =
     bindR (listarray_foreach (tg_active_threads g)) (\<lambda>is.
     bindR (mark_waiting g is (stack_garbage ctx)) (\<lambda>thread_arr.
     bindR (search_for_lowest ctx g) (\<lambda>low.
       let debug_arr = map (\<lambda>i. word_of_int
             (if ce_initialized (tg_clocks g i) \<and> \<not> ce_inactive (tg_clocks g i)
              then i else i + 100)) is in
       if low \<ge> 0
       then (if low < THREAD_ARR_SIZE
             then Inr (if thread_arr low = 1 then low else -1, debug_arr)
             else Inl OutOfBounds)
       else Inr (-1, debug_arr))))"

subsection \<open>Minimum search over a strict linear order\<close>

locale tid_order =
  fixes lower :: "int \<Rightarrow> int \<Rightarrow> bool"
  assumes irrefl: "\<not> lower a a"
    and trans: "lower a b \<Longrightarrow> lower b c \<Longrightarrow> lower a c"
    and total: "a \<noteq> b \<Longrightarrow> lower a b \<or> lower b a"
begin

lemma asym: "lower a b \<Longrightarrow> \<not> lower b a"
  using irrefl trans by blast

lemma fold_lower_of:
  assumes "\<forall>i \<in> set is. 0 \<le> i"
    and "m = -1 \<and> S = {} \<or> 0 \<le> m \<and> m \<in> S \<and> (\<forall>y \<in> S. y \<noteq> m \<longrightarrow> lower m y)"
  shows "let r = foldl (lower_of P lower) m is; T = S \<union> {i \<in> set is. P i} in
     r = -1 \<and> T = {} \<or> 0 \<le> r \<and> r \<in> T \<and> (\<forall>y \<in> T. y \<noteq> r \<longrightarrow> lower r y)"
  using assms
proof (induction "is" arbitrary: m S)
  case Nil
  then show ?case by simp
next
  case (Cons i "is")
  let ?m = "lower_of P lower m i" and ?S = "S \<union> {j. j = i \<and> P j}"
  have "?m = -1 \<and> ?S = {} \<or> 0 \<le> ?m \<and> ?m \<in> ?S \<and> (\<forall>y \<in> ?S. y \<noteq> ?m \<longrightarrow> lower ?m y)"
    using Cons.prems total[of i m] asym irrefl by (auto simp: lower_of_def dest: trans)
  with Cons.prems(1) have "let r = foldl (lower_of P lower) ?m is; T = ?S \<union> {i \<in> set is. P i} in
     r = -1 \<and> T = {} \<or> 0 \<le> r \<and> r \<in> T \<and> (\<forall>y \<in> T. y \<noteq> r \<longrightarrow> lower r y)"
    by (intro Cons.IH) auto
  moreover have "?S \<union> {i \<in> set is. P i} = S \<union> {j \<in> set (i # is). P j}" by auto
  ultimately show ?case by simp
qed

text \<open>The least eligible element, or -1: the specification of the search.\<close>

lemma search_spec:
  assumes "\<forall>i \<in> set is. 0 \<le> i"
  shows "foldl (lower_of P lower) (-1) is = r \<longleftrightarrow>
    (r = -1 \<and> (\<forall>i \<in> set is. \<not> P i)) \<or>
    (r \<in> set is \<and> P r \<and> (\<forall>i \<in> set is. P i \<longrightarrow> i \<noteq> r \<longrightarrow> lower r i))"
proof -
  define f where "f = foldl (lower_of P lower) (-1) is"
  have f: "f = -1 \<and> (\<forall>i \<in> set is. \<not> P i) \<or>
      0 \<le> f \<and> f \<in> set is \<and> P f \<and> (\<forall>i \<in> set is. P i \<longrightarrow> i \<noteq> f \<longrightarrow> lower f i)"
    using fold_lower_of[OF assms, of "-1" "{}" P] by (auto simp: Let_def f_def)
  have "r = f" if "r \<in> set is" "P r" "\<forall>i \<in> set is. P i \<longrightarrow> i \<noteq> r \<longrightarrow> lower r i"
    using that f asym[of r f] by blast
  then show ?thesis
    unfolding f_def[symmetric] using f assms by (cases "r = f") fastforce+
qed

text \<open>The result depends on the set of candidates only, not on their order.\<close>

lemma search_order_irrelevant:
  assumes "\<forall>i \<in> set is. 0 \<le> i" "{i \<in> set is. P i} = {i \<in> set js. Q i}" "\<forall>i \<in> set js. 0 \<le> i"
  shows "foldl (lower_of P lower) (-1) is = foldl (lower_of Q lower) (-1) js"
proof -
  define r where "r = foldl (lower_of Q lower) (-1) js"
  have eq: "(i \<in> set is \<and> P i) = (i \<in> set js \<and> Q i)" for i
    using assms(2) by (auto simp: set_eq_iff)
  have "(r = -1 \<and> (\<forall>i \<in> set js. \<not> Q i)) \<or>
    (r \<in> set js \<and> Q r \<and> (\<forall>i \<in> set js. Q i \<longrightarrow> i \<noteq> r \<longrightarrow> lower r i))"
    using search_spec[OF assms(3), of Q r] by (simp add: r_def)
  then have "(r = -1 \<and> (\<forall>i \<in> set is. \<not> P i)) \<or>
    (r \<in> set is \<and> P r \<and> (\<forall>i \<in> set is. P i \<longrightarrow> i \<noteq> r \<longrightarrow> lower r i))"
    using eq by metis
  then show ?thesis
    unfolding search_spec[OF assms(1), of P r, symmetric] r_def[symmetric] .
qed

end

interpretation clk: tid_order "clock_is_lower g" for g
  by unfold_locales (auto simp: clock_is_lower_def)

subsection \<open>Specification of the searches\<close>

text \<open>A thread the searches consider, and the least element of a set of threads (-1 for none).\<close>

definition candidate :: "task_clock_group \<Rightarrow> int \<Rightarrow> bool" where
  "candidate g i \<longleftrightarrow> ce_initialized (tg_clocks g i) \<and> \<not> ce_inactive (tg_clocks g i)"

definition lowest_of :: "task_clock_group \<Rightarrow> int set \<Rightarrow> int \<Rightarrow> bool" where
  "lowest_of g S m \<longleftrightarrow>
     (m = -1 \<and> S = {}) \<or> (m \<in> S \<and> (\<forall>y \<in> S. y \<noteq> m \<longrightarrow> clock_is_lower g m y))"

lemma lowest_of_unique:
  "lowest_of g S m \<Longrightarrow> lowest_of g S m' \<Longrightarrow> m = m'"
  unfolding lowest_of_def using clk.asym[of g m m'] by (cases "m = m'") auto

lemma lowest_of_cong:
  assumes "\<And>t. get_clock_ticks g t = get_clock_ticks g' t"
  shows "lowest_of g S = lowest_of g' S"
  using assms by (auto simp: lowest_of_def clock_is_lower_def fun_eq_iff)

lemma foldl_lowest_of:
  assumes "\<forall>i \<in> set is. 0 \<le> i"
  shows "lowest_of g {i \<in> set is. P i} (foldl (lower_of P (clock_is_lower g)) (-1) is)"
proof -
  define r where "r = foldl (lower_of P (clock_is_lower g)) (-1) is"
  have "(r = -1 \<and> (\<forall>i \<in> set is. \<not> P i)) \<or>
    (r \<in> set is \<and> P r \<and> (\<forall>i \<in> set is. P i \<longrightarrow> i \<noteq> r \<longrightarrow> clock_is_lower g r i))"
    using clk.search_spec[OF assms, of P g r] by (simp add: r_def)
  then show ?thesis unfolding r_def[symmetric] lowest_of_def by auto
qed

lemma la_abs_nonneg: "la_abs la xs \<Longrightarrow> \<forall>i \<in> set xs. 0 \<le> i"
  using la.repr_ok by (auto simp: la_index_ok_def)

lemma allelements_nonneg: "\<forall>i \<in> set (listarray_foreach_allelements la). 0 \<le> i"
  by (simp add: listarray_foreach_allelements_def)

lemma search_for_lowest_candidate:
  "search_for_lowest ctx g = bindR (search_indices ctx g)
     (\<lambda>is. Inr (foldl (lower_of (candidate g) (clock_is_lower g)) (-1) is))"
  by (simp add: search_for_lowest_def candidate_def [abs_def])

lemma search_for_lowest_list:
  assumes "la_abs (tg_active_threads g) xs" "\<not> in_nmi ctx"
  obtains m where "search_for_lowest ctx g = Inr m" "lowest_of g {i \<in> set xs. candidate g i} m"
  using foldl_lowest_of[OF la_abs_nonneg[OF assms(1)], of g "candidate g"] assms
    la.elems_repr[OF assms(1)]
  by (auto simp: search_for_lowest_candidate search_indices_def)

lemma search_for_lowest_nmi:
  assumes "in_nmi ctx"
  obtains m where "search_for_lowest ctx g = Inr m"
    "lowest_of g {i \<in> {0..la_max_index (tg_active_threads g)}. candidate g i} m"
  using foldl_lowest_of[OF allelements_nonneg, of g "tg_active_threads g" "candidate g"] assms
  by (auto simp: search_for_lowest_candidate search_indices_def
      listarray_foreach_allelements_def)

lemma mark_waiting_ok:
  assumes "\<forall>i \<in> set is. ce_waiting (tg_clocks g i) \<longrightarrow> 0 \<le> i \<and> i < THREAD_ARR_SIZE"
  shows "mark_waiting g is arr =
    Inr (\<lambda>i. if i \<in> set is \<and> ce_waiting (tg_clocks g i) then 1 else arr i)"
  using assms by (induction "is" arbitrary: arr) (auto simp: fun_eq_iff)

lemma mark_waiting_fault:
  assumes "i \<in> set is" "ce_waiting (tg_clocks g i)" "\<not> (0 \<le> i \<and> i < THREAD_ARR_SIZE)"
  shows "mark_waiting g is arr = Inl OutOfBounds"
  using assms by (induction "is" arbitrary: arr) auto

text \<open>The waiting search on a well-formed list of small identifiers.\<close>

lemma search_for_lowest_waiting_list:
  assumes abs: "la_abs (tg_active_threads g) xs" and "\<not> in_nmi ctx"
    and small: "\<forall>i \<in> set xs. i < THREAD_ARR_SIZE"
    and low: "lowest_of g {i \<in> set xs. candidate g i} low"
  shows "search_for_lowest_waiting ctx g =
    Inr (if low \<ge> 0 \<and> (ce_waiting (tg_clocks g low) \<or> stack_garbage ctx low = 1) then low else -1)"
proof -
  obtain m where m: "search_for_lowest ctx g = Inr m" "lowest_of g {i \<in> set xs. candidate g i} m"
    using search_for_lowest_list[OF assms(1,2)] .
  with low have "m = low" by (blast dest: lowest_of_unique)
  moreover have "low \<ge> 0 \<Longrightarrow> low \<in> set xs \<and> low < THREAD_ARR_SIZE"
    using low small by (auto simp: lowest_of_def)
  moreover have "mark_waiting g xs (stack_garbage ctx) =
      Inr (\<lambda>i. if i \<in> set xs \<and> ce_waiting (tg_clocks g i) then 1 else stack_garbage ctx i)"
    using small la_abs_nonneg[OF abs] by (intro mark_waiting_ok) auto
  ultimately show ?thesis
    using m la.elems_repr[OF abs] by (auto simp: search_for_lowest_waiting_def)
qed

subsection \<open>Properties\<close>

text \<open>
  C19. The search finds the minimum: on any well-formed list of active threads,
  \<open>__search_for_lowest\<close> terminates and returns the one initialised, active thread of the list
  whose clock is lowest, ties going to the smaller identifier, or -1 when there is none.
\<close>

theorem search_for_lowest_correct:
  assumes "la_abs (tg_active_threads g) xs" and "\<not> in_nmi ctx"
  shows "\<exists>m. search_for_lowest ctx g = Inr m \<and>
    (m = -1 \<longleftrightarrow> (\<forall>i \<in> set xs. \<not> candidate g i)) \<and>
    (m \<noteq> -1 \<longrightarrow> m \<in> set xs \<and> candidate g m \<and>
       (\<forall>i \<in> set xs. candidate g i \<longrightarrow> i \<noteq> m \<longrightarrow>
          get_clock_ticks g m < get_clock_ticks g i \<or>
          get_clock_ticks g m = get_clock_ticks g i \<and> m < i))"
proof -
  obtain m where m: "search_for_lowest ctx g = Inr m" "lowest_of g {i \<in> set xs. candidate g i} m"
    using search_for_lowest_list[OF assms] .
  then show ?thesis
    using la_abs_nonneg[OF assms(1)] by (auto simp: lowest_of_def clock_is_lower_def)
qed

theorem search_for_lowest_correct_witness:
  "\<exists>m. search_for_lowest (sample_ctx 2 False)
      (sample_group [2, 0, 5] (\<lambda>i. if i = 2 then 9 else 4) (\<lambda>_. False)) = Inr m \<and> m = 0"
proof -
  let ?g = "sample_group [2, 0, 5] (\<lambda>i. if i = 2 then 9 else 4) (\<lambda>_. False)"
  have "la_abs (tg_active_threads ?g) [2, 0, 5]"
    by (auto simp: sample_defs la_index_ok_def la_consts)
  from search_for_lowest_correct[OF this, of "sample_ctx 2 False"] show ?thesis
    by (auto simp: sample_defs candidate_def get_clock_ticks_def)
qed

text \<open>
  The order of arrival does not matter: two groups that agree on the clocks and flags of
  their threads, and whose active lists hold the same threads in any order (as the races of
  activation leave them), elect the same lowest thread.
\<close>

theorem search_for_lowest_deterministic:
  assumes "la_abs (tg_active_threads g) xs" and "la_abs (tg_active_threads h) ys"
    and "set xs = set ys" and "tg_clocks g = tg_clocks h" and "\<not> in_nmi c" and "\<not> in_nmi d"
  shows "search_for_lowest c g = search_for_lowest d h"
proof -
  have t: "get_clock_ticks g t = get_clock_ticks h t" "candidate g t = candidate h t" for t
    using assms(4) by (simp_all add: get_clock_ticks_def candidate_def)
  obtain m where m: "search_for_lowest c g = Inr m" "lowest_of g {i \<in> set xs. candidate g i} m"
    using search_for_lowest_list[OF assms(1,5)] .
  obtain n where n: "search_for_lowest d h = Inr n" "lowest_of h {i \<in> set ys. candidate h i} n"
    using search_for_lowest_list[OF assms(2,6)] .
  have "lowest_of g {i \<in> set xs. candidate g i} n"
    using n(2) assms(3) t lowest_of_cong[of g h] by auto
  with m n show ?thesis by (auto dest: lowest_of_unique)
qed

theorem search_for_lowest_deterministic_witness:
  "search_for_lowest (sample_ctx 7 False) (sample_group [7, 3] (\<lambda>i. 1) (\<lambda>_. False)) =
   search_for_lowest (sample_ctx 3 False)
     ((sample_group [7, 3] (\<lambda>i. 1) (\<lambda>_. False))\<lparr>tg_active_threads := la_of_list [3, 7]\<rparr>)"
  by (rule search_for_lowest_deterministic [of _ "[7, 3]" _ "[3, 7]"])
     (auto simp: sample_defs la_index_ok_def la_consts)

text \<open>
  The NMI path agrees with the list path: where the threads that are initialised and not
  inactive are exactly those of the active list, the scan over all indices up to \<open>max_index\<close>
  that the overflow handler uses (it cannot follow links that an interrupted update may have
  left half-way) elects the same thread as the walk over the list.
\<close>

theorem search_nmi_agrees:
  assumes "la_abs (tg_active_threads g) xs"
    and "\<forall>i. la_index_ok i \<longrightarrow> (candidate g i \<longleftrightarrow> i \<in> set xs)"
    and "in_nmi c" and "\<not> in_nmi d"
  shows "search_for_lowest c g = search_for_lowest d g"
proof -
  obtain m where m: "search_for_lowest c g = Inr m"
    "lowest_of g {i \<in> {0..la_max_index (tg_active_threads g)}. candidate g i} m"
    using search_for_lowest_nmi[OF assms(3)] .
  obtain n where n: "search_for_lowest d g = Inr n" "lowest_of g {i \<in> set xs. candidate g i} n"
    using search_for_lowest_list[OF assms(1,4)] .
  have "{i \<in> {0..la_max_index (tg_active_threads g)}. candidate g i} = {i \<in> set xs. candidate g i}"
    using assms(1,2) by (fastforce simp: la_abs_def la_index_ok_def subset_iff)
  with m n show ?thesis by (auto dest: lowest_of_unique)
qed

theorem search_nmi_agrees_witness:
  "search_for_lowest (sample_ctx 7 True) (sample_group [7, 3] (\<lambda>i. 1) (\<lambda>_. False)) =
   search_for_lowest (sample_ctx 7 False) (sample_group [7, 3] (\<lambda>i. 1) (\<lambda>_. False))"
  by (rule search_nmi_agrees [of _ "[7, 3]"])
     (auto simp: sample_defs candidate_def la_index_ok_def la_consts)

text \<open>
  The waiting search, exactly: with all identifiers below 128, the result is the lowest
  thread if it is waiting, -1 if it is not waiting and the uninitialised stack array happens not
  to hold a 1 at its index, and the lowest thread although it is not waiting if the array does.
  A waiting thread with an identifier of 128 or more makes the function write outside the array.
\<close>

theorem search_for_lowest_waiting_exact:
  assumes "la_abs (tg_active_threads g) xs" and "\<not> in_nmi ctx"
    and "search_for_lowest ctx g = Inr low"
  shows "(if \<forall>i \<in> set xs. i < 128
     then search_for_lowest_waiting ctx g =
       Inr (if low = -1 then -1
            else if ce_waiting (tg_clocks g low) then low
            else if stack_garbage ctx low = 1 then low else -1)
     else (\<exists>i \<in> set xs. 128 \<le> i \<and> ce_waiting (tg_clocks g i)) \<longrightarrow>
       search_for_lowest_waiting ctx g = Inl OutOfBounds)"
proof -
  have low: "lowest_of g {i \<in> set xs. candidate g i} low"
    using search_for_lowest_list[OF assms(1,2)] assms(3) by auto
  then have "low = -1 \<or> 0 \<le> low" using la_abs_nonneg[OF assms(1)] by (auto simp: lowest_of_def)
  then show ?thesis
    using search_for_lowest_waiting_list[OF assms(1,2) _ low] mark_waiting_fault[of _ xs g]
      la.elems_repr[OF assms(1)]
    by (auto simp: THREAD_ARR_SIZE_def search_for_lowest_waiting_def)
qed

theorem search_for_lowest_waiting_exact_witness:
  "search_for_lowest_waiting
     ((sample_ctx 0 False)\<lparr>stack_garbage := \<lambda>_. 1\<rparr>)
     (sample_group [0, 1] (\<lambda>i. if i = 1 then 3 else 8) (\<lambda>i. i = 0)) = Inr 1"
proof -
  let ?g = "sample_group [0, 1] (\<lambda>i. if i = 1 then 3 else 8) (\<lambda>i. i = 0)"
  let ?c = "(sample_ctx 0 False)\<lparr>stack_garbage := \<lambda>_. 1\<rparr>"
  have abs: "la_abs (tg_active_threads ?g) [0, 1]"
    by (auto simp: sample_defs la_index_ok_def la_consts)
  have nmi: "\<not> in_nmi ?c" by (simp add: sample_defs)
  obtain m where m: "search_for_lowest ?c ?g = Inr m" "lowest_of ?g {i \<in> set [0, 1]. candidate ?g i} m"
    using search_for_lowest_list[OF abs nmi] .
  then have "m = 1"
    by (auto simp: lowest_of_def sample_defs candidate_def clock_is_lower_def get_clock_ticks_def)
  with search_for_lowest_waiting_exact[OF abs nmi m(1)] show ?thesis
    by (simp add: sample_defs)
qed

end
