(* ===== verification/Bounded_Tso.thy ===== *)
theory Bounded_Tso
  imports Task_Clock
begin

text \<open>
  The bounded memory fence of \<open>bounded_tso.c\<close>: when a thread's chunk comes within
  \<open>IMPRECISE_OVERFLOW_BUFFER\<close> instructions of \<open>BOUNDED_CHUNK_SIZE\<close>, the module single-steps it
  to the exact boundary and then sends it a signal, whose handler commits its memory. While a
  thread is single-stepped, \<open>count_ticks\<close> holds the remaining steps plus two.
\<close>

subsection \<open>Operations\<close>

definition force_sigusr1 :: "int \<Rightarrow> task_clock_group \<Rightarrow> task_clock_group" where
  "force_sigusr1 tid g = g\<lparr>tg_sigusr1 := (tg_sigusr1 g)(tid := Suc (tg_sigusr1 g tid))\<rparr>"

definition set_trap_flag :: "int \<Rightarrow> bool \<Rightarrow> task_clock_group \<Rightarrow> task_clock_group" where
  "set_trap_flag tid b g = g\<lparr>tg_trap_flag := (tg_trap_flag g)(tid := b)\<rparr>"

definition begin_bounded_memory_fence ::
  "kconfig \<Rightarrow> kctx \<Rightarrow> task_clock_group \<Rightarrow> task_clock_group" where
  "begin_bounded_memory_fence cfg ctx g =
     (let tid = cur_tid ctx;
          remaining_ticks = (if get_chunk_ticks g tid > BOUNDED_CHUNK_SIZE then 0
                             else BOUNDED_CHUNK_SIZE - get_chunk_ticks g tid) in
      if tick_counter_is_running ctx g
      then (if remaining_ticks = 0
            then force_sigusr1 tid
                   (hit_bounded_fence_enable cfg ctx (tick_counter_turn_off ctx g))
            else single_stepping_enable cfg tid remaining_ticks
                   (if \<not> in_nmi ctx then set_trap_flag tid True g else g))
      else g)"

text \<open>
  The functions that get a \<open>pt_regs\<close> pointer take and return its trap flag; the calling thread's
  own saved registers are \<open>tg_trap_flag\<close>.
\<close>

definition bounded_memory_fence_turn_on_tf :: "bool \<Rightarrow> bool" where
  "bounded_memory_fence_turn_on_tf regs_tf = True"

definition end_bounded_memory_fence_early ::
  "kconfig \<Rightarrow> kctx \<Rightarrow> task_clock_group \<Rightarrow> task_clock_group" where
  "end_bounded_memory_fence_early cfg ctx g =
     single_stepping_reset cfg (cur_tid ctx)
       (hit_bounded_fence_enable cfg ctx (set_trap_flag (cur_tid ctx) False g))"

definition on_single_step ::
  "kconfig \<Rightarrow> kctx \<Rightarrow> task_clock_group \<times> bool \<Rightarrow> int \<times> task_clock_group \<times> bool" where
  "on_single_step cfg ctx st =
     (case st of (g, regs_tf) \<Rightarrow>
      let tid = cur_tid ctx in
      if single_stepping_on cfg g tid then
        (let g1 = single_stepping_dec cfg tid g;
             g2 = inc_clock_ticks_no_chunk_add tid 1 g1 in
         if single_stepping_done cfg g2 tid
         then (1, force_sigusr1 tid
                    (hit_bounded_fence_enable cfg ctx
                      (tick_counter_turn_off ctx (single_stepping_dec cfg tid g2))), False)
         else (1, g2, regs_tf))
      else if hit_bounded_fence cfg ctx g then (1, g, regs_tf)
      else if get_chunk_ticks g tid < BOUNDED_CHUNK_SIZE then (1, g, False)
      else (0, g, regs_tf))"

text \<open>The chunk counter of the macros \<open>__inc_chunk_ticks\<close> and \<open>__inc_clock_ticks\<close>.\<close>

definition inc_chunk_ticks ::
  "kconfig \<Rightarrow> kctx \<Rightarrow> int \<Rightarrow> u64 \<Rightarrow> task_clock_group \<Rightarrow> task_clock_group" where
  "inc_chunk_ticks cfg ctx tid val g =
     (let g1 = upd_clock tid (\<lambda>c. c\<lparr>ce_chunk_ticks := ce_chunk_ticks c + val\<rparr>) g in
      if use_bounded_fence cfg
      then (if get_chunk_ticks g1 tid > IMPRECISE_BOUNDED_CHUNK_SIZE
            then begin_bounded_memory_fence cfg ctx g1 else g1)
      else g1)"

definition inc_clock_ticks ::
  "kconfig \<Rightarrow> kctx \<Rightarrow> int \<Rightarrow> u64 \<Rightarrow> task_clock_group \<Rightarrow> task_clock_group" where
  "inc_clock_ticks cfg ctx tid val g =
     inc_chunk_ticks cfg ctx tid val (inc_clock_ticks_no_chunk_add tid val g)"

subsection \<open>Frames\<close>

lemma force_sigusr1_simps [simp]:
  "tg_clocks (force_sigusr1 t g) = tg_clocks g"
  "tg_user_status (force_sigusr1 t g) = tg_user_status g"
  "tg_active_threads (force_sigusr1 t g) = tg_active_threads g"
  "tg_lowest_tid (force_sigusr1 t g) = tg_lowest_tid g"
  "tg_notification_needed (force_sigusr1 t g) = tg_notification_needed g"
  "tg_nmi_new_low (force_sigusr1 t g) = tg_nmi_new_low g"
  "tg_trap_flag (force_sigusr1 t g) = tg_trap_flag g"
  "tg_pending_work (force_sigusr1 t g) = tg_pending_work g"
  "tg_lowest_ticks (force_sigusr1 t g) = tg_lowest_ticks g"
  "tg_sigusr1 (force_sigusr1 t g) = (tg_sigusr1 g)(t := Suc (tg_sigusr1 g t))"
  by (simp_all add: force_sigusr1_def)

lemma set_trap_flag_simps [simp]:
  "tg_clocks (set_trap_flag t b g) = tg_clocks g"
  "tg_user_status (set_trap_flag t b g) = tg_user_status g"
  "tg_active_threads (set_trap_flag t b g) = tg_active_threads g"
  "tg_lowest_tid (set_trap_flag t b g) = tg_lowest_tid g"
  "tg_notification_needed (set_trap_flag t b g) = tg_notification_needed g"
  "tg_nmi_new_low (set_trap_flag t b g) = tg_nmi_new_low g"
  "tg_sigusr1 (set_trap_flag t b g) = tg_sigusr1 g"
  "tg_pending_work (set_trap_flag t b g) = tg_pending_work g"
  "tg_lowest_ticks (set_trap_flag t b g) = tg_lowest_ticks g"
  "tg_trap_flag (set_trap_flag t b g) = (tg_trap_flag g)(t := b)"
  by (simp_all add: set_trap_flag_def)

lemmas fence_defs = begin_bounded_memory_fence_def inc_chunk_ticks_def inc_clock_ticks_def
  end_bounded_memory_fence_early_def on_single_step_def

subsection \<open>Single-stepping to the boundary\<close>

text \<open>The states of a thread that is single-stepped with \<open>k\<close> steps to go.\<close>

definition stepping :: "task_clock_group \<Rightarrow> int \<Rightarrow> nat \<Rightarrow> bool" where
  "stepping g tid k \<longleftrightarrow> ce_count_ticks (tg_clocks g tid) = int k + 2"

fun single_steps ::
  "kconfig \<Rightarrow> kctx \<Rightarrow> nat \<Rightarrow> task_clock_group \<times> bool \<Rightarrow> task_clock_group \<times> bool" where
  "single_steps cfg ctx 0 st = st"
| "single_steps cfg ctx (Suc n) st = single_steps cfg ctx n (snd (on_single_step cfg ctx st))"

lemma on_single_step_stepping:
  assumes "use_bounded_fence cfg" "stepping g (cur_tid ctx) (Suc (Suc k))"
    "on_single_step cfg ctx (g, tf) = (r, g', tf')"
  shows "r = 1 \<and> stepping g' (cur_tid ctx) (Suc k) \<and> tf' = tf \<and>
    ce_ticks (tg_clocks g' (cur_tid ctx)) = ce_ticks (tg_clocks g (cur_tid ctx)) + 1 \<and>
    tg_sigusr1 g' = tg_sigusr1 g"
  using assms by (auto simp: on_single_step_def clock_macros stepping_def Let_def)

lemma on_single_step_last:
  assumes "use_bounded_fence cfg" "stepping g (cur_tid ctx) (Suc 0)"
    "on_single_step cfg ctx (g, tf) = (r, g', tf')"
  shows "r = 1 \<and> ce_count_ticks (tg_clocks g' (cur_tid ctx)) = 0 \<and> \<not> tf' \<and>
    ce_ticks (tg_clocks g' (cur_tid ctx)) = ce_ticks (tg_clocks g (cur_tid ctx)) + 1 \<and>
    tg_sigusr1 g' (cur_tid ctx) = Suc (tg_sigusr1 g (cur_tid ctx)) \<and>
    us_hit_bounded_fence (tg_user_status g' (cur_tid ctx))"
  using assms by (auto simp: on_single_step_def clock_macros stepping_def Let_def)

lemma single_steps_stepping:
  assumes "use_bounded_fence cfg" "stepping g (cur_tid ctx) (Suc k)" "n \<le> k"
    "single_steps cfg ctx n (g, tf) = (g', tf')"
  shows "stepping g' (cur_tid ctx) (Suc k - n) \<and> tf' = tf \<and>
    ce_ticks (tg_clocks g' (cur_tid ctx)) = ce_ticks (tg_clocks g (cur_tid ctx)) + of_nat n \<and>
    tg_sigusr1 g' = tg_sigusr1 g"
  using assms(2-4)
proof (induction n arbitrary: g tf k)
  case (Suc n)
  then obtain j where k: "k = Suc j" by (cases k) auto
  obtain r h tf1 where h: "on_single_step cfg ctx (g, tf) = (r, h, tf1)"
    by (metis prod_cases3)
  with on_single_step_stepping[OF assms(1) Suc.prems(1)[unfolded k] h]
  have "stepping h (cur_tid ctx) (Suc j)" "tf1 = tf" "tg_sigusr1 h = tg_sigusr1 g"
    "ce_ticks (tg_clocks h (cur_tid ctx)) = ce_ticks (tg_clocks g (cur_tid ctx)) + 1"
    by auto
  with Suc.IH[of h j tf] Suc.prems(2,3) k h show ?case by simp
qed simp

lemma single_steps_add:
  "single_steps cfg ctx (m + n) st = single_steps cfg ctx n (single_steps cfg ctx m st)"
  by (induction m arbitrary: st) auto

lemma begin_fence_stepping:
  assumes "use_bounded_fence cfg" "tick_counter_is_running ctx g"
    "get_chunk_ticks g (cur_tid ctx) < BOUNDED_CHUNK_SIZE"
  shows "stepping (begin_bounded_memory_fence cfg ctx g) (cur_tid ctx)
           (unat (BOUNDED_CHUNK_SIZE - get_chunk_ticks g (cur_tid ctx)))"
proof -
  let ?r = "BOUNDED_CHUNK_SIZE - get_chunk_ticks g (cur_tid ctx)"
  have r: "?r \<noteq> 0" "?r \<le> BOUNDED_CHUNK_SIZE"
    using assms(3) by (auto simp: word_le_nat_alt word_less_nat_alt unat_sub_if')
  then have "unat (?r + 2) = unat ?r + 2"
    by (subst unat_add_lem[THEN iffD1]) (auto simp: chunk_consts word_le_nat_alt)
  then have "int (unat (?r + 2)) = int (unat ?r) + 2" by linarith
  then have "uint (?r + 2) = int (unat ?r) + 2" by simp
  with assms r show ?thesis
    by (auto simp: stepping_def begin_bounded_memory_fence_def Let_def clock_macros)
qed

lemma begin_fence_frame:
  assumes "get_chunk_ticks g (cur_tid ctx) < BOUNDED_CHUNK_SIZE"
  shows "ce_ticks (tg_clocks (begin_bounded_memory_fence cfg ctx g) t) = ce_ticks (tg_clocks g t) \<and>
    ce_chunk_ticks (tg_clocks (begin_bounded_memory_fence cfg ctx g) t) =
      ce_chunk_ticks (tg_clocks g t) \<and>
    tg_sigusr1 (begin_bounded_memory_fence cfg ctx g) = tg_sigusr1 g"
  using assms by (auto simp: begin_bounded_memory_fence_def Let_def clock_macros)

subsection \<open>Properties\<close>

text \<open>
  C24. A bounded chunk ends exactly at its boundary: when the fence begins at \<open>c\<close> instructions of
  the chunk, the thread takes single-step traps without a signal until it has executed
  \<open>BOUNDED_CHUNK_SIZE - c\<close> more instructions; at that trap, and not before, it is sent one
  \<open>SIGUSR1\<close>, the trap flag is cleared, counting is off and the user status says that the fence
  was hit. Each of those instructions is counted once on its logical clock.
\<close>

theorem bounded_chunk_exact:
  assumes "use_bounded_fence cfg" and "tick_counter_is_running ctx g"
    and "get_chunk_ticks g (cur_tid ctx) < BOUNDED_CHUNK_SIZE"
    and "r = unat BOUNDED_CHUNK_SIZE - unat (get_chunk_ticks g (cur_tid ctx))"
    and "(h, tf) = single_steps cfg ctx n (begin_bounded_memory_fence cfg ctx g, True)"
  shows "(n < r \<longrightarrow> tf \<and> tg_sigusr1 h (cur_tid ctx) = tg_sigusr1 g (cur_tid ctx)) \<and>
    (n = r \<longrightarrow> \<not> tf \<and> tg_sigusr1 h (cur_tid ctx) = Suc (tg_sigusr1 g (cur_tid ctx)) \<and>
       \<not> tick_counter_is_running ctx h \<and> hit_bounded_fence cfg ctx h) \<and>
    (n \<le> r \<longrightarrow> ce_ticks (tg_clocks h (cur_tid ctx)) =
                ce_ticks (tg_clocks g (cur_tid ctx)) + of_nat n)"
proof -
  let ?g0 = "begin_bounded_memory_fence cfg ctx g" and ?t = "cur_tid ctx"
  have r: "r = unat (BOUNDED_CHUNK_SIZE - get_chunk_ticks g ?t)"
    using assms(3,4) by (simp add: unat_sub word_le_nat_alt word_less_nat_alt)
  have "0 < r" using assms(3,4) by (simp add: word_less_nat_alt)
  then obtain k where k: "r = Suc k" using gr0_implies_Suc by blast
  have st: "stepping ?g0 ?t (Suc k)" using begin_fence_stepping[OF assms(1,2,3)] r k by simp
  note fr = begin_fence_frame[OF assms(3), of cfg ?t]
  show ?thesis
  proof (cases "n < r")
    case True
    with k single_steps_stepping[OF assms(1) st, of n True h tf] assms(5) fr show ?thesis by simp
  next
    case False
    obtain h' tf' where h': "single_steps cfg ctx k (?g0, True) = (h', tf')" by force
    from single_steps_stepping[OF assms(1) st _ h']
    have h'': "stepping h' ?t (Suc 0)" "tg_sigusr1 h' = tg_sigusr1 g"
      "ce_ticks (tg_clocks h' ?t) = ce_ticks (tg_clocks g ?t) + of_nat k" using fr by auto
    obtain q h1 tf1 where q: "on_single_step cfg ctx (h', tf') = (q, h1, tf1)" by (metis prod_cases3)
    have "single_steps cfg ctx r (?g0, True) = (h1, tf1)"
      using single_steps_add[of cfg ctx k 1 "(?g0, True)"] h' q k by simp
    with False on_single_step_last[OF assms(1) h''(1) q] h'' assms(1,5) k show ?thesis
      by (auto simp: tick_counter_is_running_def hit_bounded_fence_def)
  qed
qed

definition fence_cfg :: kconfig where
  "fence_cfg = \<lparr>instruction_counting = True, use_bounded_fence = True, use_adaptive_period = True\<rparr>"

definition fence_group :: "u64 \<Rightarrow> task_clock_group" where
  "fence_group chunk = upd_clock 0 (\<lambda>c. c\<lparr>ce_count_ticks := 1, ce_chunk_ticks := chunk\<rparr>)
     (sample_group [0] (\<lambda>_. 0) (\<lambda>_. False))"

lemmas fence_samples = fence_cfg_def fence_group_def sample_defs

theorem bounded_chunk_exact_witness:
  "tg_sigusr1 (fst (single_steps fence_cfg (sample_ctx 0 False) 2
     (begin_bounded_memory_fence fence_cfg (sample_ctx 0 False) (fence_group 1023999998), True))) 0 = 1"
proof -
  obtain h tf where st: "(h, tf) = single_steps fence_cfg (sample_ctx 0 False) 2
     (begin_bounded_memory_fence fence_cfg (sample_ctx 0 False) (fence_group 1023999998), True)"
    by (metis surj_pair)
  have "use_bounded_fence fence_cfg"
    and "tick_counter_is_running (sample_ctx 0 False) (fence_group 1023999998)"
    and "get_chunk_ticks (fence_group 1023999998) (cur_tid (sample_ctx 0 False)) < BOUNDED_CHUNK_SIZE"
    and "2 = unat BOUNDED_CHUNK_SIZE -
      unat (get_chunk_ticks (fence_group 1023999998) (cur_tid (sample_ctx 0 False)))"
    by (simp_all add: fence_samples tick_counter_is_running_def get_chunk_ticks_def chunk_consts)
  from bounded_chunk_exact[OF this st]
  have "tg_sigusr1 h (cur_tid (sample_ctx 0 False)) =
      Suc (tg_sigusr1 (fence_group 1023999998) (cur_tid (sample_ctx 0 False)))" by blast
  then show ?thesis unfolding st[symmetric] by (simp add: fence_samples)
qed

text \<open>
  The encoding of \<open>count_ticks\<close> is unambiguous: when the chunk counter passes
  \<open>IMPRECISE_BOUNDED_CHUNK_SIZE\<close> while counting, the macro \<open>__inc_chunk_ticks\<close> either leaves the
  counter off (the chunk is full, and the signal was sent) or stores a number of steps between 1
  and 199, plus 2; so a stored value always fits a byte and is never mistaken for the values 0
  and 1, which mean that counting is off or on.
\<close>

theorem fence_count_ticks_bounds:
  assumes "use_bounded_fence cfg" and "ce_count_ticks (tg_clocks g (cur_tid ctx)) = 1"
    and "get_chunk_ticks g (cur_tid ctx) + val > IMPRECISE_BOUNDED_CHUNK_SIZE"
    and "h = inc_chunk_ticks cfg ctx (cur_tid ctx) val g"
  shows "if get_chunk_ticks g (cur_tid ctx) + val \<ge> BOUNDED_CHUNK_SIZE
    then ce_count_ticks (tg_clocks h (cur_tid ctx)) = 0 \<and>
         tg_sigusr1 h (cur_tid ctx) = Suc (tg_sigusr1 g (cur_tid ctx)) \<and> hit_bounded_fence cfg ctx h
    else 3 \<le> ce_count_ticks (tg_clocks h (cur_tid ctx)) \<and>
         ce_count_ticks (tg_clocks h (cur_tid ctx)) \<le> 201 \<and> single_stepping_on cfg h (cur_tid ctx) \<and>
         tg_sigusr1 h (cur_tid ctx) = tg_sigusr1 g (cur_tid ctx)"
proof -
  let ?t = "cur_tid ctx"
  define g1 where "g1 = upd_clock ?t (\<lambda>c. c\<lparr>ce_chunk_ticks := ce_chunk_ticks c + val\<rparr>) g"
  have chunk: "get_chunk_ticks g1 ?t = get_chunk_ticks g ?t + val"
    and run: "tick_counter_is_running ctx g1" and cnt: "ce_count_ticks (tg_clocks g1 ?t) = 1"
    and sig: "tg_sigusr1 g1 = tg_sigusr1 g"
    using assms(2) by (auto simp: g1_def clock_macros)
  have h: "h = begin_bounded_memory_fence cfg ctx g1"
    using assms(1,3,4) chunk by (simp add: inc_chunk_ticks_def g1_def[symmetric] Let_def)
  show ?thesis
  proof (cases "get_chunk_ticks g ?t + val \<ge> BOUNDED_CHUNK_SIZE")
    case True
    then show ?thesis
      using assms(1) h chunk run sig
      by (auto simp: begin_bounded_memory_fence_def Let_def clock_macros)
  next
    case False
    then have lt: "get_chunk_ticks g1 ?t < BOUNDED_CHUNK_SIZE" using chunk by simp
    define d where "d = unat (BOUNDED_CHUNK_SIZE - get_chunk_ticks g1 ?t)"
    have "stepping h ?t d"
      unfolding h d_def by (rule begin_fence_stepping[OF assms(1) run lt])
    moreover have "d = 1024000000 - unat (get_chunk_ticks g1 ?t)"
      unfolding d_def using lt by (simp add: unat_sub BOUNDED_CHUNK_SIZE_def)
    moreover have "unat (get_chunk_ticks g1 ?t) > 1023999800"
      "unat (get_chunk_ticks g1 ?t) < 1024000000"
      using assms(3) lt by (simp_all add: chunk chunk_consts word_less_nat_alt)
    ultimately have "ce_count_ticks (tg_clocks h ?t) = int d + 2" "0 < d" "d < 200"
      by (auto simp: stepping_def)
    then show ?thesis
      using False assms(1) begin_fence_frame[OF lt, of cfg ?t] sig h
      by (auto simp: single_stepping_on_def)
  qed
qed

theorem fence_count_ticks_bounds_witness:
  "ce_count_ticks (tg_clocks (inc_chunk_ticks fence_cfg (sample_ctx 0 False) 0 150
     (fence_group 1023999700)) 0) \<in> {3..201}"
  using fence_count_ticks_bounds[of fence_cfg "fence_group 1023999700" "sample_ctx 0 False" 150,
      OF _ _ _ refl]
  by (simp add: fence_samples get_chunk_ticks_def chunk_consts)

end
