(* ===== verification/Instr_Counting.thy ===== *)
theory Instr_Counting
  imports Search_Entries Bounded_Tso
begin

text \<open>
  How ticks get into the logical clock: \<open>logical_clock_instruction_counting.h\<close>, which reads and
  programs the performance counter of the thread, and \<open>logical_clock_no_ticks.h\<close>, its empty
  variant, which the configuration selects. The counter is 48 bits wide and is programmed with
  the negation of the sampling period, so that it overflows after that many instructions.
\<close>

subsection \<open>Operations\<close>

definition MAX_CLOCK_SAMPLE_PERIOD :: u64 where "MAX_CLOCK_SAMPLE_PERIOD = 200000"
definition MIN_CLOCK_SAMPLE_PERIOD :: u64 where "MIN_CLOCK_SAMPLE_PERIOD = 1024"
definition X86_CNT_VAL_BITS :: nat where "X86_CNT_VAL_BITS = 48"
definition X86_CNT_VAL_MASK :: u64 where "X86_CNT_VAL_MASK = push_bit X86_CNT_VAL_BITS 1 - 1"

definition logical_clock_update_clock_ticks ::
  "kconfig \<Rightarrow> kctx \<Rightarrow> int \<Rightarrow> task_clock_group \<Rightarrow> task_clock_group" where
  "logical_clock_update_clock_ticks cfg ctx tid g =
     (if instruction_counting cfg then
        (let rawcount = ev_count (ce_event (tg_clocks g tid)) in
         upd_event tid (\<lambda>e. e\<lparr>ev_count := 0\<rparr>) (inc_clock_ticks cfg ctx tid rawcount g))
      else g)"

text \<open>
  Reading the counter retries while an NMI changes \<open>prev_count\<close> under it. The result is the event
  with its new \<open>prev_count\<close>, the raw count, the previous raw count and the \<open>rdpmc\<close> value.
\<close>

fun read_performance_counter ::
  "counter_read list \<Rightarrow> perf_event \<Rightarrow> (perf_event \<times> u64 \<times> u64 \<times> u64) result" where
  "read_performance_counter [] hwc = Inl StillSpinning"
| "read_performance_counter (r # rs) hwc =
     (let prev_raw_count = hw_prev_count hwc;
          hwc1 = (case rd_nmi r of None \<Rightarrow> hwc
                  | Some (prev, cnt) \<Rightarrow> hwc\<lparr>hw_prev_count := prev, ev_count := cnt\<rparr>) in
      if hw_prev_count hwc1 \<noteq> prev_raw_count then read_performance_counter rs hwc1
      else Inr (hwc1\<lparr>hw_prev_count := rd_raw r\<rparr>, rd_raw r, prev_raw_count, rd_pmc r))"

definition counter_delta :: "u64 \<Rightarrow> u64 \<Rightarrow> u64" where
  "counter_delta new_raw_count prev_raw_count =
     (let shift = 64 - X86_CNT_VAL_BITS in
      signed_drop_bit shift (push_bit shift new_raw_count - push_bit shift prev_raw_count))"

definition logical_clock_read_clock_and_update ::
  "kconfig \<Rightarrow> kctx \<Rightarrow> int \<Rightarrow> task_clock_group \<Rightarrow> task_clock_group result" where
  "logical_clock_read_clock_and_update cfg ctx tid g =
     (if instruction_counting cfg then
        (let counter_was_on = tick_counter_is_running ctx g in
         bindR (read_performance_counter (counter_reads ctx) (ce_event (tg_clocks g tid)))
           (\<lambda>(ev, new_raw_count, prev_raw_count, new_pmc).
         let g1 = tick_counter_turn_off ctx (upd_event tid (\<lambda>_. ev) g);
             delta = counter_delta new_raw_count prev_raw_count
                     + ev_count (ce_event (tg_clocks g1 tid));
             g2 = upd_event tid (\<lambda>e. e\<lparr>ev_count := 0\<rparr>) g1 in
         Inr (if counter_was_on
              then (let g3 = inc_clock_ticks cfg ctx tid delta g2 in
                    upd_user (cur_tid ctx) (\<lambda>u. u\<lparr>us_ticks := get_clock_ticks g3 (cur_tid ctx)\<rparr>) g3)
              else g2)))
      else Inr g)"

definition logical_clock_reset_current_ticks ::
  "kconfig \<Rightarrow> kctx \<Rightarrow> int \<Rightarrow> task_clock_group \<Rightarrow> task_clock_group result" where
  "logical_clock_reset_current_ticks cfg ctx tid g =
     (if instruction_counting cfg then
        bindR (read_performance_counter (counter_reads ctx) (ce_event (tg_clocks g tid)))
          (\<lambda>(ev, new_raw_count, prev_raw_count, new_pmc).
            Inr (upd_event tid (\<lambda>_. ev\<lparr>ev_count := 0\<rparr>) g))
      else Inr g)"

definition logical_clock_set_perf_counter_max ::
  "kconfig \<Rightarrow> int \<Rightarrow> task_clock_group \<Rightarrow> task_clock_group" where
  "logical_clock_set_perf_counter_max cfg tid g =
     (if instruction_counting cfg then
        (let val = push_bit 31 1 - 1 in
         upd_event tid (\<lambda>e. e\<lparr>hw_msr := and (- val) X86_CNT_VAL_MASK, hw_period_left := val,
           hw_sample_period := val, ev_count := 0, hw_prev_count := - val,
           ev_last_written := - val\<rparr>) g)
      else g)"

definition logical_clock_set_perf_counter ::
  "kconfig \<Rightarrow> int \<Rightarrow> task_clock_group \<Rightarrow> task_clock_group" where
  "logical_clock_set_perf_counter cfg tid g =
     (if instruction_counting cfg then
        (let val = hw_sample_period (ce_event (tg_clocks g tid)) in
         upd_event tid (\<lambda>e. e\<lparr>hw_msr := and (- val) X86_CNT_VAL_MASK, hw_period_left := val,
           ev_count := 0, hw_prev_count := - val, ev_last_written := - val\<rparr>) g)
      else g)"

definition set_sample_period :: "int \<Rightarrow> u64 \<Rightarrow> task_clock_group \<Rightarrow> task_clock_group" where
  "set_sample_period tid p = upd_event tid (\<lambda>e. e\<lparr>hw_sample_period := p\<rparr>)"

definition logical_clock_update_overflow_period ::
  "kconfig \<Rightarrow> kctx \<Rightarrow> int \<Rightarrow> task_clock_group \<Rightarrow> task_clock_group result" where
  "logical_clock_update_overflow_period cfg ctx tid g =
     (if instruction_counting cfg \<and> use_adaptive_period cfg then
        (if single_stepping_on cfg g tid \<or> hit_bounded_fence cfg ctx g
         then Inr (set_sample_period tid IMPRECISE_BOUNDED_CHUNK_SIZE g)
         else
           (let new_sample_period = hw_sample_period (ce_event (tg_clocks g tid)) + 10000 in
            bindR (search_for_lowest_waiting_exclude_current ctx g tid) (\<lambda>lowest_waiting_tid.
            let new_sample_period' =
              (if lowest_waiting_tid \<ge> 0 then
                 (let lowest_waiting_tid_clock = get_clock_ticks g lowest_waiting_tid;
                      myclock = get_clock_ticks g tid in
                  if lowest_waiting_tid_clock > myclock
                  then max (lowest_waiting_tid_clock - myclock + 1000) MIN_CLOCK_SAMPLE_PERIOD
                  else new_sample_period)
               else new_sample_period) in
            Inr (set_sample_period tid
              (min (bound_overflow_period cfg g tid new_sample_period') MAX_CLOCK_SAMPLE_PERIOD) g))))
      else Inr g)"

definition logical_clock_reset_overflow_period ::
  "kconfig \<Rightarrow> kctx \<Rightarrow> int \<Rightarrow> task_clock_group \<Rightarrow> task_clock_group" where
  "logical_clock_reset_overflow_period cfg ctx tid g =
     (if instruction_counting cfg \<and> use_adaptive_period cfg
      then upd_event (cur_tid ctx) (\<lambda>e. e\<lparr>hw_sample_period := 0, hw_period_left := 0\<rparr>) g
      else g)"

subsection \<open>The width of the counter\<close>

lemma push_bit_48: "push_bit 16 (a :: u64) = push_bit 16 b \<longleftrightarrow> take_bit 48 a = take_bit 48 b"
proof
  assume eq: "push_bit 16 a = push_bit 16 b"
  show "take_bit 48 a = take_bit 48 b"
  proof (rule bit_word_eqI)
    fix n :: nat
    have "bit (push_bit 16 a) (n + 16) = bit (push_bit 16 b) (n + 16)" by (simp add: eq)
    then show "bit (take_bit 48 a) n = bit (take_bit 48 b) n"
      by (auto simp: bit_simps)
  qed
next
  assume eq: "take_bit 48 a = take_bit 48 b"
  show "push_bit 16 a = push_bit 16 b"
  proof (rule bit_word_eqI)
    fix n :: nat
    have "bit (take_bit 48 a) (n - 16) = bit (take_bit 48 b) (n - 16)" by (simp add: eq)
    then show "bit (push_bit 16 a) n = bit (push_bit 16 b) n"
      by (cases "n < 64") (auto simp: bit_simps)
  qed
qed

lemma push_bit_16_mult: "push_bit 16 (a :: u64) = a * 65536"
  by (simp add: push_bit_eq_mult)

lemma push_bit_counter_delta: "push_bit 16 (counter_delta a b) = push_bit 16 (a - b)"
proof -
  have "push_bit 16 (signed_drop_bit 16 (push_bit 16 (c :: u64))) = push_bit 16 c" for c
    by (rule bit_word_eqI) (auto simp: bit_simps)
  from this[of "a - b"] show ?thesis
    by (simp add: counter_delta_def X86_CNT_VAL_BITS_def push_bit_16_mult left_diff_distrib)
qed

lemma take_bit_counter_delta: "take_bit 48 (counter_delta a b) = take_bit 48 (a - b)"
  using push_bit_counter_delta push_bit_48 by blast

text \<open>The delta is the number of instructions, as long as it is below half the counter's range.\<close>

lemma counter_delta_exact:
  assumes "n < 2 ^ 47" "take_bit 48 new_raw = take_bit 48 (prev_raw + of_nat n)"
  shows "counter_delta new_raw prev_raw = of_nat n"
proof -
  have eq: "push_bit 16 new_raw - push_bit 16 prev_raw = push_bit 16 (of_nat n :: u64)"
    using assms(2) by (simp add: push_bit_48[symmetric] push_bit_16_mult ring_distribs)
  have n: "int n < 2 ^ 47" using assms(1) by (metis of_nat_less_iff of_nat_numeral of_nat_power)
  have "sint (push_bit 16 (of_nat n :: u64)) = int n * 65536"
  proof -
    have "push_bit 16 (of_nat n :: u64) = of_int (int n * 65536)"
      by (simp add: push_bit_16_mult)
    also have "sint (of_int (int n * 65536) :: u64) = int n * 65536"
      using n by (intro sint_of_int_small) auto
    finally show ?thesis .
  qed
  then have "sint (signed_drop_bit 16 (push_bit 16 (of_nat n :: u64))) = int n"
    by (simp add: sint_signed_drop_bit_eq drop_bit_eq_div)
  moreover have "sint (of_nat n :: u64) = int n"
    using n sint_of_int_small[of "int n"] by simp
  ultimately have "signed_drop_bit 16 (push_bit 16 (of_nat n :: u64)) = of_nat n"
    by (metis signed_word_eqI)
  then show ?thesis by (simp add: counter_delta_def X86_CNT_VAL_BITS_def eq)
qed

subsection \<open>Interrupted readings\<close>

text \<open>
  An NMI that arrives while the counter is read takes a reading of its own: it moves
  \<open>prev_count\<close> and adds the difference to \<open>count\<close>. \<open>honest_reads e rs raw\<close>: the attempts \<open>rs\<close> on
  the event \<open>e\<close> are interrupted by such NMIs only, up to a last one that sees the raw count
  \<open>raw\<close>.
\<close>

fun honest_reads :: "perf_event \<Rightarrow> counter_read list \<Rightarrow> u64 \<Rightarrow> bool" where
  "honest_reads e [] raw = False"
| "honest_reads e (r # rs) raw =
     (case rd_nmi r of
        None \<Rightarrow> rd_raw r = raw
      | Some (prev, cnt) \<Rightarrow> prev \<noteq> hw_prev_count e \<and>
          cnt = ev_count e + counter_delta prev (hw_prev_count e) \<and>
          honest_reads (e\<lparr>hw_prev_count := prev, ev_count := cnt\<rparr>) rs raw)"

lemma take_bit_cong_add:
  "take_bit 48 (a :: u64) = take_bit 48 b \<Longrightarrow> take_bit 48 (c + a) = take_bit 48 (c + b)"
  by (simp add: push_bit_48 [symmetric] push_bit_16_mult distrib_left distrib_right)

lemma read_performance_counter_honest:
  assumes "honest_reads e rs raw"
  obtains e' prev pmc where "read_performance_counter rs e = Inr (e', raw, prev, pmc)"
    "hw_prev_count e' = raw"
    "take_bit 48 (ev_count e' + counter_delta raw prev) =
       take_bit 48 (ev_count e + (raw - hw_prev_count e))"
proof -
  have "\<exists>e' prev pmc. read_performance_counter rs e = Inr (e', raw, prev, pmc) \<and>
    hw_prev_count e' = raw \<and>
    take_bit 48 (ev_count e' + counter_delta raw prev) =
       take_bit 48 (ev_count e + (raw - hw_prev_count e))"
    using assms
  proof (induction rs arbitrary: e)
    case (Cons r rs)
    show ?case
    proof (cases "rd_nmi r")
      case None
      with Cons.prems show ?thesis by (auto intro: take_bit_cong_add take_bit_counter_delta)
    next
      case (Some pc)
      obtain p c where pc: "pc = (p, c)" by force
      let ?e = "e\<lparr>hw_prev_count := p, ev_count := c\<rparr>"
      from Cons.prems Some pc have p: "p \<noteq> hw_prev_count e" "honest_reads ?e rs raw"
        "c = ev_count e + counter_delta p (hw_prev_count e)" by auto
      from Cons.IH[OF p(2)] obtain e' prev pmc where e':
        "read_performance_counter rs ?e = Inr (e', raw, prev, pmc)" "hw_prev_count e' = raw"
        "take_bit 48 (ev_count e' + counter_delta raw prev) = take_bit 48 (c + (raw - p))" by auto
      have "take_bit 48 (c + (raw - p)) = take_bit 48 ((ev_count e + (raw - p)) +
          counter_delta p (hw_prev_count e))" by (simp add: p(3) algebra_simps)
      also have "\<dots> = take_bit 48 ((ev_count e + (raw - p)) + (p - hw_prev_count e))"
        by (intro take_bit_cong_add take_bit_counter_delta)
      finally have "take_bit 48 (c + (raw - p)) = take_bit 48 (ev_count e + (raw - hw_prev_count e))"
        by simp
      with e' p(1) Some pc show ?thesis by auto
    qed
  qed simp
  then show thesis using that by blast
qed

subsection \<open>Frames\<close>

lemma inc_clock_ticks_off:
  assumes "tid = cur_tid ctx" "ce_count_ticks (tg_clocks g tid) = 0"
  shows "inc_clock_ticks cfg ctx tid val g =
    upd_clock tid (\<lambda>c. c\<lparr>ce_chunk_ticks := ce_chunk_ticks c + val\<rparr>)
      (upd_clock tid (\<lambda>c. c\<lparr>ce_ticks := ce_ticks c + val\<rparr>) g)"
  using assms by (auto simp: fence_defs clock_macros Let_def)

lemma set_sample_period_simps [simp]:
  "hw_sample_period (ce_event (tg_clocks (set_sample_period tid p g) tid)) = p"
  "get_chunk_ticks (set_sample_period tid p g) t = get_chunk_ticks g t"
  "get_clock_ticks (set_sample_period tid p g) t = get_clock_ticks g t"
  by (simp_all add: set_sample_period_def upd_event_def get_chunk_ticks_def get_clock_ticks_def)

subsection \<open>Properties\<close>

text \<open>
  C25. Every instruction is counted once: a thread whose counting is on reads its clock while any
  number of NMIs move the counter's bookkeeping under it. The read then succeeds, its clock has
  advanced by the ticks that were pending in the event plus the instructions between the previous
  and the current raw count, modulo the 48 bits of the counter, nothing is pending any more,
  counting is off, and user space sees the new clock.
\<close>

theorem read_clock_counts_once:
  assumes "instruction_counting cfg" and "tid = cur_tid ctx" and "tick_counter_is_running ctx g"
    and "honest_reads (ce_event (tg_clocks g tid)) (counter_reads ctx) raw"
  shows "\<exists>h. logical_clock_read_clock_and_update cfg ctx tid g = Inr h \<and>
    take_bit 48 (get_clock_ticks h tid - get_clock_ticks g tid) =
      take_bit 48 (ev_count (ce_event (tg_clocks g tid)) +
                   (raw - hw_prev_count (ce_event (tg_clocks g tid)))) \<and>
    ev_count (ce_event (tg_clocks h tid)) = 0 \<and>
    hw_prev_count (ce_event (tg_clocks h tid)) = raw \<and>
    \<not> tick_counter_is_running ctx h \<and> us_ticks (tg_user_status h tid) = get_clock_ticks h tid"
proof -
  let ?e = "ce_event (tg_clocks g tid)"
  obtain e' prev pmc where e': "read_performance_counter (counter_reads ctx) ?e = Inr (e', raw, prev, pmc)"
    "hw_prev_count e' = raw"
    "take_bit 48 (ev_count e' + counter_delta raw prev) = take_bit 48 (ev_count ?e + (raw - hw_prev_count ?e))"
    using read_performance_counter_honest[OF assms(4)] .
  then show ?thesis
    using assms(1-3)
    by (auto simp: logical_clock_read_clock_and_update_def Let_def inc_clock_ticks_off
        tick_counter_turn_off_def tick_counter_is_running_def upd_event_def get_clock_ticks_def
        add.commute)
qed

definition count_cfg :: kconfig where
  "count_cfg = \<lparr>instruction_counting = True, use_bounded_fence = False, use_adaptive_period = True\<rparr>"

theorem read_clock_counts_once_witness:
  "\<exists>h. logical_clock_read_clock_and_update count_cfg
     ((sample_ctx 0 False)\<lparr>counter_reads := [\<lparr>rd_raw = 160, rd_pmc = 0, rd_nmi = Some (150, 57)\<rparr>,
        \<lparr>rd_raw = 180, rd_pmc = 0, rd_nmi = None\<rparr>]\<rparr>) 0
     (upd_clock 0 (\<lambda>c. c\<lparr>ce_count_ticks := 1, ce_event := sample_event\<lparr>hw_prev_count := 100,
        ev_count := 7\<rparr>\<rparr>) (sample_group [0] (\<lambda>_. 40) (\<lambda>_. False))) = Inr h \<and>
     take_bit 48 (get_clock_ticks h 0 - 40) = 87"
proof -
  let ?ctx = "(sample_ctx 0 False)\<lparr>counter_reads := [\<lparr>rd_raw = 160, rd_pmc = 0, rd_nmi = Some (150, 57)\<rparr>,
        \<lparr>rd_raw = 180, rd_pmc = 0, rd_nmi = None\<rparr>]\<rparr>"
  let ?g = "upd_clock 0 (\<lambda>c. c\<lparr>ce_count_ticks := 1, ce_event := sample_event\<lparr>hw_prev_count := 100,
        ev_count := 7\<rparr>\<rparr>) (sample_group [0] (\<lambda>_. 40) (\<lambda>_. False))"
  have "counter_delta 150 100 = 50"
    using counter_delta_exact[of 50 150 100] by simp
  then have "honest_reads (ce_event (tg_clocks ?g 0)) (counter_reads ?ctx) 180"
    by (simp add: sample_defs)
  from read_clock_counts_once[OF _ _ _ this, of count_cfg] show ?thesis
    by (auto simp: sample_defs count_cfg_def tick_counter_is_running_def get_clock_ticks_def)
qed

text \<open>
  C27. The wrap of the counter is invisible: after \<open>logical_clock_set_perf_counter_max\<close> has
  programmed the counter, a thread that executes fewer than 2^47 instructions reads exactly that
  number back from the 48-bit register, also when the register has wrapped to zero in between.
\<close>

theorem perf_counter_max_roundtrip:
  assumes "instruction_counting cfg" and "g' = logical_clock_set_perf_counter_max cfg tid g"
    and "n < 2 ^ 47"
    and "raw = take_bit 48 (hw_msr (ce_event (tg_clocks g' tid)) + of_nat n)"
  shows "counter_delta raw (hw_prev_count (ce_event (tg_clocks g' tid))) = of_nat n"
proof (rule counter_delta_exact[OF assms(3)])
  have msr: "take_bit 48 (hw_msr (ce_event (tg_clocks g' tid))) =
      take_bit 48 (hw_prev_count (ce_event (tg_clocks g' tid)))"
    using assms(1,2)
    by (simp add: logical_clock_set_perf_counter_max_def upd_event_def Let_def
        X86_CNT_VAL_MASK_def X86_CNT_VAL_BITS_def)
  show "take_bit 48 raw = take_bit 48 (hw_prev_count (ce_event (tg_clocks g' tid)) + of_nat n)"
    unfolding assms(4) using take_bit_cong_add[OF msr, of "of_nat n"] by (simp add: add.commute)
qed

theorem perf_counter_max_roundtrip_witness:
  "counter_delta 1 (hw_prev_count (ce_event (tg_clocks
     (logical_clock_set_perf_counter_max count_cfg 0 (sample_group [0] (\<lambda>_. 0) (\<lambda>_. False))) 0)))
     = 2147483648"
  using perf_counter_max_roundtrip[of count_cfg _ 0 "sample_group [0] (\<lambda>_. 0) (\<lambda>_. False)" 2147483648,
      OF _ refl _ refl]
  by (simp add: count_cfg_def logical_clock_set_perf_counter_max_def upd_event_def
      X86_CNT_VAL_MASK_def X86_CNT_VAL_BITS_def)

lemma bound_overflow_period_le:
  fixes q c :: u64
  assumes "use_bounded_fence cfg" "get_chunk_ticks g tid = c" "c \<le> IMPRECISE_BOUNDED_CHUNK_SIZE"
    "unat q < 2 ^ 63" "p = min (bound_overflow_period cfg g tid q) MAX_CLOCK_SAMPLE_PERIOD"
  shows "p + c \<le> IMPRECISE_BOUNDED_CHUNK_SIZE"
proof -
  have c: "unat c \<le> 1023999800" using assms(3) by (simp add: chunk_consts word_le_nat_alt)
  have p: "unat p \<le> 200000"
    using assms(5) by (auto simp: MAX_CLOCK_SAMPLE_PERIOD_def word_le_nat_alt min_def)
  have pc: "unat (p + c) = unat p + unat c"
    using c p by (subst unat_add_lem[THEN iffD1]) auto
  have qc: "unat (q + c) = unat q + unat c"
    using c assms(4) by (subst unat_add_lem[THEN iffD1]) auto
  have "unat p + unat c \<le> 1023999800"
  proof (cases "q + c > IMPRECISE_BOUNDED_CHUNK_SIZE")
    case True
    then have "p \<le> IMPRECISE_BOUNDED_CHUNK_SIZE - c"
      using assms(1,2,5) by (simp add: bound_overflow_period_def)
    then have "unat p \<le> unat (IMPRECISE_BOUNDED_CHUNK_SIZE - c)" by (simp add: word_le_nat_alt)
    also have "\<dots> = 1023999800 - unat c"
      using assms(3) by (simp add: unat_sub chunk_consts)
    finally show ?thesis using c by simp
  next
    case False
    then have "q + c \<le> 1023999800" "p \<le> q"
      using assms(1,2,5) by (auto simp: bound_overflow_period_def chunk_consts)
    then have "unat p \<le> unat q" "unat (q + c) \<le> 1023999800" by (simp_all add: word_le_nat_alt)
    then show ?thesis using qc by (simp add: word_le_nat_alt)
  qed
  then show ?thesis using pc by (simp add: word_le_nat_alt chunk_consts)
qed

lemma unat_add_small: "unat (a :: u64) < 2 ^ 62 \<Longrightarrow> unat b < 2 ^ 62 \<Longrightarrow> unat (a + b) < 2 ^ 63"
  by (subst unat_add_lem[THEN iffD1]) auto

text \<open>
  The adaptive period keeps its promises: after \<open>logical_clock_update_overflow_period\<close>, a
  thread that is not being single-stepped has a period of at most \<open>MAX_CLOCK_SAMPLE_PERIOD\<close>; with
  the bounded fence, the next overflow arrives before the chunk passes
  \<open>IMPRECISE_BOUNDED_CHUNK_SIZE\<close>; and where another active thread waits at a higher clock, the
  overflow comes at most \<open>max 1024 (distance + 1000)\<close> instructions away, so the waiting thread is
  noticed soon after it becomes the lowest.
\<close>

theorem overflow_period_bounds:
  assumes "instruction_counting cfg" and "use_adaptive_period cfg"
    and "\<not> single_stepping_on cfg g tid" and "\<not> hit_bounded_fence cfg ctx g"
    and "logical_clock_update_overflow_period cfg ctx tid g = Inr h"
    and "search_for_lowest_waiting_exclude_current ctx g tid = Inr w"
    and "p = hw_sample_period (ce_event (tg_clocks h tid))"
  shows "p \<le> MAX_CLOCK_SAMPLE_PERIOD \<and>
    (use_bounded_fence cfg \<and> get_chunk_ticks g tid \<le> IMPRECISE_BOUNDED_CHUNK_SIZE \<and>
       unat (hw_sample_period (ce_event (tg_clocks g tid))) < 2 ^ 62 \<and>
       unat (get_clock_ticks g w - get_clock_ticks g tid) < 2 ^ 62 \<longrightarrow>
     p + get_chunk_ticks g tid \<le> IMPRECISE_BOUNDED_CHUNK_SIZE) \<and>
    (\<not> use_bounded_fence cfg \<and> 0 \<le> w \<and> get_clock_ticks g tid < get_clock_ticks g w \<longrightarrow>
     p \<le> max (get_clock_ticks g w - get_clock_ticks g tid + 1000) MIN_CLOCK_SAMPLE_PERIOD)"
proof -
  let ?q = "if w \<ge> 0 \<and> get_clock_ticks g tid < get_clock_ticks g w
    then max (get_clock_ticks g w - get_clock_ticks g tid + 1000) MIN_CLOCK_SAMPLE_PERIOD
    else hw_sample_period (ce_event (tg_clocks g tid)) + 10000"
  have h: "h = set_sample_period tid (min (bound_overflow_period cfg g tid ?q) MAX_CLOCK_SAMPLE_PERIOD) g"
    using assms(1-6) by (auto simp: logical_clock_update_overflow_period_def Let_def)
  then have p: "p = min (bound_overflow_period cfg g tid ?q) MAX_CLOCK_SAMPLE_PERIOD"
    using assms(7) by simp
  have "p + get_chunk_ticks g tid \<le> IMPRECISE_BOUNDED_CHUNK_SIZE"
    if "use_bounded_fence cfg" "get_chunk_ticks g tid \<le> IMPRECISE_BOUNDED_CHUNK_SIZE"
      "unat (hw_sample_period (ce_event (tg_clocks g tid))) < 2 ^ 62"
      "unat (get_clock_ticks g w - get_clock_ticks g tid) < 2 ^ 62"
  proof (rule bound_overflow_period_le[OF that(1) refl that(2) _ p])
    show "unat ?q < 2 ^ 63"
      using unat_add_small[OF that(3), of 10000] unat_add_small[OF that(4), of 1000]
      by (auto simp: max_def MIN_CLOCK_SAMPLE_PERIOD_def)
  qed
  moreover have "p \<le> max (get_clock_ticks g w - get_clock_ticks g tid + 1000) MIN_CLOCK_SAMPLE_PERIOD"
    if "\<not> use_bounded_fence cfg" "0 \<le> w" "get_clock_ticks g tid < get_clock_ticks g w"
    using that p by (simp add: bound_overflow_period_def)
  moreover have "p \<le> MAX_CLOCK_SAMPLE_PERIOD" using p by simp
  ultimately show ?thesis by blast
qed

theorem overflow_period_bounds_witness:
  "\<exists>h. logical_clock_update_overflow_period count_cfg (sample_ctx 0 False) 0
      (sample_group [0, 4] (\<lambda>i. if i = 0 then 100 else 700) (\<lambda>i. i = 4)) = Inr h \<and>
    hw_sample_period (ce_event (tg_clocks h 0)) \<le> 1600"
proof -
  let ?g = "sample_group [0, 4] (\<lambda>i. if i = 0 then 100 else 700) (\<lambda>i. i = 4)"
  let ?c = "sample_ctx 0 False"
  have "listarray_foreach (tg_active_threads ?g) = Inr [0, 4]"
    by (rule la.elems_repr) (simp add: sample_defs la_index_ok_def la_consts)
  then have w: "search_for_lowest_waiting_exclude_current ?c ?g 0 = Inr 4"
    by (simp add: search_for_lowest_waiting_exclude_current_def search_indices_def lower_of_def
        sample_ctx_def) (simp add: sample_defs)
  then obtain h where h: "logical_clock_update_overflow_period count_cfg ?c 0 ?g = Inr h"
    by (auto simp: logical_clock_update_overflow_period_def count_cfg_def Let_def clock_macros)
  from overflow_period_bounds[OF _ _ _ _ h w refl]
  have "hw_sample_period (ce_event (tg_clocks h 0)) \<le> 1600"
    by (simp add: count_cfg_def clock_macros sample_defs get_clock_ticks_def
        MIN_CLOCK_SAMPLE_PERIOD_def)
  with h show ?thesis by blast
qed

end
