(* ===== verification/Clock_Main.thy ===== *)
theory Clock_Main
  imports Instr_Counting
begin

text \<open>
  The operations of the kernel module, \<open>clock_main.c\<close>: every handler that the patched kernel
  calls for a thread's \<open>ioctl\<close>s, system calls, counter overflows and single-step traps. Each
  handler is one state transformation; where the code leaves its critical section before it
  wakes another thread, the wake-up is a separate definition, so that it can be run in a later
  state. \<open>printk\<close> and the spin lock itself are not modelled.
\<close>

subsection \<open>Choosing and waking the lowest thread\<close>

definition new_lowest :: "kctx \<Rightarrow> task_clock_group \<Rightarrow> int \<Rightarrow> int result" where
  "new_lowest ctx g tid =
     (if tg_lowest_tid g = -1 then search_for_lowest ctx g
      else if tid = tg_lowest_tid g
      then bindR (search_for_lowest ctx g) (\<lambda>tmp. Inr (if tmp \<noteq> tid then tmp else -1))
      else if clock_is_lower g tid (tg_lowest_tid g) then Inr tid
      else Inr (-1))"

definition thread_is_waiting :: "task_clock_group \<Rightarrow> int \<Rightarrow> bool" where
  "thread_is_waiting g tid \<longleftrightarrow> tid \<ge> 0 \<and> ce_waiting (tg_clocks g tid)"

definition is_sleeping :: "task_clock_group \<Rightarrow> int \<Rightarrow> bool" where
  "is_sleeping g tid \<longleftrightarrow> tid \<ge> 0 \<and> ce_sleeping (tg_clocks g tid)"

definition wake_up_waiting_thread :: "int \<Rightarrow> task_clock_group \<Rightarrow> task_clock_group result" where
  "wake_up_waiting_thread tid g =
     (if is_sleeping g (tg_lowest_tid g)
      then Inr (upd_event tid (\<lambda>e. e\<lparr>ev_poll_in := True, ev_wakeups := Suc (ev_wakeups e)\<rparr>) g)
      else if \<not> tg_user_status_mapped g then Inl NullDeref
      else if tg_lowest_tid g < 0 then Inl OutOfBounds
      else Inr (upd_user (tg_lowest_tid g) (\<lambda>u. u\<lparr>us_lowest_clock := True\<rparr>) g))"

text \<open>The common epilogue after the lock is released.\<close>

definition wake_if_found :: "int \<times> task_clock_group \<Rightarrow> task_clock_group result" where
  "wake_if_found r =
     (case r of (lowest_tid, g) \<Rightarrow>
        if lowest_tid \<ge> 0 then wake_up_waiting_thread lowest_tid g else Inr g)"

definition set_new_low :: "int \<Rightarrow> task_clock_group \<Rightarrow> task_clock_group" where
  "set_new_low tid g = g\<lparr>tg_lowest_tid := tid, tg_lowest_ticks := get_clock_ticks g tid\<rparr>"

definition notify_waiting_threads_locked ::
  "kctx \<Rightarrow> task_clock_group \<Rightarrow> (int \<times> task_clock_group) result" where
  "notify_waiting_threads_locked ctx g =
     bindR (search_for_lowest_waiting ctx g) (\<lambda>new_low.
       Inr (if new_low \<ge> 0 \<and> thread_is_waiting g new_low
            then (let g1 = set_new_low new_low g in
                  if tg_notification_needed g1 \<or> tg_nmi_new_low g1
                  then (tg_lowest_tid g1, g1\<lparr>tg_nmi_new_low := False, tg_notification_needed := False\<rparr>)
                  else (-1, g1))
            else (-1, g)))"

definition task_clock_notify_waiting_threads ::
  "kctx \<Rightarrow> task_clock_group \<Rightarrow> task_clock_group result" where
  "task_clock_notify_waiting_threads ctx g =
     bindR (notify_waiting_threads_locked ctx g) wake_if_found"

definition task_clock_notify_waiting_threads_irq ::
  "kctx \<Rightarrow> task_clock_group \<Rightarrow> task_clock_group result" where
  "task_clock_notify_waiting_threads_irq ctx g = task_clock_notify_waiting_threads ctx g"

subsection \<open>Counter overflows\<close>

definition task_clock_entry_overflow_update_period ::
  "kconfig \<Rightarrow> kctx \<Rightarrow> task_clock_group \<Rightarrow> task_clock_group result" where
  "task_clock_entry_overflow_update_period cfg ctx g =
     (if \<not> tick_counter_is_running ctx g then Inr g
      else logical_clock_update_overflow_period cfg ctx (cur_tid ctx)
             (logical_clock_update_clock_ticks cfg ctx (cur_tid ctx) g))"

definition task_clock_overflow_handler ::
  "kconfig \<Rightarrow> kctx \<Rightarrow> task_clock_group \<times> bool \<Rightarrow> (task_clock_group \<times> bool) result" where
  "task_clock_overflow_handler cfg ctx st =
     (case st of (g, regs_tf) \<Rightarrow>
      if \<not> tick_counter_is_running ctx g then Inr (g, regs_tf)
      else
        (let regs_tf1 = (if single_stepping_on cfg g (cur_tid ctx)
                         then bounded_memory_fence_turn_on_tf regs_tf else regs_tf) in
         bindR (new_lowest ctx g (cur_tid ctx)) (\<lambda>new_low.
           Inr (if new_low \<ge> 0 \<and> new_low \<noteq> cur_tid ctx \<and> \<not> tg_nmi_new_low g
                then (if thread_is_waiting g new_low
                      then (g\<lparr>tg_nmi_new_low := True, tg_pending_work := True\<rparr>, regs_tf1)
                      else (g, regs_tf1))
                else (g, regs_tf1)))))"

subsection \<open>Deciding who runs\<close>

definition set_current_thread_to_lowest ::
  "kconfig \<Rightarrow> kctx \<Rightarrow> task_clock_group \<Rightarrow> task_clock_group" where
  "set_current_thread_to_lowest cfg ctx g =
     (let g1 = upd_user (cur_tid ctx) (\<lambda>u. u\<lparr>us_lowest_clock := True\<rparr>) g;
          g2 = g1\<lparr>tg_notification_needed := False\<rparr>;
          g3 = clear_entry_state cfg ctx g2 in
      g3\<lparr>tg_lowest_ticks := get_clock_ticks g3 (cur_tid ctx)\<rparr>)"

definition publish_ticks :: "kctx \<Rightarrow> task_clock_group \<Rightarrow> task_clock_group" where
  "publish_ticks ctx g =
     upd_user (cur_tid ctx) (\<lambda>u. u\<lparr>us_ticks := get_clock_ticks g (cur_tid ctx)\<rparr>) g"

definition determine_lowest_and_notify_or_wait ::
  "kconfig \<Rightarrow> kctx \<Rightarrow> task_clock_group \<Rightarrow> (int \<times> task_clock_group) result" where
  "determine_lowest_and_notify_or_wait cfg ctx g =
     (let tid = cur_tid ctx;
          g1 = publish_ticks ctx g in
      if current_is_only_active_thread ctx g1
      then Inr (-1, set_current_thread_to_lowest cfg ctx
                      (upd_user tid (\<lambda>u. u\<lparr>us_single_active_thread := True\<rparr>) g1))
      else
        (let g2 = upd_clock tid (\<lambda>c. c\<lparr>ce_waiting := True\<rparr>) g1 in
         bindR (search_for_lowest_waiting ctx g2) (\<lambda>new_low.
         let g3 = (if new_low \<noteq> tg_lowest_tid g2
                   then g2\<lparr>tg_notification_needed := True, tg_lowest_tid := new_low\<rparr> else g2);
             (thread_to_wakeup, g4) =
               (if new_low \<ge> 0 \<and> tg_lowest_tid g3 = tid
                then (-1, set_current_thread_to_lowest cfg ctx g3)
                else
                  (let g3' = upd_user tid (\<lambda>u. u\<lparr>us_lowest_clock := False\<rparr>) g3 in
                   if thread_is_waiting g3' (tg_lowest_tid g3') \<and> tg_notification_needed g3'
                   then (tg_lowest_tid g3',
                         g3'\<lparr>tg_nmi_new_low := False, tg_notification_needed := False\<rparr>)
                   else (-1, g3')));
             g5 = (if tg_lowest_tid g4 \<ge> 0
                   then g4\<lparr>tg_lowest_ticks := get_clock_ticks g4 (tg_lowest_tid g4)\<rparr> else g4)
         in Inr (thread_to_wakeup, g5))))"

text \<open>What the handlers do with it: decide under the lock, then wake.\<close>

definition decide_and_wake :: "kconfig \<Rightarrow> kctx \<Rightarrow> task_clock_group \<Rightarrow> task_clock_group result" where
  "decide_and_wake cfg ctx g =
     bindR (determine_lowest_and_notify_or_wait cfg ctx g) wake_if_found"

subsection \<open>Handlers of the thread library's calls\<close>

definition task_clock_on_disable ::
  "kconfig \<Rightarrow> kctx \<Rightarrow> task_clock_group \<Rightarrow> task_clock_group result" where
  "task_clock_on_disable cfg ctx g =
     (let tid = cur_tid ctx;
          g1 = (if single_stepping_on cfg g tid then end_bounded_memory_fence_early cfg ctx g else g) in
      bindR (if tick_counter_is_running ctx g1
             then Inr (tick_counter_turn_off ctx (logical_clock_update_clock_ticks cfg ctx tid g1))
             else logical_clock_reset_current_ticks cfg ctx tid g1) (\<lambda>g2.
      decide_and_wake cfg ctx (g2\<lparr>tg_notification_needed := True\<rparr>)))"

definition task_clock_add_ticks ::
  "kconfig \<Rightarrow> kctx \<Rightarrow> int \<Rightarrow> task_clock_group \<Rightarrow> task_clock_group result" where
  "task_clock_add_ticks cfg ctx ticks g =
     decide_and_wake cfg ctx
       (publish_ticks ctx (inc_clock_ticks_no_chunk_add (cur_tid ctx) (word_of_int ticks) g))"

definition task_clock_on_enable ::
  "kconfig \<Rightarrow> kctx \<Rightarrow> task_clock_group \<Rightarrow> task_clock_group result" where
  "task_clock_on_enable cfg ctx g =
     (let tid = cur_tid ctx;
          g1 = tick_counter_turn_on ctx (reset_chunk_ticks tid g);
          g2 = logical_clock_reset_overflow_period cfg ctx tid g1 in
      bindR (logical_clock_update_overflow_period cfg ctx tid g2) (\<lambda>g3.
      let g4 = (if ce_userspace_reading (tg_clocks g3 tid)
                then logical_clock_set_perf_counter cfg tid
                       (upd_clock tid (\<lambda>c. c\<lparr>ce_userspace_reading := False\<rparr>) g3)
                else g3) in
      bindR (determine_lowest_and_notify_or_wait cfg ctx g4) (\<lambda>(lowest_tid, g5).
      let g6 = (if tg_lowest_tid g5 = tid
                then g5\<lparr>tg_notification_needed := True, tg_nmi_new_low := False\<rparr> else g5) in
      wake_if_found (lowest_tid, clear_entry_state cfg ctx g6))))"

definition init_task_clock_entries :: "int \<Rightarrow> task_clock_group \<Rightarrow> task_clock_group" where
  "init_task_clock_entries max_threads g =
     g\<lparr>tg_clocks := (\<lambda>i. if 0 \<le> i \<and> i < max_threads
        then (tg_clocks g i)\<lparr>ce_initialized := False, ce_waiting := False, ce_sleeping := False,
               ce_inactive := False, ce_ticks := 0\<rparr>
        else tg_clocks g i)\<rparr>"

text \<open>
  The page-table walk is the kernel's: its four steps are arguments, each of which may find
  nothing.
\<close>

definition pte_get_entry_from_address ::
  "('mm \<Rightarrow> u64 \<Rightarrow> 'pgd option) \<Rightarrow> ('mm \<Rightarrow> 'pgd \<Rightarrow> u64 \<Rightarrow> 'pud option) \<Rightarrow>
   ('mm \<Rightarrow> 'pud \<Rightarrow> u64 \<Rightarrow> 'pmd option) \<Rightarrow> ('mm \<Rightarrow> 'pmd \<Rightarrow> u64 \<Rightarrow> 'pte option) \<Rightarrow>
   'mm \<Rightarrow> u64 \<Rightarrow> 'pte option" where
  "pte_get_entry_from_address pgd_offset pud_alloc pmd_alloc pte_alloc_map mm addr =
     (case pgd_offset mm addr of None \<Rightarrow> None
      | Some pgd \<Rightarrow> (case pud_alloc mm pgd addr of None \<Rightarrow> None
      | Some pud \<Rightarrow> (case pmd_alloc mm pud addr of None \<Rightarrow> None
      | Some pmd \<Rightarrow> pte_alloc_map mm pmd addr)))"

text \<open>
  The page \<open>task_clock_entry_init\<close> maps for the user statuses, and the offset of thread 0's
  status in it, from the address thread 0 registered; \<open>page_align\<close> is the kernel's \<open>PAGE_ALIGN\<close>.
\<close>

definition user_status_page :: "(u64 \<Rightarrow> u64) \<Rightarrow> u64 \<Rightarrow> u64 \<times> u32" where
  "user_status_page page_align user_status =
     (let user_page_addr = page_align user_status - 4096
      in (user_page_addr, ucast (user_status - user_page_addr)))"

definition task_clock_entry_init ::
  "kconfig \<Rightarrow> kctx \<Rightarrow> 'pte option \<Rightarrow> perf_event \<Rightarrow> task_clock_group \<Rightarrow> task_clock_group result" where
  "task_clock_entry_init cfg ctx the_pte event g =
     (let tid = cur_tid ctx;
          g1 = (if \<not> ce_initialized (tg_clocks g tid)
                then upd_clock tid (\<lambda>c. c\<lparr>ce_ticks := 0, ce_base_ticks := 0\<rparr>) g else g);
          g2 = upd_clock tid (\<lambda>c. c\<lparr>ce_initialized := True, ce_userspace_reading := False,
                                    ce_event := event, ce_count_ticks := 0\<rparr>) g1;
          g3 = tick_counter_turn_off ctx (clear_entry_state cfg ctx (reset_chunk_ticks tid g2)) in
      bindR (if tid = 0 \<and> \<not> tg_user_status_mapped g3
             then (case the_pte of None \<Rightarrow> Inl BugOn
                   | Some pte \<Rightarrow> Inr (g3\<lparr>tg_user_status_mapped := True\<rparr>))
             else Inr g3) (\<lambda>g4.
      Inr (upd_user tid (\<lambda>u. u\<lparr>us_hwc_idx := -1\<rparr>) g4)))"

text \<open>The argument is the memory \<open>kmalloc\<close> returns, in any state.\<close>

definition task_clock_group_init :: "int \<Rightarrow> task_clock_group \<Rightarrow> task_clock_group" where
  "task_clock_group_init max_threads g =
     (let g1 = g\<lparr>tg_lowest_tid := -1, tg_lowest_ticks := 0, tg_notification_needed := True,
                 tg_nmi_new_low := False, tg_user_status_mapped := False,
                 tg_active_threads := listarray_init (tg_active_threads g)\<rparr>
      in (init_task_clock_entries max_threads g1)\<lparr>tg_pending_work := False\<rparr>)"

definition task_clock_entry_halt ::
  "kconfig \<Rightarrow> kctx \<Rightarrow> task_clock_group \<Rightarrow> task_clock_group result" where
  "task_clock_entry_halt cfg ctx g =
     bindR (mark_as_inactive (cur_tid ctx) g) (\<lambda>g1.
     bindR (determine_lowest_and_notify_or_wait cfg ctx g1) (\<lambda>(lowest_tid, g2).
     wake_if_found (lowest_tid, upd_clock (cur_tid ctx) (\<lambda>c. c\<lparr>ce_waiting := False\<rparr>) g2)))"

definition task_clock_entry_activate ::
  "kconfig \<Rightarrow> kctx \<Rightarrow> task_clock_group \<Rightarrow> task_clock_group result" where
  "task_clock_entry_activate cfg ctx g =
     (let tid = cur_tid ctx;
          g1 = reset_chunk_ticks tid (clear_entry_state cfg ctx g) in
      bindR (mark_as_active tid g1) (\<lambda>g2.
      let g3 = logical_clock_reset_overflow_period cfg ctx tid g2 in
      bindR (logical_clock_update_overflow_period cfg ctx tid g3) (\<lambda>g4.
      let g5 = upd_user tid (\<lambda>u. u\<lparr>us_notifying_id := 0, us_notifying_clock := 666,
                 us_notifying_sample := 666, us_hit_bounded_fence := False\<rparr>) g4;
          g6 = upd_clock tid (\<lambda>c. c\<lparr>ce_userspace_reading := False\<rparr>) g5 in
      bindR (new_lowest ctx g6 tid) (\<lambda>new_low.
      Inr (if new_low \<ge> 0 \<and> new_low = tid
           then upd_user tid (\<lambda>u. u\<lparr>us_lowest_clock := True\<rparr>)
                  (g6\<lparr>tg_notification_needed := False, tg_lowest_tid := new_low\<rparr>)
           else g6)))))"

definition task_clock_entry_activate_other ::
  "kctx \<Rightarrow> int \<Rightarrow> task_clock_group \<Rightarrow> task_clock_group result" where
  "task_clock_entry_activate_other ctx tid g =
     (let g1 = (if \<not> ce_initialized (tg_clocks g tid)
                then upd_clock tid (\<lambda>c. c\<lparr>ce_base_ticks := get_clock_ticks g (cur_tid ctx) + 1,
                                          ce_ticks := 0\<rparr>) g
                else g);
          g2 = upd_clock tid (\<lambda>c. c\<lparr>ce_initialized := True\<rparr>) g1;
          g3 = clear_entry_state_by_id ctx tid g2 in
      bindR (mark_as_active tid g3) (\<lambda>g4.
      let g5 = reset_chunk_ticks tid g4 in
      Inr (if tg_lowest_tid g5 < 0 \<or> clock_is_lower g5 tid (tg_lowest_tid g5)
           then upd_user (cur_tid ctx) (\<lambda>u. u\<lparr>us_activated_lowest := True\<rparr>) g5
           else g5)))"

definition task_clock_entry_wait ::
  "kconfig \<Rightarrow> kctx \<Rightarrow> task_clock_group \<Rightarrow> task_clock_group result" where
  "task_clock_entry_wait cfg ctx g = decide_and_wake cfg ctx g"

definition task_clock_entry_reset :: "kctx \<Rightarrow> task_clock_group \<Rightarrow> task_clock_group" where
  "task_clock_entry_reset ctx = upd_clock (cur_tid ctx) (\<lambda>c. c\<lparr>ce_initialized := False\<rparr>)"

definition task_clock_entry_sleep ::
  "kconfig \<Rightarrow> kctx \<Rightarrow> task_clock_group \<Rightarrow> task_clock_group result" where
  "task_clock_entry_sleep cfg ctx g =
     bindR (determine_lowest_and_notify_or_wait cfg ctx g) (\<lambda>(lowest_tid, g1).
     wake_if_found (lowest_tid,
       (if ce_waiting (tg_clocks g1 (cur_tid ctx))
        then upd_clock (cur_tid ctx) (\<lambda>c. c\<lparr>ce_sleeping := True\<rparr>) g1 else g1)))"

definition task_clock_entry_woke_up :: "kctx \<Rightarrow> task_clock_group \<Rightarrow> task_clock_group" where
  "task_clock_entry_woke_up ctx =
     upd_clock (cur_tid ctx) (\<lambda>c. c\<lparr>ce_sleeping := False, ce_waiting := False\<rparr>)"

definition task_clock_entry_stop ::
  "kconfig \<Rightarrow> kctx \<Rightarrow> task_clock_group \<Rightarrow> task_clock_group result" where
  "task_clock_entry_stop cfg ctx g =
     (let g1 = (if single_stepping_on cfg g (cur_tid ctx)
                then end_bounded_memory_fence_early cfg ctx g else g) in
      bindR (logical_clock_read_clock_and_update cfg ctx (cur_tid ctx) g1) (decide_and_wake cfg ctx))"

definition task_clock_entry_stop_no_notify ::
  "kconfig \<Rightarrow> kctx \<Rightarrow> task_clock_group \<Rightarrow> task_clock_group result" where
  "task_clock_entry_stop_no_notify cfg ctx g =
     logical_clock_read_clock_and_update cfg ctx (cur_tid ctx) g"

definition task_clock_entry_start ::
  "kconfig \<Rightarrow> kctx \<Rightarrow> task_clock_group \<Rightarrow> task_clock_group result" where
  "task_clock_entry_start cfg ctx g =
     bindR (logical_clock_reset_current_ticks cfg ctx (cur_tid ctx)
              (upd_user (cur_tid ctx) (\<lambda>u. u\<lparr>us_notifying_id := 0\<rparr>) g))
       (task_clock_on_enable cfg ctx)"

definition task_clock_entry_start_no_notify ::
  "kconfig \<Rightarrow> kctx \<Rightarrow> task_clock_group \<Rightarrow> task_clock_group result" where
  "task_clock_entry_start_no_notify cfg ctx g =
     bindR (logical_clock_reset_current_ticks cfg ctx (cur_tid ctx)
              (upd_clock (cur_tid ctx) (\<lambda>c. c\<lparr>ce_userspace_reading := True\<rparr>) g)) (\<lambda>g1.
     Inr (upd_user (cur_tid ctx) (\<lambda>u. u\<lparr>us_notifying_id := 666\<rparr>)
            (tick_counter_turn_off ctx
              (logical_clock_set_perf_counter_max cfg (cur_tid ctx) g1))))"

definition task_clock_entry_is_singlestep ::
  "kconfig \<Rightarrow> kctx \<Rightarrow> task_clock_group \<times> bool \<Rightarrow> int \<times> task_clock_group \<times> bool" where
  "task_clock_entry_is_singlestep cfg ctx st = on_single_step cfg ctx st"

subsection \<open>Loading and unloading the module\<close>

text \<open>The slots of the kernel's \<open>task_clock_func\<close> table; \<open>True\<close>: points into the module.\<close>

datatype hook = Overflow_Handler | Group_Init | Entry_Init | Entry_Activate | Entry_Halt
  | On_Disable | On_Enable | Entry_Activate_Other | Entry_Wait | Entry_Sleep
  | Overflow_Update_Period | Add_Ticks | Entry_Woke_Up | Debug_Add_Event | Entry_Stop
  | Entry_Start | Entry_Reset | Entry_Start_No_Notify | Entry_Stop_No_Notify | Entry_Is_Singlestep

definition module_init :: "kconfig \<Rightarrow> (hook \<Rightarrow> bool) \<Rightarrow> (hook \<Rightarrow> bool) result" where
  "module_init cfg task_clock_func =
     (if use_bounded_fence cfg \<and> BOUNDED_CHUNK_SIZE < MAX_CLOCK_SAMPLE_PERIOD then Inl BugOn
      else Inr (task_clock_func(
        Overflow_Handler := True, Group_Init := True, Entry_Init := True, Entry_Activate := True,
        Entry_Halt := True, On_Disable := True, On_Enable := True, Entry_Activate_Other := True,
        Entry_Wait := True, Entry_Sleep := True, Overflow_Update_Period := True,
        Add_Ticks := True, Entry_Woke_Up := True, Debug_Add_Event := False, Entry_Stop := True,
        Entry_Start := True, Entry_Reset := True, Entry_Start_No_Notify := True,
        Entry_Stop_No_Notify := True, Entry_Is_Singlestep := use_bounded_fence cfg)))"

definition module_cleanup :: "(hook \<Rightarrow> bool) \<Rightarrow> (hook \<Rightarrow> bool)" where
  "module_cleanup task_clock_func = task_clock_func(
     Overflow_Handler := False, Group_Init := False, Entry_Init := False, Entry_Activate := False,
     Entry_Halt := False, On_Disable := False, On_Enable := False, Entry_Activate_Other := False,
     Entry_Wait := False, Add_Ticks := False, Entry_Woke_Up := False, Debug_Add_Event := False,
     Entry_Stop := False, Entry_Start := False, Entry_Is_Singlestep := False)"

end
