(* ===== verification/Clock_Decision.thy ===== *)
theory Clock_Decision
  imports Clock_Main
begin

text \<open>
  What the decision at the heart of the module guarantees: after
  \<open>__determine_lowest_and_notify_or_wait\<close> the calling thread is told that it may run exactly
  when no active thread has a lower clock, and the one other thread that may run is woken. The
  reference for both is the least candidate of the active list.
\<close>

subsection \<open>Frames\<close>

text \<open>\<open>same_clocks g g'\<close>: the logical clocks and the candidates are the same in both states.\<close>

definition same_clocks :: "task_clock_group \<Rightarrow> task_clock_group \<Rightarrow> bool" where
  "same_clocks g g' \<longleftrightarrow> (\<forall>i. get_clock_ticks g' i = get_clock_ticks g i \<and>
     candidate g' i = candidate g i)"

lemma same_clocks_lowest_of:
  "same_clocks g g' \<Longrightarrow>
   lowest_of g' {i \<in> S. candidate g' i} m \<longleftrightarrow> lowest_of g {i \<in> S. candidate g i} m"
  by (auto simp: same_clocks_def lowest_of_def clock_is_lower_def)

lemma get_clock_ticks_upd_user [simp]: "get_clock_ticks (upd_user t f g) i = get_clock_ticks g i"
  by (simp add: get_clock_ticks_def)

lemma candidate_upd_user [simp]: "candidate (upd_user t f g) i = candidate g i"
  by (simp add: candidate_def)

lemma set_current_thread_to_lowest_simps [simp]:
  fixes cfg ctx g
  defines "g' \<equiv> set_current_thread_to_lowest cfg ctx g"
  shows "tg_lowest_tid g' = tg_lowest_tid g"
    "tg_active_threads g' = tg_active_threads g"
    "tg_notification_needed g' = False"
    "tg_user_status_mapped g' = tg_user_status_mapped g"
    "tg_nmi_new_low g' = tg_nmi_new_low g"
    "tg_lowest_ticks g' = get_clock_ticks g (cur_tid ctx)"
    "tg_clocks g' = (tg_clocks g)(cur_tid ctx := (tg_clocks g (cur_tid ctx))
       \<lparr>ce_inactive := False, ce_waiting := False, ce_sleeping := False\<rparr>)"
    "us_lowest_clock (tg_user_status g' t) =
       (t = cur_tid ctx \<or> us_lowest_clock (tg_user_status g t))"
    "us_ticks (tg_user_status g' t) = us_ticks (tg_user_status g t)"
  by (auto simp: g'_def set_current_thread_to_lowest_def clock_macros get_clock_ticks_def Let_def)

lemma publish_ticks_simps [simp]:
  "tg_lowest_tid (publish_ticks ctx g) = tg_lowest_tid g"
  "tg_active_threads (publish_ticks ctx g) = tg_active_threads g"
  "tg_notification_needed (publish_ticks ctx g) = tg_notification_needed g"
  "tg_user_status_mapped (publish_ticks ctx g) = tg_user_status_mapped g"
  "tg_clocks (publish_ticks ctx g) = tg_clocks g"
  "us_lowest_clock (tg_user_status (publish_ticks ctx g) t) =
     us_lowest_clock (tg_user_status g t)"
  "us_ticks (tg_user_status (publish_ticks ctx g) t) =
     (if t = cur_tid ctx then get_clock_ticks g t else us_ticks (tg_user_status g t))"
  by (auto simp: publish_ticks_def)

subsection \<open>The decision\<close>

text \<open>
  The outcome of the decision, in terms of the least candidate \<open>low\<close>: whether the caller may
  run, which thread is to be woken, and what changes in the clock entries and statuses.
\<close>

definition decided :: "kctx \<Rightarrow> task_clock_group \<Rightarrow> int \<Rightarrow> int \<Rightarrow> task_clock_group \<Rightarrow> bool" where
  "decided ctx g low w g' \<longleftrightarrow>
     (let tid = cur_tid ctx in
      us_lowest_clock (tg_user_status g' tid) = (low = tid) \<and>
      (\<forall>t. t \<noteq> tid \<longrightarrow> us_lowest_clock (tg_user_status g' t) = us_lowest_clock (tg_user_status g t)) \<and>
      w = (if low \<ge> 0 \<and> low \<noteq> tid \<and> ce_waiting (tg_clocks g low) \<and>
              (tg_notification_needed g \<or> low \<noteq> tg_lowest_tid g) then low else -1) \<and>
      (low \<noteq> tid \<longrightarrow> tg_lowest_tid g' =
         (if low \<ge> 0 \<and> (ce_waiting (tg_clocks g low) \<or> stack_garbage ctx low = 1)
          then low else -1)) \<and>
      us_ticks (tg_user_status g' tid) = get_clock_ticks g tid \<and>
      ce_waiting (tg_clocks g' tid) = (low \<noteq> tid) \<and>
      ce_inactive (tg_clocks g' tid) = (ce_inactive (tg_clocks g tid) \<and> low \<noteq> tid) \<and>
      (\<forall>t. t \<noteq> tid \<longrightarrow> tg_clocks g' t = tg_clocks g t) \<and>
      (\<forall>t. get_clock_ticks g' t = get_clock_ticks g t) \<and>
      (\<forall>t. ce_initialized (tg_clocks g' t) = ce_initialized (tg_clocks g t)) \<and>
      tg_active_threads g' = tg_active_threads g \<and>
      tg_user_status_mapped g' = tg_user_status_mapped g)"

lemma determine_lowest_alone:
  assumes "current_is_only_active_thread ctx g"
  shows "\<exists>w g'. determine_lowest_and_notify_or_wait cfg ctx g = Inr (w, g') \<and>
    decided ctx g (cur_tid ctx) w g'"
  using assms
  by (auto simp: determine_lowest_and_notify_or_wait_def current_is_only_active_thread_def
      decided_def get_clock_ticks_def Let_def)

lemma search_after_waiting:
  assumes abs: "la_abs (tg_active_threads g) xs" and nmi: "\<not> in_nmi ctx"
    and small: "\<forall>i \<in> set xs. i < THREAD_ARR_SIZE"
    and low: "lowest_of g {i \<in> set xs. candidate g i} low"
  defines "g2 \<equiv> upd_clock (cur_tid ctx) (\<lambda>c. c\<lparr>ce_waiting := True\<rparr>) (publish_ticks ctx g)"
  shows "search_for_lowest_waiting ctx g2 = Inr (if low \<ge> 0 \<and> (low = cur_tid ctx \<or>
     ce_waiting (tg_clocks g low) \<or> stack_garbage ctx low = 1) then low else -1)"
proof -
  have "same_clocks g g2"
    by (auto simp: same_clocks_def g2_def get_clock_ticks_def candidate_def)
  then have "lowest_of g2 {i \<in> set xs. candidate g2 i} low"
    using low by (simp add: same_clocks_lowest_of)
  moreover have "la_abs (tg_active_threads g2) xs" by (simp add: g2_def abs)
  ultimately have "search_for_lowest_waiting ctx g2 =
      Inr (if low \<ge> 0 \<and> (ce_waiting (tg_clocks g2 low) \<or> stack_garbage ctx low = 1) then low else -1)"
    using nmi small by (intro search_for_lowest_waiting_list)
  then show ?thesis by (simp add: g2_def)
qed

lemma determine_lowest_contended:
  assumes F: "\<not> current_is_only_active_thread ctx (publish_ticks ctx g)"
    and n: "search_for_lowest_waiting ctx
      (upd_clock (cur_tid ctx) (\<lambda>c. c\<lparr>ce_waiting := True\<rparr>) (publish_ticks ctx g)) =
      Inr (if low \<ge> 0 \<and> (low = cur_tid ctx \<or> ce_waiting (tg_clocks g low) \<or>
             stack_garbage ctx low = 1) then low else -1)"
    and tid: "0 \<le> cur_tid ctx" and "low = -1 \<or> 0 \<le> low"
  shows "\<exists>w g'. determine_lowest_and_notify_or_wait cfg ctx g = Inr (w, g') \<and> decided ctx g low w g'"
proof (cases "low = cur_tid ctx")
  case True
  then show ?thesis
    using assms
    by (simp add: determine_lowest_and_notify_or_wait_def decided_def get_clock_ticks_def Let_def)
next
  case False
  let ?h = "\<lambda>b. (0 \<le> low \<and> (ce_waiting (tg_clocks g low) \<or> stack_garbage ctx low = 1)) = b"
  show ?thesis
  proof (cases "?h True")
    case T: True
    then show ?thesis
      using assms False
      by (cases "ce_waiting (tg_clocks g low)"; cases "low = tg_lowest_tid g";
          cases "tg_notification_needed g")
         (auto simp: determine_lowest_and_notify_or_wait_def decided_def thread_is_waiting_def
            get_clock_ticks_def Let_def)
  next
    case T: False
    then show ?thesis
      using assms False
      by (cases "tg_lowest_tid g = -1"; cases "tg_notification_needed g")
         (auto simp: determine_lowest_and_notify_or_wait_def decided_def thread_is_waiting_def
            get_clock_ticks_def Let_def)
  qed
qed

lemma determine_lowest_decided:
  assumes abs: "la_abs (tg_active_threads g) xs" and nmi: "\<not> in_nmi ctx"
    and small: "\<forall>i \<in> set xs. i < THREAD_ARR_SIZE" and tid: "0 \<le> cur_tid ctx"
    and member: "cur_tid ctx \<in> set xs \<longleftrightarrow> \<not> ce_inactive (tg_clocks g (cur_tid ctx))"
    and init: "cur_tid ctx \<in> set xs \<Longrightarrow> ce_initialized (tg_clocks g (cur_tid ctx))"
    and low: "lowest_of g {i \<in> set xs. candidate g i} low"
  shows "\<exists>w g'. determine_lowest_and_notify_or_wait cfg ctx g = Inr (w, g') \<and> decided ctx g low w g'"
proof (cases "current_is_only_active_thread ctx g")
  case True
  then have "xs = [cur_tid ctx]"
    using la.count_one[OF abs] member by (auto simp: current_is_only_active_thread_def)
  then have "low = cur_tid ctx"
    using low init member by (auto simp: lowest_of_def candidate_def)
  then show ?thesis using determine_lowest_alone[OF True] by simp
next
  case False
  then have F: "\<not> current_is_only_active_thread ctx (publish_ticks ctx g)"
    by (simp add: current_is_only_active_thread_def)
  have "low = -1 \<or> 0 \<le> low"
    using low la_abs_nonneg[OF abs] by (auto simp: lowest_of_def)
  then show ?thesis
    by (intro determine_lowest_contended[OF F search_after_waiting[OF abs nmi small low] tid])
qed

subsection \<open>Calls on a well-formed group\<close>

text \<open>
  The state in which the thread library makes its calls: the active list is well formed and
  holds small identifiers, the caller is in it exactly when it is not marked inactive, and the
  page of user statuses is mapped.
\<close>

definition wf_call :: "kctx \<Rightarrow> task_clock_group \<Rightarrow> int list \<Rightarrow> bool" where
  "wf_call ctx g xs \<longleftrightarrow>
     la_abs (tg_active_threads g) xs \<and> \<not> in_nmi ctx \<and> (\<forall>i \<in> set xs. i < THREAD_ARR_SIZE) \<and>
     0 \<le> cur_tid ctx \<and> (cur_tid ctx \<in> set xs \<longleftrightarrow> \<not> ce_inactive (tg_clocks g (cur_tid ctx))) \<and>
     (cur_tid ctx \<in> set xs \<longrightarrow> ce_initialized (tg_clocks g (cur_tid ctx))) \<and>
     tg_user_status_mapped g"

lemma wf_call_decided:
  assumes "wf_call ctx g xs" "lowest_of g {i \<in> set xs. candidate g i} low"
  obtains w g' where "determine_lowest_and_notify_or_wait cfg ctx g = Inr (w, g')"
    "decided ctx g low w g'"
  using assms determine_lowest_decided[of g xs ctx low cfg] by (auto simp: wf_call_def)

lemma lowest_of_exists:
  assumes "la_abs (tg_active_threads g) xs"
  obtains low where "lowest_of g {i \<in> set xs. candidate g i} low"
  using foldl_lowest_of[OF la_abs_nonneg[OF assms]] by blast

lemma lowest_of_range:
  "la_abs (tg_active_threads g) xs \<Longrightarrow> lowest_of g {i \<in> set xs. candidate g i} low \<Longrightarrow>
   low = -1 \<or> 0 \<le> low"
  using la_abs_nonneg[of "tg_active_threads g" xs] by (auto simp: lowest_of_def)

text \<open>A thread has been told: its flag is set, or its wait queue has been polled once more.\<close>

definition told :: "task_clock_group \<Rightarrow> task_clock_group \<Rightarrow> int \<Rightarrow> bool" where
  "told g g' t \<longleftrightarrow>
     (if ce_sleeping (tg_clocks g t)
      then ev_poll_in (ce_event (tg_clocks g' t)) \<and>
        ev_wakeups (ce_event (tg_clocks g' t)) = Suc (ev_wakeups (ce_event (tg_clocks g t)))
      else us_lowest_clock (tg_user_status g' t))"

definition decided_woken :: "kctx \<Rightarrow> task_clock_group \<Rightarrow> int \<Rightarrow> task_clock_group \<Rightarrow> bool" where
  "decided_woken ctx g low g' \<longleftrightarrow>
     (us_lowest_clock (tg_user_status g' (cur_tid ctx)) \<longleftrightarrow> low = cur_tid ctx) \<and>
     (low \<ge> 0 \<and> low \<noteq> cur_tid ctx \<and> ce_waiting (tg_clocks g low) \<and>
        (tg_notification_needed g \<or> low \<noteq> tg_lowest_tid g) \<longrightarrow> told g g' low) \<and>
     (\<forall>t. t \<noteq> cur_tid ctx \<longrightarrow> t \<noteq> low \<longrightarrow>
        us_lowest_clock (tg_user_status g' t) = us_lowest_clock (tg_user_status g t)) \<and>
     (\<forall>t. get_clock_ticks g' t = get_clock_ticks g t)"

lemma decide_and_wake_ok:
  assumes wf: "wf_call ctx g xs" and low: "lowest_of g {i \<in> set xs. candidate g i} low"
  shows "\<exists>g'. decide_and_wake cfg ctx g = Inr g' \<and> decided_woken ctx g low g' \<and>
    tg_active_threads g' = tg_active_threads g \<and>
    (\<forall>t. ce_waiting (tg_clocks g' t) =
       (if t = cur_tid ctx then low \<noteq> t else ce_waiting (tg_clocks g t)))"
proof -
  obtain w g' where d: "determine_lowest_and_notify_or_wait cfg ctx g = Inr (w, g')"
    "decided ctx g low w g'"
    using wf_call_decided[OF assms] .
  have r: "low = -1 \<or> 0 \<le> low" using lowest_of_range low wf by (auto simp: wf_call_def)
  show ?thesis
  proof (cases "w = -1")
    case True
    then show ?thesis
      using d wf by (auto simp: decide_and_wake_def decided_def decided_woken_def wake_if_found_def
          Let_def split: if_splits)
  next
    case False
    then have w: "w = low" "low \<ge> 0" "low \<noteq> cur_tid ctx" "ce_waiting (tg_clocks g low)"
        "tg_lowest_tid g' = low" "tg_clocks g' low = tg_clocks g low"
      using d(2) r by (auto simp: decided_def Let_def split: if_splits)
    then show ?thesis
      using d wf
      by (auto simp: decide_and_wake_def wake_if_found_def wake_up_waiting_thread_def
          decided_woken_def decided_def told_def is_sleeping_def upd_event_def get_clock_ticks_def
          wf_call_def Let_def)
  qed
qed

lemma decided_wf_call:
  assumes wf: "wf_call ctx g xs" and low: "lowest_of g {i \<in> set xs. candidate g i} low"
    and d: "decided ctx g low w g'"
  shows "wf_call ctx g' xs"
proof -
  have "low = cur_tid ctx \<Longrightarrow> \<not> ce_inactive (tg_clocks g (cur_tid ctx))"
    using low wf by (auto simp: lowest_of_def wf_call_def candidate_def)
  then show ?thesis
    using wf d by (auto simp: wf_call_def decided_def Let_def)
qed

lemma wake_if_found_wf_call:
  "wake_if_found (w, g) = Inr g' \<Longrightarrow> wf_call ctx g xs \<Longrightarrow> wf_call ctx g' xs"
  by (auto simp: wake_if_found_def wake_up_waiting_thread_def wf_call_def upd_event_def
      split: if_splits)

lemma decide_and_wake_wf_call:
  assumes wf: "wf_call ctx g xs" and run: "decide_and_wake cfg ctx g = Inr g'"
  shows "wf_call ctx g' xs"
proof -
  obtain low where low: "lowest_of g {i \<in> set xs. candidate g i} low"
    using lowest_of_exists wf by (auto simp: wf_call_def)
  obtain w h where h: "determine_lowest_and_notify_or_wait cfg ctx g = Inr (w, h)"
    "decided ctx g low w h"
    using wf_call_decided[OF wf low] .
  then show ?thesis
    using decided_wf_call[OF wf low h(2)] run wake_if_found_wf_call
    by (auto simp: decide_and_wake_def)
qed

lemma wake_if_found_us_ticks:
  "wake_if_found (w, g) = Inr g' \<Longrightarrow>
   us_ticks (tg_user_status g' t) = us_ticks (tg_user_status g t)"
  by (auto simp: wake_if_found_def wake_up_waiting_thread_def upd_event_def split: if_splits)

lemma decide_and_wake_us_ticks:
  assumes wf: "wf_call ctx g xs" and run: "decide_and_wake cfg ctx g = Inr g'"
  shows "us_ticks (tg_user_status g' (cur_tid ctx)) = get_clock_ticks g (cur_tid ctx)"
proof -
  obtain low where low: "lowest_of g {i \<in> set xs. candidate g i} low"
    using lowest_of_exists wf by (auto simp: wf_call_def)
  obtain w h where h: "determine_lowest_and_notify_or_wait cfg ctx g = Inr (w, h)"
    "decided ctx g low w h"
    using wf_call_decided[OF wf low] .
  then show ?thesis
    using wake_if_found_us_ticks[of w h g' "cur_tid ctx"] run
    by (simp add: decide_and_wake_def decided_def Let_def)
qed

end
