(* ===== verification/Clock_Properties.thy ===== *)
theory Clock_Properties
  imports Clock_Decision
begin

text \<open>
  The handlers as a whole: what each call promises the thread that makes it and the thread it
  wakes, the faults a call can end in, and the invariant of the group that every sequence of
  calls keeps.
\<close>

subsection \<open>Counting changes no scheduling state\<close>

definition same_sched :: "task_clock_group \<Rightarrow> task_clock_group \<Rightarrow> bool" where
  "same_sched g g' \<longleftrightarrow>
     tg_active_threads g' = tg_active_threads g \<and> tg_lowest_tid g' = tg_lowest_tid g \<and>
     tg_user_status_mapped g' = tg_user_status_mapped g \<and>
     (\<forall>i. ce_initialized (tg_clocks g' i) = ce_initialized (tg_clocks g i) \<and>
          ce_inactive (tg_clocks g' i) = ce_inactive (tg_clocks g i) \<and>
          ce_waiting (tg_clocks g' i) = ce_waiting (tg_clocks g i) \<and>
          ce_sleeping (tg_clocks g' i) = ce_sleeping (tg_clocks g i) \<and>
          us_lowest_clock (tg_user_status g' i) = us_lowest_clock (tg_user_status g i))"

named_theorems same_sched_intros \<open>operations that only count\<close>

lemma same_sched_refl [same_sched_intros]: "same_sched g g"
  by (simp add: same_sched_def)

lemma same_sched_trans: "same_sched g h \<Longrightarrow> same_sched h k \<Longrightarrow> same_sched g k"
  by (simp add: same_sched_def)

lemma same_sched_upd_clock [same_sched_intros]:
  assumes "\<And>c. ce_initialized (f c) = ce_initialized c \<and> ce_inactive (f c) = ce_inactive c \<and>
    ce_waiting (f c) = ce_waiting c \<and> ce_sleeping (f c) = ce_sleeping c"
  shows "same_sched g (upd_clock t f g)"
  using assms by (simp add: same_sched_def)

lemma same_sched_upd_user [same_sched_intros]:
  assumes "\<And>u. us_lowest_clock (f u) = us_lowest_clock u"
  shows "same_sched g (upd_user t f g)"
  using assms by (simp add: same_sched_def)

lemma same_sched_inc_clock_ticks [same_sched_intros]: "same_sched g (inc_clock_ticks cfg ctx t v g)"
  by (simp add: same_sched_def fence_defs clock_macros force_sigusr1_def set_trap_flag_def Let_def)

lemma same_sched_end_fence [same_sched_intros]:
  "same_sched g (end_bounded_memory_fence_early cfg ctx g)"
  by (simp add: same_sched_def fence_defs clock_macros set_trap_flag_def)

lemma same_sched_macros [same_sched_intros]:
  "same_sched g (tick_counter_turn_off ctx g)"
  "same_sched g (tick_counter_turn_on ctx g)"
  "same_sched g (reset_chunk_ticks t g)"
  "same_sched g (inc_clock_ticks_no_chunk_add t v g)"
  "same_sched g (upd_event t e g)"
  "same_sched g (publish_ticks ctx g)"
  "same_sched g (set_sample_period t v g)"
  "same_sched g (logical_clock_set_perf_counter cfg t g)"
  "same_sched g (logical_clock_set_perf_counter_max cfg t g)"
  "same_sched g (logical_clock_reset_overflow_period cfg ctx t g)"
  by (simp_all add: same_sched_def clock_macros publish_ticks_def set_sample_period_def
      logical_clock_set_perf_counter_def logical_clock_set_perf_counter_max_def
      logical_clock_reset_overflow_period_def Let_def)

lemma same_sched_update_clock_ticks [same_sched_intros]:
  "same_sched g (logical_clock_update_clock_ticks cfg ctx t g)"
  unfolding logical_clock_update_clock_ticks_def Let_def
  by (auto intro: same_sched_intros same_sched_trans)

lemma same_sched_read_clock:
  assumes "logical_clock_read_clock_and_update cfg ctx t g = Inr g'"
  shows "same_sched g g'"
proof (cases "instruction_counting cfg")
  case True
  have s: "same_sched g (upd_event t e (tick_counter_turn_off ctx (upd_event t e' g)))" for e e'
    by (meson same_sched_macros same_sched_trans)
  have "same_sched g (upd_user u (\<lambda>x. x\<lparr>us_ticks := v\<rparr>) (inc_clock_ticks cfg ctx t d
      (upd_event t e (tick_counter_turn_off ctx (upd_event t e' g)))))" for u v d e e'
    by (rule same_sched_trans[OF s same_sched_trans[OF same_sched_inc_clock_ticks
          same_sched_upd_user]]) simp
  with s assms True show ?thesis
    by (auto simp: logical_clock_read_clock_and_update_def bindR_Inr_iff Let_def split: if_splits)
next
  case False
  with assms show ?thesis by (simp add: logical_clock_read_clock_and_update_def same_sched_refl)
qed

lemma same_sched_reset_ticks:
  "logical_clock_reset_current_ticks cfg ctx t g = Inr g' \<Longrightarrow> same_sched g g'"
  by (auto simp: logical_clock_reset_current_ticks_def bindR_Inr_iff same_sched_refl
      same_sched_macros split: if_splits)

lemma same_sched_update_period:
  "logical_clock_update_overflow_period cfg ctx t g = Inr g' \<Longrightarrow> same_sched g g'"
  by (auto simp: logical_clock_update_overflow_period_def bindR_Inr_iff same_sched_refl
      same_sched_macros Let_def split: if_splits)

lemma same_sched_wf_call: "same_sched g g' \<Longrightarrow> wf_call ctx g xs \<Longrightarrow> wf_call ctx g' xs"
  by (auto simp: same_sched_def wf_call_def)

lemma same_sched_candidate: "same_sched g g' \<Longrightarrow> candidate g' i = candidate g i"
  by (simp add: same_sched_def candidate_def)

subsection \<open>Waiting and stopping\<close>


definition wait_group :: task_clock_group where
  "wait_group = sample_group [0, 1, 2] (\<lambda>i. if i = 1 then 5 else 9) (\<lambda>i. i = 1)"

definition plain_cfg :: kconfig where
  "plain_cfg = \<lparr>instruction_counting = False, use_bounded_fence = False, use_adaptive_period = True\<rparr>"

lemma wait_group_wf: "t \<in> {0, 1, 2} \<Longrightarrow> wf_call (sample_ctx t False) wait_group [0, 1, 2]"
  by (auto simp: wf_call_def wait_group_def sample_defs THREAD_ARR_SIZE_def la_index_ok_def la_consts)

lemma wait_group_lowest:
  "lowest_of wait_group {i \<in> set [0, 1, 2]. candidate wait_group i} 1"
  by (auto simp: lowest_of_def wait_group_def sample_defs candidate_def clock_is_lower_def
      get_clock_ticks_def)


text \<open>
  C14. At most one thread is told that it is the lowest: two different threads of one group that
  ask in the same state cannot both find their flag set, whatever counters and configuration
  they run with.
\<close>

theorem entry_wait_exclusive:
  assumes "wf_call c g xs" and "wf_call d g xs" and "cur_tid c \<noteq> cur_tid d"
    and "task_clock_entry_wait cfg c g = Inr g1" and "task_clock_entry_wait cfg' d g = Inr g2"
  shows "\<not> (us_lowest_clock (tg_user_status g1 (cur_tid c)) \<and>
             us_lowest_clock (tg_user_status g2 (cur_tid d)))"
proof -
  obtain low where low: "lowest_of g {i \<in> set xs. candidate g i} low"
    using lowest_of_exists assms(1) by (auto simp: wf_call_def)
  show ?thesis
    using decide_and_wake_ok[OF assms(1) low, of cfg] decide_and_wake_ok[OF assms(2) low, of cfg']
      assms(3-5) by (auto simp: task_clock_entry_wait_def decided_woken_def)
qed

theorem entry_wait_exclusive_witness:
  "\<exists>g1 g2. task_clock_entry_wait plain_cfg (sample_ctx 0 False) wait_group = Inr g1 \<and>
     task_clock_entry_wait plain_cfg (sample_ctx 2 False) wait_group = Inr g2 \<and>
     \<not> (us_lowest_clock (tg_user_status g1 0) \<and> us_lowest_clock (tg_user_status g2 2))"
proof -
  have c: "cur_tid (sample_ctx t b) = t" for t b by (simp add: sample_ctx_def)
  obtain g1 g2 where
    "task_clock_entry_wait plain_cfg (sample_ctx 0 False) wait_group = Inr g1"
    "task_clock_entry_wait plain_cfg (sample_ctx 2 False) wait_group = Inr g2"
    using decide_and_wake_ok[OF wait_group_wf wait_group_lowest, of 0 plain_cfg]
      decide_and_wake_ok[OF wait_group_wf wait_group_lowest, of 2 plain_cfg]
    by (auto simp: task_clock_entry_wait_def)
  with entry_wait_exclusive[OF wait_group_wf[of 0] wait_group_wf[of 2] _ this]
  show ?thesis by (auto simp: c)
qed

text \<open>
  C15. Stopping the clock never loses a wake-up: \<open>task_clock_on_disable\<close> counts the caller's last
  ticks, and then, because it always requests a notification, the thread that is lowest with
  the clocks that result is the caller, or is not waiting, or has been told.
\<close>

theorem on_disable_tells_lowest:
  assumes "wf_call ctx g xs" and "task_clock_on_disable cfg ctx g = Inr g'"
    and "lowest_of g' {i \<in> set xs. candidate g i} low"
  shows "(us_lowest_clock (tg_user_status g' (cur_tid ctx)) \<longleftrightarrow> low = cur_tid ctx) \<and>
    (low = -1 \<or> low = cur_tid ctx \<or> \<not> ce_waiting (tg_clocks g low) \<or>
     (if ce_sleeping (tg_clocks g low) then ev_poll_in (ce_event (tg_clocks g' low))
      else us_lowest_clock (tg_user_status g' low)))"
proof -
  obtain h where h: "same_sched g h"
    "decide_and_wake cfg ctx (h\<lparr>tg_notification_needed := True\<rparr>) = Inr g'"
  proof -
    let ?g1 = "if single_stepping_on cfg g (cur_tid ctx)
      then end_bounded_memory_fence_early cfg ctx g else g"
    have 1: "same_sched g ?g1" by (auto intro: same_sched_intros)
    have 2: "same_sched g (tick_counter_turn_off ctx
        (logical_clock_update_clock_ticks cfg ctx (cur_tid ctx) ?g1))"
      by (rule same_sched_trans[OF 1 same_sched_trans[OF same_sched_update_clock_ticks
            same_sched_macros(1)]])
    obtain h where h: "(if tick_counter_is_running ctx ?g1
        then Inr (tick_counter_turn_off ctx
               (logical_clock_update_clock_ticks cfg ctx (cur_tid ctx) ?g1))
        else logical_clock_reset_current_ticks cfg ctx (cur_tid ctx) ?g1) = Inr h"
      "decide_and_wake cfg ctx (h\<lparr>tg_notification_needed := True\<rparr>) = Inr g'"
      using assms(2) by (auto simp: task_clock_on_disable_def bindR_Inr_iff Let_def)
    have "same_sched g h"
      using h(1) 2 same_sched_trans[OF 1 same_sched_reset_ticks]
      by (cases "tick_counter_is_running ctx ?g1") auto
    then show thesis using h(2) by (rule that)
  qed
  define k where "k = h\<lparr>tg_notification_needed := True\<rparr>"
  have k: "same_sched g k" using h(1) by (simp add: k_def same_sched_def)
  have wf: "wf_call ctx k xs" using same_sched_wf_call[OF k assms(1)] .
  obtain l where l: "lowest_of k {i \<in> set xs. candidate k i} l"
    using lowest_of_exists wf by (auto simp: wf_call_def)
  have d: "decided_woken ctx k l g'"
    using decide_and_wake_ok[OF wf l, of cfg] h(2) by (simp add: k_def)
  then have "\<forall>t. get_clock_ticks g' t = get_clock_ticks k t" by (simp add: decided_woken_def)
  then have "lowest_of k {i \<in> set xs. candidate k i} low"
    using assms(3) same_sched_candidate[OF k] by (simp add: lowest_of_def clock_is_lower_def)
  with l have "l = low" by (blast dest: lowest_of_unique)
  moreover have "low = -1 \<or> 0 \<le> low"
    using l lowest_of_range wf calculation by (auto simp: wf_call_def)
  ultimately show ?thesis
    using d k by (auto simp: decided_woken_def told_def same_sched_def k_def)
qed

theorem on_disable_tells_lowest_witness:
  "\<exists>g'. task_clock_on_disable plain_cfg (sample_ctx 0 False) wait_group = Inr g' \<and>
     us_lowest_clock (tg_user_status g' 1) \<and> \<not> us_lowest_clock (tg_user_status g' 0)"
proof -
  let ?k = "wait_group\<lparr>tg_notification_needed := True\<rparr>"
  have r: "task_clock_on_disable plain_cfg (sample_ctx 0 False) wait_group =
      decide_and_wake plain_cfg (sample_ctx 0 False) ?k"
    by (simp add: task_clock_on_disable_def plain_cfg_def single_stepping_on_def
        tick_counter_is_running_def wait_group_def sample_defs logical_clock_reset_current_ticks_def)
  have k: "?k = wait_group" by (simp add: wait_group_def sample_defs)
  obtain g' where g': "decide_and_wake plain_cfg (sample_ctx 0 False) wait_group = Inr g'"
    "decided_woken (sample_ctx 0 False) wait_group 1 g'"
    using decide_and_wake_ok[OF wait_group_wf wait_group_lowest, of 0 plain_cfg] by auto
  have low: "lowest_of g' {i \<in> set [0, 1, 2]. candidate wait_group i} 1"
    using wait_group_lowest g'(2) lowest_of_cong[of g' wait_group]
    by (simp add: decided_woken_def)
  show ?thesis
    using on_disable_tells_lowest[OF wait_group_wf _ low, of 0 plain_cfg] r g'(1) k
    by (auto simp: wait_group_def sample_defs)
qed

subsection \<open>Starting and halting threads\<close>

lemma mark_as_active_ok:
  assumes "la_abs (tg_active_threads g) xs" "la_index_ok t" "t \<notin> set xs"
  obtains la where "mark_as_active t g = Inr ((upd_clock t (\<lambda>c. c\<lparr>ce_inactive := False\<rparr>) g)
      \<lparr>tg_active_threads := la\<rparr>)" "la_abs la (xs @ [t])"
  using la.ins_new[OF assms] by (auto simp: mark_as_active_def)

lemma mark_as_inactive_ok:
  assumes "la_abs (tg_active_threads g) xs" "t \<in> set xs"
  obtains la where "mark_as_inactive t g = Inr ((upd_clock t (\<lambda>c. c\<lparr>ce_inactive := True\<rparr>) g)
      \<lparr>tg_active_threads := la\<rparr>)" "la_abs la (remove1 t xs)"
  using la.rem_mem[OF assms] by (auto simp: mark_as_inactive_def)

text \<open>
  A new thread starts behind its creator: activating a thread that was never initialised
  appends it to the active list with a clock of the creator's plus one, leaves every other
  clock alone, and therefore does not change which thread is the lowest (as long as the
  creator's clock does not wrap around).
\<close>

theorem activate_other_keeps_lowest:
  assumes abs: "la_abs (tg_active_threads g) xs" and new: "la_index_ok t" "t \<notin> set xs"
    and fresh: "\<not> ce_initialized (tg_clocks g t)"
    and creator: "cur_tid ctx \<in> set xs" "candidate g (cur_tid ctx)"
    and no_wrap: "unat (get_clock_ticks g (cur_tid ctx)) < 2 ^ 64 - 1"
    and low: "lowest_of g {i \<in> set xs. candidate g i} low"
  shows "\<exists>g'. task_clock_entry_activate_other ctx t g = Inr g' \<and>
    la_abs (tg_active_threads g') (xs @ [t]) \<and>
    get_clock_ticks g' t = get_clock_ticks g (cur_tid ctx) + 1 \<and>
    (\<forall>i. i \<noteq> t \<longrightarrow> get_clock_ticks g' i = get_clock_ticks g i) \<and>
    lowest_of g' {i \<in> set (xs @ [t]). candidate g' i} low"
proof -
  let ?c = "cur_tid ctx"
  let ?g2 = "upd_clock t (\<lambda>c. c\<lparr>ce_initialized := True\<rparr>)
    (upd_clock t (\<lambda>c. c\<lparr>ce_base_ticks := get_clock_ticks g ?c + 1, ce_ticks := 0\<rparr>) g)"
  let ?g3 = "clear_entry_state_by_id ctx t ?g2"
  have "la_abs (tg_active_threads ?g3) xs" using abs by (simp add: clock_macros)
  then obtain la where la: "mark_as_active t ?g3 =
      Inr ((upd_clock t (\<lambda>c. c\<lparr>ce_inactive := False\<rparr>) ?g3)\<lparr>tg_active_threads := la\<rparr>)"
    "la_abs la (xs @ [t])"
    using mark_as_active_ok new by blast
  define g' where "g' = (let g5 = reset_chunk_ticks t
      ((upd_clock t (\<lambda>c. c\<lparr>ce_inactive := False\<rparr>) ?g3)\<lparr>tg_active_threads := la\<rparr>) in
      if tg_lowest_tid g5 < 0 \<or> clock_is_lower g5 t (tg_lowest_tid g5)
      then upd_user ?c (\<lambda>u. u\<lparr>us_activated_lowest := True\<rparr>) g5 else g5)"
  have run: "task_clock_entry_activate_other ctx t g = Inr g'"
    using fresh la(1) by (simp add: task_clock_entry_activate_other_def g'_def Let_def)
  have act: "tg_active_threads g' = la" by (simp add: g'_def Let_def clock_macros)
  have clk: "get_clock_ticks g' i = (if i = t then get_clock_ticks g ?c + 1 else get_clock_ticks g i)" for i
    by (simp add: g'_def Let_def clock_macros get_clock_ticks_def)
  have cand: "candidate g' i = (i = t \<or> candidate g i)" for i
    by (auto simp: g'_def Let_def clock_macros candidate_def)
  have inc: "get_clock_ticks g ?c < get_clock_ticks g ?c + 1"
    using no_wrap by (rule word_less_plus_1)
  have low': "low \<in> set xs" "candidate g low"
    "\<forall>y \<in> set xs. candidate g y \<longrightarrow> y \<noteq> low \<longrightarrow> clock_is_lower g low y"
    using low creator by (auto simp: lowest_of_def)
  then have "get_clock_ticks g low \<le> get_clock_ticks g ?c"
    using creator by (cases "?c = low") (auto simp: clock_is_lower_def)
  then have "get_clock_ticks g low < get_clock_ticks g ?c + 1" using inc by simp
  then have "lowest_of g' {i \<in> set (xs @ [t]). candidate g' i} low"
    using low' new(2) by (auto simp: lowest_of_def cand clock_is_lower_def clk)
  with run act la(2) clk show ?thesis by auto
qed

theorem activate_other_keeps_lowest_witness:
  "\<exists>g'. task_clock_entry_activate_other (sample_ctx 0 False) 3 wait_group = Inr g' \<and>
     get_clock_ticks g' 3 = 10 \<and> lowest_of g' {i \<in> {0, 1, 2, 3}. candidate g' i} 1"
proof -
  have *: "la_abs (tg_active_threads wait_group) [0, 1, 2]"
    using wait_group_wf[of 0] by (simp add: wf_call_def)
  have "{i \<in> set ([0, 1, 2] @ [3]). P i} = {i \<in> {0, 1, 2, 3}. P i}" for P :: "int \<Rightarrow> bool" by auto
  with activate_other_keeps_lowest[OF * _ _ _ _ _ _ wait_group_lowest, of 3 "sample_ctx 0 False"]
  show ?thesis
    by (auto simp: wait_group_def sample_defs la_index_ok_def la_consts candidate_def
        get_clock_ticks_def)
qed

text \<open>Halting a member of the list: the decision that follows, before the wake-up.\<close>

lemma halt_decides:
  assumes wf: "wf_call ctx g xs" and True: "cur_tid ctx \<in> set xs"
  obtains w g3 low where "task_clock_entry_halt cfg ctx g = wake_if_found (w, g3)"
    "\<forall>l. lowest_of g {i \<in> set xs - {cur_tid ctx}. candidate g i} l \<longleftrightarrow> l = low" "low \<noteq> cur_tid ctx"
    "la_abs (tg_active_threads g3) (remove1 (cur_tid ctx) xs)" "tg_user_status_mapped g3"
    "ce_inactive (tg_clocks g3 (cur_tid ctx))" "\<not> ce_waiting (tg_clocks g3 (cur_tid ctx))"
    "\<not> us_lowest_clock (tg_user_status g3 (cur_tid ctx))" "tg_clocks g3 low = tg_clocks g low"
    "w = -1 \<longrightarrow> tg_lowest_tid g = cur_tid ctx \<longrightarrow> low \<noteq> -1 \<longrightarrow> \<not> ce_waiting (tg_clocks g low)"
    "w \<noteq> -1 \<longrightarrow> w = low \<and> 0 \<le> low \<and> tg_lowest_tid g3 = low"
proof -
  let ?c = "cur_tid ctx"
  have abs: "la_abs (tg_active_threads g) xs" using wf by (simp add: wf_call_def)
  obtain la where la: "mark_as_inactive ?c g =
      Inr ((upd_clock ?c (\<lambda>c. c\<lparr>ce_inactive := True\<rparr>) g)\<lparr>tg_active_threads := la\<rparr>)"
    "la_abs la (remove1 ?c xs)"
    using mark_as_inactive_ok[OF abs True] .
  define g1 where "g1 = (upd_clock ?c (\<lambda>c. c\<lparr>ce_inactive := True\<rparr>) g)\<lparr>tg_active_threads := la\<rparr>"
  have "distinct xs" using la.repr_ok[OF abs] by simp
  then have set: "set (remove1 ?c xs) = set xs - {?c}" by simp
  have wf1: "wf_call ctx g1 (remove1 ?c xs)"
    using wf la(2) set by (simp add: wf_call_def g1_def)
  have abs1: "la_abs (tg_active_threads g1) (remove1 ?c xs)" using wf1 by (simp add: wf_call_def)
  have clk: "get_clock_ticks g1 i = get_clock_ticks g i" for i
    by (simp add: g1_def get_clock_ticks_def)
  have cand: "{i \<in> set (remove1 ?c xs). candidate g1 i} = {i \<in> set xs - {?c}. candidate g i}"
    using set by (auto simp: g1_def candidate_def)
  obtain low where low: "lowest_of g1 {i \<in> set (remove1 ?c xs). candidate g1 i} low"
    using lowest_of_exists[OF abs1] .
  have nc: "low \<noteq> ?c" using low set wf by (auto simp: lowest_of_def wf_call_def)
  have r: "low = -1 \<or> 0 \<le> low" using lowest_of_range[OF abs1 low] .
  obtain w g2 where d: "determine_lowest_and_notify_or_wait cfg ctx g1 = Inr (w, g2)"
    "decided ctx g1 low w g2"
    using wf_call_decided[OF wf1 low] .
  have low_g: "lowest_of g {i \<in> set xs - {?c}. candidate g i} l \<longleftrightarrow> l = low" for l
    using low cand lowest_of_cong[of g1 g] clk lowest_of_unique by metis
  define g3 where "g3 = upd_clock ?c (\<lambda>c. c\<lparr>ce_waiting := False\<rparr>) g2"
  have run: "task_clock_entry_halt cfg ctx g = wake_if_found (w, g3)"
    using la(1) d(1) by (simp add: task_clock_entry_halt_def g1_def g3_def)
  have g3: "tg_clocks g3 ?c = (tg_clocks g2 ?c)\<lparr>ce_waiting := False\<rparr>" "ce_inactive (tg_clocks g2 ?c)"
      "\<not> us_lowest_clock (tg_user_status g3 ?c)" "tg_active_threads g3 = la"
      "tg_user_status_mapped g3" "low \<noteq> ?c \<Longrightarrow> tg_clocks g3 low = tg_clocks g low"
    using d(2) nc wf by (auto simp: decided_def g3_def Let_def g1_def wf_call_def)
  have 1: "w = -1 \<longrightarrow> tg_lowest_tid g = ?c \<longrightarrow> low \<noteq> -1 \<longrightarrow> \<not> ce_waiting (tg_clocks g low)"
    using d(2) nc r by (auto simp: decided_def g1_def Let_def split: if_splits)
  have 2: "w \<noteq> -1 \<longrightarrow> w = low \<and> 0 \<le> low \<and> tg_lowest_tid g3 = low"
    using d(2) nc by (auto simp: decided_def g1_def g3_def Let_def split: if_splits)
  show thesis
    by (rule that[OF run _ nc _ _ _ _ _ _ 1 2]) (use low_g g3 la(2) nc in simp_all)
qed



end
