(* ===== verification/Real_Clock.thy ===== *)
theory Real_Clock
  imports Clock_Properties
begin

text \<open>
  The clock that counts time instead of instructions: \<open>time_keeping.h\<close> and \<open>logical_clock_real.h\<close>. The
  place of the last reading, \<open>__get_last_read\<close>, is a macro of the patched kernel; here it is a
  component of the state. What \<open>getrawmonotonic\<close> returns is an argument of every call of it.
\<close>

subsection \<open>Times\<close>

text \<open>The fields are \<open>long\<close>s; they are compared as signed numbers.\<close>

record timespec =
  tv_sec :: u64
  tv_nsec :: u64

definition lowest_time :: "timespec \<Rightarrow> timespec \<Rightarrow> nat" where
  "lowest_time t1 t2 =
     (if tv_sec t1 \<noteq> tv_sec t2 then (if sint (tv_sec t1) < sint (tv_sec t2) then 1 else 2)
      else (if sint (tv_nsec t1) < sint (tv_nsec t2) then 1 else 2))"

definition elapsed_time_ns :: "timespec \<Rightarrow> timespec \<Rightarrow> u64" where
  "elapsed_time_ns t1 t2 =
     (let lowest = lowest_time t1 t2;
          start = (if lowest = 1 then t1 else t2);
          fin = (if lowest = 1 then t2 else t1) in
      (tv_sec fin - tv_sec start) * 1000000000 + (tv_nsec fin - tv_nsec start))"

text \<open>Dividing a \<open>long\<close> by \<open>1000UL\<close> is a division of unsigned numbers.\<close>

definition elapsed_time_us :: "timespec \<Rightarrow> timespec \<Rightarrow> u64" where
  "elapsed_time_us t1 t2 =
     (let lowest = lowest_time t1 t2;
          start = (if lowest = 1 then t1 else t2);
          fin = (if lowest = 1 then t2 else t1) in
      (tv_sec fin - tv_sec start) * 1000000 + (tv_nsec fin - tv_nsec start) div 1000)"

subsection \<open>The clock\<close>

record real_group =
  rg_group :: task_clock_group
  rg_last_read :: timespec

text \<open>\<open>now\<close> and \<open>later\<close> are what the two calls of \<open>getrawmonotonic\<close> return.\<close>

definition real_update_clock_ticks ::
  "kconfig \<Rightarrow> kctx \<Rightarrow> timespec \<Rightarrow> timespec \<Rightarrow> real_group \<Rightarrow> real_group" where
  "real_update_clock_ticks cfg ctx now later r =
     r\<lparr>rg_group := inc_clock_ticks cfg ctx (cur_tid ctx) (elapsed_time_us (rg_last_read r) now + 1) (rg_group r),
       rg_last_read := later\<rparr>"

definition real_clock_init :: "timespec \<Rightarrow> real_group \<Rightarrow> real_group" where
  "real_clock_init now r = r\<lparr>rg_last_read := now\<rparr>"

definition real_read_clock_and_update ::
  "kconfig \<Rightarrow> kctx \<Rightarrow> timespec \<Rightarrow> timespec \<Rightarrow> real_group \<Rightarrow> real_group" where
  "real_read_clock_and_update cfg ctx now later r =
     (let r1 = real_update_clock_ticks cfg ctx now later r in
      r1\<lparr>rg_group := upd_user (cur_tid ctx)
            (\<lambda>u. u\<lparr>us_ticks := get_clock_ticks (rg_group r1) (cur_tid ctx)\<rparr>) (rg_group r1)\<rparr>)"

definition real_reset_current_ticks :: "timespec \<Rightarrow> real_group \<Rightarrow> real_group" where
  "real_reset_current_ticks now r = r\<lparr>rg_last_read := now\<rparr>"

definition real_update_overflow_period :: "real_group \<Rightarrow> real_group" where
  "real_update_overflow_period r = r"

definition real_reset_overflow_period :: "real_group \<Rightarrow> real_group" where
  "real_reset_overflow_period r = r"

subsection \<open>What it measures\<close>

text \<open>A time in nanoseconds, and times as the kernel gives them.\<close>

definition nanos :: "timespec \<Rightarrow> int" where
  "nanos t = sint (tv_sec t) * 10 ^ 9 + sint (tv_nsec t)"

definition valid_time :: "timespec \<Rightarrow> bool" where
  "valid_time t \<longleftrightarrow> 0 \<le> sint (tv_sec t) \<and> 0 \<le> sint (tv_nsec t) \<and> sint (tv_nsec t) < 10 ^ 9"

lemma nanos_parts:
  assumes "valid_time t"
  shows "nanos t div 10 ^ 9 = sint (tv_sec t)" "nanos t mod 10 ^ 9 = sint (tv_nsec t)"
  using assms by (simp_all add: nanos_def valid_time_def)

lemma lowest_time_forward:
  assumes s: "valid_time s" and t: "valid_time t" and le: "nanos s \<le> nanos t"
  shows "lowest_time s t = 1 \<or> s = t"
proof (cases "tv_sec s = tv_sec t")
  case True
  then have "sint (tv_nsec s) \<le> sint (tv_nsec t)" using le by (simp add: nanos_def)
  then have "sint (tv_nsec s) < sint (tv_nsec t) \<or> tv_nsec s = tv_nsec t"
    by (auto simp: order.order_iff_strict intro: signed_word_eqI)
  then show ?thesis using True by (auto simp: lowest_time_def timespec.equality)
next
  case False
  then have "sint (tv_sec s) \<noteq> sint (tv_sec t)" by (auto intro: signed_word_eqI)
  moreover have "sint (tv_sec s) \<le> sint (tv_sec t)"
    using zdiv_mono1[OF le, of "10 ^ 9"] unfolding nanos_parts(1)[OF s] nanos_parts(1)[OF t] by simp
  ultimately show ?thesis using False by (simp add: lowest_time_def)
qed

lemma elapsed_us_forward:
  assumes "valid_time s" "valid_time t" "nanos s \<le> nanos t"
  shows "elapsed_time_us s t = (tv_sec t - tv_sec s) * 1000000 + (tv_nsec t - tv_nsec s) div 1000"
  using lowest_time_forward[OF assms] by (auto simp: elapsed_time_us_def Let_def)

lemma diff_of_int: "a - b = word_of_int (sint a - sint b)" for a b :: u64
  by simp

lemma nsec_quotient:
  assumes "valid_time s" "valid_time t"
  defines "d \<equiv> sint (tv_nsec t) - sint (tv_nsec s)"
  shows "(tv_nsec t - tv_nsec s) div 1000 = word_of_int (if 0 \<le> d then d div 1000 else (2 ^ 64 + d) div 1000)"
proof -
  have "- (10 ^ 9) < d" "d < 10 ^ 9" using assms by (auto simp: valid_time_def)
  then have "d mod 2 ^ 64 = (if 0 \<le> d then d else 2 ^ 64 + d)"
    using mod_pos_pos_trivial[of "2 ^ 64 + d" "2 ^ 64"] by (simp add: mod_pos_pos_trivial)
  then have "uint (tv_nsec t - tv_nsec s) = (if 0 \<le> d then d else 2 ^ 64 + d)"
    unfolding diff_of_int d_def[symmetric] by (simp add: uint_word_of_int)
  then show ?thesis by (simp add: word_div_def)
qed

lemma inc_clock_ticks_reads:
  "get_clock_ticks (inc_clock_ticks cfg ctx (cur_tid ctx) v g) t =
     get_clock_ticks g t + (if t = cur_tid ctx then v else 0)"
  by (auto simp: fence_defs clock_macros force_sigusr1_def set_trap_flag_def get_clock_ticks_def Let_def)

lemma quotient_carry:
  "(a * 10 ^ 9 + d + c) div 1000 = a * 1000000 + (d + c) div (1000 :: int)"
  using div_mult_self3[of 1000 "d + c" "a * 1000000"] by (simp add: algebra_simps)

lemma elapsed_us_exact:
  assumes "valid_time s" "valid_time t" "nanos s \<le> nanos t"
  shows "elapsed_time_us s t = word_of_int ((nanos t - nanos s +
    (if sint (tv_nsec t) < sint (tv_nsec s) then 2 ^ 64 else 0)) div 1000)"
proof -
  let ?a = "sint (tv_sec t) - sint (tv_sec s)" and ?d = "sint (tv_nsec t) - sint (tv_nsec s)"
  have sum: "nanos t - nanos s = ?a * 10 ^ 9 + ?d" by (simp add: nanos_def algebra_simps)
  have "elapsed_time_us s t = word_of_int (?a * 1000000 + (?d + (if ?d < 0 then 2 ^ 64 else 0)) div 1000)"
    unfolding elapsed_us_forward[OF assms] nsec_quotient[OF assms(1,2)] diff_of_int[of "tv_sec t"]
    by (simp add: add.commute)
  then show ?thesis unfolding sum quotient_carry by simp
qed

lemma elapsed_ns_exact:
  assumes "valid_time s" "valid_time t" "nanos s \<le> nanos t"
  shows "elapsed_time_ns s t = word_of_int (nanos t - nanos s)"
proof -
  have "elapsed_time_ns s t = (tv_sec t - tv_sec s) * 1000000000 + (tv_nsec t - tv_nsec s)"
    using lowest_time_forward[OF assms] by (auto simp: elapsed_time_ns_def Let_def)
  then show ?thesis by (simp add: nanos_def algebra_simps)
qed

text \<open>
  The real-time clock, exactly. Reading it adds to the thread's own logical clock, and to no other, one more
  than the microseconds since the last reading, and publishes the result; but when the nanosecond field
  of the new time is below that of the last one, which happens whenever a second begins in between, the
  quotient is taken of a number that is \<open>2 ^ 64\<close> too large, and the clock jumps by more than \<open>1.8 * 10 ^ 16\<close>.
\<close>

theorem real_clock_exact:
  assumes "valid_time (rg_last_read r)" and "valid_time now" and "nanos (rg_last_read r) \<le> nanos now"
    and "r' = real_read_clock_and_update cfg ctx now later r"
  shows "get_clock_ticks (rg_group r') t = get_clock_ticks (rg_group r) t +
      (if t = cur_tid ctx then word_of_int ((nanos now - nanos (rg_last_read r) +
         (if sint (tv_nsec now) < sint (tv_nsec (rg_last_read r)) then 2 ^ 64 else 0)) div 1000) + 1 else 0) \<and>
    us_ticks (tg_user_status (rg_group r') (cur_tid ctx)) = get_clock_ticks (rg_group r') (cur_tid ctx) \<and>
    rg_last_read r' = later"
  unfolding assms(4)
  by (simp add: real_read_clock_and_update_def real_update_clock_ticks_def Let_def
      inc_clock_ticks_reads elapsed_us_exact[OF assms(1-3)])

text \<open>
  From 5 seconds and 900 milliseconds to 5 seconds and 901 milliseconds, thread 1 of \<open>wait_group\<close> moves from 5 to 1006;
  to 6 seconds, it moves to 18446744073809557.
\<close>

theorem real_clock_exact_witness:
  "get_clock_ticks (rg_group (real_read_clock_and_update plain_cfg (sample_ctx 1 False)
      \<lparr>tv_sec = 5, tv_nsec = 901000000\<rparr> \<lparr>tv_sec = 5, tv_nsec = 901000100\<rparr>
      \<lparr>rg_group = wait_group, rg_last_read = \<lparr>tv_sec = 5, tv_nsec = 900000000\<rparr>\<rparr>)) 1 = 1006 \<and>
   get_clock_ticks (rg_group (real_read_clock_and_update plain_cfg (sample_ctx 1 False)
      \<lparr>tv_sec = 6, tv_nsec = 0\<rparr> \<lparr>tv_sec = 6, tv_nsec = 100\<rparr>
      \<lparr>rg_group = wait_group, rg_last_read = \<lparr>tv_sec = 5, tv_nsec = 900000000\<rparr>\<rparr>)) 1 = 18446744073809557"
proof -
  let ?r = "\<lparr>rg_group = wait_group, rg_last_read = \<lparr>tv_sec = 5, tv_nsec = 900000000\<rparr>\<rparr>"
  have "get_clock_ticks wait_group 1 = 5" by (simp add: wait_group_def sample_defs get_clock_ticks_def)
  then show ?thesis
    using real_clock_exact[of ?r "\<lparr>tv_sec = 5, tv_nsec = 901000000\<rparr>" _ plain_cfg "sample_ctx 1 False"
        "\<lparr>tv_sec = 5, tv_nsec = 901000100\<rparr>" 1]
      real_clock_exact[of ?r "\<lparr>tv_sec = 6, tv_nsec = 0\<rparr>" _ plain_cfg "sample_ctx 1 False"
        "\<lparr>tv_sec = 6, tv_nsec = 100\<rparr>" 1]
    by (simp add: valid_time_def nanos_def sample_ctx_def)
qed

end
