(* ===== verification/List_H.thy ===== *)
theory List_H
  imports Prelude
begin

text \<open>
  The circular doubly linked lists of \<open>list.h\<close>, in which the thread library keeps the threads that
  wait for a lock or a condition variable. Nodes live in a store from addresses to entries, as
  the same nodes move between lists; a list is given by its head pointer. Following a null
  pointer is a fault. The abstraction is the list of addresses from the head on; the library's
  use of the lists as FIFO queues is a locale.
\<close>

subsection \<open>Operations\<close>

type_synonym addr = nat

definition NULL :: addr where "NULL = 0"

record entry =
  e_prev :: addr
  e_next :: addr

type_synonym store = "addr \<Rightarrow> entry"

text \<open>Writes through a pointer: \<open>p->next = v\<close> and \<open>p->prev = v\<close>.\<close>

definition put_e_next :: "addr \<Rightarrow> addr \<Rightarrow> store \<Rightarrow> store result" where
  "put_e_next p v h = (if p = NULL then Inl NullDeref else Inr (h(p := (h p)\<lparr>e_next := v\<rparr>)))"

definition put_e_prev :: "addr \<Rightarrow> addr \<Rightarrow> store \<Rightarrow> store result" where
  "put_e_prev p v h = (if p = NULL then Inl NullDeref else Inr (h(p := (h p)\<lparr>e_prev := v\<rparr>)))"

definition get_e_next :: "addr \<Rightarrow> store \<Rightarrow> addr result" where
  "get_e_next p h = (if p = NULL then Inl NullDeref else Inr (e_next (h p)))"

definition get_e_prev :: "addr \<Rightarrow> store \<Rightarrow> addr result" where
  "get_e_prev p h = (if p = NULL then Inl NullDeref else Inr (e_prev (h p)))"

definition isEmpty :: "addr \<Rightarrow> bool" where
  "isEmpty head = (head = NULL)"

definition nextEntry :: "addr \<Rightarrow> store \<Rightarrow> addr result" where
  "nextEntry current h = get_e_next current h"

text \<open>The operations that take \<open>Entry ** head\<close> return the new head with the store.\<close>

definition moveWholeList :: "addr \<Rightarrow> addr \<Rightarrow> store \<Rightarrow> (addr \<times> store) result" where
  "moveWholeList prev src h =
     (if src = NULL then Inr (src, h)
      else if prev = NULL then Inl AssertFailed
      else
        bindR (get_e_next prev h) (\<lambda>nxt.
        let srchead = src in
        bindR (get_e_prev srchead h) (\<lambda>srctail.
        bindR (put_e_prev nxt srctail h) (\<lambda>h1.
        bindR (put_e_prev srchead prev h1) (\<lambda>h2.
        bindR (put_e_next srctail nxt h2) (\<lambda>h3.
        bindR (put_e_next prev srchead h3) (\<lambda>h4. Inr (NULL, h4))))))))"

definition insertTail :: "addr \<Rightarrow> addr \<Rightarrow> store \<Rightarrow> (addr \<times> store) result" where
  "insertTail ent head h =
     (if head = NULL then
        bindR (put_e_prev ent ent h) (\<lambda>h1.
        bindR (put_e_next ent ent h1) (\<lambda>h2. Inr (ent, h2)))
      else
        bindR (get_e_prev head h) (\<lambda>tail.
        bindR (put_e_next tail ent h) (\<lambda>h1.
        bindR (put_e_prev head ent h1) (\<lambda>h2.
        bindR (put_e_prev ent tail h2) (\<lambda>h3.
        bindR (put_e_next ent head h3) (\<lambda>h4. Inr (head, h4)))))))"

definition insertHead :: "addr \<Rightarrow> addr \<Rightarrow> store \<Rightarrow> (addr \<times> store) result" where
  "insertHead ent head h =
     bindR (get_e_next head h) (\<lambda>nxt.
     bindR (put_e_next head ent h) (\<lambda>h1.
     bindR (put_e_prev nxt ent h1) (\<lambda>h2.
     bindR (put_e_prev ent head h2) (\<lambda>h3.
     bindR (put_e_next ent nxt h3) (\<lambda>h4. Inr (head, h4))))))"

definition insertNext :: "addr \<Rightarrow> addr \<Rightarrow> store \<Rightarrow> store result" where
  "insertNext ent prev h =
     bindR (get_e_next prev h) (\<lambda>nxt.
     bindR (put_e_prev nxt ent h) (\<lambda>h1.
     bindR (put_e_prev ent prev h1) (\<lambda>h2.
     bindR (put_e_next ent nxt h2) (\<lambda>h3. put_e_next prev ent h3))))"

definition removeEntry :: "addr \<Rightarrow> addr \<Rightarrow> store \<Rightarrow> (addr \<times> store) result" where
  "removeEntry ent head h =
     (if head = NULL then Inl AssertFailed
      else
        bindR (get_e_prev ent h) (\<lambda>prev.
        bindR (get_e_next ent h) (\<lambda>nxt.
        if prev = ent \<and> nxt = ent then Inr (NULL, h)
        else
          bindR (put_e_next prev nxt h) (\<lambda>h1.
          bindR (put_e_prev nxt prev h1) (\<lambda>h2.
          Inr (if head = ent then nxt else head, h2))))))"

definition removeHeadEntry :: "addr \<Rightarrow> store \<Rightarrow> (addr \<times> addr \<times> store) result" where
  "removeHeadEntry head h =
     (if head = NULL then Inr (NULL, head, h)
      else bindR (removeEntry head head h) (\<lambda>(head', h'). Inr (head, head', h')))"

definition getHeadEntry :: "addr \<Rightarrow> addr" where
  "getHeadEntry head = (if head = NULL then NULL else head)"

lemma entry_upd_both [simp]: "r\<lparr>e_prev := a, e_next := b\<rparr> = \<lparr>e_prev = a, e_next = b\<rparr>"
  by (cases r) simp

lemmas list_ops = put_e_next_def put_e_prev_def get_e_next_def get_e_prev_def

subsection \<open>Abstraction\<close>

text \<open>\<open>dseg h p xs n\<close>: the nodes \<open>xs\<close> are linked in order, between \<open>p\<close> and \<open>n\<close>.\<close>

fun dseg :: "store \<Rightarrow> addr \<Rightarrow> addr list \<Rightarrow> addr \<Rightarrow> bool" where
  "dseg h p [] n = True"
| "dseg h p (x # xs) n = (e_prev (h x) = p \<and> e_next (h x) = hd (xs @ [n]) \<and> dseg h x xs n)"

definition circ :: "store \<Rightarrow> addr \<Rightarrow> addr list \<Rightarrow> bool" where
  "circ h head xs \<longleftrightarrow>
     (if xs = [] then head = NULL
      else head = hd xs \<and> distinct xs \<and> NULL \<notin> set xs \<and> dseg h (last xs) xs (hd xs))"

lemma dseg_append:
  "dseg h p (xs @ ys) n \<longleftrightarrow> dseg h p xs (hd (ys @ [n])) \<and> dseg h (last (p # xs)) ys n"
  by (induction xs arbitrary: p) (auto simp: hd_append)

lemma dseg_cong:
  "(\<And>x. x \<in> set xs \<Longrightarrow> h x = h' x) \<Longrightarrow> dseg h p xs n = dseg h' p xs n"
  by (induction xs arbitrary: p) auto

lemma dseg_upd [simp]: "a \<notin> set xs \<Longrightarrow> dseg (h(a := v)) p xs n = dseg h p xs n"
  by (rule dseg_cong) auto

text \<open>Frame: writes outside a list leave it alone.\<close>

lemma circ_cong: "(\<And>x. x \<in> set xs \<Longrightarrow> h x = h' x) \<Longrightarrow> circ h a xs = circ h' a xs"
  using dseg_cong[of xs h h'] by (auto simp: circ_def)

lemma circ_empty [simp]: "circ h head [] \<longleftrightarrow> head = NULL"
  by (simp add: circ_def)

lemma circ_null: "circ h NULL xs \<longleftrightarrow> xs = []"
  by (cases xs) (auto simp: circ_def)

lemma circ_head: "circ h head xs \<Longrightarrow> xs \<noteq> [] \<Longrightarrow> head = hd xs \<and> head \<noteq> NULL"
  by (cases xs) (auto simp: circ_def)

lemma circ_distinct: "circ h head xs \<Longrightarrow> distinct xs \<and> NULL \<notin> set xs"
  by (cases xs) (auto simp: circ_def)

lemma dseg_rotate:
  "dseg h (last (zs @ ys)) (zs @ ys) (hd (zs @ ys)) \<Longrightarrow>
   dseg h (last (ys @ zs)) (ys @ zs) (hd (ys @ zs))"
  unfolding dseg_append by (cases "ys = []"; cases "zs = []") (auto simp: hd_append)

text \<open>Replacing the links of the two ends of a segment.\<close>

lemma dseg_set_first:
  "dseg h p (x # xs) n \<Longrightarrow> x \<notin> set xs \<Longrightarrow>
   dseg (h(x := (h x)\<lparr>e_prev := q\<rparr>)) q (x # xs) n"
  by simp

lemma dseg_set_last:
  assumes "dseg h p (xs @ [x]) n" "x \<notin> set xs"
  shows "dseg (h(x := (h x)\<lparr>e_next := m\<rparr>)) p (xs @ [x]) m"
  using assms by (simp add: dseg_append)

lemma last_prev: "dseg h p xs n \<Longrightarrow> xs \<noteq> [] \<Longrightarrow> e_prev (h (hd xs)) = p"
  by (cases xs) auto

lemma last_next: "dseg h p xs n \<Longrightarrow> xs \<noteq> [] \<Longrightarrow> e_next (h (last xs)) = n"
  by (induction xs arbitrary: p) auto

lemma insertTail_circ:
  assumes c: "circ h head xs" and e: "ent \<noteq> NULL" "ent \<notin> set xs"
  shows "\<exists>head' h'. insertTail ent head h = Inr (head', h') \<and> circ h' head' (xs @ [ent]) \<and>
    (\<forall>a. a \<notin> set (ent # xs) \<longrightarrow> h' a = h a)"
proof (cases xs)
  case Nil
  with assms show ?thesis by (simp add: insertTail_def list_ops circ_def)
next
  case (Cons x ys)
  obtain zs t where xs: "xs = zs @ [t]" by (metis Cons rev_exhaust list.discI)
  have t0: "last xs = t" "hd xs = x" by (simp add: xs, simp add: Cons)
  have d: "dseg h t xs x" "distinct xs" "NULL \<notin> set xs" "head = x"
    using c t0 unfolding circ_def by (auto simp: Cons)
  have t: "e_prev (h x) = t" using last_prev[OF d(1)] Cons by simp
  let ?h1 = "h(t := (h t)\<lparr>e_next := ent\<rparr>)"
  let ?h2 = "?h1(x := (?h1 x)\<lparr>e_prev := ent\<rparr>)"
  let ?h4 = "?h2(ent := \<lparr>e_prev = t, e_next = x\<rparr>)"
  have 1: "dseg ?h1 t xs ent"
    using dseg_set_last[of h t zs t x ent] d(1,2) unfolding xs by simp
  have 2: "dseg ?h2 ent xs ent"
    using dseg_set_first[of ?h1 t x ys ent ent] 1 d(2) Cons by simp
  then have "dseg ?h4 ent (xs @ [ent]) x"
    using e(2) unfolding dseg_append by (simp add: xs)
  moreover have "t \<noteq> NULL" "x \<noteq> NULL" using d(3) t0 last_in_set[of xs] Cons by auto
  then have "insertTail ent head h = Inr (head, ?h4)"
    using d(4) e t by (auto simp: insertTail_def list_ops fun_eq_iff)
  moreover have "t \<in> set xs" "x \<in> set xs" by (simp add: xs, simp add: Cons)
  then have "\<forall>a. a \<notin> set (ent # xs) \<longrightarrow> ?h4 a = h a" by auto
  moreover have "head = hd (xs @ [ent])" "distinct (xs @ [ent])" "NULL \<notin> set (xs @ [ent])"
    "last (xs @ [ent]) = ent" "hd (xs @ [ent]) = x"
    using d e Cons by auto
  ultimately show ?thesis unfolding circ_def by auto
qed

text \<open>Removing a node: its neighbours are linked to each other.\<close>

lemma removeEntry_circ:
  assumes c: "circ h head xs" and e: "ent \<in> set xs"
  shows "\<exists>head' h'. removeEntry ent head h = Inr (head', h') \<and> circ h' head' (remove1 ent xs) \<and>
    (\<forall>a. a \<notin> set xs \<longrightarrow> h' a = h a)"
proof -
  obtain ys zs where xs: "xs = ys @ ent # zs" "ent \<notin> set ys" "ent \<notin> set zs"
    "remove1 ent xs = ys @ zs" "distinct (ys @ zs)"
    using in_set_split_distinct[OF e] circ_distinct[OF c] by blast
  have d: "dseg h (last xs) xs (hd xs)" "head = hd xs" "NULL \<notin> set xs" "distinct xs"
    using c e by (auto simp: circ_def split: if_splits)
  have "xs \<noteq> []" using e by auto
  then have "hd xs \<in> set xs" by simp
  then have hn: "head \<noteq> NULL" "ent \<noteq> NULL" using d(2,3) e by metis+
  show ?thesis
  proof (cases "ys @ zs = []")
    case True
    then show ?thesis
      using d xs hn by (auto simp: removeEntry_def list_ops)
  next
    case False
    let ?ws = "zs @ ys"
    have ws: "?ws \<noteq> []" using False by auto
    have prev: "e_prev (h ent) = last ?ws" and nxt: "e_next (h ent) = hd ?ws"
      using d(1) False unfolding xs(1) dseg_append
      by (cases "ys = []"; cases "zs = []"; auto simp: hd_append)+
    have ne: "last ?ws \<noteq> ent" "hd ?ws \<noteq> ent" "last ?ws \<noteq> NULL" "hd ?ws \<noteq> NULL"
      using ws xs d(3) last_in_set[OF ws] hd_in_set[OF ws] by auto
    let ?h1 = "h(last ?ws := (h (last ?ws))\<lparr>e_next := hd ?ws\<rparr>)"
    let ?h2 = "?h1(hd ?ws := (?h1 (hd ?ws))\<lparr>e_prev := last ?ws\<rparr>)"
    have run: "removeEntry ent head h = Inr (if head = ent then hd ?ws else head, ?h2)"
      using prev nxt ne hn by (simp add: removeEntry_def list_ops)
    have frame: "\<forall>a. a \<notin> set xs \<longrightarrow> ?h2 a = h a"
      using ws xs last_in_set[OF ws] hd_in_set[OF ws] by auto
    have rot: "dseg h ent ?ws ent"
      using d(1) False unfolding xs(1) dseg_append
      by (cases "ys = []"; cases "zs = []"; auto simp: hd_append)
    have dw: "distinct ?ws" using xs(5) by auto
    have "dseg ?h1 ent ?ws (hd ?ws)"
    proof -
      obtain us u where u: "?ws = us @ [u]" by (metis ws rev_exhaust)
      then have "u \<notin> set us" using dw by (metis distinct_append distinct.simps(2) disjoint_iff
        list.set_intros(1))
      then show ?thesis using dseg_set_last[of h ent us u ent "hd ?ws"] rot u by simp
    qed
    then have "dseg ?h2 (last ?ws) ?ws (hd ?ws)"
    proof -
      obtain w us where w: "?ws = w # us" using ws by (cases ?ws) auto
      with dw have "w \<notin> set us" by simp
      then show ?thesis
        using dseg_set_first[of ?h1 ent w us "hd ?ws" "last ?ws"] \<open>dseg ?h1 ent ?ws (hd ?ws)\<close>
        unfolding w by simp
    qed
    then have "dseg ?h2 (last (ys @ zs)) (ys @ zs) (hd (ys @ zs))"
      by (rule dseg_rotate)
    moreover have "(if head = ent then hd ?ws else head) = hd (ys @ zs)"
      using d(2) xs False by (cases ys) auto
    ultimately show ?thesis
      using run frame xs d False by (auto simp: circ_def)
  qed
qed

subsection \<open>Insertion elsewhere and moving a list\<close>

lemma dseg_relink:
  assumes "dseg h p ws n" "distinct ws" "ws \<noteq> []"
    and "\<forall>x \<in> set ws. x \<noteq> hd ws \<longrightarrow> e_prev (h' x) = e_prev (h x)"
    and "\<forall>x \<in> set ws. x \<noteq> last ws \<longrightarrow> e_next (h' x) = e_next (h x)"
    and "e_prev (h' (hd ws)) = p'" "e_next (h' (last ws)) = n'"
  shows "dseg h' p' ws n'"
  using assms
proof (induction ws arbitrary: p p')
  case (Cons x xs)
  show ?case
  proof (cases xs)
    case Nil
    then show ?thesis using Cons.prems by simp
  next
    case (Cons y ys)
    have "x \<noteq> y" "x \<notin> set xs" "last xs \<noteq> x"
      using Cons.prems(2) \<open>xs = y # ys\<close> last_in_set[of xs] by auto
    then have "dseg h' x xs n'"
      using Cons.prems \<open>xs = y # ys\<close> by (intro Cons.IH[of x x]) auto
    then show ?thesis using Cons.prems \<open>xs = y # ys\<close> \<open>last xs \<noteq> x\<close> by auto
  qed
qed simp

lemma circ_rotated:
  assumes "circ h head (ys @ p # zs)"
  shows "dseg h p (zs @ ys @ [p]) (hd (zs @ ys @ [p]))"
  using dseg_rotate[of h "ys @ [p]" zs] assms by (auto simp: circ_def hd_append split: if_splits)

text \<open>Splicing the circular list \<open>ss\<close> in after the node \<open>p\<close>.\<close>

lemma splice_circ:
  assumes c: "circ h head (ys @ p # zs)" and s: "dseg h (last ss) ss (hd ss)" "ss \<noteq> []"
    and dis: "distinct (ys @ p # zs @ ss)" "NULL \<notin> set ss"
    and n: "n = hd (zs @ ys @ [p])"
    and h': "e_next (h' p) = hd ss" "e_prev (h' n) = last ss" "e_prev (h' (hd ss)) = p"
      "e_next (h' (last ss)) = n"
      "\<forall>x \<in> set (ys @ p # zs @ ss). x \<noteq> n \<longrightarrow> x \<noteq> hd ss \<longrightarrow> e_prev (h' x) = e_prev (h x)"
      "\<forall>x \<in> set (ys @ p # zs @ ss). x \<noteq> p \<longrightarrow> x \<noteq> last ss \<longrightarrow> e_next (h' x) = e_next (h x)"
  shows "circ h' head (ys @ p # ss @ zs)"
proof -
  let ?ws = "zs @ ys @ [p]"
  have ends: "hd ss \<in> set ss" "last ss \<in> set ss" "n \<in> set ?ws"
    using s(2) n hd_in_set[of ?ws] by auto
  have out: "x \<noteq> hd ss \<and> x \<noteq> last ss" if "x \<in> set ?ws" for x
    using that ends dis by auto
  have mem: "x \<in> set (ys @ p # zs @ ss)" if "x \<in> set ?ws \<or> x \<in> set ss" for x
    using that by auto
  have nin: "x \<noteq> n \<and> x \<noteq> p" if "x \<in> set ss" for x
    using that ends dis by auto
  have "dseg h' (last ss) ?ws (hd ss)"
  proof (rule dseg_relink[OF circ_rotated[OF c]])
    show "\<forall>x \<in> set ?ws. x \<noteq> hd ?ws \<longrightarrow> e_prev (h' x) = e_prev (h x)"
      using h'(5) out mem n by blast
    show "\<forall>x \<in> set ?ws. x \<noteq> last ?ws \<longrightarrow> e_next (h' x) = e_next (h x)"
      using h'(6) out mem by (metis last_appendR last_snoc not_Cons_self2 append_is_Nil_conv last.simps)
  qed (use dis h' n in \<open>auto simp del: hd_append2\<close>)
  moreover have "dseg h' p ss n"
  proof (rule dseg_relink[OF s(1)])
    show "\<forall>x \<in> set ss. x \<noteq> hd ss \<longrightarrow> e_prev (h' x) = e_prev (h x)"
      using h'(5) nin mem by blast
    show "\<forall>x \<in> set ss. x \<noteq> last ss \<longrightarrow> e_next (h' x) = e_next (h x)"
      using h'(6) nin mem by blast
  qed (use dis s h' in auto)
  ultimately have "dseg h' (last ss) (?ws @ ss) n"
    unfolding dseg_append[of h' _ ?ws] using s(2) by simp
  moreover have "last (?ws @ ss) = last ss" "hd (?ws @ ss) = n"
    using s(2) n by (simp, simp add: hd_append)
  ultimately have "dseg h' (last (?ws @ ss)) (?ws @ ss) (hd (?ws @ ss))" by metis
  then have "dseg h' (last (ys @ p # ss @ zs)) (ys @ p # ss @ zs) (hd (ys @ p # ss @ zs))"
    using dseg_rotate[of h' zs "ys @ p # ss"] by simp
  moreover have "head = hd (ys @ p # ss @ zs)" "NULL \<notin> set (ys @ p # ss @ zs)"
    using c dis by (auto simp: circ_def hd_append split: if_splits)
  ultimately show ?thesis using dis by (auto simp: circ_def)
qed

lemma circ_next:
  assumes "circ h head (ys @ p # zs)"
  shows "e_next (h p) = hd (zs @ ys @ [p])"
  using last_next[OF circ_rotated[OF assms]] by simp

lemma circ_nodes:
  assumes "circ h head (ys @ p # zs)"
  shows "p \<noteq> NULL" "hd (zs @ ys @ [p]) \<noteq> NULL" "hd (zs @ ys @ [p]) \<in> set (ys @ p # zs)"
  using circ_distinct[OF assms] hd_in_set[of "zs @ ys @ [p]"] by auto

definition linked_after :: "addr \<Rightarrow> addr \<Rightarrow> addr \<Rightarrow> store \<Rightarrow> store" where
  "linked_after ent p n h =
     (let h1 = h(n := (h n)\<lparr>e_prev := ent\<rparr>); h3 = h1(ent := \<lparr>e_prev = p, e_next = n\<rparr>)
      in h3(p := (h3 p)\<lparr>e_next := ent\<rparr>))"

lemma insert_linked_after:
  assumes "ent \<noteq> NULL" "p \<noteq> NULL" "n \<noteq> NULL" "e_next (h p) = n" "n \<noteq> ent" "p \<noteq> ent"
  shows "insertNext ent p h = Inr (linked_after ent p n h)"
    "insertHead ent p h = Inr (p, linked_after ent p n h)"
  using assms by (simp_all add: insertNext_def insertHead_def list_ops linked_after_def fun_eq_iff)

lemma insertNext_circ:
  assumes c: "circ h head (ys @ p # zs)" and e: "ent \<noteq> NULL" "ent \<notin> set (ys @ p # zs)"
  shows "\<exists>h'. insertNext ent p h = Inr h' \<and> circ h' head (ys @ p # ent # zs)"
proof -
  define n where "n = hd (zs @ ys @ [p])"
  note nodes = circ_nodes[OF c, folded n_def]
  have ne: "n \<noteq> ent" "p \<noteq> ent" using nodes(3) e by auto
  have nx: "e_next (h p) = n" using circ_next[OF c] by (simp add: n_def)
  have "insertNext ent p h = Inr (linked_after ent p n h)"
    using nodes e nx ne by (intro insert_linked_after) auto
  moreover have "circ (linked_after ent p n h) head (ys @ p # [ent] @ zs)"
  proof (rule splice_circ[of "h(ent := \<lparr>e_prev = ent, e_next = ent\<rparr>)"])
    show "circ (h(ent := \<lparr>e_prev = ent, e_next = ent\<rparr>)) head (ys @ p # zs)"
      by (rule iffD1[OF circ_cong c]) (use e in auto)
    show "distinct (ys @ p # zs @ [ent])" using circ_distinct[OF c] e by auto
  qed (use e ne n_def in \<open>auto simp: linked_after_def Let_def\<close>)
  ultimately show ?thesis by simp
qed

lemma insertHead_circ:
  assumes c: "circ h head (p # zs)" and e: "ent \<noteq> NULL" "ent \<notin> set (p # zs)"
  shows "\<exists>h'. insertHead ent head h = Inr (head, h') \<and> circ h' head (p # ent # zs)"
proof -
  have p: "head = p" using c by (simp add: circ_def)
  obtain h' where h': "insertNext ent p h = Inr h'" "circ h' head (p # ent # zs)"
    using insertNext_circ[of h head "[]" p zs ent] c e by auto
  define n where "n = hd (zs @ [p])"
  have "p \<noteq> NULL" "n \<noteq> NULL" "n \<in> set (p # zs)" "e_next (h p) = n"
    using circ_nodes[of h head "[]" p zs] circ_next[of h head "[]" p zs] c by (simp_all add: n_def)
  then have "insertHead ent p h = Inr (p, h')"
    using insert_linked_after[of ent p n h] e h'(1) by auto
  then have "insertHead ent head h = Inr (head, h')" using p by simp
  with h'(2) show ?thesis by simp
qed

lemma moveWholeList_circ:
  assumes c: "circ h head (ys @ p # zs)" and s: "circ h src ss"
    and dis: "set (ys @ p # zs) \<inter> set ss = {}"
  shows "\<exists>h'. moveWholeList p src h = Inr (NULL, h') \<and> circ h' head (ys @ p # ss @ zs)"
proof (cases "ss = []")
  case True
  then show ?thesis using c s by (simp add: moveWholeList_def)
next
  case False
  define n where "n = hd (zs @ ys @ [p])"
  note nodes = circ_nodes[OF c, folded n_def]
  have src: "src = hd ss" "src \<noteq> NULL" using circ_head[OF s False] by auto
  have ds: "dseg h (last ss) ss (hd ss)" "distinct ss" "NULL \<notin> set ss"
    using s False by (auto simp: circ_def)
  have tl: "e_prev (h src) = last ss" using last_prev[OF ds(1) False] src by simp
  have lin: "last ss \<in> set ss" "hd ss \<in> set ss" using False by auto
  then have lnz: "last ss \<noteq> NULL" using ds(3) by auto
  have ne: "n \<notin> set ss" "p \<notin> set ss" using nodes(3) dis by auto
  have nx: "e_next (h p) = n" using circ_next[OF c] by (simp add: n_def)
  let ?h1 = "h(n := (h n)\<lparr>e_prev := last ss\<rparr>)"
  let ?h2 = "?h1(src := (?h1 src)\<lparr>e_prev := p\<rparr>)"
  let ?h3 = "?h2(last ss := (?h2 (last ss))\<lparr>e_next := n\<rparr>)"
  let ?h4 = "?h3(p := (?h3 p)\<lparr>e_next := src\<rparr>)"
  have "moveWholeList p src h = Inr (NULL, ?h4)"
    using nodes nx tl src lnz by (simp add: moveWholeList_def list_ops Let_def)
  moreover have "circ ?h4 head (ys @ p # ss @ zs)"
    by (rule splice_circ[OF c ds(1) False _ ds(3) n_def])
       (use circ_distinct[OF c] ds dis ne lin src in auto)
  ultimately show ?thesis by simp
qed

lemma removeHeadEntry_circ:
  assumes c: "circ h head (x # xs)"
  shows "\<exists>head' h'. removeHeadEntry head h = Inr (x, head', h') \<and> circ h' head' xs \<and>
    (\<forall>a. a \<notin> set (x # xs) \<longrightarrow> h' a = h a)"
  using removeEntry_circ[OF c, of x] circ_head[OF c]
  by (auto simp: removeHeadEntry_def)

subsection \<open>The waiting queue\<close>

text \<open>
  What the synchronisation objects use of these lists: a queue given by a head in a shared store,
  that threads enter at the tail and leave at the head, without disturbing other queues.
\<close>

locale waiting_queue =
  fixes repr :: "'h \<Rightarrow> addr \<Rightarrow> addr list \<Rightarrow> bool"
    and enq :: "addr \<Rightarrow> addr \<Rightarrow> 'h \<Rightarrow> (addr \<times> 'h) result"
    and deq :: "addr \<Rightarrow> 'h \<Rightarrow> (addr \<times> addr \<times> 'h) result"
    and rem :: "addr \<Rightarrow> addr \<Rightarrow> 'h \<Rightarrow> (addr \<times> 'h) result"
    and peek :: "addr \<Rightarrow> addr"
  assumes enq_ok: "repr h q xs \<Longrightarrow> e \<noteq> NULL \<Longrightarrow> e \<notin> set xs \<Longrightarrow>
      \<exists>q' h'. enq e q h = Inr (q', h') \<and> repr h' q' (xs @ [e]) \<and>
        (\<forall>r ys. repr h r ys \<and> set ys \<inter> set (e # xs) = {} \<longrightarrow> repr h' r ys)"
    and deq_ok: "repr h q (x # xs) \<Longrightarrow>
      \<exists>q' h'. deq q h = Inr (x, q', h') \<and> repr h' q' xs \<and>
        (\<forall>r ys. repr h r ys \<and> set ys \<inter> set (x # xs) = {} \<longrightarrow> repr h' r ys)"
    and deq_empty: "repr h q [] \<Longrightarrow> deq q h = Inr (NULL, q, h)"
    and rem_ok: "repr h q xs \<Longrightarrow> e \<in> set xs \<Longrightarrow>
      \<exists>q' h'. rem e q h = Inr (q', h') \<and> repr h' q' (remove1 e xs) \<and>
        (\<forall>r ys. repr h r ys \<and> set ys \<inter> set xs = {} \<longrightarrow> repr h' r ys)"
    and peek_ok: "repr h q xs \<Longrightarrow> peek q = hd (xs @ [NULL])"
    and empty_iff: "repr h q xs \<Longrightarrow> q = NULL \<longleftrightarrow> xs = []"
    and repr_distinct: "repr h q xs \<Longrightarrow> distinct xs \<and> NULL \<notin> set xs"
begin

text \<open>Emptying a queue yields its elements in order.\<close>

fun deq_all :: "nat \<Rightarrow> addr \<Rightarrow> 'h \<Rightarrow> (addr list \<times> addr \<times> 'h) result" where
  "deq_all 0 q h = Inl StillSpinning"
| "deq_all (Suc n) q h = bindR (deq q h) (\<lambda>(x, q', h').
     if x = NULL then Inr ([], q', h')
     else bindR (deq_all n q' h') (\<lambda>(xs, q'', h''). Inr (x # xs, q'', h'')))"

lemma deq_all_ok:
  "repr h q xs \<Longrightarrow> \<exists>q' h'. deq_all (Suc (length xs)) q h = Inr (xs, q', h') \<and> repr h' q' []"
proof (induction xs arbitrary: q h)
  case Nil
  then show ?case using deq_empty by simp
next
  case (Cons x xs)
  obtain q' h' where "deq q h = Inr (x, q', h')" "repr h' q' xs" using deq_ok[OF Cons.prems] by auto
  with Cons.IH[of h' q'] repr_distinct[OF Cons.prems] show ?case by auto
qed

lemma enq_deq_singleton:
  assumes "repr h q []" "e \<noteq> NULL"
  shows "\<exists>q' h' q'' h''. enq e q h = Inr (q', h') \<and> deq q' h' = Inr (e, q'', h'') \<and> repr h'' q'' []"
  using enq_ok[OF assms] deq_ok by fastforce

end

interpretation lh: waiting_queue circ insertTail removeHeadEntry removeEntry getHeadEntry
proof
  fix q r e x :: addr and xs :: "addr list" and s :: store
  show "circ s q xs \<Longrightarrow> e \<noteq> NULL \<Longrightarrow> e \<notin> set xs \<Longrightarrow>
      \<exists>q' h'. insertTail e q s = Inr (q', h') \<and> circ h' q' (xs @ [e]) \<and>
        (\<forall>r ys. circ s r ys \<and> set ys \<inter> set (e # xs) = {} \<longrightarrow> circ h' r ys)"
    using insertTail_circ[of s q xs e] circ_cong[of _ s] by (metis disjoint_iff)
  show "circ s q (x # xs) \<Longrightarrow>
      \<exists>q' h'. removeHeadEntry q s = Inr (x, q', h') \<and> circ h' q' xs \<and>
        (\<forall>r ys. circ s r ys \<and> set ys \<inter> set (x # xs) = {} \<longrightarrow> circ h' r ys)"
    using removeHeadEntry_circ[of s q x xs] circ_cong[of _ s] by (metis disjoint_iff)
  show "circ s q [] \<Longrightarrow> removeHeadEntry q s = Inr (NULL, q, s)"
    by (simp add: removeHeadEntry_def)
  show "circ s q xs \<Longrightarrow> e \<in> set xs \<Longrightarrow>
      \<exists>q' h'. removeEntry e q s = Inr (q', h') \<and> circ h' q' (remove1 e xs) \<and>
        (\<forall>r ys. circ s r ys \<and> set ys \<inter> set xs = {} \<longrightarrow> circ h' r ys)"
    using removeEntry_circ[of s q xs e] circ_cong[of _ s] by (metis disjoint_iff)
  show "circ s q xs \<Longrightarrow> getHeadEntry q = hd (xs @ [NULL])"
    using circ_head[of s q xs] by (cases xs) (auto simp: getHeadEntry_def)
  show "circ s q xs \<Longrightarrow> q = NULL \<longleftrightarrow> xs = []"
    using circ_head[of s q xs] circ_null[of s xs] by auto
  show "circ s q xs \<Longrightarrow> distinct xs \<and> NULL \<notin> set xs" by (rule circ_distinct)
qed

subsection \<open>Sequences of operations\<close>

datatype q_op = QEnq addr | QDeq | QRem addr

fun lq_run :: "q_op list \<Rightarrow> addr \<times> store \<Rightarrow> (addr list \<times> addr \<times> store) result" where
  "lq_run [] (q, h) = Inr ([], q, h)"
| "lq_run (QEnq e # os) (q, h) = bindR (insertTail e q h) (\<lambda>st. lq_run os st)"
| "lq_run (QDeq # os) (q, h) = bindR (removeHeadEntry q h) (\<lambda>(x, st).
     bindR (lq_run os st) (\<lambda>(out, st'). Inr (x # out, st')))"
| "lq_run (QRem e # os) (q, h) = bindR (removeEntry e q h) (\<lambda>st. lq_run os st)"

text \<open>The same on plain lists; entering twice or leaving a queue one is not in is not allowed.\<close>

fun aq_run :: "q_op list \<Rightarrow> addr list \<Rightarrow> (addr list \<times> addr list) option" where
  "aq_run [] xs = Some ([], xs)"
| "aq_run (QEnq e # os) xs = (if e = NULL \<or> e \<in> set xs then None else aq_run os (xs @ [e]))"
| "aq_run (QDeq # os) xs =
     map_option (\<lambda>(out, ys). (hd (xs @ [NULL]) # out, ys)) (aq_run os (tl xs))"
| "aq_run (QRem e # os) xs = (if e \<in> set xs then aq_run os (remove1 e xs) else None)"

text \<open>
  C30. The linked lists are FIFO queues: every sequence of \<open>insertTail\<close>, \<open>removeHeadEntry\<close> and
  \<open>removeEntry\<close> that enters no node twice and takes out only nodes that are in, runs without
  following a null pointer, hands out the nodes in the order of the same operations on plain
  lists (null when the queue is empty), and ends in a well-formed circular list of the rest.
\<close>

theorem list_h_refines_queue:
  assumes "circ h q xs" and "aq_run os xs = Some (out, ys)"
  shows "\<exists>q' h'. lq_run os (q, h) = Inr (out, q', h') \<and> circ h' q' ys"
  using assms
proof (induction os xs arbitrary: q h out rule: aq_run.induct)
  case (2 e os xs)
  then have "e \<noteq> NULL" "e \<notin> set xs" by (auto split: if_splits)
  with 2 lh.enq_ok[of h q xs e] show ?case by fastforce
next
  case (3 os xs)
  then obtain o' where o': "aq_run os (tl xs) = Some (o', ys)" "out = hd (xs @ [NULL]) # o'"
    by auto
  show ?case
  proof (cases xs)
    case Nil
    with 3 have "circ h q (tl xs)" by simp
    with "3.IH"[OF this o'(1)] Nil 3(2) o'(2) lh.deq_empty[of h q] show ?thesis by auto
  next
    case (Cons x zs)
    with 3(2) obtain q1 h1 where q1: "removeHeadEntry q h = Inr (x, q1, h1)" "circ h1 q1 (tl xs)"
      using lh.deq_ok[of h q x zs] by auto
    with "3.IH"[OF q1(2) o'(1)] Cons o'(2) show ?thesis by auto
  qed
next
  case (4 e os xs)
  then have "e \<in> set xs" by (auto split: if_splits)
  with 4 lh.rem_ok[of h q xs e] show ?case by fastforce
qed simp

theorem list_h_refines_queue_witness:
  "\<exists>q h. lq_run [QEnq 3, QEnq 5, QEnq 9, QRem 5, QDeq, QDeq, QDeq] (NULL, \<lambda>_. \<lparr>e_prev = 0, e_next = 0\<rparr>)
     = Inr ([3, 9, NULL], q, h) \<and> circ h q []"
  by (rule list_h_refines_queue[of _ _ "[]"]) (simp_all add: NULL_def)

end
