(* ===== verification/Clock_Reach.thy ===== *)
theory Clock_Reach
  imports Clock_Properties
begin

text \<open>
  All the calls the kernel makes into the module, as one dispatch through the table that
  \<open>init_module\<close> fills, and the states that sequences of such calls reach.
\<close>

subsection \<open>Dispatch\<close>

datatype kcall = KOverflow bool | KUpdatePeriod | KEntryInit bool perf_event | KActivate | KHalt
  | KDisable | KEnable | KActivateOther int | KWait | KSleep | KAddTicks int | KWokeUp | KStop
  | KStart | KReset | KStartNoNotify | KStopNoNotify | KSingleStep bool | KIrqWork

fun kcall_hook :: "kcall \<Rightarrow> hook option" where
  "kcall_hook (KOverflow tf) = Some Overflow_Handler"
| "kcall_hook KUpdatePeriod = Some Overflow_Update_Period"
| "kcall_hook (KEntryInit found e) = Some Entry_Init"
| "kcall_hook KActivate = Some Entry_Activate"
| "kcall_hook KHalt = Some Entry_Halt"
| "kcall_hook KDisable = Some On_Disable"
| "kcall_hook KEnable = Some On_Enable"
| "kcall_hook (KActivateOther t) = Some Entry_Activate_Other"
| "kcall_hook KWait = Some Entry_Wait"
| "kcall_hook KSleep = Some Entry_Sleep"
| "kcall_hook (KAddTicks n) = Some Add_Ticks"
| "kcall_hook KWokeUp = Some Entry_Woke_Up"
| "kcall_hook KStop = Some Entry_Stop"
| "kcall_hook KStart = Some Entry_Start"
| "kcall_hook KReset = Some Entry_Reset"
| "kcall_hook KStartNoNotify = Some Entry_Start_No_Notify"
| "kcall_hook KStopNoNotify = Some Entry_Stop_No_Notify"
| "kcall_hook (KSingleStep tf) = Some Entry_Is_Singlestep"
| "kcall_hook KIrqWork = None"

fun handle :: "kconfig \<Rightarrow> kctx \<Rightarrow> kcall \<Rightarrow> task_clock_group \<Rightarrow> task_clock_group result" where
  "handle cfg ctx (KOverflow tf) g =
     bindR (task_clock_overflow_handler cfg ctx (g, tf)) (\<lambda>r. Inr (fst r))"
| "handle cfg ctx KUpdatePeriod g = task_clock_entry_overflow_update_period cfg ctx g"
| "handle cfg ctx (KEntryInit found e) g =
     task_clock_entry_init cfg ctx (if found then Some () else None) e g"
| "handle cfg ctx KActivate g = task_clock_entry_activate cfg ctx g"
| "handle cfg ctx KHalt g = task_clock_entry_halt cfg ctx g"
| "handle cfg ctx KDisable g = task_clock_on_disable cfg ctx g"
| "handle cfg ctx KEnable g = task_clock_on_enable cfg ctx g"
| "handle cfg ctx (KActivateOther t) g = task_clock_entry_activate_other ctx t g"
| "handle cfg ctx KWait g = task_clock_entry_wait cfg ctx g"
| "handle cfg ctx KSleep g = task_clock_entry_sleep cfg ctx g"
| "handle cfg ctx (KAddTicks n) g = task_clock_add_ticks cfg ctx n g"
| "handle cfg ctx KWokeUp g = Inr (task_clock_entry_woke_up ctx g)"
| "handle cfg ctx KStop g = task_clock_entry_stop cfg ctx g"
| "handle cfg ctx KStart g = task_clock_entry_start cfg ctx g"
| "handle cfg ctx KReset g = Inr (task_clock_entry_reset ctx g)"
| "handle cfg ctx KStartNoNotify g = task_clock_entry_start_no_notify cfg ctx g"
| "handle cfg ctx KStopNoNotify g = task_clock_entry_stop_no_notify cfg ctx g"
| "handle cfg ctx (KSingleStep tf) g =
     Inr (fst (snd (task_clock_entry_is_singlestep cfg ctx (g, tf))))"
| "handle cfg ctx KIrqWork g = task_clock_notify_waiting_threads_irq ctx g"

inductive reachable :: "kconfig \<Rightarrow> task_clock_group \<Rightarrow> bool" for cfg where
  reach_init: "reachable cfg (task_clock_group_init n g)"
| reach_call: "reachable cfg g \<Longrightarrow> handle cfg ctx c g = Inr g' \<Longrightarrow> reachable cfg g'"

inductive_cases reachable_cases: "reachable cfg g"

subsection \<open>The invariant\<close>

text \<open>
  The active list is well formed, no thread in it is marked inactive, and the recorded lowest
  thread is -1 or an index of the arrays.
\<close>

definition tid_or_none :: "int \<Rightarrow> bool" where
  "tid_or_none t \<longleftrightarrow> t = -1 \<or> la_index_ok t"

definition group_ok :: "task_clock_group \<Rightarrow> bool" where
  "group_ok g \<longleftrightarrow> tid_or_none (tg_lowest_tid g) \<and>
     (\<exists>xs. la_abs (tg_active_threads g) xs \<and> (\<forall>i \<in> set xs. \<not> ce_inactive (tg_clocks g i)))"

text \<open>\<open>keeps g g'\<close>: a change that cannot break the invariant.\<close>

definition keeps :: "task_clock_group \<Rightarrow> task_clock_group \<Rightarrow> bool" where
  "keeps g g' \<longleftrightarrow>
     tg_active_threads g' = tg_active_threads g \<and>
     (\<forall>i. ce_inactive (tg_clocks g' i) \<longrightarrow> ce_inactive (tg_clocks g i)) \<and>
     (tg_lowest_tid g' = tg_lowest_tid g \<or> tid_or_none (tg_lowest_tid g'))"

lemma keeps_ok: "keeps g g' \<Longrightarrow> group_ok g \<Longrightarrow> group_ok g'"
  by (fastforce simp: keeps_def group_ok_def)

lemma keeps_refl [simp]: "keeps g g" by (simp add: keeps_def)

lemma keeps_trans: "keeps g h \<Longrightarrow> keeps h k \<Longrightarrow> keeps g k"
  by (auto simp: keeps_def)

lemma same_sched_keeps: "same_sched g g' \<Longrightarrow> keeps g g'"
  by (simp add: same_sched_def keeps_def)

lemma keeps_upd_user [simp]: "keeps g (upd_user t f g') = keeps g g'"
  by (simp add: keeps_def)

lemma keeps_flags [simp]:
  "keeps g (g'\<lparr>tg_notification_needed := b\<rparr>) = keeps g g'"
  "keeps g (g'\<lparr>tg_nmi_new_low := b\<rparr>) = keeps g g'"
  "keeps g (g'\<lparr>tg_pending_work := b\<rparr>) = keeps g g'"
  "keeps g (g'\<lparr>tg_lowest_ticks := v\<rparr>) = keeps g g'"
  "keeps g (g'\<lparr>tg_user_status_mapped := b\<rparr>) = keeps g g'"
  by (simp_all add: keeps_def)

lemma keeps_clear_entry_state [simp]: "keeps g (clear_entry_state cfg ctx g)"
  by (simp add: keeps_def clock_macros)

lemma keeps_set_current [simp]: "keeps g (set_current_thread_to_lowest cfg ctx g)"
  by (simp add: keeps_def)

lemma keeps_upd_clock [simp]:
  "(\<And>c. ce_inactive (f c) \<Longrightarrow> ce_inactive c) \<Longrightarrow> keeps g (upd_clock t f g)"
  by (auto simp: keeps_def)

lemma search_for_lowest_tid:
  assumes "group_ok g" "search_for_lowest ctx g = Inr m"
  shows "tid_or_none m"
proof -
  obtain xs where abs: "la_abs (tg_active_threads g) xs" using assms(1) by (auto simp: group_ok_def)
  then have r: "\<forall>i \<in> set xs. la_index_ok i" "la_index_ok (la_max_index (tg_active_threads g))"
    by (auto simp: la_abs_def)
  show ?thesis
  proof (cases "in_nmi ctx")
    case True
    from search_for_lowest_nmi[OF this, of g] assms(2) obtain m' where
      "m' = m" "lowest_of g {i \<in> {0..la_max_index (tg_active_threads g)}. candidate g i} m'"
      by auto
    then show ?thesis using r by (auto simp: lowest_of_def tid_or_none_def la_index_ok_def)
  next
    case False
    from search_for_lowest_list[OF abs this] assms(2) obtain m' where
      "m' = m" "lowest_of g {i \<in> set xs. candidate g i} m'" by auto
    then show ?thesis using r by (auto simp: lowest_of_def tid_or_none_def)
  qed
qed

lemma search_for_lowest_waiting_tid:
  "group_ok g \<Longrightarrow> search_for_lowest_waiting ctx g = Inr m \<Longrightarrow> tid_or_none m"
  using search_for_lowest_tid[of g ctx]
  by (auto simp: search_for_lowest_waiting_def bindR_Inr_iff tid_or_none_def split: if_splits)

lemma new_lowest_tid:
  "group_ok g \<Longrightarrow> la_index_ok t \<Longrightarrow> new_lowest ctx g t = Inr m \<Longrightarrow> tid_or_none m"
  using search_for_lowest_tid[of g ctx]
  by (auto simp: new_lowest_def bindR_Inr_iff tid_or_none_def split: if_splits)

lemma keeps_publish [simp]: "keeps g (publish_ticks ctx g)"
  by (simp add: keeps_def)

lemma keeps_wake:
  "wake_if_found (w, g) = Inr g' \<Longrightarrow> keeps g g'"
  by (auto simp: wake_if_found_def wake_up_waiting_thread_def upd_event_def
      intro!: keeps_upd_clock split: if_splits)

text \<open>The decision, split at its one choice.\<close>

lemma keeps_set_lowest: "tid_or_none n \<Longrightarrow> keeps g (g\<lparr>tg_lowest_tid := n\<rparr>)"
  by (simp add: keeps_def)

lemma keeps_if: "keeps g h \<Longrightarrow> keeps g k \<Longrightarrow> keeps g (if b then h else k)"
  by simp

lemma determine_keeps:
  assumes ok: "group_ok g" and d: "determine_lowest_and_notify_or_wait cfg ctx g = Inr (w, g')"
  shows "keeps g g'"
proof (cases "current_is_only_active_thread ctx (publish_ticks ctx g)")
  case True
  then have "g' = set_current_thread_to_lowest cfg ctx (upd_user (cur_tid ctx)
      (\<lambda>u. u\<lparr>us_single_active_thread := True\<rparr>) (publish_ticks ctx g))"
    using d by (simp add: determine_lowest_and_notify_or_wait_def Let_def)
  then show ?thesis
    by (auto intro: keeps_trans[OF _ keeps_set_current])
next
  case False
  define g2 where "g2 = upd_clock (cur_tid ctx) (\<lambda>c. c\<lparr>ce_waiting := True\<rparr>) (publish_ticks ctx g)"
  have k2: "keeps g g2"
    unfolding g2_def by (rule keeps_trans[OF keeps_publish keeps_upd_clock]) simp
  obtain n where n: "search_for_lowest_waiting ctx g2 = Inr n"
    using d False
    by (auto simp: determine_lowest_and_notify_or_wait_def g2_def bindR_Inr_iff Let_def)
  have "tid_or_none n"
    using search_for_lowest_waiting_tid[OF keeps_ok[OF k2 ok] n] .
  then show ?thesis
    using d False n unfolding g2_def
    by (cases "n = tg_lowest_tid g"; cases "n = cur_tid ctx"; cases "n < 0")
       (auto simp: determine_lowest_and_notify_or_wait_def keeps_def Let_def
          split: if_splits)
qed

lemma decide_and_wake_keeps:
  assumes "group_ok g" "decide_and_wake cfg ctx g = Inr g'"
  shows "keeps g g'"
proof -
  obtain w h where "determine_lowest_and_notify_or_wait cfg ctx g = Inr (w, h)"
    "wake_if_found (w, h) = Inr g'"
    using assms(2) by (auto simp: decide_and_wake_def bindR_Inr_iff)
  then show ?thesis using determine_keeps[OF assms(1)] keeps_wake keeps_trans by blast
qed

text \<open>A handler that counts first and then decides.\<close>

lemma count_decide_keeps:
  assumes "group_ok g" "keeps g h" "decide_and_wake cfg ctx h = Inr g'"
  shows "keeps g g'"
  using decide_and_wake_keeps[OF keeps_ok[OF assms(2,1)] assms(3)] keeps_trans[OF assms(2)] by simp

lemma on_disable_keeps:
  assumes "group_ok g" "task_clock_on_disable cfg ctx g = Inr g'"
  shows "keeps g g'"
proof -
  let ?g1 = "if single_stepping_on cfg g (cur_tid ctx)
    then end_bounded_memory_fence_early cfg ctx g else g"
  have 1: "keeps g ?g1" by (auto intro: same_sched_intros same_sched_keeps)
  obtain h where h: "(if tick_counter_is_running ctx ?g1
      then Inr (tick_counter_turn_off ctx
             (logical_clock_update_clock_ticks cfg ctx (cur_tid ctx) ?g1))
      else logical_clock_reset_current_ticks cfg ctx (cur_tid ctx) ?g1) = Inr h"
    "decide_and_wake cfg ctx (h\<lparr>tg_notification_needed := True\<rparr>) = Inr g'"
    using assms(2) by (auto simp: task_clock_on_disable_def bindR_Inr_iff Let_def)
  have "keeps ?g1 h"
    using h(1) same_sched_reset_ticks[of cfg ctx "cur_tid ctx" ?g1 h]
      same_sched_trans[OF same_sched_update_clock_ticks same_sched_macros(1)]
    by (cases "tick_counter_is_running ctx ?g1") (auto intro!: same_sched_keeps)
  then have "keeps g (h\<lparr>tg_notification_needed := True\<rparr>)" using keeps_trans[OF 1] by simp
  then show ?thesis using count_decide_keeps[OF assms(1) _ h(2)] by simp
qed

lemma entry_stop_keeps:
  assumes "group_ok g" "task_clock_entry_stop cfg ctx g = Inr g'"
  shows "keeps g g'"
proof -
  let ?g1 = "if single_stepping_on cfg g (cur_tid ctx)
    then end_bounded_memory_fence_early cfg ctx g else g"
  have 1: "keeps g ?g1" by (auto intro: same_sched_intros same_sched_keeps)
  obtain h where h: "logical_clock_read_clock_and_update cfg ctx (cur_tid ctx) ?g1 = Inr h"
    "decide_and_wake cfg ctx h = Inr g'"
    using assms(2) by (auto simp: task_clock_entry_stop_def bindR_Inr_iff Let_def)
  have "keeps g h" using keeps_trans[OF 1 same_sched_keeps[OF same_sched_read_clock[OF h(1)]]] .
  then show ?thesis using count_decide_keeps[OF assms(1) _ h(2)] by simp
qed

lemma add_ticks_keeps:
  assumes "group_ok g" "task_clock_add_ticks cfg ctx n g = Inr g'"
  shows "keeps g g'"
proof -
  have "keeps g (publish_ticks ctx (inc_clock_ticks_no_chunk_add (cur_tid ctx) (word_of_int n) g))"
    by (rule keeps_trans[OF same_sched_keeps[OF same_sched_macros(4)] keeps_publish])
  then show ?thesis
    using count_decide_keeps[OF assms(1)] assms(2) by (simp add: task_clock_add_ticks_def)
qed

lemma on_enable_keeps:
  assumes "group_ok g" "task_clock_on_enable cfg ctx g = Inr g'"
  shows "keeps g g'"
proof -
  let ?t = "cur_tid ctx"
  let ?g2 = "logical_clock_reset_overflow_period cfg ctx ?t
    (tick_counter_turn_on ctx (reset_chunk_ticks ?t g))"
  have 2: "keeps g ?g2"
    by (meson keeps_trans same_sched_keeps same_sched_macros)
  obtain g3 where g3: "logical_clock_update_overflow_period cfg ctx ?t ?g2 = Inr g3"
    and r3: "(let g4 = (if ce_userspace_reading (tg_clocks g3 ?t)
                then logical_clock_set_perf_counter cfg ?t
                       (upd_clock ?t (\<lambda>c. c\<lparr>ce_userspace_reading := False\<rparr>) g3)
                else g3) in
      bindR (determine_lowest_and_notify_or_wait cfg ctx g4) (\<lambda>(lowest_tid, g5).
      let g6 = (if tg_lowest_tid g5 = ?t
                then g5\<lparr>tg_notification_needed := True, tg_nmi_new_low := False\<rparr> else g5) in
      wake_if_found (lowest_tid, clear_entry_state cfg ctx g6))) = Inr g'"
    using assms(2) unfolding task_clock_on_enable_def Let_def bindR_Inr_iff by blast
  have 3: "keeps g g3" using keeps_trans[OF 2 same_sched_keeps[OF same_sched_update_period[OF g3]]] .
  define g4 where "g4 = (if ce_userspace_reading (tg_clocks g3 ?t)
                then logical_clock_set_perf_counter cfg ?t
                       (upd_clock ?t (\<lambda>c. c\<lparr>ce_userspace_reading := False\<rparr>) g3)
                else g3)"
  have "keeps g3 (logical_clock_set_perf_counter cfg ?t
      (upd_clock ?t (\<lambda>c. c\<lparr>ce_userspace_reading := False\<rparr>) g3))"
    by (rule keeps_trans[OF keeps_upd_clock same_sched_keeps[OF same_sched_macros(8)]]) simp
  then have 4: "keeps g g4" using 3 by (auto simp: g4_def intro: keeps_trans)
  obtain w g5 where g5: "determine_lowest_and_notify_or_wait cfg ctx g4 = Inr (w, g5)"
    and r5: "wake_if_found (w, clear_entry_state cfg ctx (if tg_lowest_tid g5 = ?t
        then g5\<lparr>tg_notification_needed := True, tg_nmi_new_low := False\<rparr> else g5)) = Inr g'"
    using r3 unfolding Let_def g4_def[symmetric] bindR_Inr_iff by auto
  have 5: "keeps g g5" using keeps_trans[OF 4 determine_keeps[OF keeps_ok[OF 4 assms(1)] g5]] .
  show ?thesis
    by (rule keeps_trans[OF _ keeps_wake[OF r5]], rule keeps_trans[OF _ keeps_clear_entry_state])
       (simp add: 5)
qed

lemma entry_sleep_keeps:
  assumes "group_ok g" "task_clock_entry_sleep cfg ctx g = Inr g'"
  shows "keeps g g'"
proof -
  obtain w h where h: "determine_lowest_and_notify_or_wait cfg ctx g = Inr (w, h)"
    "wake_if_found (w, if ce_waiting (tg_clocks h (cur_tid ctx))
        then upd_clock (cur_tid ctx) (\<lambda>c. c\<lparr>ce_sleeping := True\<rparr>) h else h) = Inr g'"
    using assms(2) by (auto simp: task_clock_entry_sleep_def bindR_Inr_iff)
  have "keeps h (if ce_waiting (tg_clocks h (cur_tid ctx))
        then upd_clock (cur_tid ctx) (\<lambda>c. c\<lparr>ce_sleeping := True\<rparr>) h else h)"
    by (auto intro: keeps_upd_clock)
  then show ?thesis
    using determine_keeps[OF assms(1) h(1)] keeps_wake[OF h(2)] keeps_trans by blast
qed

lemma notify_keeps:
  assumes "group_ok g" "task_clock_notify_waiting_threads ctx g = Inr g'"
  shows "keeps g g'"
proof -
  obtain w h where h: "notify_waiting_threads_locked ctx g = Inr (w, h)"
    "wake_if_found (w, h) = Inr g'"
    using assms(2) by (auto simp: task_clock_notify_waiting_threads_def bindR_Inr_iff)
  have "keeps g h"
    using h(1) search_for_lowest_waiting_tid[OF assms(1)]
    by (auto simp: notify_waiting_threads_locked_def bindR_Inr_iff set_new_low_def keeps_def
        Let_def split: if_splits)
  then show ?thesis using keeps_wake[OF h(2)] keeps_trans by blast
qed

lemma start_keeps:
  assumes "group_ok g" "task_clock_entry_start cfg ctx g = Inr g'"
  shows "keeps g g'"
proof -
  obtain h where h: "logical_clock_reset_current_ticks cfg ctx (cur_tid ctx)
      (upd_user (cur_tid ctx) (\<lambda>u. u\<lparr>us_notifying_id := 0\<rparr>) g) = Inr h"
    "task_clock_on_enable cfg ctx h = Inr g'"
    using assms(2) by (auto simp: task_clock_entry_start_def bindR_Inr_iff)
  have "keeps g h"
    by (rule keeps_trans[OF _ same_sched_keeps[OF same_sched_reset_ticks[OF h(1)]]]) simp
  then show ?thesis using on_enable_keeps[OF keeps_ok[OF _ assms(1)] h(2)] keeps_trans by blast
qed

lemma start_no_notify_keeps:
  assumes "task_clock_entry_start_no_notify cfg ctx g = Inr g'"
  shows "keeps g g'"
proof -
  obtain h where h: "logical_clock_reset_current_ticks cfg ctx (cur_tid ctx)
      (upd_clock (cur_tid ctx) (\<lambda>c. c\<lparr>ce_userspace_reading := True\<rparr>) g) = Inr h"
    "g' = upd_user (cur_tid ctx) (\<lambda>u. u\<lparr>us_notifying_id := 666\<rparr>) (tick_counter_turn_off ctx
              (logical_clock_set_perf_counter_max cfg (cur_tid ctx) h))"
    using assms by (auto simp: task_clock_entry_start_no_notify_def bindR_Inr_iff)
  have "keeps g h"
    by (rule keeps_trans[OF keeps_upd_clock same_sched_keeps[OF same_sched_reset_ticks[OF h(1)]]])
       simp
  moreover have "keeps h (tick_counter_turn_off ctx
      (logical_clock_set_perf_counter_max cfg (cur_tid ctx) h))"
    by (meson keeps_trans same_sched_keeps same_sched_macros)
  ultimately show ?thesis using h(2) keeps_trans by simp
qed

lemma overflow_keeps:
  "task_clock_overflow_handler cfg ctx (g, tf) = Inr (g', tf') \<Longrightarrow> keeps g g'"
  by (auto simp: task_clock_overflow_handler_def bindR_Inr_iff Let_def split: if_splits)

lemma update_period_keeps:
  "task_clock_entry_overflow_update_period cfg ctx g = Inr g' \<Longrightarrow> keeps g g'"
  using same_sched_trans[OF same_sched_update_clock_ticks same_sched_update_period]
  by (auto simp: task_clock_entry_overflow_update_period_def intro: same_sched_keeps
      split: if_splits)

lemma single_step_keeps: "keeps g (fst (snd (on_single_step cfg ctx (g, tf))))"
  by (auto simp: keeps_def on_single_step_def clock_macros Let_def)

lemma entry_init_keeps:
  "task_clock_entry_init cfg ctx pte e g = Inr g' \<Longrightarrow> keeps g g'"
  by (auto simp: task_clock_entry_init_def keeps_def clock_macros Let_def split: if_splits option.splits)

lemma group_ok_halt:
  assumes "group_ok g" "task_clock_entry_halt cfg ctx g = Inr g'"
  shows "group_ok g'"
proof -
  obtain xs where xs: "la_abs (tg_active_threads g) xs" "\<forall>i \<in> set xs. \<not> ce_inactive (tg_clocks g i)"
    using assms(1) by (auto simp: group_ok_def)
  obtain h w k where h: "mark_as_inactive (cur_tid ctx) g = Inr h"
    "determine_lowest_and_notify_or_wait cfg ctx h = Inr (w, k)"
    "wake_if_found (w, upd_clock (cur_tid ctx) (\<lambda>c. c\<lparr>ce_waiting := False\<rparr>) k) = Inr g'"
    using assms(2) by (auto simp: task_clock_entry_halt_def bindR_Inr_iff)
  obtain la where la: "listarray_remove (tg_active_threads g) (cur_tid ctx) = Inr la"
    "h = (upd_clock (cur_tid ctx) (\<lambda>c. c\<lparr>ce_inactive := True\<rparr>) g)\<lparr>tg_active_threads := la\<rparr>"
    using h(1) by (auto simp: mark_as_inactive_def bindR_Inr_iff)
  have "distinct xs" using la.repr_ok[OF xs(1)] by simp
  then have "group_ok h"
    using la.rem_InrD[OF xs(1) la(1)] xs(2) la(2) assms(1) by (auto simp: group_ok_def)
  moreover have "keeps k (upd_clock (cur_tid ctx) (\<lambda>c. c\<lparr>ce_waiting := False\<rparr>) k)"
    by (rule keeps_upd_clock) simp
  ultimately show ?thesis
    using determine_keeps[OF _ h(2)] keeps_wake[OF h(3)] keeps_ok by blast
qed

lemma group_ok_mark_as_active:
  assumes "group_ok g" "mark_as_active t g = Inr g'"
  shows "group_ok g' \<and> la_index_ok t"
proof -
  obtain xs where xs: "la_abs (tg_active_threads g) xs" "\<forall>i \<in> set xs. \<not> ce_inactive (tg_clocks g i)"
    using assms(1) by (auto simp: group_ok_def)
  obtain la where la: "listarray_insert (tg_active_threads g) t = Inr la"
    "g' = (upd_clock t (\<lambda>c. c\<lparr>ce_inactive := False\<rparr>) g)\<lparr>tg_active_threads := la\<rparr>"
    using assms(2) by (auto simp: mark_as_active_def bindR_Inr_iff)
  have "la_abs la (xs @ [t])" "la_index_ok t" using la.ins_InrD[OF xs(1) la(1)] by auto
  then show ?thesis
    using xs(2) la(2) assms(1) by (auto simp: group_ok_def)
qed

lemma group_ok_activate:
  assumes "group_ok g" "task_clock_entry_activate cfg ctx g = Inr g'"
  shows "group_ok g'"
proof -
  let ?t = "cur_tid ctx"
  obtain g2 g4 n where g2: "mark_as_active ?t
      (reset_chunk_ticks ?t (clear_entry_state cfg ctx g)) = Inr g2"
    and g4: "logical_clock_update_overflow_period cfg ctx ?t
      (logical_clock_reset_overflow_period cfg ctx ?t g2) = Inr g4"
    and fin: "\<exists>f1 f2 f3. g' = upd_clock ?t (\<lambda>c. c\<lparr>ce_userspace_reading := False\<rparr>)
        (upd_user ?t f1 g4) \<or>
      (g' = upd_user ?t f2 ((upd_clock ?t (\<lambda>c. c\<lparr>ce_userspace_reading := False\<rparr>)
        (upd_user ?t f3 g4))\<lparr>tg_notification_needed := False, tg_lowest_tid := ?t\<rparr>))"
    using assms(2)
    by (simp add: task_clock_entry_activate_def bindR_Inr_iff Let_def split: if_splits) blast+
  have "group_ok (reset_chunk_ticks ?t (clear_entry_state cfg ctx g))"
    by (rule keeps_ok[OF keeps_trans[OF keeps_clear_entry_state
          same_sched_keeps[OF same_sched_macros(3)]] assms(1)])
  from group_ok_mark_as_active[OF this g2] have 2: "group_ok g2" "la_index_ok ?t" by auto
  have 4: "keeps g2 g4"
    using same_sched_trans[OF same_sched_macros(10) same_sched_update_period[OF g4]]
    by (rule same_sched_keeps)
  have "keeps g4 g'" using fin 2(2) by (auto simp: keeps_def tid_or_none_def split: if_splits)
  then show ?thesis using keeps_ok[OF keeps_trans[OF 4] 2(1)] by simp
qed

lemma group_ok_activate_other:
  assumes "group_ok g" "task_clock_entry_activate_other ctx t g = Inr g'"
  shows "group_ok g'"
proof -
  obtain h k where h: "keeps g h" "mark_as_active t h = Inr k"
    "g' = (let g5 = reset_chunk_ticks t k in
       if tg_lowest_tid g5 < 0 \<or> clock_is_lower g5 t (tg_lowest_tid g5)
       then upd_user (cur_tid ctx) (\<lambda>u. u\<lparr>us_activated_lowest := True\<rparr>) g5 else g5)"
  proof -
    let ?g1 = "if \<not> ce_initialized (tg_clocks g t)
                then upd_clock t (\<lambda>c. c\<lparr>ce_base_ticks := get_clock_ticks g (cur_tid ctx) + 1,
                                          ce_ticks := 0\<rparr>) g
                else g"
    have "keeps g (clear_entry_state_by_id ctx t (upd_clock t (\<lambda>c. c\<lparr>ce_initialized := True\<rparr>) ?g1))"
      by (auto simp: keeps_def clock_macros)
    with that assms(2) show thesis
      by (auto simp: task_clock_entry_activate_other_def bindR_Inr_iff Let_def split: if_splits)
  qed
  have "keeps k g'" using h(3) same_sched_keeps[OF same_sched_macros(3)[of k t]]
    by (simp add: Let_def)
  then show ?thesis
    using group_ok_mark_as_active[OF keeps_ok[OF h(1) assms(1)] h(2)] keeps_ok by blast
qed

lemma handle_group_ok:
  assumes ok: "group_ok g" and h: "handle cfg ctx c g = Inr g'"
  shows "group_ok g'"
proof (cases c)
  case (KOverflow tf)
  with h obtain tf' where "task_clock_overflow_handler cfg ctx (g, tf) = Inr (g', tf')"
    by (auto simp: bindR_Inr_iff)
  then show ?thesis using overflow_keeps keeps_ok ok by blast
next
  case KHalt
  then show ?thesis using group_ok_halt ok h by simp
next
  case KActivate
  then show ?thesis using group_ok_activate ok h by simp
next
  case (KActivateOther t)
  then show ?thesis using group_ok_activate_other ok h by simp
next
  case KWait
  then show ?thesis
    using h keeps_ok[OF decide_and_wake_keeps[OF ok]] ok by (simp add: task_clock_entry_wait_def)
next
  case KStopNoNotify
  then show ?thesis
    using h keeps_ok[OF same_sched_keeps[OF same_sched_read_clock]] ok
    by (simp add: task_clock_entry_stop_no_notify_def)
next
  case KIrqWork
  then show ?thesis
    using h keeps_ok[OF notify_keeps[OF ok]] ok by (simp add: task_clock_notify_waiting_threads_irq_def)
next
  case KReset
  then have "keeps g g'" using h by (auto simp: task_clock_entry_reset_def keeps_def split: if_splits)
  then show ?thesis using keeps_ok ok by blast
next
  case KWokeUp
  then have "keeps g g'" using h by (auto simp: task_clock_entry_woke_up_def keeps_def split: if_splits)
  then show ?thesis using keeps_ok ok by blast
next
  case (KSingleStep tf)
  then have "keeps g g'"
    using h single_step_keeps[of g cfg ctx tf] by (simp add: task_clock_entry_is_singlestep_def)
  then show ?thesis using keeps_ok ok by blast
next
  case KUpdatePeriod
  then show ?thesis using keeps_ok[OF update_period_keeps] ok h by simp
next
  case (KEntryInit found e)
  then show ?thesis using keeps_ok[OF entry_init_keeps] ok h by simp
next
  case KDisable
  then show ?thesis using keeps_ok[OF on_disable_keeps[OF ok]] ok h by simp
next
  case KEnable
  then show ?thesis using keeps_ok[OF on_enable_keeps[OF ok]] ok h by simp
next
  case KSleep
  then show ?thesis using keeps_ok[OF entry_sleep_keeps[OF ok]] ok h by simp
next
  case (KAddTicks n)
  then show ?thesis using keeps_ok[OF add_ticks_keeps[OF ok]] ok h by simp
next
  case KStop
  then show ?thesis using keeps_ok[OF entry_stop_keeps[OF ok]] ok h by simp
next
  case KStart
  then show ?thesis using keeps_ok[OF start_keeps[OF ok]] ok h by simp
next
  case KStartNoNotify
  then show ?thesis using keeps_ok[OF start_no_notify_keeps] ok h by simp
qed

lemma group_ok_init: "group_ok (task_clock_group_init n g)"
proof -
  have "la_abs (tg_active_threads (task_clock_group_init n g)) []"
    using la_abs_init by (simp add: task_clock_group_init_def init_task_clock_entries_def Let_def)
  moreover have "tg_lowest_tid (task_clock_group_init n g) = -1"
    by (simp add: task_clock_group_init_def init_task_clock_entries_def Let_def)
  ultimately show ?thesis by (force simp: group_ok_def tid_or_none_def)
qed

subsection \<open>Properties\<close>

text \<open>
  C9. The group's invariant is inductive: in every state that any sequence of calls reaches from
  \<open>task_clock_group_init\<close>, whatever memory \<open>kmalloc\<close> returned, in any configuration and by any
  threads, the active list is a well-formed list without duplicates, none of its threads is
  marked inactive, and the recorded lowest thread is -1 or a valid index.
\<close>

theorem reachable_group_ok:
  assumes "reachable cfg g"
  shows "(tg_lowest_tid g = -1 \<or> (0 \<le> tg_lowest_tid g \<and> tg_lowest_tid g < 4096)) \<and>
    (\<exists>xs. la_abs (tg_active_threads g) xs \<and> distinct xs \<and>
       (\<forall>i \<in> set xs. 0 \<le> i \<and> i < 4096 \<and> \<not> ce_inactive (tg_clocks g i)))"
proof -
  have "group_ok g"
    using assms by (induction rule: reachable.induct) (auto intro: group_ok_init handle_group_ok)
  then obtain xs where "la_abs (tg_active_threads g) xs" "tid_or_none (tg_lowest_tid g)"
    "\<forall>i \<in> set xs. \<not> ce_inactive (tg_clocks g i)"
    by (auto simp: group_ok_def)
  moreover have "distinct xs \<and> (\<forall>i \<in> set xs. la_index_ok i)" using la.repr_ok calculation by blast
  ultimately show ?thesis
    by (auto simp: tid_or_none_def la_index_ok_def LISTARRAY_MAX_SIZE_def)
qed

theorem reachable_group_ok_witness:
  "\<exists>g xs. handle plain_cfg (sample_ctx 0 False) (KActivateOther 1)
      (task_clock_group_init 4 wait_group) = Inr g \<and> la_abs (tg_active_threads g) xs"
proof -
  let ?g0 = "task_clock_group_init 4 wait_group"
  have abs: "la_abs (tg_active_threads ?g0) []"
    using la_abs_init by (simp add: task_clock_group_init_def init_task_clock_entries_def Let_def)
  have "la_index_ok 1" by (simp add: la_index_ok_def la_consts)
  then obtain la where la: "listarray_insert (tg_active_threads ?g0) 1 = Inr la"
    using la.ins_new[OF abs, of 1] by auto
  have "\<exists>g. handle plain_cfg (sample_ctx 0 False) (KActivateOther 1) ?g0 = Inr g"
    using la by (auto simp: task_clock_entry_activate_other_def mark_as_active_def clock_macros
        Let_def simp del: fun_upd_apply)
  then obtain g where g: "handle plain_cfg (sample_ctx 0 False) (KActivateOther 1) ?g0 = Inr g" ..
  with reachable_group_ok[OF reach_call[OF reach_init g]] show ?thesis by auto
qed

end
