(* ===== verification/Tx_Estimate.thy ===== *)
theory Tx_Estimate
  imports Prelude
begin

text \<open>
  The estimator of transaction lengths, \<open>tx_estimate.h\<close>: per hashed identifier, an exponentially
  weighted moving average, computed in single precision floating point, and the last ten
  observations. The floating point operations are written out on natural numbers: every value
  is a count of units of \<open>2^-26\<close>, and each operation rounds to 24 significant bits, to nearest
  with ties to even. No intermediate value is subnormal or overflows the exponent range.
\<close>

subsection \<open>Single precision arithmetic\<close>

text \<open>The number of bits of a natural number.\<close>

fun bit_len :: "nat \<Rightarrow> nat" where
  "bit_len n = (if n = 0 then 0 else Suc (bit_len (n div 2)))"

declare bit_len.simps [simp del]

definition round_even :: "nat \<Rightarrow> nat \<Rightarrow> nat" where
  "round_even n d =
     (let q = n div d; r = n mod d in
      if 2 * r < d then q else if 2 * r > d then q + 1 else if even q then q else q + 1)"

definition round24 :: "nat \<Rightarrow> nat" where
  "round24 n = (let s = bit_len n - 24 in round_even n (2 ^ s) * 2 ^ s)"

text \<open>\<open>0.2F\<close> and \<open>1.0F - 0.2F\<close>, in units of \<open>2^-26\<close>.\<close>

definition TX_ESTIMATE_EWMA_WEIGHT :: nat where "TX_ESTIMATE_EWMA_WEIGHT = 13421773"
definition one_minus_weight :: nat where
  "one_minus_weight = round24 (2 ^ 26 - TX_ESTIMATE_EWMA_WEIGHT)"

text \<open>
  \<open>ticks*WEIGHT + (1.0F-WEIGHT)*ewma\<close>: the integers are converted, both products and the sum are
  rounded. Converting a value of \<open>2^64\<close> or more back is undefined in C, a fault here.
\<close>

definition ewma_next :: "nat \<Rightarrow> nat \<Rightarrow> nat" where
  "ewma_next ticks ewma =
     round24 (round24 (round24 ticks * TX_ESTIMATE_EWMA_WEIGHT) +
              round24 (one_minus_weight * round24 ewma)) div 2 ^ 26"

subsection \<open>The estimator\<close>

definition TX_ESTIMATE_MIN_OBSERVATIONS :: nat where "TX_ESTIMATE_MIN_OBSERVATIONS = 10"
definition TX_ESTIMATE_TOTAL_OBSERVATIONS :: nat where "TX_ESTIMATE_TOTAL_OBSERVATIONS = 10"
definition TX_ESTIMATE_TOTAL_ENTRIES :: nat where "TX_ESTIMATE_TOTAL_ENTRIES = 32"

lemmas tx_consts = TX_ESTIMATE_MIN_OBSERVATIONS_def TX_ESTIMATE_TOTAL_OBSERVATIONS_def
  TX_ESTIMATE_TOTAL_ENTRIES_def

record tx_estimate =
  tx_ewma :: u64
  tx_observations :: "u64 list"
  tx_counter :: u64

type_synonym tx_estimator = "tx_estimate list"

definition tx_estimate_init :: tx_estimator where
  "tx_estimate_init = replicate TX_ESTIMATE_TOTAL_ENTRIES
     \<lparr>tx_ewma = 0, tx_observations = replicate TX_ESTIMATE_TOTAL_OBSERVATIONS 0, tx_counter = 0\<rparr>"

definition tx_get_entry :: "u64 \<Rightarrow> nat" where
  "tx_get_entry identifier =
     (if identifier \<noteq> 0
      then unat (and (drop_bit 8 (and identifier 0xFF00)) (drop_bit 16 (and identifier 0xFF0000)))
             mod (TX_ESTIMATE_TOTAL_ENTRIES - 1) + 1
      else 0)"

definition tx_estimate_add_observation ::
  "tx_estimator \<Rightarrow> u64 \<Rightarrow> u64 \<Rightarrow> tx_estimator result" where
  "tx_estimate_add_observation txe identifier ticks =
     (let id = tx_get_entry identifier; tx = txe ! id;
          e = ewma_next (unat ticks) (unat (tx_ewma tx)) in
      if e < 2 ^ 64
      then Inr (txe[id := tx\<lparr>tx_ewma := of_nat e,
             tx_observations := (tx_observations tx)
               [unat (tx_counter tx) mod TX_ESTIMATE_TOTAL_OBSERVATIONS := ticks],
             tx_counter := tx_counter tx + 1\<rparr>])
      else Inl OutOfBounds)"

text \<open>
  \<open>abs\<close> takes and returns an \<open>int\<close>: the difference is truncated to 32 bits, its absolute value
  is taken in 32 bits (where the least value is its own negation) and extended to 64.
\<close>

definition c_abs :: "u64 \<Rightarrow> u64" where
  "c_abs x = (let i = (ucast x :: u32) in scast (if i <s 0 then - i else i))"

definition tx_estimate_next_observation_guess :: "tx_estimator \<Rightarrow> u64 \<Rightarrow> int" where
  "tx_estimate_next_observation_guess txe identifier =
     (let tx = txe ! tx_get_entry identifier in
      if unat (tx_counter tx) > TX_ESTIMATE_MIN_OBSERVATIONS
      then (let total = foldl (\<lambda>total i. total + c_abs (tx_observations tx ! i - tx_ewma tx)) 0
                          [0..<TX_ESTIMATE_TOTAL_OBSERVATIONS]
            in sint (tx_ewma tx + total div of_nat TX_ESTIMATE_TOTAL_OBSERVATIONS))
      else -1)"

subsection \<open>Rounding\<close>

lemma bit_len_0 [simp]: "bit_len 0 = 0" by (simp add: bit_len.simps)

lemma bit_len_bounds: "n < 2 ^ bit_len n" "n \<noteq> 0 \<Longrightarrow> 2 ^ (bit_len n - 1) \<le> n"
proof (induction n rule: bit_len.induct)
  case (1 n)
  { case 1
    show ?case using "1.IH"(1) by (cases "n = 0") (auto simp: bit_len.simps[of n]) }
  { case 2
    show ?case
    proof (cases "n div 2 = 0")
      case True
      with 2 have "n = 1" by simp
      then show ?thesis by (simp add: bit_len.simps)
    next
      case False
      then have "bit_len (n div 2) \<noteq> 0" by (simp add: bit_len.simps)
      then have "(2::nat) ^ bit_len (n div 2) = 2 * 2 ^ (bit_len (n div 2) - 1)"
        by (cases "bit_len (n div 2)") auto
      moreover have "2 ^ (bit_len (n div 2) - 1) \<le> n div 2" using "1.IH"(2) 2 False by blast
      ultimately show ?thesis using 2 by (simp add: bit_len.simps[of n])
    qed }
qed

lemma round_even_exact [simp]: "round_even n (Suc 0) = n"
  by (simp add: round_even_def)

lemma round24_small: "bit_len n \<le> 24 \<Longrightarrow> round24 n = n"
  by (simp add: round24_def)

lemma round_even_error:
  "d > 0 \<Longrightarrow> 2 * (round_even n d * d) \<le> 2 * n + d"
proof -
  assume d: "d > 0"
  define q r where "q = n div d" and "r = n mod d"
  then have n: "n = q * d + r"
    and e: "round_even n d = (if 2 * r < d then q else if 2 * r > d then q + 1
      else if even q then q else q + 1)"
    by (simp_all add: round_even_def)
  show ?thesis unfolding e unfolding n using d by (auto simp: distrib_right)
qed

text \<open>Rounding adds at most one part in \<open>2^24\<close>.\<close>

lemma round24_upper: "2 ^ 24 * round24 n \<le> (2 ^ 24 + 1) * n"
proof (cases "bit_len n \<le> 24")
  case True
  then show ?thesis by (simp add: round24_small)
next
  case False
  define s where "s = bit_len n - 24"
  have "n \<noteq> 0" using False by (cases "n = 0") auto
  then have "2 ^ (bit_len n - 1) \<le> n" by (rule bit_len_bounds)
  moreover have "bit_len n - 1 = 23 + s" using False by (simp add: s_def)
  ultimately have "2 ^ 23 * 2 ^ s \<le> n" by (simp add: power_add)
  moreover have "2 * (round_even n (2 ^ s) * 2 ^ s) \<le> 2 * n + 2 ^ s"
    by (rule round_even_error) simp
  ultimately have "2 ^ 24 * (round_even n (2 ^ s) * 2 ^ s) \<le> 2 ^ 24 * n + n" by simp
  then show ?thesis by (simp add: round24_def s_def[symmetric] Let_def)
qed

lemma ewma_next_le:
  assumes "ticks \<le> B" "ewma \<le> B" "B < 2 ^ 20"
  shows "ewma_next ticks ewma \<le> B"
proof -
  have small: "round24 n = n" if "n \<le> B" for n
  proof (rule round24_small)
    have "n < 2 ^ 20" using that assms(3) by simp
    show "bit_len n \<le> 24"
    proof (cases "n = 0")
      case False
      then have "2 ^ (bit_len n - 1) \<le> n" by (rule bit_len_bounds)
      then have "(2::nat) ^ (bit_len n - 1) < 2 ^ 20" using \<open>n < 2 ^ 20\<close> by simp
      then have "bit_len n - 1 < 20" by (simp only: power_strict_increasing_iff)
      then show ?thesis by simp
    qed simp
  qed
  define x y where "x = round24 (ticks * TX_ESTIMATE_EWMA_WEIGHT)"
    and "y = round24 (one_minus_weight * ewma)"
  have w: "one_minus_weight \<le> 53687094"
    using round24_upper[of "2 ^ 26 - TX_ESTIMATE_EWMA_WEIGHT"]
    by (simp add: one_minus_weight_def TX_ESTIMATE_EWMA_WEIGHT_def)
  have x: "2 ^ 24 * x \<le> (2 ^ 24 + 1) * (B * 13421773)"
    by (rule order_trans[OF round24_upper[of "ticks * TX_ESTIMATE_EWMA_WEIGHT", folded x_def]])
       (use assms(1) in \<open>simp add: TX_ESTIMATE_EWMA_WEIGHT_def\<close>)
  have y: "2 ^ 24 * y \<le> (2 ^ 24 + 1) * (53687094 * B)"
    by (rule order_trans[OF round24_upper[of "one_minus_weight * ewma", folded y_def]])
       (use assms(2) w in \<open>intro mult_left_mono mult_mono, auto\<close>)
  have "2 ^ 24 * round24 (x + y) \<le> (2 ^ 24 + 1) * (x + y)" by (rule round24_upper)
  then have "2 ^ 48 * round24 (x + y) \<le> (2 ^ 24 + 1) * (2 ^ 24 * x + 2 ^ 24 * y)" by simp
  also have "\<dots> \<le> (2 ^ 24 + 1) * ((2 ^ 24 + 1) * (B * 67108867))" using x y by simp
  also have "\<dots> < 2 ^ 74 * (B + 1)" using assms(3) by simp
  finally have "round24 (x + y) < 2 ^ 26 * (B + 1)" by simp
  then have "round24 (x + y) div 2 ^ 26 < B + 1" by (simp add: div_less_iff_less_mult mult.commute)
  then show ?thesis
    using small[OF assms(1)] small[OF assms(2)] by (simp add: ewma_next_def x_def y_def)
qed

subsection \<open>Sequences of observations\<close>

fun tx_observe :: "tx_estimator \<Rightarrow> (u64 \<times> u64) list \<Rightarrow> tx_estimator result" where
  "tx_observe txe [] = Inr txe"
| "tx_observe txe ((identifier, ticks) # os) =
     bindR (tx_estimate_add_observation txe identifier ticks) (\<lambda>txe'. tx_observe txe' os)"

definition tx_ok :: "nat \<Rightarrow> tx_estimator \<Rightarrow> bool" where
  "tx_ok B txe \<longleftrightarrow> length txe = TX_ESTIMATE_TOTAL_ENTRIES \<and>
     (\<forall>tx \<in> set txe. length (tx_observations tx) = TX_ESTIMATE_TOTAL_OBSERVATIONS \<and>
        unat (tx_ewma tx) \<le> B \<and> (\<forall>v \<in> set (tx_observations tx). unat v \<le> B))"

lemma tx_get_entry_bound: "tx_get_entry identifier < TX_ESTIMATE_TOTAL_ENTRIES"
proof -
  have "n mod 31 < 31" for n :: nat by simp
  then show ?thesis by (auto simp: tx_get_entry_def tx_consts less_Suc_eq_le intro: order_trans)
qed

lemma tx_ok_init: "tx_ok B tx_estimate_init"
  by (simp add: tx_ok_def tx_estimate_init_def tx_consts)

lemma tx_add_ok:
  assumes ok: "tx_ok B txe" and B: "B < 2 ^ 20" "unat ticks \<le> B"
  shows "\<exists>txe'. tx_estimate_add_observation txe identifier ticks = Inr txe' \<and> tx_ok B txe'"
proof -
  let ?id = "tx_get_entry identifier"
  have id: "?id < length txe" using ok tx_get_entry_bound by (simp add: tx_ok_def)
  then have tx: "txe ! ?id \<in> set txe" by simp
  then have e: "ewma_next (unat ticks) (unat (tx_ewma (txe ! ?id))) \<le> B"
    using ok B by (intro ewma_next_le) (auto simp: tx_ok_def)
  have u: "unat (of_nat n :: u64) \<le> B" if "n \<le> B" for n
  proof -
    have "n < 2 ^ 64" using that B(1) by simp
    then show ?thesis using that by (simp add: unat_of_nat)
  qed
  have "\<forall>v \<in> set (tx_observations (txe ! ?id)). unat v \<le> B"
    using ok tx by (simp add: tx_ok_def)
  then show ?thesis
    using ok tx e u[OF e] B id
    by (auto simp: tx_estimate_add_observation_def tx_ok_def Let_def
        dest!: set_update_subset_insert[THEN subsetD])
qed



subsection \<open>The guess\<close>

lemma c_abs_small:
  assumes "sint x = d" "\<bar>d\<bar> < 2 ^ 31"
  shows "c_abs x = word_of_int \<bar>d\<bar>"
proof -
  have x: "x = word_of_int d" using assms(1) by auto
  then have u: "(ucast x :: u32) = word_of_int d" by (simp add: unsigned_of_int word_of_int_eq_iff)
  have s: "sint (word_of_int d :: u32) = d"
    using assms(2) by (simp add: sint_sbintrunc' signed_take_bit_int_eq_self)
  have a: "sint (word_of_int \<bar>d\<bar> :: u32) = \<bar>d\<bar>"
    using assms(2) by (simp add: sint_sbintrunc' signed_take_bit_int_eq_self)
  define i where "i = (word_of_int d :: u32)"
  have "(if i <s 0 then - i else i) = word_of_int \<bar>d\<bar>"
  proof (cases "d < 0")
    case True
    then have "i <s 0" using s by (simp only: word_sless_alt i_def sint_0)
    then show ?thesis using True by (simp add: i_def)
  next
    case False
    then have "\<not> i <s 0" using s by (simp only: word_sless_alt i_def sint_0 not_False_eq_True)
    then show ?thesis using False by (simp add: i_def)
  qed
  then have "c_abs x = scast (word_of_int \<bar>d\<bar> :: u32)"
    using u by (simp only: c_abs_def i_def Let_def)
  also have "\<dots> = word_of_int \<bar>d\<bar>" by (simp only: scast_eq a)
  finally show ?thesis .
qed

lemma diff_small:
  "0 \<le> (x :: int) \<Longrightarrow> x < 2 ^ 20 \<Longrightarrow> 0 \<le> y \<Longrightarrow> y < 2 ^ 20 \<Longrightarrow>
   - (2 ^ 63) \<le> x - y \<and> x - y < 2 ^ 63 \<and> \<bar>x - y\<bar> < 2 ^ 20"
  by simp

lemma sum_small:
  "0 \<le> (e :: int) \<Longrightarrow> e < 2 ^ 20 \<Longrightarrow> 0 \<le> s \<Longrightarrow> s \<le> 10 * 2 ^ 20 \<Longrightarrow>
   - (2 ^ 63) \<le> e + s div 10 \<and> e + s div 10 < 2 ^ 63"
  by (simp add: pos_imp_zdiv_nonneg_iff) linarith

lemma foldl_c_abs:
  "(\<forall>i \<in> set is. \<bar>sint (f i)\<bar> < 2 ^ 31) \<Longrightarrow>
   foldl (\<lambda>total i. total + c_abs (f i)) (word_of_int z) is =
     word_of_int (z + (\<Sum>i \<leftarrow> is. \<bar>sint (f i)\<bar>))"
proof (induction "is" arbitrary: z)
  case (Cons i "is")
  then have "foldl (\<lambda>total i. total + c_abs (f i)) (word_of_int z) (i # is) =
    foldl (\<lambda>total i. total + c_abs (f i)) (word_of_int (z + \<bar>sint (f i)\<bar>)) is"
    by (simp add: c_abs_small)
  then show ?case using Cons.IH[of "z + \<bar>sint (f i)\<bar>"] Cons.prems by (simp add: algebra_simps)
qed simp

text \<open>
  The guess: no guess (-1) up to ten observations; after that, when average and
  observations are below \<open>2^20\<close>, the average plus the mean absolute deviation of the last ten
  observations, so the conversion of each difference to a 32 bit \<open>int\<close> is harmless there.
\<close>

theorem tx_guess_exact:
  assumes "tx = txe ! tx_get_entry identifier" and "unat (tx_ewma tx) < 2 ^ 20"
    and "\<forall>i < 10. unat (tx_observations tx ! i) < 2 ^ 20"
  shows "tx_estimate_next_observation_guess txe identifier =
    (if unat (tx_counter tx) \<le> 10 then -1
     else uint (tx_ewma tx) +
       (\<Sum>i \<leftarrow> [0..<10]. \<bar>uint (tx_observations tx ! i) - uint (tx_ewma tx)\<bar>) div 10)"
proof -
  have u: "sint (a - b) = uint a - uint b"
    if "unat a < 2 ^ 20" "unat b < 2 ^ 20" for a b :: u64
  proof -
    have "a - b = word_of_int (uint a - uint b)" by simp
    moreover have "- (2 ^ 63) \<le> uint a - uint b \<and> uint a - uint b < 2 ^ 63 \<and>
        \<bar>uint a - uint b\<bar> < 2 ^ 20"
      using uint_less_pow2[OF that(1)] uint_less_pow2[OF that(2)] by (intro diff_small) simp_all
    ultimately show ?thesis using sint_of_int_small[of "uint a - uint b"] by simp
  qed
  let ?S = "\<Sum>i \<leftarrow> [0..<10]. \<bar>uint (tx_observations tx ! i) - uint (tx_ewma tx)\<bar>"
  have each: "sint (tx_observations tx ! i - tx_ewma tx) =
      uint (tx_observations tx ! i) - uint (tx_ewma tx)" if "i < 10" for i
    using u assms that by simp
  have small: "\<bar>uint (tx_observations tx ! i) - uint (tx_ewma tx)\<bar> < 2 ^ 20" if "i < 10" for i
    using diff_small assms(2,3) that by (simp only: uint_less_pow2 unsigned_greater_eq)
  have S: "0 \<le> ?S" "?S \<le> 10 * 2 ^ 20"
  proof -
    show "0 \<le> ?S" by (rule sum_list_nonneg) auto
    have "?S \<le> (\<Sum>i \<leftarrow> [0..<10]. 2 ^ 20)"
      by (rule sum_list_mono) (use small in \<open>simp add: less_imp_le\<close>)
    then show "?S \<le> 10 * 2 ^ 20" by (simp add: sum_list_triv)
  qed
  have "foldl (\<lambda>total i. total + c_abs (tx_observations tx ! i - tx_ewma tx)) (word_of_int 0) [0..<10]
      = word_of_int (0 + (\<Sum>i \<leftarrow> [0..<10]. \<bar>sint (tx_observations tx ! i - tx_ewma tx)\<bar>))"
    by (rule foldl_c_abs) (use each less_trans[OF small, of _ "2 ^ 31"] in auto)
  also have "(\<Sum>i \<leftarrow> [0..<10]. \<bar>sint (tx_observations tx ! i - tx_ewma tx)\<bar>) = ?S"
    by (rule arg_cong[of _ _ sum_list], rule map_cong) (use each in auto)
  finally have T: "foldl (\<lambda>total i. total + c_abs (tx_observations tx ! i - tx_ewma tx)) 0 [0..<10]
      = word_of_int ?S" by simp
  have "uint (word_of_int ?S :: u64) = ?S" using S by (simp add: uint_word_of_int take_bit_int_eq_self)
  then have d: "uint ((word_of_int ?S :: u64) div 10) = ?S div 10" by (simp add: uint_div)
  have w: "uint (tx_ewma tx) < 2 ^ 20" using assms(2) by (rule uint_less_pow2)
  have "tx_ewma tx + word_of_int ?S div 10 = word_of_int (uint (tx_ewma tx) + ?S div 10)"
    by (simp only: d[symmetric] of_int_add word_of_int_uint)
  also have "sint \<dots> = uint (tx_ewma tx) + ?S div 10"
    using sum_small[OF _ w S] by (intro sint_of_int_small) simp_all
  finally show ?thesis
    using T assms(1)
    by (simp add: tx_estimate_next_observation_guess_def tx_consts Let_def not_le)
qed

theorem tx_guess_exact_witness:
  "tx_estimate_next_observation_guess
     [\<lparr>tx_ewma = 100, tx_observations = [100, 100, 100, 100, 100, 100, 100, 100, 50, 200],
       tx_counter = 11\<rparr>] 0 = 115"
proof -
  let ?tx = "\<lparr>tx_ewma = 100, tx_observations = [100, 100, 100, 100, 100, 100, 100, 100, 50, 200],
    tx_counter = 11\<rparr> :: tx_estimate"
  have "\<forall>v \<in> set (tx_observations ?tx). unat v < 2 ^ 20" by simp
  then have "\<forall>i < 10. unat (tx_observations ?tx ! i) < 2 ^ 20"
    by (intro allI impI) (rule bspec, assumption, rule nth_mem, simp)
  moreover have "[0..<10] = [0, 1, 2, 3, 4, 5, 6, 7, 8, 9 :: nat]" by code_simp
  ultimately show ?thesis
    using tx_guess_exact[of ?tx "[?tx]" 0] by (simp add: tx_get_entry_def)
qed

end
