(* ===== verification/Determ_Clock.thy ===== *)
theory Determ_Clock
  imports Clock_Reach Tx_Estimate
begin

text \<open>
  The user side of the logical clock, \<open>determ_clock.c\<close> and \<open>perf_counter.c\<close>: each thread's handle
  on its clock, which talks to the kernel through \<open>ioctl\<close>s on its performance counter, through
  one system call and through its status in shared memory, and which reads the counter itself
  while a coarsened transaction runs. The kernel is a parameter of the definitions. What the
  library relies on is the locale \<open>clock_service\<close>; the kernel module of \<open>Clock_Main\<close> provides it.
\<close>

subsection \<open>The kernel as the library sees it\<close>

datatype ioctl_cmd = TASK_CLOCK_RESET | TASK_CLOCK_WOKE_UP | TASK_CLOCK_WAIT | TASK_CLOCK_SLEEP
  | TASK_CLOCK_ACTIVATE | TASK_CLOCK_ADD_TICKS | TASK_CLOCK_ACTIVATE_OTHER | TASK_CLOCK_HALT
  | TASK_CLOCK_START | TASK_CLOCK_STOP | IOC_ENABLE | IOC_DISABLE

text \<open>
  Entry points and shared memory: an \<open>ioctl\<close> returns its result code; \<open>ki_spin\<close> is what the rest
  of the system does between two reads of a flag that is spun on; \<open>ki_poll\<close> blocks.
\<close>

record 'w kernel_if =
  ki_ioctl :: "ioctl_cmd \<Rightarrow> int \<Rightarrow> 'w \<Rightarrow> (int \<times> 'w) result"
  ki_sys_do :: "int \<Rightarrow> 'w \<Rightarrow> 'w result"
  ki_status :: "int \<Rightarrow> 'w \<Rightarrow> task_clock_user_status"
  ki_set_status :: "int \<Rightarrow> (task_clock_user_status \<Rightarrow> task_clock_user_status) \<Rightarrow> 'w \<Rightarrow> 'w"
  ki_rdpmc :: "u32 \<Rightarrow> 'w \<Rightarrow> u64"
  ki_spin :: "'w \<Rightarrow> 'w"
  ki_poll :: "'w \<Rightarrow> 'w result"

text \<open>\<open>determ_task_clock_info\<close>, with \<open>perf_counter.started\<close>, and the rest of the system.\<close>

record 'w clock_lib =
  cl_tid :: int
  cl_started :: bool
  cl_disabled :: bool
  cl_last_clock_value :: u64
  cl_coarsened_ticks_counter :: u64
  cl_estimator :: tx_estimator
  cl_in_coarsened_tx :: bool
  cl_last_raw_perf :: u64
  cl_current_raw_perf :: u64
  cl_world :: 'w

definition my_status :: "'w kernel_if \<Rightarrow> 'w clock_lib \<Rightarrow> task_clock_user_status" where
  "my_status K s = ki_status K (cl_tid s) (cl_world s)"

definition upd_status ::
  "'w kernel_if \<Rightarrow> (task_clock_user_status \<Rightarrow> task_clock_user_status) \<Rightarrow> 'w clock_lib \<Rightarrow> 'w clock_lib" where
  "upd_status K f s = s\<lparr>cl_world := ki_set_status K (cl_tid s) f (cl_world s)\<rparr>"

text \<open>Every failing \<open>ioctl\<close> ends the process.\<close>

definition do_ioctl :: "'w kernel_if \<Rightarrow> ioctl_cmd \<Rightarrow> int \<Rightarrow> 'w clock_lib \<Rightarrow> 'w clock_lib result" where
  "do_ioctl K cmd arg s =
     bindR (ki_ioctl K cmd arg (cl_world s)) (\<lambda>(rc, w).
       if rc \<noteq> 0 then Inl ExitCalled else Inr (s\<lparr>cl_world := w\<rparr>))"

definition sys_task_clock_do :: "'w kernel_if \<Rightarrow> int \<Rightarrow> 'w clock_lib \<Rightarrow> 'w clock_lib result" where
  "sys_task_clock_do K operation s =
     bindR (ki_sys_do K operation (cl_world s)) (\<lambda>w. Inr (s\<lparr>cl_world := w\<rparr>))"

definition TASK_CLOCK_OP_STOP :: int where "TASK_CLOCK_OP_STOP = 1"
definition TASK_CLOCK_OP_START :: int where "TASK_CLOCK_OP_START = 2"
definition TASK_CLOCK_OP_START_COARSENED :: int where "TASK_CLOCK_OP_START_COARSENED = 3"

subsection \<open>The performance counter of the thread\<close>

definition perf_counter_start ::
  "kconfig \<Rightarrow> 'w kernel_if \<Rightarrow> 'w clock_lib \<Rightarrow> 'w clock_lib result" where
  "perf_counter_start cfg K s =
     bindR (do_ioctl K (if instruction_counting cfg then IOC_ENABLE else TASK_CLOCK_START) 0 s)
       (\<lambda>s'. Inr (s'\<lparr>cl_started := True\<rparr>))"

definition perf_counter_stop ::
  "kconfig \<Rightarrow> 'w kernel_if \<Rightarrow> 'w clock_lib \<Rightarrow> 'w clock_lib result" where
  "perf_counter_stop cfg K s =
     bindR (do_ioctl K (if instruction_counting cfg then IOC_DISABLE else TASK_CLOCK_STOP) 0 s)
       (\<lambda>s'. Inr (s'\<lparr>cl_started := False\<rparr>))"

definition perf_counter_close :: "'w kernel_if \<Rightarrow> 'w clock_lib \<Rightarrow> 'w clock_lib result" where
  "perf_counter_close K s = do_ioctl K IOC_DISABLE 0 s"

subsection \<open>Clock operations\<close>

definition determ_task_set_scaling_factor ::
  "'w kernel_if \<Rightarrow> u8 \<Rightarrow> u8 \<Rightarrow> 'w clock_lib \<Rightarrow> 'w clock_lib" where
  "determ_task_set_scaling_factor K whole fraction =
     upd_status K (\<lambda>u. u\<lparr>us_scaling_whole := whole, us_scaling_fraction := fraction\<rparr>)"

text \<open>
  \<open>determ_task_clock_init_with_id\<close>, from the mapping of the shared memory on; \<open>init_counter\<close> is
  \<open>perf_counter_init\<close>, that is, opening the event in the kernel and mapping its buffer.
\<close>

definition determ_task_clock_init_with_id ::
  "'w kernel_if \<Rightarrow> (int \<Rightarrow> 'w \<Rightarrow> 'w result) \<Rightarrow> int \<Rightarrow> 'w clock_lib \<Rightarrow> 'w clock_lib result" where
  "determ_task_clock_init_with_id K init_counter tid s =
     (let s1 = s\<lparr>cl_tid := tid\<rparr>;
          s2 = upd_status K (\<lambda>_. \<lparr>us_lowest_clock = False, us_ticks = 0, us_notifying_clock = 0,
                 us_notifying_id = 0, us_notifying_sample = 0, us_notifying_diff = 0,
                 us_single_active_thread = False, us_activated_lowest = False,
                 us_scaling_whole = 0, us_scaling_fraction = 0, us_hwc_idx = 0,
                 us_period_sets = 0, us_hit_bounded_fence = False\<rparr>) s1;
          s3 = s2\<lparr>cl_disabled := False, cl_last_clock_value := 0, cl_last_raw_perf := 0,
                 cl_coarsened_ticks_counter := 0, cl_in_coarsened_tx := False,
                 cl_estimator := tx_estimate_init\<rparr> in
      bindR (init_counter tid (cl_world s3)) (\<lambda>w.
      Inr (determ_task_set_scaling_factor K 1 0 (s3\<lparr>cl_world := w, cl_started := False\<rparr>))))"

text \<open>The identifier is taken from a counter in the shared memory, atomically.\<close>

definition determ_task_clock_init ::
  "'w kernel_if \<Rightarrow> (int \<Rightarrow> 'w \<Rightarrow> 'w result) \<Rightarrow> u64 \<times> 'w clock_lib \<Rightarrow> (u64 \<times> 'w clock_lib) result" where
  "determ_task_clock_init K init_counter st =
     (case st of (id_counter, s) \<Rightarrow>
      bindR (determ_task_clock_init_with_id K init_counter (uint (ucast id_counter :: u32)) s)
        (\<lambda>s'. Inr (id_counter + 1, s')))"

definition determ_task_clock_single_active_thread :: "'w kernel_if \<Rightarrow> 'w clock_lib \<Rightarrow> bool" where
  "determ_task_clock_single_active_thread K s = us_single_active_thread (my_status K s)"

definition determ_task_clock_clear_single_active_thread ::
  "'w kernel_if \<Rightarrow> 'w clock_lib \<Rightarrow> 'w clock_lib" where
  "determ_task_clock_clear_single_active_thread K =
     upd_status K (\<lambda>u. u\<lparr>us_single_active_thread := False\<rparr>)"

definition determ_task_clock_read :: "'w kernel_if \<Rightarrow> 'w clock_lib \<Rightarrow> u64" where
  "determ_task_clock_read K s = us_ticks (my_status K s) + cl_coarsened_ticks_counter s"

definition determ_task_clock_reset :: "'w kernel_if \<Rightarrow> 'w clock_lib \<Rightarrow> 'w clock_lib result" where
  "determ_task_clock_reset K = do_ioctl K TASK_CLOCK_RESET 0"

definition determ_task_clock_on_wakeup :: "'w kernel_if \<Rightarrow> 'w clock_lib \<Rightarrow> 'w clock_lib" where
  "determ_task_clock_on_wakeup K s =
     upd_status K (\<lambda>u. u\<lparr>us_lowest_clock := False\<rparr>) (s\<lparr>cl_disabled := False\<rparr>)"

definition woke_up :: "'w kernel_if \<Rightarrow> 'w clock_lib \<Rightarrow> 'w clock_lib result" where
  "woke_up K s =
     bindR (do_ioctl K TASK_CLOCK_WOKE_UP 0 s) (\<lambda>s'.
       Inr (upd_status K (\<lambda>u. u\<lparr>us_lowest_clock := False\<rparr>) (s'\<lparr>cl_disabled := False\<rparr>)))"

definition determ_task_clock_is_lowest ::
  "'w kernel_if \<Rightarrow> 'w clock_lib \<Rightarrow> (bool \<times> 'w clock_lib) result" where
  "determ_task_clock_is_lowest K s =
     bindR (if \<not> cl_disabled s \<and> \<not> us_lowest_clock (my_status K s)
            then bindR (do_ioctl K TASK_CLOCK_WAIT 0 s) (\<lambda>s'. Inr (s'\<lparr>cl_disabled := True\<rparr>))
            else Inr s) (\<lambda>s1.
     if us_lowest_clock (my_status K s1)
     then bindR (woke_up K s1) (\<lambda>s2. Inr (True, s2))
     else Inr (False, s1))"

definition MAX_SPIN_INT :: nat where "MAX_SPIN_INT = 1000"

text \<open>The first argument is the number of rounds left.\<close>

fun spin_on_lowest :: "nat \<Rightarrow> 'w kernel_if \<Rightarrow> 'w clock_lib \<Rightarrow> 'w clock_lib" where
  "spin_on_lowest 0 K s = s"
| "spin_on_lowest (Suc n) K s =
     (if us_lowest_clock (my_status K s) then s
      else spin_on_lowest n K (s\<lparr>cl_world := ki_spin K (cl_world s)\<rparr>))"

definition determ_task_clock_is_lowest_wait ::
  "'w kernel_if \<Rightarrow> 'w clock_lib \<Rightarrow> (bool \<times> 'w clock_lib) result" where
  "determ_task_clock_is_lowest_wait K s =
     (let polled = cl_disabled s in
      bindR (do_ioctl K TASK_CLOCK_WAIT 0 s) (\<lambda>s1.
      let s2 = spin_on_lowest MAX_SPIN_INT K (s1\<lparr>cl_disabled := True\<rparr>) in
      bindR (if \<not> us_lowest_clock (my_status K s2)
             then bindR (do_ioctl K TASK_CLOCK_SLEEP 0 s2) (\<lambda>s3.
                  if \<not> us_lowest_clock (my_status K s3)
                  then bindR (ki_poll K (cl_world s3)) (\<lambda>w. Inr (s3\<lparr>cl_world := w\<rparr>))
                  else Inr s3)
             else Inr s2) (\<lambda>s4.
      bindR (do_ioctl K TASK_CLOCK_WOKE_UP 0 s4) (\<lambda>s5.
      bindR (woke_up K s5) (\<lambda>s6. Inr (polled, s6))))))"

definition determ_task_clock_is_active :: "'w clock_lib \<Rightarrow> bool" where
  "determ_task_clock_is_active s = cl_disabled s"

definition determ_debugging_is_disabled :: "'w clock_lib \<Rightarrow> bool" where
  "determ_debugging_is_disabled s = cl_disabled s"

definition determ_task_clock_activate :: "'w kernel_if \<Rightarrow> 'w clock_lib \<Rightarrow> 'w clock_lib result" where
  "determ_task_clock_activate K s =
     do_ioctl K TASK_CLOCK_ACTIVATE 0
       ((upd_status K (\<lambda>u. u\<lparr>us_lowest_clock := False\<rparr>) s)\<lparr>cl_disabled := False\<rparr>)"

text \<open>The argument is an \<open>int32_t\<close>.\<close>

definition determ_task_clock_add_ticks ::
  "'w kernel_if \<Rightarrow> u32 \<Rightarrow> 'w clock_lib \<Rightarrow> 'w clock_lib result" where
  "determ_task_clock_add_ticks K ticks = do_ioctl K TASK_CLOCK_ADD_TICKS (sint ticks)"

definition determ_task_clock_activate_other ::
  "'w kernel_if \<Rightarrow> int \<Rightarrow> 'w clock_lib \<Rightarrow> (bool \<times> 'w clock_lib) result" where
  "determ_task_clock_activate_other K other s =
     bindR (do_ioctl K TASK_CLOCK_ACTIVATE_OTHER other
              (upd_status K (\<lambda>u. u\<lparr>us_single_active_thread := False\<rparr>) s)) (\<lambda>s'.
     Inr (if us_activated_lowest (my_status K s')
          then (True, upd_status K (\<lambda>u. u\<lparr>us_activated_lowest := False\<rparr>) s')
          else (False, s')))"

definition determ_task_clock_start_type ::
  "kconfig \<Rightarrow> 'w kernel_if \<Rightarrow> bool \<Rightarrow> 'w clock_lib \<Rightarrow> 'w clock_lib result" where
  "determ_task_clock_start_type cfg K coarsened s =
     (let s1 = upd_status K (\<lambda>u. u\<lparr>us_lowest_clock := False\<rparr>) (s\<lparr>cl_disabled := False\<rparr>);
          s2 = s1\<lparr>cl_last_clock_value := determ_task_clock_read K s1\<rparr> in
      if \<not> coarsened
      then (if \<not> cl_started s2 then perf_counter_start cfg K s2
            else sys_task_clock_do K TASK_CLOCK_OP_START s2)
      else sys_task_clock_do K TASK_CLOCK_OP_START_COARSENED s2)"

definition determ_task_clock_start ::
  "kconfig \<Rightarrow> 'w kernel_if \<Rightarrow> 'w clock_lib \<Rightarrow> 'w clock_lib result" where
  "determ_task_clock_start cfg K = determ_task_clock_start_type cfg K False"

definition determ_task_clock_end_coarsened_tx ::
  "'w kernel_if \<Rightarrow> 'w clock_lib \<Rightarrow> 'w clock_lib result" where
  "determ_task_clock_end_coarsened_tx K s =
     bindR (if cl_coarsened_ticks_counter s > 0
            then determ_task_clock_add_ticks K (ucast (cl_coarsened_ticks_counter s)) s
            else Inr s) (\<lambda>s'.
     Inr (s'\<lparr>cl_in_coarsened_tx := False, cl_coarsened_ticks_counter := 0\<rparr>))"

definition determ_task_clock_start_no_notify ::
  "kconfig \<Rightarrow> 'w kernel_if \<Rightarrow> 'w clock_lib \<Rightarrow> 'w clock_lib result" where
  "determ_task_clock_start_no_notify cfg K s =
     bindR (if \<not> cl_in_coarsened_tx s
            then bindR (determ_task_clock_start_type cfg K True s)
                   (\<lambda>s'. Inr (s'\<lparr>cl_in_coarsened_tx := True\<rparr>))
            else Inr (s\<lparr>cl_last_clock_value := determ_task_clock_read K s\<rparr>)) (\<lambda>s'.
     Inr (s'\<lparr>cl_last_raw_perf := ki_rdpmc K (us_hwc_idx (my_status K s')) (cl_world s')\<rparr>))"

definition determ_task_clock_get_last_tx_size :: "'w kernel_if \<Rightarrow> 'w clock_lib \<Rightarrow> u64" where
  "determ_task_clock_get_last_tx_size K s = determ_task_clock_read K s - cl_last_clock_value s"

definition coarsened_delta :: "u64 \<Rightarrow> u64 \<Rightarrow> u64" where
  "coarsened_delta new_raw last_raw = drop_bit 16 (push_bit 16 new_raw - push_bit 16 last_raw)"

definition determ_task_clock_stop_with_id_type ::
  "'w kernel_if \<Rightarrow> u64 \<Rightarrow> bool \<Rightarrow> 'w clock_lib \<Rightarrow> 'w clock_lib result" where
  "determ_task_clock_stop_with_id_type K ident coarsened s =
     bindR (if \<not> coarsened
            then bindR (sys_task_clock_do K TASK_CLOCK_OP_STOP s)
                   (\<lambda>s'. Inr (determ_task_clock_get_last_tx_size K s', s'))
            else (let new_raw = ki_rdpmc K (us_hwc_idx (my_status K s)) (cl_world s);
                      delta = coarsened_delta new_raw (cl_last_raw_perf s) in
                  Inr (delta, s\<lparr>cl_coarsened_ticks_counter := cl_coarsened_ticks_counter s + delta,
                                cl_current_raw_perf := new_raw\<rparr>))) (\<lambda>(tx_size, s').
     bindR (tx_estimate_add_observation (cl_estimator s') ident tx_size) (\<lambda>e.
     Inr (s'\<lparr>cl_estimator := e\<rparr>)))"

definition determ_task_clock_stop_with_id ::
  "'w kernel_if \<Rightarrow> u64 \<Rightarrow> 'w clock_lib \<Rightarrow> 'w clock_lib result" where
  "determ_task_clock_stop_with_id K ident = determ_task_clock_stop_with_id_type K ident False"

definition determ_task_clock_stop_with_id_no_notify ::
  "'w kernel_if \<Rightarrow> u64 \<Rightarrow> 'w clock_lib \<Rightarrow> 'w clock_lib result" where
  "determ_task_clock_stop_with_id_no_notify K ident = determ_task_clock_stop_with_id_type K ident True"

definition determ_task_clock_stop :: "'w kernel_if \<Rightarrow> 'w clock_lib \<Rightarrow> 'w clock_lib result" where
  "determ_task_clock_stop K = determ_task_clock_stop_with_id K 0"

definition determ_task_clock_stop_no_notify ::
  "'w kernel_if \<Rightarrow> 'w clock_lib \<Rightarrow> 'w clock_lib result" where
  "determ_task_clock_stop_no_notify K = determ_task_clock_stop_with_id_no_notify K 0"

definition determ_task_clock_estimate_next_tx :: "u64 \<Rightarrow> 'w clock_lib \<Rightarrow> int" where
  "determ_task_clock_estimate_next_tx ident s = tx_estimate_next_observation_guess (cl_estimator s) ident"

definition determ_task_clock_halt ::
  "kconfig \<Rightarrow> 'w kernel_if \<Rightarrow> 'w clock_lib \<Rightarrow> 'w clock_lib result" where
  "determ_task_clock_halt cfg K s =
     bindR (perf_counter_stop cfg K s) (\<lambda>s1. do_ioctl K TASK_CLOCK_HALT 0 (s1\<lparr>cl_disabled := True\<rparr>))"

definition determ_task_clock_close :: "'w kernel_if \<Rightarrow> 'w clock_lib \<Rightarrow> 'w clock_lib result" where
  "determ_task_clock_close K = perf_counter_close K"

definition determ_task_clock_hit_bounded_fence :: "'w kernel_if \<Rightarrow> 'w clock_lib \<Rightarrow> bool" where
  "determ_task_clock_hit_bounded_fence K s = us_hit_bounded_fence (my_status K s)"

subsection \<open>What the library relies on\<close>

locale clock_service =
  fixes K :: "'w kernel_if"
    and t :: int
    and inv :: "'w \<Rightarrow> bool"
    and lowest :: "'w \<Rightarrow> bool"
    and clock :: "'w \<Rightarrow> u64"
  assumes status_upd: "ki_status K t (ki_set_status K t f w) = f (ki_status K t w)"
    and inv_upd: "inv w \<Longrightarrow> inv (ki_set_status K t f w)"
    and clock_upd: "clock (ki_set_status K t f w) = clock w"
    and wait_ok: "inv w \<Longrightarrow> \<exists>w'. ki_ioctl K TASK_CLOCK_WAIT 0 w = Inr (0, w') \<and> inv w' \<and>
      clock w' = clock w \<and> (us_lowest_clock (ki_status K t w') \<longleftrightarrow> lowest w)"
    and woke_ok: "inv w \<Longrightarrow> \<exists>w'. ki_ioctl K TASK_CLOCK_WOKE_UP 0 w = Inr (0, w') \<and> inv w' \<and>
      clock w' = clock w"
    and add_ok: "inv w \<Longrightarrow> \<exists>w'. ki_ioctl K TASK_CLOCK_ADD_TICKS n w = Inr (0, w') \<and> inv w' \<and>
      clock w' = clock w + word_of_int n \<and> us_ticks (ki_status K t w') = clock w'"
begin

lemma woke_up_ok:
  assumes "inv (cl_world s)" "cl_tid s = t"
  shows "\<exists>s'. woke_up K s = Inr s' \<and> inv (cl_world s') \<and> cl_tid s' = t \<and> \<not> cl_disabled s' \<and>
    \<not> us_lowest_clock (my_status K s') \<and> clock (cl_world s') = clock (cl_world s)"
proof -
  obtain w where "ki_ioctl K TASK_CLOCK_WOKE_UP 0 (cl_world s) = Inr (0, w)" "inv w"
    "clock w = clock (cl_world s)"
    using woke_ok[OF assms(1)] by auto
  then show ?thesis
    using assms(2)
    by (simp add: woke_up_def do_ioctl_def upd_status_def my_status_def status_upd inv_upd clock_upd)
qed

lemma is_lowest_exact:
  assumes "inv (cl_world s)" "cl_tid s = t" "\<not> cl_disabled s" "\<not> us_lowest_clock (my_status K s)"
  shows "\<exists>s'. determ_task_clock_is_lowest K s = Inr (lowest (cl_world s), s') \<and>
    inv (cl_world s') \<and> clock (cl_world s') = clock (cl_world s) \<and>
    (cl_disabled s' \<longleftrightarrow> \<not> lowest (cl_world s)) \<and> \<not> us_lowest_clock (my_status K s')"
proof -
  obtain w where w: "ki_ioctl K TASK_CLOCK_WAIT 0 (cl_world s) = Inr (0, w)" "inv w"
    "clock w = clock (cl_world s)" "us_lowest_clock (ki_status K t w) \<longleftrightarrow> lowest (cl_world s)"
    using wait_ok[OF assms(1)] by auto
  let ?s1 = "s\<lparr>cl_world := w, cl_disabled := True\<rparr>"
  have f: "us_lowest_clock (my_status K ?s1) \<longleftrightarrow> lowest (cl_world s)"
    using w(4) assms(2) by (simp add: my_status_def)
  have u: "\<exists>s'. woke_up K ?s1 = Inr s' \<and> inv (cl_world s') \<and> cl_tid s' = t \<and> \<not> cl_disabled s' \<and>
    \<not> us_lowest_clock (my_status K s') \<and> clock (cl_world s') = clock (cl_world ?s1)"
    by (rule woke_up_ok) (use w assms in auto)
  show ?thesis
  proof (cases "lowest (cl_world s)")
    case True
    then show ?thesis
      using u f w assms by (auto simp: determ_task_clock_is_lowest_def do_ioctl_def)
  next
    case False
    then show ?thesis
      using f w assms by (auto simp: determ_task_clock_is_lowest_def do_ioctl_def)
  qed
qed

lemma end_coarsened_ok:
  assumes "inv (cl_world s)" "cl_tid s = t"
  shows "\<exists>s'. determ_task_clock_end_coarsened_tx K s = Inr s' \<and> inv (cl_world s') \<and>
    \<not> cl_in_coarsened_tx s' \<and> cl_coarsened_ticks_counter s' = 0 \<and>
    clock (cl_world s') = clock (cl_world s) + scast (ucast (cl_coarsened_ticks_counter s) :: u32) \<and>
    (cl_coarsened_ticks_counter s \<noteq> 0 \<longrightarrow> determ_task_clock_read K s' = clock (cl_world s'))"
proof (cases "cl_coarsened_ticks_counter s = 0")
  case True
  then show ?thesis using assms by (simp add: determ_task_clock_end_coarsened_tx_def)
next
  case False
  then have pos: "cl_coarsened_ticks_counter s > 0" by (simp add: word_gt_0)
  let ?n = "sint (ucast (cl_coarsened_ticks_counter s) :: u32)"
  obtain w where w: "ki_ioctl K TASK_CLOCK_ADD_TICKS ?n (cl_world s) = Inr (0, w)" "inv w"
    "clock w = clock (cl_world s) + word_of_int ?n" "us_ticks (ki_status K t w) = clock w"
    using add_ok[OF assms(1)] by blast
  then show ?thesis
    using pos assms(2)
    by (simp only: determ_task_clock_end_coarsened_tx_def determ_task_clock_add_ticks_def
        do_ioctl_def determ_task_clock_read_def my_status_def scast_eq bindR.simps if_True
        prod.case) simp
qed

end

subsection \<open>The kernel module provides it\<close>

text \<open>
  How the names of the \<open>ioctl\<close>s and system call operations correspond to the module's hooks; the
  switch itself is in the patched kernel.
\<close>

fun ioctl_call :: "ioctl_cmd \<Rightarrow> int \<Rightarrow> kcall" where
  "ioctl_call TASK_CLOCK_RESET arg = KReset"
| "ioctl_call TASK_CLOCK_WOKE_UP arg = KWokeUp"
| "ioctl_call TASK_CLOCK_WAIT arg = KWait"
| "ioctl_call TASK_CLOCK_SLEEP arg = KSleep"
| "ioctl_call TASK_CLOCK_ACTIVATE arg = KActivate"
| "ioctl_call TASK_CLOCK_ADD_TICKS arg = KAddTicks arg"
| "ioctl_call TASK_CLOCK_ACTIVATE_OTHER arg = KActivateOther arg"
| "ioctl_call TASK_CLOCK_HALT arg = KHalt"
| "ioctl_call TASK_CLOCK_START arg = KStart"
| "ioctl_call TASK_CLOCK_STOP arg = KStop"
| "ioctl_call IOC_ENABLE arg = KEnable"
| "ioctl_call IOC_DISABLE arg = KDisable"

definition module_kernel :: "kconfig \<Rightarrow> kctx \<Rightarrow> u64 \<Rightarrow> task_clock_group kernel_if" where
  "module_kernel cfg ctx pmc = \<lparr>
     ki_ioctl = \<lambda>cmd arg g. bindR (handle cfg ctx (ioctl_call cmd arg) g) (\<lambda>g'. Inr (0, g')),
     ki_sys_do = \<lambda>operation g. handle cfg ctx
       (if operation = TASK_CLOCK_OP_STOP then KStop
        else if operation = TASK_CLOCK_OP_START then KStart else KStartNoNotify) g,
     ki_status = \<lambda>t g. tg_user_status g t, ki_set_status = upd_user,
     ki_rdpmc = \<lambda>idx g. pmc, ki_spin = (\<lambda>g. g), ki_poll = Inr\<rparr>"

lemma wf_call_upd_user [simp]: "wf_call ctx (upd_user t f g) xs = wf_call ctx g xs"
  by (simp add: wf_call_def)

interpretation kmod: clock_service "module_kernel cfg ctx pmc" "cur_tid ctx"
  "\<lambda>g. wf_call ctx g xs"
  "\<lambda>g. lowest_of g {i \<in> set xs. candidate g i} (cur_tid ctx)"
  "\<lambda>g. get_clock_ticks g (cur_tid ctx)" for cfg ctx pmc xs
proof
  fix w f n
  show "ki_status (module_kernel cfg ctx pmc) (cur_tid ctx)
      (ki_set_status (module_kernel cfg ctx pmc) (cur_tid ctx) f w) =
    f (ki_status (module_kernel cfg ctx pmc) (cur_tid ctx) w)"
    by (simp add: module_kernel_def)
  show "get_clock_ticks (ki_set_status (module_kernel cfg ctx pmc) (cur_tid ctx) f w) (cur_tid ctx) =
      get_clock_ticks w (cur_tid ctx)"
    by (simp add: module_kernel_def)
  assume wf: "wf_call ctx w xs"
  then show "wf_call ctx (ki_set_status (module_kernel cfg ctx pmc) (cur_tid ctx) f w) xs"
    by (simp add: module_kernel_def)
  obtain low where low: "lowest_of w {i \<in> set xs. candidate w i} low"
    using lowest_of_exists wf by (auto simp: wf_call_def)
  then have eq: "lowest_of w {i \<in> set xs. candidate w i} (cur_tid ctx) \<longleftrightarrow> low = cur_tid ctx"
    using lowest_of_unique by blast
  obtain g' where g': "decide_and_wake cfg ctx w = Inr g'" "decided_woken ctx w low g'"
    using decide_and_wake_ok[OF wf low] by auto
  then show "\<exists>w'. ki_ioctl (module_kernel cfg ctx pmc) TASK_CLOCK_WAIT 0 w = Inr (0, w') \<and>
      wf_call ctx w' xs \<and> get_clock_ticks w' (cur_tid ctx) = get_clock_ticks w (cur_tid ctx) \<and>
      (us_lowest_clock (ki_status (module_kernel cfg ctx pmc) (cur_tid ctx) w') \<longleftrightarrow>
         lowest_of w {i \<in> set xs. candidate w i} (cur_tid ctx))"
    using decide_and_wake_wf_call[OF wf g'(1)] eq
    by (simp add: module_kernel_def task_clock_entry_wait_def decided_woken_def)
  show "\<exists>w'. ki_ioctl (module_kernel cfg ctx pmc) TASK_CLOCK_WOKE_UP 0 w = Inr (0, w') \<and>
      wf_call ctx w' xs \<and> get_clock_ticks w' (cur_tid ctx) = get_clock_ticks w (cur_tid ctx)"
    using wf by (simp add: module_kernel_def task_clock_entry_woke_up_def wf_call_def
        get_clock_ticks_def)
  let ?h = "publish_ticks ctx (inc_clock_ticks_no_chunk_add (cur_tid ctx) (word_of_int n) w)"
  have h: "wf_call ctx ?h xs" "get_clock_ticks ?h (cur_tid ctx) =
      get_clock_ticks w (cur_tid ctx) + word_of_int n"
    using wf by (simp_all add: wf_call_def clock_macros get_clock_ticks_def)
  obtain l where l: "lowest_of ?h {i \<in> set xs. candidate ?h i} l"
    using lowest_of_exists[of ?h xs] h(1) unfolding wf_call_def by blast
  obtain g'' where g'': "decide_and_wake cfg ctx ?h = Inr g''" "decided_woken ctx ?h l g''"
    using decide_and_wake_ok[OF h(1) l] by auto
  then show "\<exists>w'. ki_ioctl (module_kernel cfg ctx pmc) TASK_CLOCK_ADD_TICKS n w = Inr (0, w') \<and>
      wf_call ctx w' xs \<and>
      get_clock_ticks w' (cur_tid ctx) = get_clock_ticks w (cur_tid ctx) + word_of_int n \<and>
      us_ticks (ki_status (module_kernel cfg ctx pmc) (cur_tid ctx) w') = get_clock_ticks w' (cur_tid ctx)"
    using decide_and_wake_wf_call[OF h(1) g''(1)] decide_and_wake_us_ticks[OF h(1) g''(1)] h(2)
    by (simp add: module_kernel_def task_clock_add_ticks_def decided_woken_def)
qed

subsection \<open>Properties\<close>


definition sample_lib :: "int \<Rightarrow> task_clock_group \<Rightarrow> task_clock_group clock_lib" where
  "sample_lib t g = \<lparr>cl_tid = t, cl_started = True, cl_disabled = False, cl_last_clock_value = 0,
     cl_coarsened_ticks_counter = 0, cl_estimator = tx_estimate_init, cl_in_coarsened_tx = False,
     cl_last_raw_perf = 0, cl_current_raw_perf = 0, cl_world = g\<rparr>"

lemma wait_group_statuses: "tg_user_status wait_group t = sample_status"
  by (simp add: wait_group_def sample_group_def)


text \<open>
  Ending a coarsened transaction hands its ticks to the kernel as an \<open>int32_t\<close>: the thread's
  logical clock moves by the sign-extended low 32 bits of the 64 bit counter, that is, by the
  counter itself below \<open>2^31\<close>, and it moves backwards for a counter in the next \<open>2^31\<close> values.
\<close>

theorem determ_end_coarsened_exact:
  assumes "wf_call ctx (cl_world s) xs" and "cl_tid s = cur_tid ctx"
    and "cl_coarsened_ticks_counter s = of_nat n" and "n < 2 ^ 32"
  shows "\<exists>s'. determ_task_clock_end_coarsened_tx (module_kernel cfg ctx pmc) s = Inr s' \<and>
    cl_coarsened_ticks_counter s' = 0 \<and> \<not> cl_in_coarsened_tx s' \<and>
    get_clock_ticks (cl_world s') (cl_tid s) = get_clock_ticks (cl_world s) (cl_tid s) +
      (if n < 2 ^ 31 then of_nat n else of_nat n - 2 ^ 32)"
proof -
  have i: "(ucast (of_nat n :: u64) :: u32) = word_of_int (int n)"
    by (simp add: unsigned_of_nat word_of_nat_eq_iff take_bit_take_bit)
  have "sint (word_of_int (int n) :: u32) = (if n < 2 ^ 31 then int n else int n - 2 ^ 32)"
  proof (cases "n < 2 ^ 31")
    case True
    then have "int n < 2 ^ 31" by simp
    with True sint32_of_int_small[of "int n"] show ?thesis by simp
  next
    case False
    have "(word_of_int (int n) :: u32) = word_of_int (int n - 2 ^ 32)"
      by (simp add: word_of_int_eq_iff take_bit_eq_mod)
    moreover have "int n < 2 ^ 32" "2 ^ 31 \<le> int n" using assms(4) False by simp_all
    then have "sint (word_of_int (int n - 2 ^ 32) :: u32) = int n - 2 ^ 32"
      by (intro sint32_of_int_small) simp_all
    ultimately show ?thesis using False by (simp only: if_False)
  qed
  then have "scast (ucast (of_nat n :: u64) :: u32) =
      (if n < 2 ^ 31 then of_nat n else of_nat n - 2 ^ 32 :: u64)"
    unfolding i scast_eq by simp
  with kmod.end_coarsened_ok[OF assms(1,2), of cfg pmc] assms(2,3) show ?thesis by auto
qed

theorem determ_end_coarsened_exact_witness:
  "\<exists>s'. determ_task_clock_end_coarsened_tx (module_kernel plain_cfg (sample_ctx 0 False) 0)
      ((sample_lib 0 wait_group)\<lparr>cl_coarsened_ticks_counter := 2 ^ 32 - 4\<rparr>) = Inr s' \<and>
     get_clock_ticks (cl_world s') 0 = 5 \<and> get_clock_ticks wait_group 0 = 9"
proof -
  let ?s = "(sample_lib 0 wait_group)\<lparr>cl_coarsened_ticks_counter := 2 ^ 32 - 4\<rparr>"
  have "wf_call (sample_ctx 0 False) (cl_world ?s) [0, 1, 2]"
    using wait_group_wf[of 0] by (simp add: sample_lib_def)
  from determ_end_coarsened_exact[OF this, of "2 ^ 32 - 4" plain_cfg 0] show ?thesis
    by (auto simp: sample_lib_def sample_ctx_def wait_group_def sample_group_def sample_entry_def
        get_clock_ticks_def)
qed

text \<open>
  A coarsened stop counts exactly: when \<open>n\<close> instructions (fewer than \<open>2^48\<close>) were retired since
  the last reading of the 48 bit counter, across any wrap of it, the coarsened counter grows by
  \<open>n\<close>, the clock the library reads grows by \<open>n\<close>, and nothing in the kernel is touched.
\<close>

theorem determ_coarsened_stop_exact:
  assumes "ki_rdpmc K (us_hwc_idx (my_status K s)) (cl_world s) = new_raw"
    and "take_bit 48 new_raw = take_bit 48 (cl_last_raw_perf s + of_nat n)"
    and "tx_ok B (cl_estimator s)" and "n \<le> B" and "B < 2 ^ 20"
  shows "\<exists>s'. determ_task_clock_stop_with_id_no_notify K ident s = Inr s' \<and>
    cl_coarsened_ticks_counter s' = cl_coarsened_ticks_counter s + of_nat n \<and>
    determ_task_clock_read K s' = determ_task_clock_read K s + of_nat n \<and>
    cl_world s' = cl_world s \<and> tx_ok B (cl_estimator s')"
proof -
  have n: "n < 2 ^ 20" using assms(4,5) by simp
  have "push_bit 16 new_raw - push_bit 16 (cl_last_raw_perf s) = push_bit 16 (of_nat n :: u64)"
    using assms(2) by (simp add: push_bit_48 [symmetric] push_bit_16_mult ring_distribs)
  moreover have "drop_bit 16 (push_bit 16 (of_nat n :: u64)) = of_nat n"
  proof -
    have u: "unat (of_nat n :: u64) = n" using n by (simp add: unat_of_nat)
    have "unat (push_bit 16 (of_nat n :: u64)) = n * 65536"
      using n by (simp add: push_bit_16_mult unat_word_ariths u)
    then show ?thesis
      using u by (simp add: word_unat_eq_iff unat_drop_bit_eq drop_bit_eq_div unat_div)
  qed
  ultimately have d: "coarsened_delta new_raw (cl_last_raw_perf s) = of_nat n"
    by (simp add: coarsened_delta_def)
  have "unat (of_nat n :: u64) \<le> B" using n assms(4) by (simp add: unat_of_nat)
  then obtain e where "tx_estimate_add_observation (cl_estimator s) ident (of_nat n) = Inr e" "tx_ok B e"
    using tx_add_ok[OF assms(3,5)] by blast
  then show ?thesis
    using assms(1) d
    by (simp add: determ_task_clock_stop_with_id_no_notify_def determ_task_clock_read_def my_status_def
        determ_task_clock_stop_with_id_type_def Let_def)
qed

theorem determ_coarsened_stop_exact_witness:
  "\<exists>s'. determ_task_clock_stop_with_id_no_notify (module_kernel plain_cfg (sample_ctx 0 False) 7) 0
      ((sample_lib 0 wait_group)\<lparr>cl_last_raw_perf := 2 ^ 48 - 3\<rparr>) = Inr s' \<and>
     cl_coarsened_ticks_counter s' = 10"
proof -
  let ?K = "module_kernel plain_cfg (sample_ctx 0 False) 7"
  let ?s = "(sample_lib 0 wait_group)\<lparr>cl_last_raw_perf := 2 ^ 48 - 3\<rparr>"
  have "ki_rdpmc ?K (us_hwc_idx (my_status ?K ?s)) (cl_world ?s) = 7" by (simp add: module_kernel_def)
  moreover have "take_bit 48 (7 :: u64) = take_bit 48 (cl_last_raw_perf ?s + of_nat 10)" by simp
  moreover have "tx_ok 100 (cl_estimator ?s)" by (simp add: sample_lib_def tx_ok_init)
  ultimately show ?thesis
    using determ_coarsened_stop_exact[of ?K ?s 7 10 100 0] by (auto simp: sample_lib_def)
qed

end
