(* ===== verification/Determ.thy ===== *)
theory Determ
  imports List_H Determ_Clock
begin

text \<open>
  The deterministic synchronisation of \<open>determ.h\<close>: the token, and the locks, condition variables,
  joins and barriers that threads operate on while they hold it. A call that blocks is split at
  its blocking point: the part before it, and the part after it, which runs once the thread's
  status allows it. Commits of versioned memory and the logical clock are parameters.
\<close>

subsection \<open>State\<close>

datatype threadStatus = STATUS_COND_WAITING | STATUS_BARR_WAITING | STATUS_READY | STATUS_EXIT
  | STATUS_JOINING | STATUS_OTHERS_NEED_TO_WAIT | STATUS_WAITING_ON_LOCK | STATUS_ON_DECK
  | STATUS_FORKING

text \<open>
  \<open>ThreadEntry\<close>, without the links, which are in the store of list nodes: the entry of thread \<open>i\<close>
  is the node at address \<open>i + 1\<close>.
\<close>

record ThreadEntry =
  te_tid :: int
  te_status :: threadStatus
  te_parent :: nat
  te_cond :: addr
  te_joinee :: nat
  te_last_logical_clock :: u64

record LockEntry =
  lk_acquired :: bool
  lk_waiters :: u64
  lk_head :: addr

record CondEntry =
  cv_waiters :: u64
  cv_cond :: addr
  cv_head :: addr

record BarrierEntry =
  br_maxthreads :: u64
  br_threads :: u64
  br_arrival_phase :: bool
  br_head :: addr
  br_counter :: u16
  br_heapVersion :: u16
  br_globalsVersion :: u16
  br_total_dirty :: u32
  br_committed :: u64

text \<open>The logical clock of the calling thread, as the operations below use it.\<close>

record 'c clock_api =
  ca_halt :: "'c \<Rightarrow> 'c result"
  ca_activate :: "'c \<Rightarrow> 'c result"
  ca_activate_other :: "nat \<Rightarrow> 'c \<Rightarrow> (bool \<times> 'c) result"
  ca_on_wakeup :: "'c \<Rightarrow> 'c"
  ca_reset :: "'c \<Rightarrow> 'c result"
  ca_read :: "'c \<Rightarrow> u64"
  ca_clear_single :: "'c \<Rightarrow> 'c"
  ca_is_lowest :: "'c \<Rightarrow> (bool \<times> 'c) result"
  ca_is_lowest_wait :: "'c \<Rightarrow> (bool \<times> 'c) result"
  ca_add_ticks :: "u32 \<Rightarrow> 'c \<Rightarrow> 'c result"
  ca_single_active :: "'c \<Rightarrow> bool"
  ca_estimate_next_tx :: "u64 \<Rightarrow> 'c \<Rightarrow> int"
  ca_last_tx_size :: "'c \<Rightarrow> u64"
  ca_end_coarsened :: "'c \<Rightarrow> 'c result"
  ca_stop :: "u64 \<Rightarrow> 'c \<Rightarrow> 'c result"
  ca_stop_no_notify :: "u64 \<Rightarrow> 'c \<Rightarrow> 'c result"
  ca_start :: "'c \<Rightarrow> 'c result"
  ca_start_no_notify :: "'c \<Rightarrow> 'c result"
  ca_close :: "'c \<Rightarrow> 'c result"

text \<open>These are the functions of the user clock library.\<close>

definition lib_clock :: "kconfig \<Rightarrow> 'w kernel_if \<Rightarrow> 'w clock_lib clock_api" where
  "lib_clock cfg K = \<lparr>
     ca_halt = determ_task_clock_halt cfg K,
     ca_activate = determ_task_clock_activate K,
     ca_activate_other = \<lambda>t. determ_task_clock_activate_other K (int t),
     ca_on_wakeup = determ_task_clock_on_wakeup K,
     ca_reset = determ_task_clock_reset K,
     ca_read = determ_task_clock_read K,
     ca_clear_single = determ_task_clock_clear_single_active_thread K,
     ca_is_lowest = determ_task_clock_is_lowest K,
     ca_is_lowest_wait = determ_task_clock_is_lowest_wait K,
     ca_add_ticks = determ_task_clock_add_ticks K,
     ca_single_active = determ_task_clock_single_active_thread K,
     ca_estimate_next_tx = determ_task_clock_estimate_next_tx,
     ca_last_tx_size = determ_task_clock_get_last_tx_size K,
     ca_end_coarsened = determ_task_clock_end_coarsened_tx K,
     ca_stop = determ_task_clock_stop_with_id K,
     ca_stop_no_notify = determ_task_clock_stop_with_id_no_notify K,
     ca_start = determ_task_clock_start cfg K,
     ca_start_no_notify = determ_task_clock_start_no_notify cfg K,
     ca_close = determ_task_clock_close K\<rparr>"

text \<open>
  The shared object. \<open>ds_var\<close> is the first word of each synchronisation variable of the program,
  which points to its entry.
\<close>

record 'c determ =
  ds_links :: store
  ds_threads :: "nat \<Rightarrow> ThreadEntry"
  ds_locks :: "addr \<Rightarrow> LockEntry"
  ds_conds :: "addr \<Rightarrow> CondEntry"
  ds_barriers :: "addr \<Rightarrow> BarrierEntry"
  ds_var :: "nat \<Rightarrow> addr"
  ds_tokenpos :: "nat option"
  ds_activation_counter :: u64
  ds_last_token_value :: u64
  ds_last_putter :: nat
  ds_last_getter :: nat
  ds_clock :: 'c

definition upd_thread ::
  "nat \<Rightarrow> (ThreadEntry \<Rightarrow> ThreadEntry) \<Rightarrow> 'c determ \<Rightarrow> 'c determ" where
  "upd_thread t f s = s\<lparr>ds_threads := (ds_threads s)(t := f (ds_threads s t))\<rparr>"

definition upd_lock :: "addr \<Rightarrow> (LockEntry \<Rightarrow> LockEntry) \<Rightarrow> 'c determ \<Rightarrow> 'c determ" where
  "upd_lock p f s = s\<lparr>ds_locks := (ds_locks s)(p := f (ds_locks s p))\<rparr>"

definition upd_cond :: "addr \<Rightarrow> (CondEntry \<Rightarrow> CondEntry) \<Rightarrow> 'c determ \<Rightarrow> 'c determ" where
  "upd_cond p f s = s\<lparr>ds_conds := (ds_conds s)(p := f (ds_conds s p))\<rparr>"

definition upd_barrier :: "addr \<Rightarrow> (BarrierEntry \<Rightarrow> BarrierEntry) \<Rightarrow> 'c determ \<Rightarrow> 'c determ" where
  "upd_barrier p f s = s\<lparr>ds_barriers := (ds_barriers s)(p := f (ds_barriers s p))\<rparr>"

definition set_status :: "nat \<Rightarrow> threadStatus \<Rightarrow> 'c determ \<Rightarrow> 'c determ" where
  "set_status t st = upd_thread t (\<lambda>e. e\<lparr>te_status := st\<rparr>)"

definition status_of :: "'c determ \<Rightarrow> nat \<Rightarrow> threadStatus" where
  "status_of s t = te_status (ds_threads s t)"

text \<open>Lifting of the clock's operations to the state.\<close>

definition on_clock :: "('c \<Rightarrow> 'c result) \<Rightarrow> 'c determ \<Rightarrow> 'c determ result" where
  "on_clock f s = bindR (f (ds_clock s)) (\<lambda>c. Inr (s\<lparr>ds_clock := c\<rparr>))"

definition on_wakeup :: "'c clock_api \<Rightarrow> 'c determ \<Rightarrow> 'c determ" where
  "on_wakeup K s = s\<lparr>ds_clock := ca_on_wakeup K (ds_clock s)\<rparr>"

text \<open>\<open>determ_task_clock_activate_other\<close> and the counter of activations that changed the lowest.\<close>

definition activate_and_count :: "'c clock_api \<Rightarrow> nat \<Rightarrow> 'c determ \<Rightarrow> 'c determ result" where
  "activate_and_count K t s =
     bindR (ca_activate_other K t (ds_clock s)) (\<lambda>(lowest, c).
       let s' = s\<lparr>ds_clock := c\<rparr> in
       Inr (if lowest then s'\<lparr>ds_activation_counter := ds_activation_counter s' + 1\<rparr> else s'))"

definition thread_addr :: "nat \<Rightarrow> addr" where "thread_addr t = Suc t"

definition addr_thread :: "addr \<Rightarrow> nat" where "addr_thread a = a - 1"

subsection \<open>The token\<close>

definition isTokenHolder :: "nat \<Rightarrow> 'c determ \<Rightarrow> bool" where
  "isTokenHolder t s = (ds_tokenpos s = Some t)"

text \<open>
  The end of \<open>__getToken\<close>, from the free token on: take it, and give it back when the activation
  counter has moved since the thread was found to be the lowest (the result is then
  \<open>False\<close>, and the call starts over).
\<close>

definition take_token :: "'c clock_api \<Rightarrow> nat \<Rightarrow> u64 \<Rightarrow> 'c determ \<Rightarrow> bool \<times> 'c determ" where
  "take_token K t local_activation_counter s =
     (let s1 = s\<lparr>ds_tokenpos := Some t\<rparr> in
      if ds_activation_counter s1 \<noteq> local_activation_counter
      then (False, (on_wakeup K s1)\<lparr>ds_tokenpos := None\<rparr>)
      else (True, s1\<lparr>ds_last_getter := t\<rparr>))"

definition put_token :: "'c clock_api \<Rightarrow> nat \<Rightarrow> bool \<Rightarrow> 'c determ \<Rightarrow> 'c determ result" where
  "put_token K t considerForFastForward s =
     (case ds_tokenpos s of
        None \<Rightarrow> Inl AssertFailed
      | Some holder \<Rightarrow>
          if t \<noteq> holder then Inl AssertFailed
          else
            (let s1 = (if considerForFastForward
                       then s\<lparr>ds_last_token_value := ca_read K (ds_clock s)\<rparr> else s);
                 s2 = s1\<lparr>ds_tokenpos := None, ds_last_putter := t\<rparr>
             in Inr (upd_thread t (\<lambda>e. e\<lparr>te_last_logical_clock := ca_read K (ds_clock s2)\<rparr>) s2)))"

definition putToken :: "'c clock_api \<Rightarrow> nat \<Rightarrow> 'c determ \<Rightarrow> 'c determ result" where
  "putToken K t = put_token K t True"

definition putTokenLockHeld :: "'c clock_api \<Rightarrow> nat \<Rightarrow> 'c determ \<Rightarrow> 'c determ result" where
  "putTokenLockHeld K t = put_token K t True"

definition putTokenNoFastForward :: "'c clock_api \<Rightarrow> nat \<Rightarrow> 'c determ \<Rightarrow> 'c determ result" where
  "putTokenNoFastForward K t = put_token K t False"

subsection \<open>Threads\<close>

definition registerThread :: "nat \<Rightarrow> int \<Rightarrow> nat \<Rightarrow> 'c determ \<Rightarrow> 'c determ" where
  "registerThread t pid parentindex =
     upd_thread t (\<lambda>e. e\<lparr>te_tid := pid, te_parent := parentindex, te_status := STATUS_READY\<rparr>)"

definition registerMaster :: "nat \<Rightarrow> int \<Rightarrow> 'c determ \<Rightarrow> 'c determ" where
  "registerMaster t pid = registerThread t pid 0"

definition freeThreadEntry :: "nat \<Rightarrow> 'c determ \<Rightarrow> 'c determ" where
  "freeThreadEntry t = set_status t STATUS_EXIT"

definition starting_fork :: "nat \<Rightarrow> 'c determ \<Rightarrow> 'c determ" where
  "starting_fork t = set_status t STATUS_FORKING"

text \<open>
  \<open>join\<close>: up to the wait (the result says whether there is one), one round of the waiting loop,
  and the part after the joined thread has exited.
\<close>

definition join_begin ::
  "'c clock_api \<Rightarrow> nat \<Rightarrow> nat \<Rightarrow> 'c determ \<Rightarrow> (bool \<times> 'c determ) result" where
  "join_begin K guest me s =
     (if ds_tokenpos s = None then Inl NullDeref
      else if ds_tokenpos s \<noteq> Some me then Inl AssertFailed
      else if status_of s guest \<noteq> STATUS_EXIT
      then bindR (on_clock (ca_halt K) s) (\<lambda>s1.
           Inr (True, upd_thread me (\<lambda>e. e\<lparr>te_status := STATUS_JOINING, te_joinee := guest\<rparr>) s1))
      else Inr (False, s))"

definition join_round :: "'c clock_api \<Rightarrow> nat \<Rightarrow> 'c determ \<Rightarrow> 'c determ result" where
  "join_round K me s =
     (let s1 = set_status me STATUS_JOINING s in
      if ds_tokenpos s1 = Some me then putTokenLockHeld K me s1 else Inr s1)"

definition join_end :: "'c clock_api \<Rightarrow> bool \<Rightarrow> nat \<Rightarrow> 'c determ \<Rightarrow> 'c determ result" where
  "join_end K halted me s =
     bindR (if halted then on_clock (ca_activate K) s else Inr s) (\<lambda>s1.
       Inr (set_status me STATUS_READY s1))"

text \<open>
  \<open>deregisterThread\<close>: up to the handshake with a joining parent (the result says whether the
  parent has to be waited for), and the rest.
\<close>

definition deregister_begin :: "nat \<Rightarrow> 'c determ \<Rightarrow> bool \<times> 'c determ" where
  "deregister_begin t s =
     (let parent = te_parent (ds_threads s t);
          s1 = freeThreadEntry t s in
      if status_of s1 parent = STATUS_JOINING \<and> te_joinee (ds_threads s1 parent) = t
      then (True, set_status parent STATUS_OTHERS_NEED_TO_WAIT s1)
      else (False, s1))"

definition deregister_end :: "'c clock_api \<Rightarrow> nat \<Rightarrow> 'c determ \<Rightarrow> 'c determ result" where
  "deregister_end K t s =
     bindR (on_clock (ca_halt K) s) (\<lambda>s1.
     bindR (on_clock (ca_reset K) s1) (\<lambda>s2. putTokenLockHeld K t s2))"

text \<open>
  \<open>cancel\<close>; the result says whether the thread was found waiting. \<open>asserts\<close>: assertions are compiled
  in (the \<open>Makefile\<close> defines \<open>NDEBUG\<close>, which takes them out).
\<close>

definition cancel :: "bool \<Rightarrow> nat \<Rightarrow> 'c determ \<Rightarrow> (bool \<times> 'c determ) result" where
  "cancel asserts t s =
     (case status_of s t of
        STATUS_EXIT \<Rightarrow> Inr (False, s)
      | STATUS_COND_WAITING \<Rightarrow>
          (let c = te_cond (ds_threads s t) in
           if c = NULL then Inl NullDeref
           else bindR (removeEntry (thread_addr t) (cv_head (ds_conds s c)) (ds_links s))
             (\<lambda>(head', links').
             let s1 = upd_cond c (\<lambda>e. e\<lparr>cv_head := head'\<rparr>) (s\<lparr>ds_links := links'\<rparr>) in
             if asserts \<and> cv_waiters (ds_conds s1 c) \<noteq> 0 then Inl AssertFailed
             else if asserts \<and> cv_head (ds_conds s1 c) = NULL then Inl AssertFailed
             else Inr (True, freeThreadEntry t s1)))
      | _ \<Rightarrow> if asserts then Inl AssertFailed else Inr (False, s))"

subsection \<open>Locks\<close>

text \<open>
  A new entry comes from the allocator: an address, and whatever that memory holds.
\<close>

definition lock_init :: "addr \<times> LockEntry \<Rightarrow> nat \<Rightarrow> 'c determ \<Rightarrow> 'c determ" where
  "lock_init mem mutex s =
     (case mem of (p, garbage) \<Rightarrow>
      s\<lparr>ds_locks := (ds_locks s)(p := garbage\<lparr>lk_acquired := False, lk_head := NULL\<rparr>),
        ds_var := (ds_var s)(mutex := p)\<rparr>)"

definition lock_destroy :: "nat \<Rightarrow> 'c determ \<Rightarrow> 'c determ" where
  "lock_destroy mutex s = s\<lparr>ds_var := (ds_var s)(mutex := NULL)\<rparr>"

text \<open>\<open>update\<close>: what \<open>commitAndUpdate\<close> makes visible of other threads' variables.\<close>

definition lock_acquire ::
  "((nat \<Rightarrow> addr) \<Rightarrow> (nat \<Rightarrow> addr)) \<Rightarrow> addr \<times> LockEntry \<Rightarrow> nat \<Rightarrow> nat \<Rightarrow> 'c determ \<Rightarrow> bool \<times> 'c determ"
  where
  "lock_acquire update mem mutex t s =
     (let s1 = (if ds_var s mutex = NULL
                then (let s' = s\<lparr>ds_var := update (ds_var s)\<rparr> in
                      if ds_var s' mutex = NULL
                      then (let s'' = lock_init mem mutex s' in s''\<lparr>ds_var := update (ds_var s'')\<rparr>)
                      else s')
                else s);
          p = (if ds_var s mutex = NULL
               then (if update (ds_var s) mutex = NULL then fst mem else update (ds_var s) mutex)
               else ds_var s mutex) in
      if lk_acquired (ds_locks s1 p) then (False, s1)
      else (True, upd_lock p (\<lambda>l. l\<lparr>lk_acquired := True\<rparr>) s1))"

definition lock_waiters_count :: "nat \<Rightarrow> 'c determ \<Rightarrow> u64 result" where
  "lock_waiters_count mutex s =
     (if ds_var s mutex = NULL then Inl NullDeref
      else Inr (lk_waiters (ds_locks s (ds_var s mutex))))"

definition lock_release :: "'c clock_api \<Rightarrow> nat \<Rightarrow> nat \<Rightarrow> 'c determ \<Rightarrow> 'c determ result" where
  "lock_release K mutex t s =
     (let p = ds_var s mutex in
      if p = NULL then Inl NullDeref
      else
        (let s1 = upd_lock p (\<lambda>l. l\<lparr>lk_acquired := False\<rparr>) s in
         if lk_waiters (ds_locks s1 p) > 0
         then bindR (removeHeadEntry (lk_head (ds_locks s1 p)) (ds_links s1)) (\<lambda>(w, head', links').
              let s2 = upd_lock p (\<lambda>l. l\<lparr>lk_head := head', lk_waiters := lk_waiters l - 1\<rparr>)
                         (s1\<lparr>ds_links := links'\<rparr>) in
              if w = NULL then Inl NullDeref
              else bindR (activate_and_count K (addr_thread w) s2) (\<lambda>s3.
                   let s4 = set_status (addr_thread w) STATUS_READY s3 in
                   Inr (if lk_waiters (ds_locks s4 p) > 0
                        then (let onDeck = getHeadEntry (lk_head (ds_locks s4 p)) in
                              if onDeck \<noteq> NULL
                              then set_status (addr_thread onDeck) STATUS_ON_DECK s4 else s4)
                        else s4)))
         else Inr s1))"

definition wait_on_lock_begin :: "'c clock_api \<Rightarrow> nat \<Rightarrow> nat \<Rightarrow> 'c determ \<Rightarrow> 'c determ result" where
  "wait_on_lock_begin K mutex t s =
     (let p = ds_var s mutex in
      if p = NULL then Inl NullDeref
      else bindR (insertTail (thread_addr t) (lk_head (ds_locks s p)) (ds_links s))
        (\<lambda>(head', links').
        let s1 = upd_lock p (\<lambda>l. l\<lparr>lk_head := head', lk_waiters := lk_waiters l + 1\<rparr>)
                   (s\<lparr>ds_links := links'\<rparr>);
            s2 = set_status t STATUS_WAITING_ON_LOCK s1 in
        bindR (on_clock (ca_halt K) s2) (putToken K t)))"

definition wait_on_lock_end :: "'c clock_api \<Rightarrow> nat \<Rightarrow> 'c determ \<Rightarrow> 'c determ result" where
  "wait_on_lock_end K t s =
     (if status_of s t \<noteq> STATUS_READY then Inl StillSpinning else Inr (on_wakeup K s))"

subsection \<open>Condition variables\<close>

definition cond_init :: "addr \<Rightarrow> nat \<Rightarrow> 'c determ \<Rightarrow> 'c determ" where
  "cond_init p cond s =
     s\<lparr>ds_conds := (ds_conds s)(p := \<lparr>cv_waiters = 0, cv_cond = cond, cv_head = NULL\<rparr>),
       ds_var := (ds_var s)(cond := p)\<rparr>"

definition cond_wait_begin ::
  "'c clock_api \<Rightarrow> nat \<Rightarrow> nat \<Rightarrow> nat \<Rightarrow> 'c determ \<Rightarrow> 'c determ result" where
  "cond_wait_begin K t user_cond thelock s =
     (let c = ds_var s user_cond in
      if c = NULL then Inl NullDeref
      else bindR (insertTail (thread_addr t) (cv_head (ds_conds s c)) (ds_links s))
        (\<lambda>(head', links').
        let s1 = upd_cond c (\<lambda>e. e\<lparr>cv_head := head', cv_waiters := cv_waiters e + 1\<rparr>)
                   (s\<lparr>ds_links := links'\<rparr>);
            s2 = upd_thread t (\<lambda>e. e\<lparr>te_cond := c, te_status := STATUS_COND_WAITING\<rparr>) s1 in
        bindR (lock_release K thelock t s2) (\<lambda>s3.
        bindR (on_clock (ca_halt K) s3) (putTokenLockHeld K t))))"

definition cond_wait_end :: "'c clock_api \<Rightarrow> nat \<Rightarrow> 'c determ \<Rightarrow> 'c determ result" where
  "cond_wait_end K t s =
     (if status_of s t \<noteq> STATUS_READY then Inl StillSpinning else Inr (on_wakeup K s))"

definition cond_signal :: "'c clock_api \<Rightarrow> nat \<Rightarrow> nat \<Rightarrow> 'c determ \<Rightarrow> 'c determ result" where
  "cond_signal K t user_cond s =
     (let c = ds_var s user_cond in
      if c = NULL then Inl NullDeref
      else if cv_waiters (ds_conds s c) = 0 then Inr s
      else bindR (removeHeadEntry (cv_head (ds_conds s c)) (ds_links s)) (\<lambda>(w, head', links').
        if w = NULL then Inl AssertFailed
        else
          (let s1 = upd_cond c (\<lambda>e. e\<lparr>cv_head := head'\<rparr>) (s\<lparr>ds_links := links'\<rparr>);
               s2 = upd_thread (addr_thread w) (\<lambda>e. e\<lparr>te_cond := NULL, te_status := STATUS_READY\<rparr>) s1;
               s3 = upd_cond c (\<lambda>e. e\<lparr>cv_waiters := cv_waiters e - 1\<rparr>) s2
           in activate_and_count K (addr_thread w) s3)))"

text \<open>
  The loop of \<open>cond_broadcast\<close> empties the queue; one more round than there are thread entries is
  enough.
\<close>

definition MAX_THREAD_ENTRIES :: nat where "MAX_THREAD_ENTRIES = 2048"

fun cond_wake_all :: "nat \<Rightarrow> 'c clock_api \<Rightarrow> addr \<Rightarrow> 'c determ \<Rightarrow> 'c determ result" where
  "cond_wake_all 0 K c s = Inl StillSpinning"
| "cond_wake_all (Suc n) K c s =
     bindR (removeHeadEntry (cv_head (ds_conds s c)) (ds_links s)) (\<lambda>(w, head', links').
       let s1 = upd_cond c (\<lambda>e. e\<lparr>cv_head := head'\<rparr>) (s\<lparr>ds_links := links'\<rparr>) in
       if w = NULL then Inr s1
       else
         (let s2 = upd_thread (addr_thread w) (\<lambda>e. e\<lparr>te_cond := NULL, te_status := STATUS_READY\<rparr>) s1;
              s3 = upd_cond c (\<lambda>e. e\<lparr>cv_waiters := cv_waiters e - 1\<rparr>) s2 in
          bindR (ca_activate_other K (addr_thread w) (ds_clock s3)) (\<lambda>(lowest, clk).
          cond_wake_all n K c (s3\<lparr>ds_clock := clk\<rparr>))))"

definition cond_broadcast :: "'c clock_api \<Rightarrow> nat \<Rightarrow> nat \<Rightarrow> 'c determ \<Rightarrow> 'c determ result" where
  "cond_broadcast K t user_cond s =
     (let c = ds_var s user_cond in
      if c = NULL then Inl NullDeref
      else if cv_waiters (ds_conds s c) = 0 then Inr s
      else bindR (cond_wake_all (Suc MAX_THREAD_ENTRIES) K c s) (\<lambda>s'.
        Inr (s'\<lparr>ds_activation_counter := ds_activation_counter s' + 1\<rparr>)))"

end
