(* ===== verification/Determ_Queues.thy ===== *)
theory Determ_Queues
  imports Determ
begin

text \<open>
  The waiting queues of locks and condition variables: what the shared object has to satisfy so
  that no waiter is lost or counted twice, and that each way to enter or leave a queue keeps it.
  The queue facts are those of the list interface.
\<close>

subsection \<open>The representation of the queues\<close>

definition lock_waiting :: "threadStatus \<Rightarrow> bool" where
  "lock_waiting st \<longleftrightarrow> st = STATUS_WAITING_ON_LOCK \<or> st = STATUS_ON_DECK"

definition lock_queue :: "'c determ \<Rightarrow> addr \<Rightarrow> nat list \<Rightarrow> bool" where
  "lock_queue s p xs \<longleftrightarrow>
     circ (ds_links s) (lk_head (ds_locks s p)) (map thread_addr xs) \<and>
     unat (lk_waiters (ds_locks s p)) = length xs \<and>
     set xs \<subseteq> {..<MAX_THREAD_ENTRIES} \<and>
     (\<forall>t \<in> set xs. lock_waiting (status_of s t)) \<and>
     (\<forall>t \<in> set (tl xs). status_of s t = STATUS_WAITING_ON_LOCK)"

definition cond_queue :: "'c determ \<Rightarrow> addr \<Rightarrow> nat list \<Rightarrow> bool" where
  "cond_queue s c xs \<longleftrightarrow>
     circ (ds_links s) (cv_head (ds_conds s c)) (map thread_addr xs) \<and>
     unat (cv_waiters (ds_conds s c)) = length xs \<and>
     set xs \<subseteq> {..<MAX_THREAD_ENTRIES} \<and>
     (\<forall>t \<in> set xs. status_of s t = STATUS_COND_WAITING \<and> te_cond (ds_threads s t) = c)"

type_synonym queues = "addr \<rightharpoonup> nat list"

definition queued :: "queues \<Rightarrow> nat \<Rightarrow> bool" where
  "queued Q t \<longleftrightarrow> (\<exists>p xs. Q p = Some xs \<and> t \<in> set xs)"

text \<open>
  The queues of all locks and of all condition variables; a thread has a waiting status exactly
  when it is in a queue. (An entry that no thread has used yet is all zero, which is the status of
  a condition waiter, but it has no condition variable.)
\<close>

definition sync_rep :: "'c determ \<Rightarrow> queues \<Rightarrow> queues \<Rightarrow> bool" where
  "sync_rep s LQ CQ \<longleftrightarrow>
     (\<forall>p xs. LQ p = Some xs \<longrightarrow> p \<noteq> NULL \<and> lock_queue s p xs) \<and>
     (\<forall>c xs. CQ c = Some xs \<longrightarrow> c \<noteq> NULL \<and> cond_queue s c xs) \<and>
     (\<forall>p q xs ys. LQ p = Some xs \<longrightarrow> LQ q = Some ys \<longrightarrow> p \<noteq> q \<longrightarrow> set xs \<inter> set ys = {}) \<and>
     (\<forall>t. lock_waiting (status_of s t) \<longrightarrow> queued LQ t) \<and>
     (\<forall>t. status_of s t = STATUS_COND_WAITING \<longrightarrow> te_cond (ds_threads s t) \<noteq> NULL \<longrightarrow>
        queued CQ t)"

lemma sync_repI:
  assumes "\<And>p xs. LQ p = Some xs \<Longrightarrow> p \<noteq> NULL \<and> lock_queue s p xs"
    and "\<And>c xs. CQ c = Some xs \<Longrightarrow> c \<noteq> NULL \<and> cond_queue s c xs"
    and "\<And>p q xs ys. LQ p = Some xs \<Longrightarrow> LQ q = Some ys \<Longrightarrow> p \<noteq> q \<Longrightarrow> set xs \<inter> set ys = {}"
    and "\<And>t. lock_waiting (status_of s t) \<Longrightarrow> queued LQ t"
    and "\<And>t. status_of s t = STATUS_COND_WAITING \<Longrightarrow> te_cond (ds_threads s t) \<noteq> NULL \<Longrightarrow> queued CQ t"
  shows "sync_rep s LQ CQ"
  using assms unfolding sync_rep_def by blast

lemma sync_repD:
  assumes "sync_rep s LQ CQ"
  shows sync_rep_lock: "LQ p = Some xs \<Longrightarrow> p \<noteq> NULL \<and> lock_queue s p xs"
    and sync_rep_cond: "CQ c = Some ys \<Longrightarrow> c \<noteq> NULL \<and> cond_queue s c ys"
    and sync_rep_disj: "LQ p = Some xs \<Longrightarrow> LQ q = Some zs \<Longrightarrow> p \<noteq> q \<Longrightarrow> set xs \<inter> set zs = {}"
    and sync_rep_lock_complete: "lock_waiting (status_of s t) \<Longrightarrow> queued LQ t"
    and sync_rep_cond_complete: "status_of s t = STATUS_COND_WAITING \<Longrightarrow>
      te_cond (ds_threads s t) \<noteq> NULL \<Longrightarrow> queued CQ t"
  using assms unfolding sync_rep_def by blast+

lemma thread_addr_inj [simp]: "thread_addr t = thread_addr u \<longleftrightarrow> t = u"
  by (simp add: thread_addr_def)

lemma thread_addr_not_NULL [simp]: "thread_addr t \<noteq> NULL"
  by (simp add: thread_addr_def NULL_def)

lemma addr_thread_addr [simp]: "addr_thread (thread_addr t) = t"
  by (simp add: thread_addr_def addr_thread_def)

lemma thread_addr_in [simp]: "thread_addr t \<in> thread_addr ` A \<longleftrightarrow> t \<in> A"
  by (auto simp: image_iff)

lemma distinct_map_thread_addr [simp]: "distinct (map thread_addr xs) = distinct xs"
  by (simp add: distinct_map inj_on_def)

lemma circ_threads: "circ h a (map thread_addr xs) \<Longrightarrow> distinct xs"
  using circ_distinct[of h a "map thread_addr xs"] by simp

lemma lock_queue_distinct: "lock_queue s p xs \<Longrightarrow> distinct xs"
  unfolding lock_queue_def using circ_threads by blast

lemma cond_queue_distinct: "cond_queue s c xs \<Longrightarrow> distinct xs"
  unfolding cond_queue_def using circ_threads by blast

lemma length_threads:
  assumes "distinct xs" "set xs \<subseteq> {..<MAX_THREAD_ENTRIES}"
  shows "length xs \<le> MAX_THREAD_ENTRIES"
  using card_mono[OF _ assms(2)] distinct_card[OF assms(1)] by simp

text \<open>Counts of waiters at their width.\<close>

lemma unat_plus_1: "unat (x :: u64) \<le> MAX_THREAD_ENTRIES \<Longrightarrow> unat (x + 1) = Suc (unat x)"
proof -
  assume "unat x \<le> MAX_THREAD_ENTRIES"
  then have "unat x + 1 < 2 ^ 64" by (simp add: MAX_THREAD_ENTRIES_def)
  then show ?thesis by (simp add: unat_word_ariths)
qed

lemma unat_minus_1: "unat (x :: u64) = Suc n \<Longrightarrow> unat (x - 1) = n"
  by (metis diff_Suc_1 nat.distinct(1) unat_eq_zero unat_minus_one)

subsection \<open>Frames\<close>

lemma status_of_set_status [simp]:
  "status_of (set_status t st s) u = (if u = t then st else status_of s u)"
  by (simp add: set_status_def upd_thread_def status_of_def)

lemma set_status_simps [simp]:
  "ds_links (set_status t st s) = ds_links s" "ds_locks (set_status t st s) = ds_locks s"
  "ds_conds (set_status t st s) = ds_conds s" "ds_var (set_status t st s) = ds_var s"
  "ds_tokenpos (set_status t st s) = ds_tokenpos s" "ds_clock (set_status t st s) = ds_clock s"
  "ds_activation_counter (set_status t st s) = ds_activation_counter s"
  "te_cond (ds_threads (set_status t st s) u) = te_cond (ds_threads s u)"
  by (simp_all add: set_status_def upd_thread_def)

text \<open>What the queues depend on.\<close>

definition same_queues :: "'c determ \<Rightarrow> 'd determ \<Rightarrow> bool" where
  "same_queues s s' \<longleftrightarrow>
     ds_links s' = ds_links s \<and>
     (\<forall>p. lk_head (ds_locks s' p) = lk_head (ds_locks s p) \<and>
          lk_waiters (ds_locks s' p) = lk_waiters (ds_locks s p)) \<and>
     ds_conds s' = ds_conds s \<and>
     (\<forall>t. status_of s' t = status_of s t \<and> te_cond (ds_threads s' t) = te_cond (ds_threads s t))"

lemma same_queues_rep:
  assumes "same_queues s s'"
  shows "sync_rep s' LQ CQ \<longleftrightarrow> sync_rep s LQ CQ"
  using assms
  by (simp add: same_queues_def sync_rep_def lock_queue_def cond_queue_def)

lemma lock_queue_frame:
  assumes "lock_queue s q ys" "ds_locks s' q = ds_locks s q"
    and "\<forall>u \<in> set ys. status_of s' u = status_of s u"
    and "circ (ds_links s) (lk_head (ds_locks s q)) (map thread_addr ys) \<Longrightarrow>
         circ (ds_links s') (lk_head (ds_locks s q)) (map thread_addr ys)"
  shows "lock_queue s' q ys"
  using assms list.set_sel(2)[of ys] unfolding lock_queue_def
  by (metis list.set_sel(2) tl_Nil)

lemma cond_queue_frame:
  assumes "cond_queue s c ys" "ds_conds s' c = ds_conds s c"
    and "\<forall>u \<in> set ys. status_of s' u = status_of s u \<and>
           te_cond (ds_threads s' u) = te_cond (ds_threads s u)"
    and "circ (ds_links s) (cv_head (ds_conds s c)) (map thread_addr ys) \<Longrightarrow>
         circ (ds_links s') (cv_head (ds_conds s c)) (map thread_addr ys)"
  shows "cond_queue s' c ys"
  using assms unfolding cond_queue_def by simp


lemma not_waiting_not_queued:
  assumes "sync_rep s LQ CQ"
  shows "LQ p = Some xs \<Longrightarrow> \<not> lock_waiting (status_of s t) \<Longrightarrow> t \<notin> set xs"
    and "CQ c = Some ys \<Longrightarrow> status_of s t \<noteq> STATUS_COND_WAITING \<Longrightarrow> t \<notin> set ys"
  using sync_rep_lock[OF assms] sync_rep_cond[OF assms]
  unfolding lock_queue_def cond_queue_def by blast+

lemma lock_cond_disjoint:
  assumes "sync_rep s LQ CQ" "LQ p = Some xs" "CQ c = Some ys"
  shows "set xs \<inter> set ys = {}"
  using sync_rep_lock[OF assms(1,2)] sync_rep_cond[OF assms(1,3)]
  unfolding lock_queue_def cond_queue_def lock_waiting_def by fastforce

lemma cond_cond_disjoint:
  assumes "sync_rep s LQ CQ" "CQ c = Some xs" "CQ d = Some ys" "c \<noteq> d"
  shows "set xs \<inter> set ys = {}"
  using sync_rep_cond[OF assms(1,2)] sync_rep_cond[OF assms(1,3)] assms(4)
  unfolding cond_queue_def by fastforce

lemma queued_upd_same: "queued (Q(p \<mapsto> xs)) t \<longleftrightarrow> t \<in> set xs \<or> queued (Q(p := None)) t"
  unfolding queued_def by (auto split: if_splits)

lemma queued_grow:
  assumes "Q p = Some xs" "set xs \<subseteq> set ys"
  shows "queued Q t \<Longrightarrow> queued (Q(p \<mapsto> ys)) t"
  using assms unfolding queued_def by (metis fun_upd_apply option.inject subsetD)

lemma queued_shrink:
  assumes "Q p = Some (x # xs)" "t \<noteq> x"
  shows "queued Q t \<Longrightarrow> queued (Q(p \<mapsto> xs)) t"
  using assms unfolding queued_def
  by (metis fun_upd_apply option.inject set_ConsD)

subsection \<open>Entering a queue\<close>

lemma circ_frame:
  assumes "\<forall>r ys. circ h r ys \<and> set ys \<inter> A = {} \<longrightarrow> circ h' r ys"
    and "A \<subseteq> thread_addr ` B" "set ys \<inter> B = {}"
  shows "circ h r (map thread_addr ys) \<Longrightarrow> circ h' r (map thread_addr ys)"
proof -
  assume c: "circ h r (map thread_addr ys)"
  have "u \<in> B" if "thread_addr u \<in> A" for u
    using subsetD[OF assms(2) that] by simp
  then have "set (map thread_addr ys) \<inter> A = {}" using assms(3) by auto
  with c assms(1) show ?thesis by blast
qed

definition enter_lock :: "addr \<Rightarrow> nat \<Rightarrow> addr \<Rightarrow> store \<Rightarrow> 'c determ \<Rightarrow> 'c determ" where
  "enter_lock p t head' h' s =
     set_status t STATUS_WAITING_ON_LOCK
       (upd_lock p (\<lambda>l. l\<lparr>lk_head := head', lk_waiters := lk_waiters l + 1\<rparr>)
         (s\<lparr>ds_links := h'\<rparr>))"

lemma enter_lock_simps [simp]:
  "ds_links (enter_lock p t a h s) = h"
  "ds_conds (enter_lock p t a h s) = ds_conds s"
  "te_cond (ds_threads (enter_lock p t a h s) u) = te_cond (ds_threads s u)"
  "status_of (enter_lock p t a h s) u = (if u = t then STATUS_WAITING_ON_LOCK else status_of s u)"
  "q \<noteq> p \<Longrightarrow> ds_locks (enter_lock p t a h s) q = ds_locks s q"
  "lk_head (ds_locks (enter_lock p t a h s) p) = a"
  "lk_waiters (ds_locks (enter_lock p t a h s) p) = lk_waiters (ds_locks s p) + 1"
  by (simp_all add: enter_lock_def upd_lock_def set_status_def upd_thread_def status_of_def)

lemma lock_enqueue:
  assumes R: "sync_rep s LQ CQ" and p: "LQ p = Some xs" and t: "t < MAX_THREAD_ENTRIES"
    and st: "\<not> lock_waiting (status_of s t)" "status_of s t \<noteq> STATUS_COND_WAITING"
  shows "\<exists>head' h'. insertTail (thread_addr t) (lk_head (ds_locks s p)) (ds_links s) = Inr (head', h') \<and>
    sync_rep (enter_lock p t head' h' s) (LQ(p \<mapsto> xs @ [t])) CQ"
proof -
  note L = sync_rep_lock[OF R p]
  note not_in = not_waiting_not_queued[OF R]
  have tx: "t \<notin> set xs" by (rule not_in(1)[OF p st(1)])
  have c: "circ (ds_links s) (lk_head (ds_locks s p)) (map thread_addr xs)"
    using L by (simp add: lock_queue_def)
  obtain a h where ins: "insertTail (thread_addr t) (lk_head (ds_locks s p)) (ds_links s) = Inr (a, h)"
    and c': "circ h a (map thread_addr xs @ [thread_addr t])"
    and fr: "\<forall>r ys. circ (ds_links s) r ys \<and> set ys \<inter> set (thread_addr t # map thread_addr xs) = {}
      \<longrightarrow> circ h r ys"
    using lh.enq_ok[OF c, of "thread_addr t"] tx by auto
  let ?s = "enter_lock p t a h s"
  have sub: "set (thread_addr t # map thread_addr xs) \<subseteq> thread_addr ` insert t (set xs)" by auto
  have n: "unat (lk_waiters (ds_locks s p)) = length xs" "set xs \<subseteq> {..<MAX_THREAD_ENTRIES}"
    using L by (auto simp: lock_queue_def)
  have len: "length xs \<le> MAX_THREAD_ENTRIES"
    using L lock_queue_distinct n(2) by (intro length_threads) auto
  have "sync_rep ?s (LQ(p \<mapsto> xs @ [t])) CQ"
  proof (rule sync_repI)
    fix q zs assume q: "(LQ(p \<mapsto> xs @ [t])) q = Some zs"
    show "q \<noteq> NULL \<and> lock_queue ?s q zs"
    proof (cases "q = p")
      case True
      then have zs: "zs = xs @ [t]" using q by simp
      have "unat (lk_waiters (ds_locks s p) + 1) = length zs"
        using n(1) len zs unat_plus_1[of "lk_waiters (ds_locks s p)"] by simp
      moreover have "\<forall>u \<in> set (tl zs). status_of ?s u = STATUS_WAITING_ON_LOCK"
        using L zs by (cases xs) (auto simp: lock_queue_def)
      ultimately show ?thesis
        using L True c' n(2) t zs by (auto simp: lock_queue_def lock_waiting_def)
    next
      case False
      then have q': "LQ q = Some zs" using q by simp
      have "t \<notin> set zs" by (rule not_in(1)[OF q' st(1)])
      moreover have "set zs \<inter> set xs = {}" using sync_rep_disj[OF R q' p False] .
      ultimately show ?thesis
        using sync_rep_lock[OF R q'] False circ_frame[OF fr sub, of zs]
        by (auto intro!: lock_queue_frame[of s q zs ?s])
    qed
  next
    fix d ys assume d: "CQ d = Some ys"
    have "t \<notin> set ys" by (rule not_in(2)[OF d st(2)])
    moreover have "set ys \<inter> set xs = {}" using lock_cond_disjoint[OF R p d] by auto
    ultimately show "d \<noteq> NULL \<and> cond_queue ?s d ys"
      using sync_rep_cond[OF R d] circ_frame[OF fr sub, of ys]
      by (auto intro!: cond_queue_frame[of s d ys ?s])
  next
    fix q r ys zs
    assume "(LQ(p \<mapsto> xs @ [t])) q = Some ys" "(LQ(p \<mapsto> xs @ [t])) r = Some zs" "q \<noteq> r"
    then show "set ys \<inter> set zs = {}"
      using sync_rep_disj[OF R] p not_in(1)[OF _ st(1)] by (fastforce split: if_splits)
  next
    fix u assume "lock_waiting (status_of ?s u)"
    then show "queued (LQ(p \<mapsto> xs @ [t])) u"
      using sync_rep_lock_complete[OF R, of u] queued_grow[of LQ p xs "xs @ [t]" u] p
      by (auto simp: queued_upd_same split: if_splits)
  next
    fix u assume "status_of ?s u = STATUS_COND_WAITING" "te_cond (ds_threads ?s u) \<noteq> NULL"
    then show "queued CQ u" using sync_rep_cond_complete[OF R, of u] by (auto split: if_splits)
  qed
  with ins show ?thesis by blast
qed


definition enter_cond :: "addr \<Rightarrow> nat \<Rightarrow> addr \<Rightarrow> store \<Rightarrow> 'c determ \<Rightarrow> 'c determ" where
  "enter_cond c t head' h' s =
     upd_thread t (\<lambda>e. e\<lparr>te_cond := c, te_status := STATUS_COND_WAITING\<rparr>)
       (upd_cond c (\<lambda>e. e\<lparr>cv_head := head', cv_waiters := cv_waiters e + 1\<rparr>)
         (s\<lparr>ds_links := h'\<rparr>))"

lemma enter_cond_simps [simp]:
  "ds_links (enter_cond c t a h s) = h"
  "ds_locks (enter_cond c t a h s) = ds_locks s"
  "te_cond (ds_threads (enter_cond c t a h s) u) = (if u = t then c else te_cond (ds_threads s u))"
  "status_of (enter_cond c t a h s) u = (if u = t then STATUS_COND_WAITING else status_of s u)"
  "d \<noteq> c \<Longrightarrow> ds_conds (enter_cond c t a h s) d = ds_conds s d"
  "cv_head (ds_conds (enter_cond c t a h s) c) = a"
  "cv_waiters (ds_conds (enter_cond c t a h s) c) = cv_waiters (ds_conds s c) + 1"
  by (simp_all add: enter_cond_def upd_cond_def upd_thread_def status_of_def)

lemma cond_enqueue:
  assumes R: "sync_rep s LQ CQ" and c: "CQ c = Some xs" and t: "t < MAX_THREAD_ENTRIES"
    and st: "\<not> lock_waiting (status_of s t)" "status_of s t \<noteq> STATUS_COND_WAITING"
  shows "\<exists>head' h'. insertTail (thread_addr t) (cv_head (ds_conds s c)) (ds_links s) = Inr (head', h') \<and>
    sync_rep (enter_cond c t head' h' s) LQ (CQ(c \<mapsto> xs @ [t]))"
proof -
  note C = sync_rep_cond[OF R c]
  note not_in = not_waiting_not_queued[OF R]
  have tx: "t \<notin> set xs" by (rule not_in(2)[OF c st(2)])
  have circ: "circ (ds_links s) (cv_head (ds_conds s c)) (map thread_addr xs)"
    using C by (simp add: cond_queue_def)
  obtain a h where ins: "insertTail (thread_addr t) (cv_head (ds_conds s c)) (ds_links s) = Inr (a, h)"
    and c': "circ h a (map thread_addr xs @ [thread_addr t])"
    and fr: "\<forall>r ys. circ (ds_links s) r ys \<and> set ys \<inter> set (thread_addr t # map thread_addr xs) = {}
      \<longrightarrow> circ h r ys"
    using lh.enq_ok[OF circ, of "thread_addr t"] tx by auto
  let ?s = "enter_cond c t a h s"
  have sub: "set (thread_addr t # map thread_addr xs) \<subseteq> thread_addr ` insert t (set xs)" by auto
  have n: "unat (cv_waiters (ds_conds s c)) = length xs" "set xs \<subseteq> {..<MAX_THREAD_ENTRIES}"
    using C by (auto simp: cond_queue_def)
  have len: "length xs \<le> MAX_THREAD_ENTRIES"
    using C cond_queue_distinct n(2) by (intro length_threads) auto
  have "sync_rep ?s LQ (CQ(c \<mapsto> xs @ [t]))"
  proof (rule sync_repI)
    fix q zs assume q: "LQ q = Some zs"
    have "t \<notin> set zs" by (rule not_in(1)[OF q st(1)])
    moreover have "set zs \<inter> set xs = {}" by (rule lock_cond_disjoint[OF R q c])
    ultimately show "q \<noteq> NULL \<and> lock_queue ?s q zs"
      using sync_rep_lock[OF R q] circ_frame[OF fr sub, of zs]
      by (auto intro!: lock_queue_frame[of s q zs ?s])
  next
    fix d ys assume d: "(CQ(c \<mapsto> xs @ [t])) d = Some ys"
    show "d \<noteq> NULL \<and> cond_queue ?s d ys"
    proof (cases "d = c")
      case True
      then have ys: "ys = xs @ [t]" using d by simp
      have "unat (cv_waiters (ds_conds s c) + 1) = length ys"
        using n(1) len ys unat_plus_1[of "cv_waiters (ds_conds s c)"] by simp
      then show ?thesis using C True c' n(2) t ys by (auto simp: cond_queue_def)
    next
      case False
      then have d': "CQ d = Some ys" using d by simp
      have "t \<notin> set ys" by (rule not_in(2)[OF d' st(2)])
      moreover have "set ys \<inter> set xs = {}" by (rule cond_cond_disjoint[OF R d' c False])
      ultimately show ?thesis
        using sync_rep_cond[OF R d'] False circ_frame[OF fr sub, of ys]
        by (auto intro!: cond_queue_frame[of s d ys ?s])
    qed
  next
    fix q r ys zs assume "LQ q = Some ys" "LQ r = Some zs" "q \<noteq> r"
    then show "set ys \<inter> set zs = {}" by (rule sync_rep_disj[OF R])
  next
    fix u assume "lock_waiting (status_of ?s u)"
    then show "queued LQ u"
      using sync_rep_lock_complete[OF R, of u] by (auto simp: lock_waiting_def split: if_splits)
  next
    fix u assume "status_of ?s u = STATUS_COND_WAITING" "te_cond (ds_threads ?s u) \<noteq> NULL"
    then show "queued (CQ(c \<mapsto> xs @ [t])) u"
      using sync_rep_cond_complete[OF R, of u] queued_grow[of CQ c xs "xs @ [t]" u] c
      by (auto simp: queued_upd_same split: if_splits)
  qed
  with ins show ?thesis by blast
qed

subsection \<open>Leaving a queue\<close>

definition on_deck :: "nat list \<Rightarrow> 'c determ \<Rightarrow> 'c determ" where
  "on_deck xs s = (case xs of [] \<Rightarrow> s | y # ys \<Rightarrow> set_status y STATUS_ON_DECK s)"

definition leave_lock :: "addr \<Rightarrow> nat \<Rightarrow> nat list \<Rightarrow> addr \<Rightarrow> store \<Rightarrow> 'c determ \<Rightarrow> 'c determ" where
  "leave_lock p x xs head' h' s =
     on_deck xs (set_status x STATUS_READY
       (upd_lock p (\<lambda>l. l\<lparr>lk_head := head', lk_waiters := lk_waiters l - 1\<rparr>) (s\<lparr>ds_links := h'\<rparr>)))"

lemma leave_lock_simps [simp]:
  "ds_links (leave_lock p x xs a h s) = h"
  "ds_conds (leave_lock p x xs a h s) = ds_conds s"
  "te_cond (ds_threads (leave_lock p x xs a h s) u) = te_cond (ds_threads s u)"
  "q \<noteq> p \<Longrightarrow> ds_locks (leave_lock p x xs a h s) q = ds_locks s q"
  "lk_head (ds_locks (leave_lock p x xs a h s) p) = a"
  "lk_waiters (ds_locks (leave_lock p x xs a h s) p) = lk_waiters (ds_locks s p) - 1"
  by (cases xs; simp add: leave_lock_def on_deck_def upd_lock_def set_status_def upd_thread_def)+

lemma leave_lock_status [simp]:
  "status_of (leave_lock p x xs a h s) u =
     (if xs \<noteq> [] \<and> u = hd xs then STATUS_ON_DECK else if u = x then STATUS_READY else status_of s u)"
  by (cases xs; simp add: leave_lock_def on_deck_def; simp add: status_of_def upd_lock_def)

lemma lock_dequeue:
  assumes R: "sync_rep s LQ CQ" and p: "LQ p = Some (x # xs)"
  shows "\<exists>head' h'. removeHeadEntry (lk_head (ds_locks s p)) (ds_links s) =
      Inr (thread_addr x, head', h') \<and> head' = hd (map thread_addr xs @ [NULL]) \<and>
    sync_rep (leave_lock p x xs head' h' s) (LQ(p \<mapsto> xs)) CQ"
proof -
  note L = sync_rep_lock[OF R p]
  have c: "circ (ds_links s) (lk_head (ds_locks s p)) (thread_addr x # map thread_addr xs)"
    using L by (simp add: lock_queue_def)
  obtain a h where del: "removeHeadEntry (lk_head (ds_locks s p)) (ds_links s) = Inr (thread_addr x, a, h)"
    and c': "circ h a (map thread_addr xs)"
    and fr: "\<forall>r ys. circ (ds_links s) r ys \<and> set ys \<inter> set (thread_addr x # map thread_addr xs) = {}
      \<longrightarrow> circ h r ys"
    using lh.deq_ok[OF c] by auto
  let ?s = "leave_lock p x xs a h s"
  have sub: "set (thread_addr x # map thread_addr xs) \<subseteq> thread_addr ` set (x # xs)" by auto
  have d: "distinct (x # xs)" using L lock_queue_distinct by blast
  have hx: "xs = [] \<or> hd xs \<notin> A" if "A \<inter> set (x # xs) = {}" for A
    using that by (cases xs) auto
  have "sync_rep ?s (LQ(p \<mapsto> xs)) CQ"
  proof (rule sync_repI)
    fix q zs assume q: "(LQ(p \<mapsto> xs)) q = Some zs"
    show "q \<noteq> NULL \<and> lock_queue ?s q zs"
    proof (cases "q = p")
      case True
      then have zs: "zs = xs" using q by simp
      have "unat (lk_waiters (ds_locks s p) - 1) = length xs"
        using L by (intro unat_minus_1) (simp add: lock_queue_def)
      moreover have "\<forall>u \<in> set (tl xs). status_of ?s u = STATUS_WAITING_ON_LOCK"
        using L d by (cases xs) (auto simp: lock_queue_def)
      ultimately show ?thesis
        using L True c' zs d by (auto simp: lock_queue_def lock_waiting_def)
    next
      case False
      then have q': "LQ q = Some zs" using q by simp
      have "set zs \<inter> set (x # xs) = {}" using sync_rep_disj[OF R q' p False] .
      with hx[OF this] show ?thesis
        using sync_rep_lock[OF R q'] False circ_frame[OF fr sub, of zs]
        by (intro conjI lock_queue_frame[of s q zs ?s]) auto
    qed
  next
    fix d ys assume d: "CQ d = Some ys"
    have "set ys \<inter> set (x # xs) = {}" using lock_cond_disjoint[OF R p d] by auto
    with hx[OF this] show "d \<noteq> NULL \<and> cond_queue ?s d ys"
      using sync_rep_cond[OF R d] circ_frame[OF fr sub, of ys]
      by (intro conjI cond_queue_frame[of s d ys ?s]) auto
  next
    fix q r ys zs
    assume "(LQ(p \<mapsto> xs)) q = Some ys" "(LQ(p \<mapsto> xs)) r = Some zs" "q \<noteq> r"
    then show "set ys \<inter> set zs = {}"
      using sync_rep_disj[OF R] p by (fastforce split: if_splits)
  next
    fix u assume u: "lock_waiting (status_of ?s u)"
    show "queued (LQ(p \<mapsto> xs)) u"
    proof (cases "u \<in> set xs")
      case False
      then have "u \<noteq> x" "lock_waiting (status_of s u)"
        using u by (auto simp: lock_waiting_def split: if_splits)
      then show ?thesis
        using sync_rep_lock_complete[OF R, of u] queued_shrink[of LQ p x xs u] p by blast
    qed (simp add: queued_upd_same)
  next
    fix u assume "status_of ?s u = STATUS_COND_WAITING" "te_cond (ds_threads ?s u) \<noteq> NULL"
    then show "queued CQ u" using sync_rep_cond_complete[OF R, of u] by (auto split: if_splits)
  qed
  moreover have "a = hd (map thread_addr xs @ [NULL])"
    using c' circ_head[of h a "map thread_addr xs"] by (cases xs) auto
  ultimately show ?thesis using del by blast
qed

definition leave_cond :: "addr \<Rightarrow> nat \<Rightarrow> addr \<Rightarrow> store \<Rightarrow> 'c determ \<Rightarrow> 'c determ" where
  "leave_cond c x head' h' s =
     upd_cond c (\<lambda>e. e\<lparr>cv_waiters := cv_waiters e - 1\<rparr>)
       (upd_thread x (\<lambda>e. e\<lparr>te_cond := NULL, te_status := STATUS_READY\<rparr>)
         (upd_cond c (\<lambda>e. e\<lparr>cv_head := head'\<rparr>) (s\<lparr>ds_links := h'\<rparr>)))"

lemma leave_cond_simps [simp]:
  "ds_links (leave_cond c x a h s) = h"
  "ds_locks (leave_cond c x a h s) = ds_locks s"
  "te_cond (ds_threads (leave_cond c x a h s) u) = (if u = x then NULL else te_cond (ds_threads s u))"
  "status_of (leave_cond c x a h s) u = (if u = x then STATUS_READY else status_of s u)"
  "d \<noteq> c \<Longrightarrow> ds_conds (leave_cond c x a h s) d = ds_conds s d"
  "cv_head (ds_conds (leave_cond c x a h s) c) = a"
  "cv_waiters (ds_conds (leave_cond c x a h s) c) = cv_waiters (ds_conds s c) - 1"
  "ds_clock (leave_cond c x a h s) = ds_clock s"
  by (simp_all add: leave_cond_def upd_cond_def upd_thread_def status_of_def)

lemma cond_dequeue:
  assumes R: "sync_rep s LQ CQ" and c: "CQ c = Some (x # xs)"
  shows "\<exists>head' h'. removeHeadEntry (cv_head (ds_conds s c)) (ds_links s) =
      Inr (thread_addr x, head', h') \<and>
    sync_rep (leave_cond c x head' h' s) LQ (CQ(c \<mapsto> xs))"
proof -
  note C = sync_rep_cond[OF R c]
  have circ: "circ (ds_links s) (cv_head (ds_conds s c)) (thread_addr x # map thread_addr xs)"
    using C by (simp add: cond_queue_def)
  obtain a h where del: "removeHeadEntry (cv_head (ds_conds s c)) (ds_links s) = Inr (thread_addr x, a, h)"
    and c': "circ h a (map thread_addr xs)"
    and fr: "\<forall>r ys. circ (ds_links s) r ys \<and> set ys \<inter> set (thread_addr x # map thread_addr xs) = {}
      \<longrightarrow> circ h r ys"
    using lh.deq_ok[OF circ] by auto
  let ?s = "leave_cond c x a h s"
  have sub: "set (thread_addr x # map thread_addr xs) \<subseteq> thread_addr ` set (x # xs)" by auto
  have d: "distinct (x # xs)" using C cond_queue_distinct by blast
  have "sync_rep ?s LQ (CQ(c \<mapsto> xs))"
  proof (rule sync_repI)
    fix q zs assume q: "LQ q = Some zs"
    have "set zs \<inter> set (x # xs) = {}" by (rule lock_cond_disjoint[OF R q c])
    then show "q \<noteq> NULL \<and> lock_queue ?s q zs"
      using sync_rep_lock[OF R q] circ_frame[OF fr sub, of zs]
      by (auto intro!: lock_queue_frame[of s q zs ?s])
  next
    fix e ys assume e: "(CQ(c \<mapsto> xs)) e = Some ys"
    show "e \<noteq> NULL \<and> cond_queue ?s e ys"
    proof (cases "e = c")
      case True
      then have ys: "ys = xs" using e by simp
      have "unat (cv_waiters (ds_conds s c) - 1) = length xs"
        using C by (intro unat_minus_1) (simp add: cond_queue_def)
      then show ?thesis using C True c' ys d by (auto simp: cond_queue_def)
    next
      case False
      then have e': "CQ e = Some ys" using e by simp
      have "set ys \<inter> set (x # xs) = {}" by (rule cond_cond_disjoint[OF R e' c False])
      then show ?thesis
        using sync_rep_cond[OF R e'] False circ_frame[OF fr sub, of ys]
        by (auto intro!: cond_queue_frame[of s e ys ?s])
    qed
  next
    fix q r ys zs assume "LQ q = Some ys" "LQ r = Some zs" "q \<noteq> r"
    then show "set ys \<inter> set zs = {}" by (rule sync_rep_disj[OF R])
  next
    fix u assume "lock_waiting (status_of ?s u)"
    then show "queued LQ u"
      using sync_rep_lock_complete[OF R, of u] by (auto simp: lock_waiting_def split: if_splits)
  next
    fix u assume "status_of ?s u = STATUS_COND_WAITING" "te_cond (ds_threads ?s u) \<noteq> NULL"
    then have "u \<noteq> x" "status_of s u = STATUS_COND_WAITING" "te_cond (ds_threads s u) \<noteq> NULL"
      by (auto split: if_splits)
    then show "queued (CQ(c \<mapsto> xs)) u"
      using sync_rep_cond_complete[OF R, of u] queued_shrink[of CQ c x xs u] c by blast
  qed
  with del show ?thesis by blast
qed

end
