(* ===== verification/Determ_Properties.thy ===== *)
theory Determ_Properties
  imports Determ_Queues
begin

text \<open>
  Locks and condition variables: what each operation does to the queues, that no sequence of
  operations loses a waiter, and who may hold a lock or the token.
\<close>

subsection \<open>Releasing a lock\<close>

definition count_activation :: "bool \<Rightarrow> 'c \<Rightarrow> 'c determ \<Rightarrow> 'c determ" where
  "count_activation lowest clk s =
     s\<lparr>ds_clock := clk,
       ds_activation_counter := (if lowest then ds_activation_counter s + 1 else ds_activation_counter s)\<rparr>"

lemma count_activation_simps [simp]:
  "ds_links (count_activation low c s) = ds_links s"
  "ds_locks (count_activation low c s) = ds_locks s"
  "ds_conds (count_activation low c s) = ds_conds s"
  "ds_threads (count_activation low c s) = ds_threads s"
  "ds_var (count_activation low c s) = ds_var s"
  "ds_tokenpos (count_activation low c s) = ds_tokenpos s"
  "ds_clock (count_activation low c s) = c"
  "ds_activation_counter (count_activation low c s) =
     (if low then ds_activation_counter s + 1 else ds_activation_counter s)"
  "status_of (count_activation low c s) u = status_of s u"
  by (simp_all add: count_activation_def status_of_def)

lemma activate_and_count_eq:
  "ca_activate_other K t (ds_clock s) = Inr (low, c) \<Longrightarrow>
   activate_and_count K t s = Inr (count_activation low c s)"
  by (simp add: activate_and_count_def count_activation_def Let_def)

lemma sync_rep_count_activation [simp]:
  "sync_rep (count_activation low c s) LQ CQ \<longleftrightarrow> sync_rep s LQ CQ"
  by (rule same_queues_rep) (simp add: same_queues_def)

definition unlocked :: "addr \<Rightarrow> 'c determ \<Rightarrow> 'c determ" where
  "unlocked p = upd_lock p (\<lambda>l. l\<lparr>lk_acquired := False\<rparr>)"

lemma unlocked_simps [simp]:
  "ds_links (unlocked p s) = ds_links s" "ds_conds (unlocked p s) = ds_conds s"
  "ds_threads (unlocked p s) = ds_threads s" "ds_var (unlocked p s) = ds_var s"
  "ds_tokenpos (unlocked p s) = ds_tokenpos s" "ds_clock (unlocked p s) = ds_clock s"
  "ds_activation_counter (unlocked p s) = ds_activation_counter s"
  "lk_head (ds_locks (unlocked p s) q) = lk_head (ds_locks s q)"
  "lk_waiters (ds_locks (unlocked p s) q) = lk_waiters (ds_locks s q)"
  "lk_acquired (ds_locks (unlocked p s) q) \<longleftrightarrow> q \<noteq> p \<and> lk_acquired (ds_locks s q)"
  "status_of (unlocked p s) u = status_of s u"
  by (simp_all add: unlocked_def upd_lock_def status_of_def)

lemma sync_rep_unlocked [simp]: "sync_rep (unlocked p s) LQ CQ \<longleftrightarrow> sync_rep s LQ CQ"
  by (rule same_queues_rep) (simp add: same_queues_def)

lemma leave_lock_more [simp]:
  "ds_var (leave_lock p x xs a h s) = ds_var s"
  "ds_tokenpos (leave_lock p x xs a h s) = ds_tokenpos s"
  "ds_clock (leave_lock p x xs a h s) = ds_clock s"
  "ds_activation_counter (leave_lock p x xs a h s) = ds_activation_counter s"
  "lk_acquired (ds_locks (leave_lock p x xs a h s) q) = lk_acquired (ds_locks s q)"
  by (cases xs; simp add: leave_lock_def on_deck_def upd_lock_def)+

lemma lock_release_free:
  assumes R: "sync_rep s LQ CQ" and p: "ds_var s m = p" "LQ p = Some []"
  shows "lock_release K m t s = Inr (unlocked p s)"
proof -
  have "p \<noteq> NULL" "unat (lk_waiters (ds_locks s p)) = 0"
    using sync_rep_lock[OF R p(2)] by (auto simp: lock_queue_def)
  then have "p \<noteq> NULL" "lk_waiters (ds_locks s p) = 0" by (simp_all add: unat_eq_zero)
  then show ?thesis
    using p(1) by (simp add: lock_release_def unlocked_def[symmetric])
qed

lemma lock_release_eq:
  assumes R: "sync_rep s LQ CQ" and p: "ds_var s m = p" "LQ p = Some (x # xs)"
    and act: "ca_activate_other K x (ds_clock s) = Inr (low, c)"
    and del: "removeHeadEntry (lk_head (ds_locks s p)) (ds_links s) = Inr (thread_addr x, a, h)"
    and a: "a = hd (map thread_addr xs @ [NULL])"
  shows "lock_release K m t s = Inr (count_activation low c (leave_lock p x xs a h (unlocked p s)))"
proof -
  have pn: "p \<noteq> NULL" and w: "unat (lk_waiters (ds_locks s p)) = Suc (length xs)"
    using sync_rep_lock[OF R p(2)] by (auto simp: lock_queue_def)
  have w0: "lk_waiters (ds_locks s p) > 0" using w by (simp add: word_less_nat_alt)
  have w1: "lk_waiters (ds_locks s p) - 1 > 0 \<longleftrightarrow> xs \<noteq> []"
    using unat_minus_1[OF w] by (simp add: word_less_nat_alt)
  let ?s2 = "upd_lock p (\<lambda>l. l\<lparr>lk_head := a, lk_waiters := lk_waiters l - 1\<rparr>)
    ((unlocked p s)\<lparr>ds_links := h\<rparr>)"
  have s2: "ds_clock ?s2 = ds_clock s" "lk_waiters (ds_locks ?s2 p) = lk_waiters (ds_locks s p) - 1"
    "lk_head (ds_locks ?s2 p) = a"
    by (simp_all add: upd_lock_def unlocked_def)
  have act': "activate_and_count K x ?s2 = Inr (count_activation low c ?s2)"
    by (rule activate_and_count_eq) (simp add: s2 act)
  have swap: "set_status u st (count_activation low c r) = count_activation low c (set_status u st r)"
    for u st r by (simp add: set_status_def upd_thread_def count_activation_def)
  have run: "lock_release K m t s = (let s4 = set_status x STATUS_READY (count_activation low c ?s2) in
      Inr (if lk_waiters (ds_locks s4 p) > 0
           then (let onDeck = getHeadEntry (lk_head (ds_locks s4 p)) in
                 if onDeck \<noteq> NULL then set_status (addr_thread onDeck) STATUS_ON_DECK s4 else s4)
           else s4))"
    using p(1) pn w0 del act'
    by (simp add: lock_release_def unlocked_def[symmetric] Let_def)
  show ?thesis
  proof (cases xs)
    case Nil
    then show ?thesis
      unfolding run using s2 w1 by (simp add: Let_def swap leave_lock_def on_deck_def)
  next
    case (Cons y ys)
    then show ?thesis
      unfolding run using s2 w1 a
      by (simp add: Let_def swap leave_lock_def on_deck_def getHeadEntry_def)
  qed
qed

lemma lock_release_hands_over:
  assumes R: "sync_rep s LQ CQ" and p: "ds_var s m = p" "LQ p = Some (x # xs)"
    and act: "ca_activate_other K x (ds_clock s) = Inr (low, c)"
  shows "\<exists>s'. lock_release K m t s = Inr s' \<and> sync_rep s' (LQ(p \<mapsto> xs)) CQ \<and>
    \<not> lk_acquired (ds_locks s' p) \<and>
    (\<forall>u. status_of s' u = (if xs \<noteq> [] \<and> u = hd xs then STATUS_ON_DECK
        else if u = x then STATUS_READY else status_of s u)) \<and>
    ds_clock s' = c \<and> ds_tokenpos s' = ds_tokenpos s \<and> ds_var s' = ds_var s \<and>
    ds_activation_counter s' = (if low then ds_activation_counter s + 1 else ds_activation_counter s) \<and>
    (\<forall>q. q \<noteq> p \<longrightarrow> ds_locks s' q = ds_locks s q)"
proof -
  obtain a h where d: "removeHeadEntry (lk_head (ds_locks s p)) (ds_links s) = Inr (thread_addr x, a, h)"
    "a = hd (map thread_addr xs @ [NULL])" 
    "sync_rep (leave_lock p x xs a h (unlocked p s)) (LQ(p \<mapsto> xs)) CQ"
    using lock_dequeue[of "unlocked p s" LQ CQ p x xs] R p(2) by auto
  have fr: "q \<noteq> p \<longrightarrow> ds_locks (unlocked p s) q = ds_locks s q" for q
    by (simp add: unlocked_def upd_lock_def)
  show ?thesis
    using lock_release_eq[OF R p act d(1,2)] d(3) fr by simp
qed


subsection \<open>The token\<close>

lemma put_token_ok:
  assumes "ds_tokenpos s = Some t"
  shows "\<exists>s'. put_token K t ff s = Inr s' \<and> same_queues s s' \<and> ds_tokenpos s' = None \<and>
    ds_last_putter s' = t \<and> ds_clock s' = ds_clock s \<and> ds_locks s' = ds_locks s \<and>
    ds_var s' = ds_var s \<and> ds_activation_counter s' = ds_activation_counter s \<and>
    ds_last_token_value s' = (if ff then ca_read K (ds_clock s) else ds_last_token_value s)"
  using assms
  by (cases ff; simp add: put_token_def Let_def upd_thread_def same_queues_def status_of_def)

lemma halt_then_put:
  assumes "ds_tokenpos s = Some t" and "ca_halt K (ds_clock s) = Inr c"
  shows "\<exists>s'. bindR (on_clock (ca_halt K) s) (put_token K t ff) = Inr s' \<and> same_queues s s' \<and>
    ds_tokenpos s' = None \<and> ds_last_putter s' = t \<and> ds_clock s' = c \<and> ds_locks s' = ds_locks s \<and>
    ds_var s' = ds_var s \<and> ds_activation_counter s' = ds_activation_counter s"
proof -
  have "on_clock (ca_halt K) s = Inr (s\<lparr>ds_clock := c\<rparr>)" using assms(2) by (simp add: on_clock_def)
  moreover have "same_queues s (s\<lparr>ds_clock := c\<rparr>)" by (simp add: same_queues_def status_of_def)
  moreover have "same_queues s r" if "same_queues (s\<lparr>ds_clock := c\<rparr>) r" for r
    using that by (simp add: same_queues_def status_of_def)
  ultimately show ?thesis
    using put_token_ok[of "s\<lparr>ds_clock := c\<rparr>" t K ff] assms(1) by auto
qed

subsection \<open>Waiting on a lock\<close>

lemma enter_lock_more [simp]:
  "ds_tokenpos (enter_lock p t a h s) = ds_tokenpos s"
  "ds_clock (enter_lock p t a h s) = ds_clock s"
  "ds_var (enter_lock p t a h s) = ds_var s"
  "ds_activation_counter (enter_lock p t a h s) = ds_activation_counter s"
  "lk_acquired (ds_locks (enter_lock p t a h s) q) = lk_acquired (ds_locks s q)"
  by (simp_all add: enter_lock_def upd_lock_def)

lemma enter_cond_more [simp]:
  "ds_tokenpos (enter_cond p t a h s) = ds_tokenpos s"
  "ds_clock (enter_cond p t a h s) = ds_clock s"
  "ds_var (enter_cond p t a h s) = ds_var s"
  "ds_activation_counter (enter_cond p t a h s) = ds_activation_counter s"
  by (simp_all add: enter_cond_def upd_cond_def upd_thread_def)

lemma same_queues_status: "same_queues s s' \<Longrightarrow> status_of s' u = status_of s u"
  by (simp add: same_queues_def)

lemma wait_on_lock_joins:
  assumes R: "sync_rep s LQ CQ" and p: "ds_var s m = p" "LQ p = Some xs"
    and t: "t < MAX_THREAD_ENTRIES" "status_of s t = STATUS_READY" "ds_tokenpos s = Some t"
    and halt: "ca_halt K (ds_clock s) = Inr c"
  shows "\<exists>s'. wait_on_lock_begin K m t s = Inr s' \<and> sync_rep s' (LQ(p \<mapsto> xs @ [t])) CQ \<and>
    (\<forall>u. status_of s' u = (if u = t then STATUS_WAITING_ON_LOCK else status_of s u)) \<and>
    ds_tokenpos s' = None \<and> ds_last_putter s' = t \<and> ds_clock s' = c \<and> ds_var s' = ds_var s \<and>
    (\<forall>q. lk_acquired (ds_locks s' q) = lk_acquired (ds_locks s q))"
proof -
  have pn: "p \<noteq> NULL" using sync_rep_lock[OF R p(2)] by simp
  obtain a h where ins: "insertTail (thread_addr t) (lk_head (ds_locks s p)) (ds_links s) = Inr (a, h)"
    and R': "sync_rep (enter_lock p t a h s) (LQ(p \<mapsto> xs @ [t])) CQ"
    using lock_enqueue[OF R p(2) t(1)] t(2) by (auto simp: lock_waiting_def)
  let ?s = "enter_lock p t a h s"
  obtain s' where s': "bindR (on_clock (ca_halt K) ?s) (put_token K t True) = Inr s'"
    "same_queues ?s s'" "ds_tokenpos s' = None" "ds_last_putter s' = t" "ds_clock s' = c"
    "ds_locks s' = ds_locks ?s" "ds_var s' = ds_var ?s"
    using halt_then_put[of ?s t K c True] t(3) halt by auto
  have "wait_on_lock_begin K m t s = Inr s'"
    using p(1) pn ins s'(1)
    by (simp add: wait_on_lock_begin_def putToken_def enter_lock_def Let_def)
  then show ?thesis
    using s' R' same_queues_rep[OF s'(2)] same_queues_status[OF s'(2)] by simp
qed

subsection \<open>Condition variables\<close>

lemma cond_wait_joins:
  assumes R: "sync_rep s LQ CQ" and v: "ds_var s uc = c" "CQ c = Some ys"
    and p: "ds_var s m = p" "LQ p = Some xs"
    and t: "t < MAX_THREAD_ENTRIES" "status_of s t = STATUS_READY" "ds_tokenpos s = Some t"
    and act: "xs \<noteq> [] \<Longrightarrow> ca_activate_other K (hd xs) (ds_clock s) = Inr (low, k)"
      "xs = [] \<Longrightarrow> k = ds_clock s"
    and halt: "ca_halt K k = Inr k'"
  shows "\<exists>s'. cond_wait_begin K t uc m s = Inr s' \<and>
    sync_rep s' (LQ(p \<mapsto> tl xs)) (CQ(c \<mapsto> ys @ [t])) \<and>
    \<not> lk_acquired (ds_locks s' p) \<and> ds_tokenpos s' = None \<and> ds_clock s' = k' \<and>
    ds_var s' = ds_var s \<and>
    (\<forall>u. status_of s' u = (if u = t then STATUS_COND_WAITING
        else if tl xs \<noteq> [] \<and> u = hd (tl xs) then STATUS_ON_DECK
        else if xs \<noteq> [] \<and> u = hd xs then STATUS_READY else status_of s u))"
proof -
  have cn: "c \<noteq> NULL" using sync_rep_cond[OF R v(2)] by simp
  obtain a h where ins: "insertTail (thread_addr t) (cv_head (ds_conds s c)) (ds_links s) = Inr (a, h)"
    and R1: "sync_rep (enter_cond c t a h s) LQ (CQ(c \<mapsto> ys @ [t]))"
    using cond_enqueue[OF R v(2) t(1)] t(2) by (auto simp: lock_waiting_def)
  let ?s = "enter_cond c t a h s"
  have tx: "t \<notin> set xs" using not_waiting_not_queued(1)[OF R p(2)] t(2) by (simp add: lock_waiting_def)
  obtain s3 where s3: "lock_release K m t ?s = Inr s3" "sync_rep s3 (LQ(p \<mapsto> tl xs)) (CQ(c \<mapsto> ys @ [t]))"
    "\<not> lk_acquired (ds_locks s3 p)" "ds_tokenpos s3 = Some t" "ds_clock s3 = k" "ds_var s3 = ds_var s"
    "\<forall>u. status_of s3 u = (if u = t then STATUS_COND_WAITING
        else if tl xs \<noteq> [] \<and> u = hd (tl xs) then STATUS_ON_DECK
        else if xs \<noteq> [] \<and> u = hd xs then STATUS_READY else status_of s u)"
  proof (cases xs)
    case Nil
    have "lock_release K m t ?s = Inr (unlocked p ?s)"
      by (rule lock_release_free[OF R1]) (use p Nil in auto)
    then show thesis
      using R1 t(3) act(2) Nil p by (intro that[of "unlocked p ?s"]) (auto simp: fun_upd_idem)
  next
    case (Cons x zs)
    then have "ca_activate_other K x (ds_clock ?s) = Inr (low, k)" using act(1) by simp
    from lock_release_hands_over[OF R1 _ _ this, of m p zs t]
    obtain r where "lock_release K m t ?s = Inr r" "sync_rep r (LQ(p \<mapsto> zs)) (CQ(c \<mapsto> ys @ [t]))"
      "\<not> lk_acquired (ds_locks r p)"
      "\<forall>u. status_of r u = (if zs \<noteq> [] \<and> u = hd zs then STATUS_ON_DECK
        else if u = x then STATUS_READY else status_of ?s u)"
      "ds_clock r = k" "ds_tokenpos r = ds_tokenpos ?s" "ds_var r = ds_var ?s"
      using p Cons by auto
    moreover have "t \<noteq> x" "zs \<noteq> [] \<Longrightarrow> t \<noteq> hd zs" using tx Cons by (auto simp: hd_in_set)
    ultimately show thesis
      using Cons t(3) by (intro that[of r]) auto
  qed
  obtain s' where s': "bindR (on_clock (ca_halt K) s3) (put_token K t True) = Inr s'"
    "same_queues s3 s'" "ds_tokenpos s' = None" "ds_clock s' = k'" "ds_locks s' = ds_locks s3"
    "ds_var s' = ds_var s3"
    using halt_then_put[of s3 t K k' True] s3(4,5) halt by auto
  have "cond_wait_begin K t uc m s = Inr s'"
    using v(1) cn ins s3(1) s'(1)
    by (simp add: cond_wait_begin_def putTokenLockHeld_def enter_cond_def Let_def)
  then show ?thesis
    using s' s3 same_queues_rep[OF s'(2)] same_queues_status[OF s'(2)] by simp
qed


lemma leave_cond_more [simp]:
  "ds_var (leave_cond c x a h s) = ds_var s"
  "ds_tokenpos (leave_cond c x a h s) = ds_tokenpos s"
  "ds_activation_counter (leave_cond c x a h s) = ds_activation_counter s"
  by (simp_all add: leave_cond_def upd_cond_def upd_thread_def)

lemma cond_waiters_zero:
  assumes "sync_rep s LQ CQ" "CQ c = Some xs"
  shows "cv_waiters (ds_conds s c) = 0 \<longleftrightarrow> xs = []"
proof -
  have "unat (cv_waiters (ds_conds s c)) = length xs"
    using sync_rep_cond[OF assms] by (simp add: cond_queue_def)
  then show ?thesis by (cases xs) (auto simp: unat_eq_zero)
qed

lemma cond_signal_none:
  assumes "sync_rep s LQ CQ" "ds_var s uc = c" "CQ c = Some []"
  shows "cond_signal K t uc s = Inr s"
  using cond_waiters_zero[OF assms(1,3)] sync_rep_cond[OF assms(1,3)] assms(2)
  by (simp add: cond_signal_def)

lemma cond_signal_wakes:
  assumes R: "sync_rep s LQ CQ" and v: "ds_var s uc = c" "CQ c = Some (x # xs)"
    and act: "ca_activate_other K x (ds_clock s) = Inr (low, k)"
  shows "\<exists>s'. cond_signal K t uc s = Inr s' \<and> sync_rep s' LQ (CQ(c \<mapsto> xs)) \<and>
    (\<forall>u. status_of s' u = (if u = x then STATUS_READY else status_of s u)) \<and>
    ds_clock s' = k \<and> ds_tokenpos s' = ds_tokenpos s \<and> ds_var s' = ds_var s \<and>
    ds_locks s' = ds_locks s \<and>
    ds_activation_counter s' = (if low then ds_activation_counter s + 1 else ds_activation_counter s)"
proof -
  have cn: "c \<noteq> NULL" using sync_rep_cond[OF R v(2)] by simp
  have w: "cv_waiters (ds_conds s c) \<noteq> 0" using cond_waiters_zero[OF R v(2)] by simp
  obtain a h where d: "removeHeadEntry (cv_head (ds_conds s c)) (ds_links s) = Inr (thread_addr x, a, h)"
    "sync_rep (leave_cond c x a h s) LQ (CQ(c \<mapsto> xs))"
    using cond_dequeue[OF R v(2)] by blast
  have "activate_and_count K x (leave_cond c x a h s) = Inr (count_activation low k (leave_cond c x a h s))"
    by (rule activate_and_count_eq) (simp add: act)
  then have "cond_signal K t uc s = Inr (count_activation low k (leave_cond c x a h s))"
    using v(1) cn w d(1) by (simp add: cond_signal_def leave_cond_def[symmetric] Let_def)
  then show ?thesis using d(2) by simp
qed

text \<open>Activating a list of threads in order.\<close>

fun activate_all :: "'c clock_api \<Rightarrow> nat list \<Rightarrow> 'c \<Rightarrow> 'c result" where
  "activate_all K [] c = Inr c"
| "activate_all K (x # xs) c = bindR (ca_activate_other K x c) (\<lambda>(low, c'). activate_all K xs c')"

lemma cond_wake_all_ok:
  assumes "sync_rep s LQ CQ" "CQ c = Some xs" "length xs < n" "activate_all K xs (ds_clock s) = Inr k"
  shows "\<exists>s'. cond_wake_all n K c s = Inr s' \<and> sync_rep s' LQ (CQ(c \<mapsto> [])) \<and>
    (\<forall>u. status_of s' u = (if u \<in> set xs then STATUS_READY else status_of s u)) \<and>
    ds_clock s' = k \<and> ds_tokenpos s' = ds_tokenpos s \<and> ds_var s' = ds_var s \<and>
    ds_locks s' = ds_locks s \<and> ds_activation_counter s' = ds_activation_counter s"
  using assms
proof (induction n arbitrary: s CQ xs)
  case (Suc n)
  show ?case
  proof (cases xs)
    case Nil
    have e: "circ (ds_links s) (cv_head (ds_conds s c)) []"
      using sync_rep_cond[OF Suc.prems(1,2)] Nil by (simp add: cond_queue_def)
    let ?s = "upd_cond c (\<lambda>e. e\<lparr>cv_head := cv_head (ds_conds s c)\<rparr>) (s\<lparr>ds_links := ds_links s\<rparr>)"
    have "?s = s" by (simp add: upd_cond_def)
    then have "cond_wake_all (Suc n) K c s = Inr s"
      using lh.deq_empty[OF e] by (simp add: Let_def)
    then show ?thesis using Suc.prems Nil by (auto simp: fun_upd_idem)
  next
    case (Cons x zs)
    obtain low k1 where act: "ca_activate_other K x (ds_clock s) = Inr (low, k1)"
      "activate_all K zs k1 = Inr k"
      using Suc.prems(4) Cons by (auto simp: bindR_Inr_iff)
    obtain a h where d: "removeHeadEntry (cv_head (ds_conds s c)) (ds_links s) = Inr (thread_addr x, a, h)"
      "sync_rep (leave_cond c x a h s) LQ (CQ(c \<mapsto> zs))"
      using cond_dequeue[OF Suc.prems(1)] Suc.prems(2) Cons by blast
    define r where "r = (leave_cond c x a h s)\<lparr>ds_clock := k1\<rparr>"
    have "same_queues (leave_cond c x a h s) r" by (simp add: r_def same_queues_def status_of_def)
    then have "sync_rep r LQ (CQ(c \<mapsto> zs))" using d(2) by (simp add: same_queues_rep)
    moreover have "ds_clock r = k1" "length zs < n" "(CQ(c \<mapsto> zs)) c = Some zs"
      using Suc.prems(3) Cons by (simp_all add: r_def)
    ultimately obtain s' where s': "cond_wake_all n K c r = Inr s'" "sync_rep s' LQ (CQ(c \<mapsto> []))"
      "\<forall>u. status_of s' u = (if u \<in> set zs then STATUS_READY else status_of r u)"
      "ds_clock s' = k" "ds_tokenpos s' = ds_tokenpos r" "ds_var s' = ds_var r"
      "ds_locks s' = ds_locks r" "ds_activation_counter s' = ds_activation_counter r"
      using Suc.IH[of r "CQ(c \<mapsto> zs)" zs] act(2) by (auto simp only: fun_upd_upd)
    have "cond_wake_all (Suc n) K c s = Inr s'"
      using d(1) act(1) s'(1)
      by (simp add: leave_cond_def[symmetric] Let_def r_def)
    have "status_of r u = (if u = x then STATUS_READY else status_of s u)" for u
      unfolding r_def by (simp add: status_of_def leave_cond_def upd_cond_def upd_thread_def)
    then have "\<forall>u. status_of s' u = (if u \<in> set xs then STATUS_READY else status_of s u)"
      using s'(3) Cons by simp
    moreover have "ds_tokenpos r = ds_tokenpos s" "ds_var r = ds_var s" "ds_locks r = ds_locks s"
      "ds_activation_counter r = ds_activation_counter s"
      by (simp_all add: r_def)
    ultimately show ?thesis
      using s' \<open>cond_wake_all (Suc n) K c s = Inr s'\<close>
      by (intro exI[of _ s'] conjI) (assumption | rule trans, assumption, assumption)+
  qed
qed simp

lemma cond_broadcast_wakes:
  assumes R: "sync_rep s LQ CQ" and v: "ds_var s uc = c" "CQ c = Some xs" and ne: "xs \<noteq> []"
    and act: "activate_all K xs (ds_clock s) = Inr k"
  shows "\<exists>s'. cond_broadcast K t uc s = Inr s' \<and> sync_rep s' LQ (CQ(c \<mapsto> [])) \<and>
    (\<forall>u. status_of s' u = (if u \<in> set xs then STATUS_READY else status_of s u)) \<and>
    ds_clock s' = k \<and> ds_tokenpos s' = ds_tokenpos s \<and> ds_var s' = ds_var s \<and>
    ds_locks s' = ds_locks s \<and> ds_activation_counter s' = ds_activation_counter s + 1"
proof -
  have C: "c \<noteq> NULL" "cond_queue s c xs" using sync_rep_cond[OF R v(2)] by auto
  then have "length xs \<le> MAX_THREAD_ENTRIES"
    using cond_queue_distinct[OF C(2)] by (intro length_threads) (auto simp: cond_queue_def)
  then have "length xs < Suc MAX_THREAD_ENTRIES" by simp
  from cond_wake_all_ok[OF R v(2) this act] obtain r where
    r: "cond_wake_all (Suc MAX_THREAD_ENTRIES) K c s = Inr r" "sync_rep r LQ (CQ(c \<mapsto> []))"
      "\<forall>u. status_of r u = (if u \<in> set xs then STATUS_READY else status_of s u)"
      "ds_clock r = k" "ds_tokenpos r = ds_tokenpos s" "ds_var r = ds_var s"
      "ds_locks r = ds_locks s" "ds_activation_counter r = ds_activation_counter s"
    by auto
  let ?s' = "r\<lparr>ds_activation_counter := ds_activation_counter r + 1\<rparr>"
  have "same_queues r ?s'" by (simp add: same_queues_def status_of_def)
  moreover have "cond_broadcast K t uc s = Inr ?s'"
    using r(1) v(1) C(1) cond_waiters_zero[OF R v(2)] ne
    by (simp add: cond_broadcast_def del: cond_wake_all.simps)
  ultimately show ?thesis
    using r same_queues_rep[of r ?s'] same_queues_status[of r ?s'] by auto
qed

lemma cond_broadcast_none:
  assumes "sync_rep s LQ CQ" "ds_var s uc = c" "CQ c = Some []"
  shows "cond_broadcast K t uc s = Inr s"
  using cond_waiters_zero[OF assms(1,3)] sync_rep_cond[OF assms(1,3)] assms(2)
  by (simp add: cond_broadcast_def)

end
