(* ===== verification/Determ_Reach.thy ===== *)
theory Determ_Reach
  imports Determ_Properties
begin

text \<open>
  Every sequence of synchronisation calls: the calls as a datatype, when the callers may make
  them, and the states they can reach. The invariant is that of the queues; with it no call runs
  into a fault of its own.
\<close>

subsection \<open>Calls\<close>

datatype sync_call =
    LockInit "addr \<times> LockEntry" nat
  | LockAcquire "(nat \<Rightarrow> addr) \<Rightarrow> nat \<Rightarrow> addr" "addr \<times> LockEntry" nat
  | LockRelease nat
  | LockDestroy nat
  | LockWait nat
  | LockWaitEnd
  | CondInit addr nat
  | CondWait nat nat
  | CondWaitEnd
  | CondSignal nat
  | CondBroadcast nat
  | Register nat int
  | Forking
  | JoinBegin nat
  | JoinRound
  | JoinEnd bool
  | DeregisterBegin
  | DeregisterEnd
  | TakeToken u64
  | PutToken bool

fun sync_exec :: "'c clock_api \<Rightarrow> nat \<Rightarrow> sync_call \<Rightarrow> 'c determ \<Rightarrow> 'c determ result" where
  "sync_exec K t (LockInit mem m) s = Inr (lock_init mem m s)"
| "sync_exec K t (LockAcquire update mem m) s = Inr (snd (lock_acquire update mem m t s))"
| "sync_exec K t (LockRelease m) s = lock_release K m t s"
| "sync_exec K t (LockDestroy m) s = Inr (lock_destroy m s)"
| "sync_exec K t (LockWait m) s = wait_on_lock_begin K m t s"
| "sync_exec K t LockWaitEnd s = wait_on_lock_end K t s"
| "sync_exec K t (CondInit p v) s = Inr (cond_init p v s)"
| "sync_exec K t (CondWait v m) s = cond_wait_begin K t v m s"
| "sync_exec K t CondWaitEnd s = cond_wait_end K t s"
| "sync_exec K t (CondSignal v) s = cond_signal K t v s"
| "sync_exec K t (CondBroadcast v) s = cond_broadcast K t v s"
| "sync_exec K t (Register u pid) s = Inr (registerThread u pid t s)"
| "sync_exec K t Forking s = Inr (starting_fork t s)"
| "sync_exec K t (JoinBegin g) s = bindR (join_begin K g t s) (\<lambda>(w, s'). Inr s')"
| "sync_exec K t JoinRound s = join_round K t s"
| "sync_exec K t (JoinEnd h) s = join_end K h t s"
| "sync_exec K t DeregisterBegin s = Inr (snd (deregister_begin t s))"
| "sync_exec K t DeregisterEnd s = deregister_end K t s"
| "sync_exec K t (TakeToken n) s = Inr (snd (take_token K t n s))"
| "sync_exec K t (PutToken ff) s = put_token K t ff s"

text \<open>
  A thread that is in no queue: the status says so, or the entry has not been used yet.
\<close>

definition idle :: "'c determ \<Rightarrow> nat \<Rightarrow> bool" where
  "idle s t \<longleftrightarrow> \<not> lock_waiting (status_of s t) \<and>
     (status_of s t = STATUS_COND_WAITING \<longrightarrow> te_cond (ds_threads s t) = NULL)"

definition fresh_lock :: "addr \<times> LockEntry \<Rightarrow> addr set \<Rightarrow> bool" where
  "fresh_lock mem LL \<longleftrightarrow> fst mem \<noteq> NULL \<and> fst mem \<notin> LL \<and> lk_waiters (snd mem) = 0"

text \<open>
  When thread \<open>t\<close> may make a call: the locks and condition variables it names are initialised, that is,
  have a queue,
  a new lock entry is new memory with no waiters in it, a caller that blocks or gives up the token
  has it, and waiting is for threads that are ready.
\<close>

fun sync_pre :: "nat \<Rightarrow> sync_call \<Rightarrow> 'c determ \<Rightarrow> queues \<Rightarrow> queues \<Rightarrow> bool" where
  "sync_pre t (LockInit mem m) s LQ CQ = fresh_lock mem (dom LQ)"
| "sync_pre t (LockAcquire update mem m) s LQ CQ = fresh_lock mem (dom LQ)"
| "sync_pre t (LockRelease m) s LQ CQ = (ds_var s m \<in> dom LQ)"
| "sync_pre t (LockDestroy m) s LQ CQ = True"
| "sync_pre t (LockWait m) s LQ CQ = (ds_var s m \<in> dom LQ \<and> t < MAX_THREAD_ENTRIES \<and>
     status_of s t = STATUS_READY \<and> ds_tokenpos s = Some t)"
| "sync_pre t LockWaitEnd s LQ CQ = (status_of s t = STATUS_READY)"
| "sync_pre t (CondInit p v) s LQ CQ = (p \<noteq> NULL \<and> p \<notin> dom CQ)"
| "sync_pre t (CondWait v m) s LQ CQ = (ds_var s v \<in> dom CQ \<and> ds_var s m \<in> dom LQ \<and>
     t < MAX_THREAD_ENTRIES \<and> status_of s t = STATUS_READY \<and> ds_tokenpos s = Some t)"
| "sync_pre t CondWaitEnd s LQ CQ = (status_of s t = STATUS_READY)"
| "sync_pre t (CondSignal v) s LQ CQ = (ds_var s v \<in> dom CQ)"
| "sync_pre t (CondBroadcast v) s LQ CQ = (ds_var s v \<in> dom CQ)"
| "sync_pre t (Register u pid) s LQ CQ = idle s u"
| "sync_pre t Forking s LQ CQ = idle s t"
| "sync_pre t (JoinBegin g) s LQ CQ = (idle s t \<and> ds_tokenpos s = Some t)"
| "sync_pre t JoinRound s LQ CQ = idle s t"
| "sync_pre t (JoinEnd h) s LQ CQ = idle s t"
| "sync_pre t DeregisterBegin s LQ CQ = idle s t"
| "sync_pre t DeregisterEnd s LQ CQ = (ds_tokenpos s = Some t)"
| "sync_pre t (TakeToken n) s LQ CQ = (ds_tokenpos s = None)"
| "sync_pre t (PutToken ff) s LQ CQ = (ds_tokenpos s = Some t)"

text \<open>
  The abstract synchronisation: what each call does to the queues of the locks and of the
  condition variables, as lists of threads.
\<close>

definition queue_of :: "queues \<Rightarrow> addr \<Rightarrow> nat list" where
  "queue_of Q p = (case Q p of None \<Rightarrow> [] | Some xs \<Rightarrow> xs)"

fun locks_after :: "nat \<Rightarrow> sync_call \<Rightarrow> 'c determ \<Rightarrow> queues \<Rightarrow> queues" where
  "locks_after t (LockInit mem m) s LQ = LQ(fst mem \<mapsto> [])"
| "locks_after t (LockAcquire update mem m) s LQ =
     (if ds_var s m = NULL \<and> update (ds_var s) m = NULL then LQ(fst mem \<mapsto> []) else LQ)"
| "locks_after t (LockWait m) s LQ = LQ(ds_var s m \<mapsto> queue_of LQ (ds_var s m) @ [t])"
| "locks_after t (LockRelease m) s LQ = LQ(ds_var s m \<mapsto> tl (queue_of LQ (ds_var s m)))"
| "locks_after t (CondWait v m) s LQ = LQ(ds_var s m \<mapsto> tl (queue_of LQ (ds_var s m)))"
| "locks_after t call s LQ = LQ"

fun conds_after :: "nat \<Rightarrow> sync_call \<Rightarrow> 'c determ \<Rightarrow> queues \<Rightarrow> queues" where
  "conds_after t (CondInit p v) s CQ = CQ(p \<mapsto> [])"
| "conds_after t (CondWait v m) s CQ = CQ(ds_var s v \<mapsto> queue_of CQ (ds_var s v) @ [t])"
| "conds_after t (CondSignal v) s CQ = CQ(ds_var s v \<mapsto> tl (queue_of CQ (ds_var s v)))"
| "conds_after t (CondBroadcast v) s CQ = CQ(ds_var s v \<mapsto> [])"
| "conds_after t call s CQ = CQ"

lemma queue_of_Some [simp]: "Q p = Some xs \<Longrightarrow> queue_of Q p = xs"
  by (simp add: queue_of_def)

text \<open>
  Each thread calls the clock for itself: \<open>K t\<close> are the functions in thread \<open>t\<close>. They succeed on the
  states of the clock that satisfy \<open>I\<close>, and keep it.
\<close>

definition clock_safe :: "(nat \<Rightarrow> 'c clock_api) \<Rightarrow> ('c \<Rightarrow> bool) \<Rightarrow> bool" where
  "clock_safe K I \<longleftrightarrow> (\<forall>t c. I c \<longrightarrow>
     (\<exists>c'. ca_halt (K t) c = Inr c' \<and> I c') \<and> (\<exists>c'. ca_activate (K t) c = Inr c' \<and> I c') \<and>
     (\<exists>c'. ca_reset (K t) c = Inr c' \<and> I c') \<and> I (ca_on_wakeup (K t) c) \<and>
     (\<forall>u. \<exists>low c'. ca_activate_other (K t) u c = Inr (low, c') \<and> I c'))"

text \<open>States from the initial, zeroed shared object on.\<close>

inductive sync_reachable ::
  "(nat \<Rightarrow> 'c clock_api) \<Rightarrow> ('c \<Rightarrow> bool) \<Rightarrow> 'c determ \<Rightarrow> queues \<Rightarrow> queues \<Rightarrow> bool"
  for K :: "nat \<Rightarrow> 'c clock_api" and I :: "'c \<Rightarrow> bool" where
  reach_init: "(\<And>t. idle s t) \<Longrightarrow> I (ds_clock s) \<Longrightarrow> sync_reachable K I s Map.empty Map.empty"
| reach_call: "sync_reachable K I s LQ CQ \<Longrightarrow> sync_pre t call s LQ CQ \<Longrightarrow>
    sync_exec (K t) t call s = Inr s' \<Longrightarrow>
    sync_reachable K I s' (locks_after t call s LQ) (conds_after t call s CQ)"

subsection \<open>The calls keep the queues\<close>

lemma idle_not_queued:
  assumes R: "sync_rep s LQ CQ" and i: "idle s t"
  shows "LQ p = Some xs \<Longrightarrow> t \<notin> set xs" and "CQ c = Some ys \<Longrightarrow> t \<notin> set ys"
proof -
  show "LQ p = Some xs \<Longrightarrow> t \<notin> set xs"
    using not_waiting_not_queued(1)[OF R] i by (auto simp: idle_def)
  show "CQ c = Some ys \<Longrightarrow> t \<notin> set ys"
    using sync_rep_cond[OF R] i by (auto simp: idle_def cond_queue_def)
qed

lemma idle_thread_rep:
  assumes R: "sync_rep s LQ CQ" and i: "idle s t"
    and f: "\<not> lock_waiting (te_status (f (ds_threads s t)))"
      "te_status (f (ds_threads s t)) \<noteq> STATUS_COND_WAITING"
  shows "sync_rep (upd_thread t f s) LQ CQ"
proof -
  let ?s = "upd_thread t f s"
  have st: "status_of ?s u = (if u = t then te_status (f (ds_threads s t)) else status_of s u)"
    and tc: "u \<noteq> t \<Longrightarrow> te_cond (ds_threads ?s u) = te_cond (ds_threads s u)" for u
    by (simp_all add: upd_thread_def status_of_def)
  have same: "ds_links ?s = ds_links s" "ds_locks ?s = ds_locks s" "ds_conds ?s = ds_conds s"
    by (simp_all add: upd_thread_def)
  show ?thesis
  proof (rule sync_repI)
    fix p xs assume p: "LQ p = Some xs"
    show "p \<noteq> NULL \<and> lock_queue ?s p xs"
      using sync_rep_lock[OF R p] idle_not_queued(1)[OF R i p]
      by (auto simp: same st intro!: lock_queue_frame[of s p xs ?s])
  next
    fix c xs assume c: "CQ c = Some xs"
    have "u \<noteq> t" if "u \<in> set xs" for u using idle_not_queued(2)[OF R i c] that by auto
    then show "c \<noteq> NULL \<and> cond_queue ?s c xs"
      using sync_rep_cond[OF R c]
      by (auto simp: same st tc intro!: cond_queue_frame[of s c xs ?s])
  next
    fix p q xs ys assume "LQ p = Some xs" "LQ q = Some ys" "p \<noteq> q"
    then show "set xs \<inter> set ys = {}" by (rule sync_rep_disj[OF R])
  next
    fix u assume "lock_waiting (status_of ?s u)"
    then show "queued LQ u" using f sync_rep_lock_complete[OF R] by (auto simp: st split: if_splits)
  next
    fix u assume "status_of ?s u = STATUS_COND_WAITING" "te_cond (ds_threads ?s u) \<noteq> NULL"
    then show "queued CQ u" using f sync_rep_cond_complete[OF R] by (auto simp: st tc split: if_splits)
  qed
qed

lemma idle_status_rep:
  assumes "sync_rep s LQ CQ" "idle s t" "\<not> lock_waiting st" "st \<noteq> STATUS_COND_WAITING"
  shows "sync_rep (set_status t st s) LQ CQ"
  unfolding set_status_def by (rule idle_thread_rep) (use assms in simp_all)

lemma upd_clock_rep [simp]: "sync_rep (s\<lparr>ds_clock := c\<rparr>) LQ CQ \<longleftrightarrow> sync_rep s LQ CQ"
  by (rule same_queues_rep) (simp add: same_queues_def status_of_def)

lemma on_clock_rep:
  "sync_rep s LQ CQ \<Longrightarrow> on_clock f s = Inr s' \<Longrightarrow> sync_rep s' LQ CQ"
  by (auto simp: on_clock_def bindR_Inr_iff)

lemma put_token_rep:
  assumes "sync_rep s LQ CQ" "put_token K t ff s = Inr s'"
  shows "sync_rep s' LQ CQ"
proof -
  have "ds_tokenpos s = Some t"
    using assms(2) by (auto simp: put_token_def split: option.splits if_splits)
  from put_token_ok[OF this, of K ff] assms show ?thesis by (auto simp: same_queues_rep)
qed

text \<open>A new lock or condition variable has an empty queue.\<close>

lemma empty_lock_queue: "lock_queue s p [] \<longleftrightarrow> lk_head (ds_locks s p) = NULL \<and> lk_waiters (ds_locks s p) = 0"
  by (auto simp: lock_queue_def unat_eq_zero)

lemma empty_cond_queue: "cond_queue s p [] \<longleftrightarrow> cv_head (ds_conds s p) = NULL \<and> cv_waiters (ds_conds s p) = 0"
  by (auto simp: cond_queue_def unat_eq_zero)

lemma queued_new: "Q p = None \<Longrightarrow> queued (Q(p \<mapsto> [])) t \<longleftrightarrow> queued Q t"
  by (simp add: queued_upd_same fun_upd_idem)

lemma lock_queue_cong:
  assumes "ds_links s' = ds_links s" "ds_locks s' p = ds_locks s p" "ds_threads s' = ds_threads s"
  shows "lock_queue s' p xs \<longleftrightarrow> lock_queue s p xs"
  using assms by (simp add: lock_queue_def status_of_def)

lemma cond_queue_cong:
  assumes "ds_links s' = ds_links s" "ds_conds s' c = ds_conds s c" "ds_threads s' = ds_threads s"
  shows "cond_queue s' c xs \<longleftrightarrow> cond_queue s c xs"
  using assms by (simp add: cond_queue_def status_of_def)

lemma lock_init_rep:
  assumes R: "sync_rep s LQ CQ" and m: "fresh_lock mem (dom LQ)"
  shows "sync_rep (lock_init mem mutex s) (LQ(fst mem \<mapsto> [])) CQ"
proof -
  obtain p g where mem: "mem = (p, g)" by (cases mem)
  let ?s = "lock_init mem mutex s"
  have same: "ds_links ?s = ds_links s" "ds_conds ?s = ds_conds s" "ds_threads ?s = ds_threads s"
    "\<And>q. q \<noteq> p \<Longrightarrow> ds_locks ?s q = ds_locks s q"
    by (simp_all add: lock_init_def mem)
  have p: "p \<noteq> NULL" "LQ p = None" "lk_waiters g = 0" using m by (auto simp: fresh_lock_def mem)
  have new: "lock_queue ?s p []"
    using p(3) by (simp add: empty_lock_queue) (simp add: lock_init_def mem)
  show ?thesis
  proof (rule sync_repI)
    fix q xs assume q: "(LQ(fst mem \<mapsto> [])) q = Some xs"
    show "q \<noteq> NULL \<and> lock_queue ?s q xs"
    proof (cases "q = p")
      case False
      then show ?thesis
        using q sync_rep_lock[OF R, of q xs] same lock_queue_cong[of ?s s q xs] by (simp add: mem)
    qed (use q p new in \<open>simp add: mem\<close>)
  next
    fix c xs assume "CQ c = Some xs"
    then show "c \<noteq> NULL \<and> cond_queue ?s c xs"
      using sync_rep_cond[OF R, of c xs] same cond_queue_cong[of ?s s c xs] by simp
  next
    fix q r xs ys
    assume "(LQ(fst mem \<mapsto> [])) q = Some xs" "(LQ(fst mem \<mapsto> [])) r = Some ys" "q \<noteq> r"
    then show "set xs \<inter> set ys = {}" using sync_rep_disj[OF R, of q xs r ys] by (auto split: if_splits)
  next
    fix u assume "lock_waiting (status_of ?s u)"
    then show "queued (LQ(fst mem \<mapsto> [])) u"
      using sync_rep_lock_complete[OF R, of u] p same by (simp add: queued_new mem status_of_def)
  next
    fix u assume "status_of ?s u = STATUS_COND_WAITING" "te_cond (ds_threads ?s u) \<noteq> NULL"
    then show "queued CQ u"
      using sync_rep_cond_complete[OF R, of u] same by (simp add: status_of_def)
  qed
qed

lemma cond_init_rep:
  assumes R: "sync_rep s LQ CQ" and c: "c \<noteq> NULL" "CQ c = None"
  shows "sync_rep (cond_init c v s) LQ (CQ(c \<mapsto> []))"
proof -
  let ?s = "cond_init c v s"
  have same: "ds_links ?s = ds_links s" "ds_locks ?s = ds_locks s" "ds_threads ?s = ds_threads s"
    "\<And>d. d \<noteq> c \<Longrightarrow> ds_conds ?s d = ds_conds s d"
    by (simp_all add: cond_init_def)
  have new: "cond_queue ?s c []" by (simp add: empty_cond_queue) (simp add: cond_init_def)
  show ?thesis
  proof (rule sync_repI)
    fix q xs assume "LQ q = Some xs"
    then show "q \<noteq> NULL \<and> lock_queue ?s q xs"
      using sync_rep_lock[OF R, of q xs] same lock_queue_cong[of ?s s q xs] by simp
  next
    fix d xs assume d: "(CQ(c \<mapsto> [])) d = Some xs"
    show "d \<noteq> NULL \<and> cond_queue ?s d xs"
    proof (cases "d = c")
      case False
      then show ?thesis
        using d sync_rep_cond[OF R, of d xs] same cond_queue_cong[of ?s s d xs] by simp
    qed (use d c new in simp)
  next
    fix q r xs ys assume "LQ q = Some xs" "LQ r = Some ys" "q \<noteq> r"
    then show "set xs \<inter> set ys = {}" by (rule sync_rep_disj[OF R])
  next
    fix u assume "lock_waiting (status_of ?s u)"
    then show "queued LQ u" using sync_rep_lock_complete[OF R, of u] same by (simp add: status_of_def)
  next
    fix u assume "status_of ?s u = STATUS_COND_WAITING" "te_cond (ds_threads ?s u) \<noteq> NULL"
    then show "queued (CQ(c \<mapsto> [])) u"
      using sync_rep_cond_complete[OF R, of u] c same by (simp add: queued_new status_of_def)
  qed
qed


lemma same_queues_var [simp]: "same_queues s (s\<lparr>ds_var := v\<rparr>)"
  by (simp add: same_queues_def status_of_def)

lemma upd_var_rep [simp]: "sync_rep (s\<lparr>ds_var := v\<rparr>) LQ CQ \<longleftrightarrow> sync_rep s LQ CQ"
  by (rule same_queues_rep) simp

lemma acquired_rep [simp]:
  "sync_rep (upd_lock p (\<lambda>l. l\<lparr>lk_acquired := b\<rparr>) s) LQ CQ \<longleftrightarrow> sync_rep s LQ CQ"
  by (rule same_queues_rep) (simp add: same_queues_def upd_lock_def status_of_def)

lemma lock_acquire_rep:
  assumes R: "sync_rep s LQ CQ" and m: "fresh_lock mem (dom LQ)"
  shows "sync_rep (snd (lock_acquire update mem m t s))
    (if ds_var s m = NULL \<and> update (ds_var s) m = NULL then LQ(fst mem \<mapsto> []) else LQ) CQ"
proof (cases "ds_var s m = NULL \<and> update (ds_var s) m = NULL")
  case True
  let ?s1 = "lock_init mem m (s\<lparr>ds_var := update (ds_var s)\<rparr>)"
  have "sync_rep ?s1 (LQ(fst mem \<mapsto> [])) CQ" by (rule lock_init_rep) (use R m in simp_all)
  then show ?thesis using True by (simp add: lock_acquire_def Let_def)
next
  case False
  then show ?thesis using R by (auto simp: lock_acquire_def Let_def)
qed

lemma lock_acquire_clock:
  "ds_clock (snd (lock_acquire update mem m t s)) = ds_clock s"
  by (cases mem) (simp add: lock_acquire_def lock_init_def upd_lock_def Let_def)

lemma activate_all_safe:
  assumes "clock_safe K I" "I c"
  shows "\<exists>c'. activate_all (K t) xs c = Inr c' \<and> I c'"
  using assms(2)
proof (induction xs arbitrary: c)
  case (Cons x xs)
  obtain low c1 where "ca_activate_other (K t) x c = Inr (low, c1)" "I c1"
    using assms(1) Cons.prems unfolding clock_safe_def by blast
  then show ?case using Cons.IH[of c1] by simp
qed simp

text \<open>The calls one by one: each succeeds, keeps the clock's invariant and follows the abstract queues.\<close>

definition call_ok :: "('c \<Rightarrow> bool) \<Rightarrow> 'c determ result \<Rightarrow> queues \<Rightarrow> queues \<Rightarrow> bool" where
  "call_ok I r LQ CQ \<longleftrightarrow> (\<exists>s'. r = Inr s' \<and> I (ds_clock s') \<and> sync_rep s' LQ CQ)"

lemma call_ok_Inr [simp]: "call_ok I (Inr s') LQ CQ \<longleftrightarrow> I (ds_clock s') \<and> sync_rep s' LQ CQ"
  by (simp add: call_ok_def)

lemma clock_safeD:
  assumes "clock_safe K I" "I c"
  shows safe_halt: "\<exists>c'. ca_halt (K t) c = Inr c' \<and> I c'"
    and safe_activate: "\<exists>c'. ca_activate (K t) c = Inr c' \<and> I c'"
    and safe_reset: "\<exists>c'. ca_reset (K t) c = Inr c' \<and> I c'"
    and safe_wakeup: "I (ca_on_wakeup (K t) c)"
    and safe_other: "\<exists>low c'. ca_activate_other (K t) u c = Inr (low, c') \<and> I c'"
  using assms unfolding clock_safe_def by blast+

lemma lock_release_call:
  assumes S: "clock_safe K I" "I (ds_clock s)" and R: "sync_rep s LQ CQ" and p: "ds_var s m \<in> dom LQ"
  shows "call_ok I (lock_release (K t) m t s)
    (LQ(ds_var s m \<mapsto> tl (queue_of LQ (ds_var s m)))) CQ"
proof -
  obtain xs where xs: "LQ (ds_var s m) = Some xs" using p by auto
  show ?thesis
  proof (cases xs)
    case Nil
    then show ?thesis
      using lock_release_free[OF R refl, of m] xs S(2) R by (simp add: fun_upd_idem)
  next
    case (Cons x zs)
    obtain low c where c: "ca_activate_other (K t) x (ds_clock s) = Inr (low, c)" "I c"
      using safe_other[OF S] by blast
    from lock_release_hands_over[OF R refl _ c(1), of m zs t] xs Cons obtain s' where
      "lock_release (K t) m t s = Inr s'" "sync_rep s' (LQ(ds_var s m \<mapsto> zs)) CQ" "ds_clock s' = c"
      by auto
    then show ?thesis using c(2) xs Cons by simp
  qed
qed

lemma lock_wait_call:
  assumes S: "clock_safe K I" "I (ds_clock s)" and R: "sync_rep s LQ CQ"
    and p: "sync_pre t (LockWait m) s LQ CQ"
  shows "call_ok I (wait_on_lock_begin (K t) m t s)
    (LQ(ds_var s m \<mapsto> queue_of LQ (ds_var s m) @ [t])) CQ"
proof -
  obtain xs where xs: "LQ (ds_var s m) = Some xs" using p by auto
  obtain c where c: "ca_halt (K t) (ds_clock s) = Inr c" "I c" using safe_halt[OF S] by blast
  from wait_on_lock_joins[OF R refl xs _ _ _ c(1)] p obtain s' where
    "wait_on_lock_begin (K t) m t s = Inr s'" "sync_rep s' (LQ(ds_var s m \<mapsto> xs @ [t])) CQ"
    "ds_clock s' = c"
    by auto
  then show ?thesis using c(2) xs by simp
qed

lemma cond_wait_call:
  assumes S: "clock_safe K I" "I (ds_clock s)" and R: "sync_rep s LQ CQ"
    and p: "sync_pre t (CondWait v m) s LQ CQ"
  shows "call_ok I (cond_wait_begin (K t) t v m s)
    (LQ(ds_var s m \<mapsto> tl (queue_of LQ (ds_var s m))))
    (CQ(ds_var s v \<mapsto> queue_of CQ (ds_var s v) @ [t]))"
proof -
  obtain xs ys where xs: "LQ (ds_var s m) = Some xs" "CQ (ds_var s v) = Some ys" using p by auto
  obtain low k where k: "xs \<noteq> [] \<Longrightarrow> ca_activate_other (K t) (hd xs) (ds_clock s) = Inr (low, k)"
    "xs = [] \<Longrightarrow> k = ds_clock s" "I k"
    using safe_other[OF S, of t "hd xs"] S(2) by blast
  obtain k' where k': "ca_halt (K t) k = Inr k'" "I k'" using safe_halt[OF S(1) k(3)] by blast
  from cond_wait_joins[OF R refl xs(2) refl xs(1) _ _ _ k(1,2) k'(1)] p obtain s' where
    "cond_wait_begin (K t) t v m s = Inr s'"
    "sync_rep s' (LQ(ds_var s m \<mapsto> tl xs)) (CQ(ds_var s v \<mapsto> ys @ [t]))" "ds_clock s' = k'"
    by auto
  then show ?thesis using k'(2) xs by simp
qed

lemma cond_signal_call:
  assumes S: "clock_safe K I" "I (ds_clock s)" and R: "sync_rep s LQ CQ" and v: "ds_var s v \<in> dom CQ"
  shows "call_ok I (cond_signal (K t) t v s) LQ (CQ(ds_var s v \<mapsto> tl (queue_of CQ (ds_var s v))))"
proof -
  obtain xs where xs: "CQ (ds_var s v) = Some xs" using v by auto
  show ?thesis
  proof (cases xs)
    case Nil
    then show ?thesis
      using cond_signal_none[OF R refl, of v] xs S(2) R by (simp add: fun_upd_idem)
  next
    case (Cons x zs)
    obtain low c where c: "ca_activate_other (K t) x (ds_clock s) = Inr (low, c)" "I c"
      using safe_other[OF S] by blast
    from cond_signal_wakes[OF R refl _ c(1), of v zs t] xs Cons obtain s' where
      "cond_signal (K t) t v s = Inr s'" "sync_rep s' LQ (CQ(ds_var s v \<mapsto> zs))" "ds_clock s' = c"
      by auto
    then show ?thesis using c(2) xs Cons by simp
  qed
qed

lemma cond_broadcast_call:
  assumes S: "clock_safe K I" "I (ds_clock s)" and R: "sync_rep s LQ CQ" and v: "ds_var s v \<in> dom CQ"
  shows "call_ok I (cond_broadcast (K t) t v s) LQ (CQ(ds_var s v \<mapsto> []))"
proof -
  obtain xs where xs: "CQ (ds_var s v) = Some xs" using v by auto
  show ?thesis
  proof (cases "xs = []")
    case True
    then show ?thesis
      using cond_broadcast_none[OF R refl, of v] xs S(2) R by (simp add: fun_upd_idem)
  next
    case False
    obtain c where c: "activate_all (K t) xs (ds_clock s) = Inr c" "I c"
      using activate_all_safe[OF S] by blast
    from cond_broadcast_wakes[OF R refl xs False c(1), of t] obtain s' where
      "cond_broadcast (K t) t v s = Inr s'" "sync_rep s' LQ (CQ(ds_var s v \<mapsto> []))" "ds_clock s' = c"
      by auto
    then show ?thesis using c(2) xs by simp
  qed
qed

text \<open>Calls that only change statuses, the token and the clock.\<close>

lemma put_token_call:
  assumes "I (ds_clock s)" "sync_rep s LQ CQ" "ds_tokenpos s = Some t"
  shows "call_ok I (put_token K t ff s) LQ CQ"
  using put_token_ok[OF assms(3), of K ff] assms(1,2) by (auto simp: same_queues_rep)

lemma join_begin_call:
  assumes S: "clock_safe K I" "I (ds_clock s)" and R: "sync_rep s LQ CQ"
    and t: "idle s t" "ds_tokenpos s = Some t"
  shows "call_ok I (bindR (join_begin (K t) g t s) (\<lambda>(w, s'). Inr s')) LQ CQ"
proof (cases "status_of s g = STATUS_EXIT")
  case False
  obtain c where c: "ca_halt (K t) (ds_clock s) = Inr c" "I c" using safe_halt[OF S] by blast
  let ?s1 = "s\<lparr>ds_clock := c\<rparr>"
  have "sync_rep ?s1 LQ CQ" using R by simp
  moreover have "idle ?s1 t" using t(1) by (simp add: idle_def status_of_def)
  ultimately have "sync_rep (upd_thread t (\<lambda>e. e\<lparr>te_status := STATUS_JOINING, te_joinee := g\<rparr>) ?s1) LQ CQ"
    by (rule idle_thread_rep) (simp_all add: lock_waiting_def)
  then show ?thesis
    using False c t(2) by (simp add: join_begin_def on_clock_def) (simp add: upd_thread_def)
qed (use assms in \<open>simp add: join_begin_def\<close>)

lemma join_round_call:
  assumes "I (ds_clock s)" "sync_rep s LQ CQ" "idle s t"
  shows "call_ok I (join_round K t s) LQ CQ"
proof -
  have "sync_rep (set_status t STATUS_JOINING s) LQ CQ"
    using assms by (intro idle_status_rep) (simp_all add: lock_waiting_def)
  then show ?thesis
    using put_token_call[of I "set_status t STATUS_JOINING s"] assms(1)
    by (simp add: join_round_def putTokenLockHeld_def Let_def)
qed

lemma join_end_call:
  assumes S: "clock_safe K I" "I (ds_clock s)" and R: "sync_rep s LQ CQ" and t: "idle s t"
  shows "call_ok I (join_end (K t) h t s) LQ CQ"
proof -
  obtain c where c: "ca_activate (K t) (ds_clock s) = Inr c" "I c" using safe_activate[OF S] by blast
  have "sync_rep (s\<lparr>ds_clock := c\<rparr>) LQ CQ" "idle (s\<lparr>ds_clock := c\<rparr>) t"
    using R t by (simp_all add: idle_def status_of_def)
  then have "sync_rep (set_status t STATUS_READY (s\<lparr>ds_clock := c\<rparr>)) LQ CQ"
    "sync_rep (set_status t STATUS_READY s) LQ CQ"
    using R t by (simp_all add: idle_status_rep lock_waiting_def)
  then show ?thesis using c S(2) by (simp add: join_end_def on_clock_def)
qed

lemma deregister_begin_call:
  assumes "I (ds_clock s)" "sync_rep s LQ CQ" "idle s t"
  shows "call_ok I (Inr (snd (deregister_begin t s))) LQ CQ"
proof -
  let ?s1 = "set_status t STATUS_EXIT s"
  have s1: "sync_rep ?s1 LQ CQ" using assms by (intro idle_status_rep) (simp_all add: lock_waiting_def)
  let ?p = "te_parent (ds_threads s t)"
  have "sync_rep (set_status ?p STATUS_OTHERS_NEED_TO_WAIT ?s1) LQ CQ" if "status_of ?s1 ?p = STATUS_JOINING"
    using that by (intro idle_status_rep[OF s1]) (simp_all only: lock_waiting_def idle_def, simp_all)
  with s1 assms(1) show ?thesis by (simp add: deregister_begin_def freeThreadEntry_def Let_def)
qed

lemma deregister_end_call:
  assumes S: "clock_safe K I" "I (ds_clock s)" and R: "sync_rep s LQ CQ" and t: "ds_tokenpos s = Some t"
  shows "call_ok I (deregister_end (K t) t s) LQ CQ"
proof -
  obtain c where c: "ca_halt (K t) (ds_clock s) = Inr c" "I c" using safe_halt[OF S] by blast
  obtain d where d: "ca_reset (K t) c = Inr d" "I d" using safe_reset[OF S(1) c(2)] by blast
  have "sync_rep (s\<lparr>ds_clock := d\<rparr>) LQ CQ" using R by simp
  then have "call_ok I (putTokenLockHeld (K t) t (s\<lparr>ds_clock := d\<rparr>)) LQ CQ"
    unfolding putTokenLockHeld_def using d(2) t by (intro put_token_call) simp_all
  then show ?thesis using c d by (simp add: deregister_end_def on_clock_def)
qed

lemma take_token_call:
  assumes S: "clock_safe K I" "I (ds_clock s)" and R: "sync_rep s LQ CQ"
  shows "call_ok I (Inr (snd (take_token (K t) t n s))) LQ CQ"
proof -
  have q: "same_queues s (snd (take_token (K t) t n s))"
    by (simp add: take_token_def on_wakeup_def same_queues_def status_of_def Let_def)
  have "I (ds_clock (snd (take_token (K t) t n s)))"
    using safe_wakeup[OF S, of t] S(2) by (simp add: take_token_def on_wakeup_def Let_def)
  then show ?thesis using R same_queues_rep[OF q] by simp
qed

lemma wakeup_call:
  assumes S: "clock_safe K I" "I (ds_clock s)" and R: "sync_rep s LQ CQ"
  shows "call_ok I (Inr (on_wakeup (K t) s)) LQ CQ"
  using safe_wakeup[OF S, of t] R by (simp add: on_wakeup_def)

lemma sync_call_ok:
  assumes S: "clock_safe K I" "I (ds_clock s)" and R: "sync_rep s LQ CQ" and pre: "sync_pre t call s LQ CQ"
  shows "call_ok I (sync_exec (K t) t call s) (locks_after t call s LQ) (conds_after t call s CQ)"
proof (cases call)
  case (LockInit mem m)
  have "ds_clock (lock_init mem m s) = ds_clock s" by (cases mem) (simp add: lock_init_def)
  then show ?thesis using LockInit S(2) lock_init_rep[OF R, of mem m] pre by simp
next
  case (LockAcquire update mem m)
  then show ?thesis
    using lock_acquire_rep[OF R, of mem update m t] lock_acquire_clock[of update mem m t s] pre S(2)
    by simp
next
  case (LockDestroy m)
  then show ?thesis using S(2) R by (simp add: lock_destroy_def)
next
  case (CondInit p v)
  have "ds_clock (cond_init p v s) = ds_clock s" by (simp add: cond_init_def)
  moreover have "sync_rep (cond_init p v s) LQ (CQ(p \<mapsto> []))"
    using cond_init_rep[OF R, of p v] pre CondInit by auto
  ultimately show ?thesis using CondInit S(2) by simp
next
  case (Register u pid)
  have "sync_rep (registerThread u pid t s) LQ CQ"
    unfolding registerThread_def
    using R pre Register by (intro idle_thread_rep) (simp_all add: lock_waiting_def)
  then show ?thesis using Register S(2) by (simp add: registerThread_def upd_thread_def)
next
  case Forking
  then show ?thesis
    using R pre S(2) idle_status_rep[of s LQ CQ t STATUS_FORKING]
    by (simp add: starting_fork_def lock_waiting_def)
next
  case (LockWait m)
  then show ?thesis using lock_wait_call[OF S R, of t m] pre by simp
next
  case (CondWait v m)
  then show ?thesis using cond_wait_call[OF S R, of t v m] pre by simp
qed (use pre lock_release_call[OF S R, of m t for m] cond_signal_call[OF S R, of v t for v]
      cond_broadcast_call[OF S R, of v t for v] join_begin_call[OF S R]
      join_round_call[of I s, OF S(2) R] join_end_call[OF S R]
      deregister_begin_call[of I s, OF S(2) R] deregister_end_call[OF S R]
      take_token_call[OF S R] put_token_call[of I s, OF S(2) R] wakeup_call[OF S R]
      in \<open>simp_all add: wait_on_lock_end_def cond_wait_end_def\<close>)

lemma sync_reachable_inv:
  assumes "clock_safe K I" "sync_reachable K I s LQ CQ"
  shows "I (ds_clock s) \<and> sync_rep s LQ CQ"
  using assms(2)
proof (induction rule: sync_reachable.induct)
  case (reach_init s)
  have "sync_rep s Map.empty Map.empty"
    by (rule sync_repI) (use reach_init(1) in \<open>auto simp: idle_def\<close>)
  then show ?case using reach_init(2) by simp
next
  case (reach_call s LQ CQ t call s')
  then show ?case using sync_call_ok[OF assms(1), of s LQ CQ t call] by (auto simp: call_ok_def)
qed

end
