(* ===== verification/Determ_Theorems.thy ===== *)
theory Determ_Theorems
  imports Determ_Reach
begin

text \<open>
  What the queue invariant gives for whole runs: the calls follow the abstract queues, locks are
  handed over in the order of arrival and exclude each other, a broadcast wakes every waiter; and
  two operations that fail on states the invariant allows.
\<close>

subsection \<open>Runs\<close>

text \<open>A list of calls, each made when its precondition holds.\<close>

fun sync_run ::
  "(nat \<Rightarrow> 'c clock_api) \<Rightarrow> (nat \<times> sync_call) list \<Rightarrow> 'c determ \<times> queues \<times> queues \<Rightarrow>
   ('c determ \<times> queues \<times> queues) option" where
  "sync_run K [] st = Some st"
| "sync_run K ((t, call) # cs) (s, LQ, CQ) =
     (if sync_pre t call s LQ CQ
      then (case sync_exec (K t) t call s of
              Inl e \<Rightarrow> None
            | Inr s' \<Rightarrow> sync_run K cs (s', locks_after t call s LQ, conds_after t call s CQ))
      else None)"

text \<open>The calls of a run that release the lock with entry \<open>p\<close>.\<close>

fun releases :: "addr \<Rightarrow> 'c determ \<Rightarrow> sync_call \<Rightarrow> bool" where
  "releases p s (LockRelease m) = (ds_var s m = p)"
| "releases p s (CondWait v m) = (ds_var s m = p)"
| "releases p s call = False"

fun release_count ::
  "(nat \<Rightarrow> 'c clock_api) \<Rightarrow> addr \<Rightarrow> (nat \<times> sync_call) list \<Rightarrow> 'c determ \<Rightarrow> nat" where
  "release_count K p [] s = 0"
| "release_count K p ((t, call) # cs) s =
     (if releases p s call then 1 else 0) +
     (case sync_exec (K t) t call s of Inl e \<Rightarrow> 0 | Inr s' \<Rightarrow> release_count K p cs s')"

lemma sync_run_ConsE:
  assumes "sync_run K ((t, call) # cs) (s, LQ, CQ) = Some st"
  obtains s1 where "sync_pre t call s LQ CQ" "sync_exec (K t) t call s = Inr s1"
    "sync_run K cs (s1, locks_after t call s LQ, conds_after t call s CQ) = Some st"
    "\<And>p. release_count K p ((t, call) # cs) s =
       (if releases p s call then 1 else 0) + release_count K p cs s1"
  using assms by (auto split: if_splits sum.splits)

lemma sync_run_reachable:
  assumes "sync_reachable K I s LQ CQ" "sync_run K cs (s, LQ, CQ) = Some (s', LQ', CQ')"
  shows "sync_reachable K I s' LQ' CQ'"
  using assms
proof (induction cs arbitrary: s LQ CQ)
  case (Cons tc cs)
  obtain t call where tc: "tc = (t, call)" by (cases tc)
  from Cons.prems(2)[unfolded tc] show ?case
    by (rule sync_run_ConsE) (use Cons in \<open>blast intro: reach_call\<close>)
qed simp

subsection \<open>A sample\<close>

text \<open>A clock that counts its operations and finds every activated thread the lowest.\<close>

definition counting_clock :: "nat \<Rightarrow> nat clock_api" where
  "counting_clock t = \<lparr>ca_halt = \<lambda>c. Inr (c + 1), ca_activate = \<lambda>c. Inr (c + 1),
     ca_activate_other = \<lambda>u c. Inr (True, c + 1), ca_on_wakeup = \<lambda>c. c + 1,
     ca_reset = \<lambda>c. Inr (c + 1), ca_read = of_nat, ca_clear_single = \<lambda>c. c,
     ca_is_lowest = \<lambda>c. Inr (True, c), ca_is_lowest_wait = \<lambda>c. Inr (True, c),
     ca_add_ticks = \<lambda>n c. Inr (c + 1), ca_single_active = \<lambda>c. False,
     ca_estimate_next_tx = \<lambda>m c. 0, ca_last_tx_size = \<lambda>c. 0, ca_end_coarsened = \<lambda>c. Inr (c + 1),
     ca_stop = \<lambda>m c. Inr c, ca_stop_no_notify = \<lambda>m c. Inr c, ca_start = Inr, ca_start_no_notify = Inr,
     ca_close = Inr\<rparr>"

lemma counting_clock_safe: "clock_safe counting_clock (\<lambda>_. True)"
  by (auto simp: clock_safe_def counting_clock_def)

text \<open>The zeroed shared object.\<close>

definition zero_determ :: "nat determ" where
  "zero_determ = \<lparr>ds_links = \<lambda>_. \<lparr>e_prev = 0, e_next = 0\<rparr>,
     ds_threads = \<lambda>_. \<lparr>te_tid = 0, te_status = STATUS_COND_WAITING, te_parent = 0, te_cond = NULL,
       te_joinee = 0, te_last_logical_clock = 0\<rparr>,
     ds_locks = \<lambda>_. \<lparr>lk_acquired = False, lk_waiters = 0, lk_head = 0\<rparr>,
     ds_conds = \<lambda>_. \<lparr>cv_waiters = 0, cv_cond = 0, cv_head = 0\<rparr>,
     ds_barriers = \<lambda>_. \<lparr>br_maxthreads = 0, br_threads = 0, br_arrival_phase = False, br_head = 0,
       br_counter = 0, br_heapVersion = 0, br_globalsVersion = 0, br_total_dirty = 0,
       br_committed = 0\<rparr>,
     ds_var = \<lambda>_. NULL, ds_tokenpos = None, ds_activation_counter = 0, ds_last_token_value = 0,
     ds_last_putter = 0, ds_last_getter = 0, ds_clock = 0\<rparr>"

lemma zero_reachable: "sync_reachable counting_clock (\<lambda>_. True) zero_determ Map.empty Map.empty"
  by (rule reach_init) (simp_all add: zero_determ_def idle_def lock_waiting_def status_of_def)

definition fresh_entry :: LockEntry where
  "fresh_entry = \<lparr>lk_acquired = True, lk_waiters = 0, lk_head = 5\<rparr>"

text \<open>Thread 0 holds the lock of mutex 10, whose entry is at 70; threads 1 and 2 wait for it.\<close>

definition sample_calls :: "(nat \<times> sync_call) list" where
  "sample_calls = [
     (0, Register 0 100), (0, Register 1 101), (0, Register 2 102),
     (0, LockInit (70, fresh_entry) 10), (0, CondInit 80 11),
     (0, TakeToken 0), (0, LockAcquire (\<lambda>v. v) (71, fresh_entry) 10), (0, PutToken True),
     (1, TakeToken 0), (1, LockAcquire (\<lambda>v. v) (71, fresh_entry) 10), (1, LockWait 10),
     (2, TakeToken 0), (2, LockAcquire (\<lambda>v. v) (71, fresh_entry) 10), (2, LockWait 10),
     (0, TakeToken 0)]"


lemmas sample_simps = sample_calls_def zero_determ_def fresh_entry_def counting_clock_def fresh_lock_def
  idle_def lock_waiting_def status_of_def registerThread_def upd_thread_def lock_init_def cond_init_def
  take_token_def lock_acquire_def put_token_def wait_on_lock_begin_def insertTail_def list_ops
  upd_lock_def set_status_def on_clock_def on_wakeup_def putToken_def thread_addr_def NULL_def
  MAX_THREAD_ENTRIES_def queue_of_def Let_def

lemma sample_run:
  "\<exists>s. sync_run counting_clock sample_calls (zero_determ, Map.empty, Map.empty) =
      Some (s, [70 \<mapsto> [1, 2]], [80 \<mapsto> []]) \<and>
    ds_var s 10 = 70 \<and> ds_tokenpos s = Some 0 \<and> status_of s 0 = STATUS_READY \<and>
    lk_acquired (ds_locks s 70)"
  by (simp add: sample_simps)


lemma sample_reachable:
  obtains s where "sync_reachable counting_clock (\<lambda>_. True) s [70 \<mapsto> [1, 2]] [80 \<mapsto> []]"
    "ds_var s 10 = 70" "ds_tokenpos s = Some 0" "status_of s 0 = STATUS_READY"
    "lk_acquired (ds_locks s 70)"
    "sync_run counting_clock sample_calls (zero_determ, Map.empty, Map.empty) =
      Some (s, [70 \<mapsto> [1, 2]], [80 \<mapsto> []])"
  using sample_run sync_run_reachable[OF zero_reachable] by blast

subsection \<open>The calls follow the abstract queues\<close>



subsection \<open>First come, first served\<close>

lemma call_keeps_place:
  assumes pre: "sync_pre u call s LQ CQ" and q: "LQ p = Some (xs @ t # ys)"
    and n: "releases p s call \<Longrightarrow> xs \<noteq> []"
  shows "\<exists>zs. locks_after u call s LQ p =
    Some (drop (if releases p s call then 1 else 0) xs @ t # ys @ zs)"
proof -
  have tl: "xs \<noteq> [] \<Longrightarrow> tl (xs @ t # ys) = drop 1 xs @ t # ys" by (cases xs) auto
  show ?thesis
    using assms tl by (cases call) (auto simp: fresh_lock_def)
qed

lemma run_keeps_place:
  assumes "LQ p = Some (xs @ t # ys)" "sync_run K cs (s, LQ, CQ) = Some (s', LQ', CQ')"
    and "release_count K p cs s \<le> length xs"
  shows "\<exists>zs. LQ' p = Some (drop (release_count K p cs s) xs @ t # ys @ zs)"
  using assms
proof (induction cs arbitrary: s LQ CQ xs ys)
  case (Cons tc cs)
  obtain u call where tc: "tc = (u, call)" by (cases tc)
  from Cons.prems(2)[unfolded tc] show ?case
  proof (rule sync_run_ConsE)
    fix s1
    let ?n = "if releases p s call then 1 else 0 :: nat"
    let ?r = "release_count K p cs s1"
    assume 1: "sync_pre u call s LQ CQ"
      "sync_run K cs (s1, locks_after u call s LQ, conds_after u call s CQ) = Some (s', LQ', CQ')"
      "\<And>p. release_count K p ((u, call) # cs) s =
        (if releases p s call then 1 else 0) + release_count K p cs s1"
    have n: "?n + ?r \<le> length xs" using Cons.prems(3) 1(3)[of p] tc by simp
    then have "releases p s call \<Longrightarrow> xs \<noteq> []" by auto
    from call_keeps_place[OF 1(1) Cons.prems(1) this]
    obtain zs where "locks_after u call s LQ p = Some (drop ?n xs @ t # ys @ zs)" by blast
    moreover have "?r \<le> length (drop ?n xs)" using n by (cases "releases p s call") auto
    ultimately obtain ws where "LQ' p = Some (drop ?r (drop ?n xs) @ t # (ys @ zs) @ ws)"
      using Cons.IH[OF _ 1(2)] by blast
    then show ?thesis using 1(3)[of p] tc by (auto simp: add.commute)
  qed
qed auto




subsection \<open>Mutual exclusion\<close>

text \<open>Only a release, or a new entry at the same address, clears the flag of a lock.\<close>

lemma upd_lock_other: "q \<noteq> p \<Longrightarrow> ds_locks (upd_lock p f s) q = ds_locks s q"
  by (simp add: upd_lock_def)

lemma activate_locks: "activate_and_count K t s = Inr s' \<Longrightarrow> ds_locks s' = ds_locks s"
  by (auto simp: activate_and_count_def bindR_Inr_iff Let_def)

lemma unlocked_other: "q \<noteq> p \<Longrightarrow> ds_locks (unlocked p s) q = ds_locks s q"
  by (simp add: unlocked_def upd_lock_other)

lemma lock_release_acquired:
  assumes "lock_release K m t s = Inr s'" "ds_var s m \<noteq> p"
  shows "ds_locks s' p = ds_locks s p"
  using assms(2)[symmetric] assms(1) unfolding lock_release_def unlocked_def[symmetric] Let_def
  by (auto elim!: bindR_InrE simp: upd_lock_other unlocked_other dest!: activate_locks split: if_splits)

lemma put_token_locks: "put_token K t ff s = Inr s' \<Longrightarrow> ds_locks s' = ds_locks s"
  by (auto simp: put_token_def upd_thread_def Let_def split: option.splits if_splits)

lemma on_clock_locks: "on_clock f s = Inr s' \<Longrightarrow> ds_locks s' = ds_locks s"
  by (auto simp: on_clock_def bindR_Inr_iff)

lemma cond_wake_all_locks: "cond_wake_all n K c s = Inr s' \<Longrightarrow> ds_locks s' = ds_locks s"
proof (induction n arbitrary: s)
  case (Suc n)
  from Suc.prems obtain w head' links' where "(let s1 = upd_cond c (\<lambda>e. e\<lparr>cv_head := head'\<rparr>) (s\<lparr>ds_links := links'\<rparr>) in
       if w = NULL then Inr s1
       else
         (let s2 = upd_thread (addr_thread w) (\<lambda>e. e\<lparr>te_cond := NULL, te_status := STATUS_READY\<rparr>) s1;
              s3 = upd_cond c (\<lambda>e. e\<lparr>cv_waiters := cv_waiters e - 1\<rparr>) s2 in
          bindR (ca_activate_other K (addr_thread w) (ds_clock s3)) (\<lambda>(lowest, clk).
          cond_wake_all n K c (s3\<lparr>ds_clock := clk\<rparr>)))) = Inr s'"
    by (auto simp: bindR_Inr_iff simp del: Let_def)
  then show ?case
    using Suc.IH by (auto simp: Let_def bindR_Inr_iff upd_cond_def upd_thread_def split: if_splits)
qed simp

lemma lock_acquire_keeps:
  assumes "lk_acquired (ds_locks s p)" "p \<noteq> fst mem"
  shows "lk_acquired (ds_locks (snd (lock_acquire update mem m t s)) p)"
  using assms by (cases mem) (simp add: lock_acquire_def lock_init_def upd_lock_def Let_def)

lemma call_keeps_acquired:
  assumes e: "sync_exec K t call s = Inr s'" and pre: "sync_pre t call s LQ CQ"
    and p: "p \<in> dom LQ" and n: "\<not> releases p s call" and a: "lk_acquired (ds_locks s p)"
  shows "lk_acquired (ds_locks s' p)"
proof (cases call)
  case (LockInit mem m)
  then show ?thesis
    using e a pre p by (cases "p = fst mem"; cases mem) (simp_all add: fresh_lock_def, auto simp: lock_init_def)
next
  case (LockAcquire update mem m)
  then show ?thesis
    using e a pre p lock_acquire_keeps[of s p mem update m t] by (auto simp: fresh_lock_def)
next
  case (LockRelease m)
  then show ?thesis using e n a lock_release_acquired[of K m t s s' p] by simp
next
  case (LockWait m)
  then obtain h l where "bindR (on_clock (ca_halt K) (enter_lock (ds_var s m) t h l s)) (put_token K t True) = Inr s'"
    using e by (auto simp: wait_on_lock_begin_def putToken_def enter_lock_def Let_def bindR_Inr_iff split: if_splits)
  then show ?thesis
    using a by (auto simp: bindR_Inr_iff dest!: on_clock_locks put_token_locks)
next
  case (CondWait v m)
  then obtain h l s3 where "lock_release K m t (enter_cond (ds_var s v) t h l s) = Inr s3"
    "bindR (on_clock (ca_halt K) s3) (put_token K t True) = Inr s'"
    using e by (auto simp: cond_wait_begin_def putTokenLockHeld_def enter_cond_def Let_def bindR_Inr_iff split: if_splits)
  then show ?thesis
    using a n CondWait lock_release_acquired[of K m t "enter_cond (ds_var s v) t h l s" s3 p]
    by (auto simp: bindR_Inr_iff dest!: on_clock_locks put_token_locks)
next
  case (CondSignal v)
  then show ?thesis
    using e a by (auto simp: cond_signal_def activate_and_count_def upd_cond_def upd_thread_def
      bindR_Inr_iff Let_def split: if_splits)
next
  case (CondBroadcast v)
  then show ?thesis
    using e a by (auto simp: cond_broadcast_def bindR_Inr_iff Let_def
      simp del: cond_wake_all.simps dest: cond_wake_all_locks split: if_splits)
next
  case (DeregisterEnd)
  then show ?thesis
    using e a by (auto simp: deregister_end_def putTokenLockHeld_def bindR_Inr_iff
      dest!: on_clock_locks put_token_locks)
next
  case (JoinBegin g)
  then show ?thesis
    using e a by (auto simp: join_begin_def bindR_Inr_iff upd_thread_def
      dest!: on_clock_locks split: if_splits)
next
  case (JoinEnd h)
  then show ?thesis
    using e a by (auto simp: join_end_def bindR_Inr_iff dest!: on_clock_locks split: if_splits)
next
  case JoinRound
  then show ?thesis
    using e a by (auto simp: join_round_def putTokenLockHeld_def Let_def
      dest!: put_token_locks split: if_splits)
next
  case (PutToken ff)
  then show ?thesis using e a by (auto dest!: put_token_locks)
qed (use e a in \<open>auto simp: lock_destroy_def wait_on_lock_end_def cond_wait_end_def on_wakeup_def
      cond_init_def registerThread_def upd_thread_def starting_fork_def deregister_begin_def
      freeThreadEntry_def take_token_def Let_def split: if_splits\<close>)

lemma locks_stay: "p \<in> dom LQ \<Longrightarrow> p \<in> dom (locks_after t call s LQ)"
  by (cases call) auto

lemma run_keeps_acquired:
  assumes "sync_run K cs (s, LQ, CQ) = Some (s', LQ', CQ')" "p \<in> dom LQ"
    "release_count K p cs s = 0" "lk_acquired (ds_locks s p)"
  shows "lk_acquired (ds_locks s' p)"
  using assms
proof (induction cs arbitrary: s LQ CQ)
  case (Cons tc cs)
  obtain t call where tc: "tc = (t, call)" by (cases tc)
  from Cons.prems(1)[unfolded tc] show ?case
  proof (rule sync_run_ConsE)
    fix s1
    assume 1: "sync_pre t call s LQ CQ" "sync_exec (K t) t call s = Inr s1"
      "sync_run K cs (s1, locks_after t call s LQ, conds_after t call s CQ) = Some (s', LQ', CQ')"
      "\<And>p. release_count K p ((t, call) # cs) s =
        (if releases p s call then 1 else 0) + release_count K p cs s1"
    have z: "\<not> releases p s call" "release_count K p cs s1 = 0"
      using Cons.prems(3) 1(4)[of p] tc by (auto split: if_splits)
    have "lk_acquired (ds_locks s1 p)"
      by (rule call_keeps_acquired[OF 1(2,1) Cons.prems(2) z(1) Cons.prems(4)])
    then show ?thesis using Cons.IH[OF 1(3) locks_stay[OF Cons.prems(2)] z(2)] by simp
  qed
qed simp

text \<open>
  C11. Locks exclude each other: after a thread has acquired a lock, no thread acquires it in any
  state that calls reach without releasing that lock, by an unlock or by waiting on a condition
  variable.
\<close>

theorem lock_mutual_exclusion:
  assumes "lock_acquire update mem m t s = (True, s1)" and "ds_var s m = p" "p \<noteq> NULL" "p \<in> dom LQ"
    and "sync_run K cs (s1, LQ, CQ) = Some (s', LQ', CQ')" and "release_count K p cs s1 = 0"
    and "ds_var s' m' = p"
  shows "lock_acquire update' mem' m' t' s' = (False, s')"
proof -
  have "lk_acquired (ds_locks s1 p)"
    using assms(1-3) by (auto simp: lock_acquire_def upd_lock_def Let_def split: if_splits)
  then have "lk_acquired (ds_locks s' p)" using run_keeps_acquired assms(4-6) by blast
  then show ?thesis using assms(3,7) by (simp add: lock_acquire_def)
qed

theorem lock_mutual_exclusion_witness:
  "\<exists>s s'. lock_acquire (\<lambda>v. v) (71, fresh_entry) 10 0 (lock_init (70, fresh_entry) 10 zero_determ) = (True, s) \<and>
    sync_run counting_clock [(0, TakeToken 0), (0, PutToken True), (1, TakeToken 0)] (s, [70 \<mapsto> []], Map.empty) =
      Some (s', [70 \<mapsto> []], Map.empty) \<and>
    lock_acquire (\<lambda>v. v) (71, fresh_entry) 10 1 s' = (False, s')"
proof -
  let ?cs = "[(0, TakeToken 0), (0, PutToken True), (1, TakeToken 0)] :: (nat \<times> sync_call) list"
  obtain s s' where s: "lock_acquire (\<lambda>v. v) (71, fresh_entry) 10 0 (lock_init (70, fresh_entry) 10 zero_determ) = (True, s)"
    "sync_run counting_clock ?cs (s, [70 \<mapsto> []], Map.empty) = Some (s', [70 \<mapsto> []], Map.empty)"
    "release_count counting_clock 70 ?cs s = 0" "ds_var s' 10 = 70"
    by (simp add: sample_simps)
  show ?thesis
    using lock_mutual_exclusion[OF s(1) _ _ _ s(2,3,4)] s by (simp add: lock_init_def NULL_def)
qed


subsection \<open>Condition variables\<close>

text \<open>
  A broadcast wakes exactly the threads that wait on the condition variable, in the order in which
  they began to wait: each becomes ready and has its clock activated, one after the other, the
  queue is empty afterwards, and threads that look for the token are told once that activations
  have happened.
\<close>

theorem cond_broadcast_exact:
  assumes "sync_rep s LQ CQ" and "ds_var s v = c" "CQ c = Some xs" "xs \<noteq> []"
    and "activate_all K xs (ds_clock s) = Inr k"
  shows "\<exists>s'. cond_broadcast K t v s = Inr s' \<and> sync_rep s' LQ (CQ(c \<mapsto> [])) \<and>
    (\<forall>u. status_of s' u = (if u \<in> set xs then STATUS_READY else status_of s u)) \<and>
    ds_clock s' = k \<and> ds_activation_counter s' = ds_activation_counter s + 1 \<and>
    ds_tokenpos s' = ds_tokenpos s"
proof -
  obtain s' where "cond_broadcast K t v s = Inr s'" "sync_rep s' LQ (CQ(c \<mapsto> []))"
    "\<forall>u. status_of s' u = (if u \<in> set xs then STATUS_READY else status_of s u)"
    "ds_clock s' = k" "ds_activation_counter s' = ds_activation_counter s + 1"
    "ds_tokenpos s' = ds_tokenpos s"
    using cond_broadcast_wakes[OF assms, of t] by blast
  then show ?thesis by blast
qed

text \<open>Two threads that wait on a condition variable.\<close>

definition cond_calls :: "(nat \<times> sync_call) list" where
  "cond_calls = [(0, Register 0 100), (0, Register 1 101), (0, LockInit (70, fresh_entry) 10), (0, CondInit 80 11),
     (0, TakeToken 0), (0, CondWait 11 10), (1, TakeToken 0), (1, CondWait 11 10)]"

lemma cond_sample_run:
  "\<exists>s. sync_run counting_clock cond_calls (zero_determ, Map.empty, Map.empty) =
      Some (s, [70 \<mapsto> []], [80 \<mapsto> [0, 1]]) \<and> ds_var s 11 = 80 \<and> ds_clock s = 2"
  by (simp add: sample_simps cond_calls_def cond_wait_begin_def lock_release_def upd_cond_def
      putTokenLockHeld_def)

lemma cond_sample:
  obtains s where "sync_run counting_clock cond_calls (zero_determ, Map.empty, Map.empty) =
      Some (s, [70 \<mapsto> []], [80 \<mapsto> [0, 1]])" "ds_var s 11 = 80" "ds_clock s = 2"
    "sync_rep s [70 \<mapsto> []] [80 \<mapsto> [0, 1]]"
  using cond_sample_run sync_run_reachable[OF zero_reachable]
    sync_reachable_inv[OF counting_clock_safe] by blast

theorem cond_broadcast_exact_witness:
  "\<exists>s s'. sync_run counting_clock cond_calls (zero_determ, Map.empty, Map.empty) =
      Some (s, [70 \<mapsto> []], [80 \<mapsto> [0, 1]]) \<and>
    cond_broadcast (counting_clock 0) 5 11 s = Inr s' \<and> status_of s' 0 = STATUS_READY \<and>
    status_of s' 1 = STATUS_READY \<and> ds_clock s' = 4"
proof -
  obtain s where s: "sync_run counting_clock cond_calls (zero_determ, Map.empty, Map.empty) =
      Some (s, [70 \<mapsto> []], [80 \<mapsto> [0, 1]])" "ds_var s 11 = 80" "ds_clock s = 2"
    "sync_rep s [70 \<mapsto> []] [80 \<mapsto> [0, 1]]"
    by (rule cond_sample)
  have act: "activate_all (counting_clock 0) [0, 1] (ds_clock s) = Inr 4"
    using s(3) by (simp add: counting_clock_def)
  have q: "[80 \<mapsto> [0, 1]] (80 :: nat) = Some [0, 1 :: nat]" by simp
  obtain s' where "cond_broadcast (counting_clock 0) 5 11 s = Inr s'" "ds_clock s' = 4"
    "\<forall>u. status_of s' u = (if u \<in> set [0, 1] then STATUS_READY else status_of s u)"
    using cond_broadcast_exact[OF s(4,2) q _ act, of 5] by blast
  with s(1) show ?thesis by auto
qed

subsection \<open>Operations that fail\<close>

text \<open>
  Cancelling a thread that waits on a condition variable always fails the assertion that the
  variable has no waiters, as the cancelled thread is still counted. With assertions compiled
  out the count stays one too high: if the thread was the only waiter, the next signal takes a
  thread from the empty queue.
\<close>

theorem cancel_waiter_asserts:
  assumes "sync_rep s LQ CQ" and "CQ c = Some xs" and "t \<in> set xs"
  shows "cancel True t s = Inl AssertFailed \<and>
    (\<exists>s'. cancel False t s = Inr (True, s') \<and> status_of s' t = STATUS_EXIT \<and>
       unat (cv_waiters (ds_conds s' c)) = length xs \<and>
       circ (ds_links s') (cv_head (ds_conds s' c)) (map thread_addr (remove1 t xs)) \<and>
       (xs = [t] \<and> ds_var s v = c \<longrightarrow> cond_signal K u v s' = Inl AssertFailed))"
proof -
  have C: "c \<noteq> NULL" "cond_queue s c xs" using sync_rep_cond[OF assms(1,2)] by auto
  then have st: "status_of s t = STATUS_COND_WAITING" "te_cond (ds_threads s t) = c"
    and circ: "circ (ds_links s) (cv_head (ds_conds s c)) (map thread_addr xs)"
    and n: "unat (cv_waiters (ds_conds s c)) = length xs"
    using assms(3) by (auto simp: cond_queue_def)
  obtain a h where rem: "removeEntry (thread_addr t) (cv_head (ds_conds s c)) (ds_links s) = Inr (a, h)"
    and c': "circ h a (remove1 (thread_addr t) (map thread_addr xs))"
    using lh.rem_ok[OF circ, of "thread_addr t"] assms(3) by auto
  have w: "cv_waiters (ds_conds s c) \<noteq> 0"
    using cond_waiters_zero[OF assms(1,2)] assms(3) by auto
  let ?s' = "freeThreadEntry t (upd_cond c (\<lambda>e. e\<lparr>cv_head := a\<rparr>) (s\<lparr>ds_links := h\<rparr>))"
  have s': "ds_links ?s' = h" "cv_head (ds_conds ?s' c) = a" "ds_var ?s' = ds_var s"
    "cv_waiters (ds_conds ?s' c) = cv_waiters (ds_conds s c)"
    by (simp_all add: freeThreadEntry_def upd_cond_def)
  have m: "remove1 (thread_addr t) (map thread_addr xs) = map thread_addr (remove1 t xs)"
    by (induction xs) auto
  have "cond_signal K u v ?s' = Inl AssertFailed" if "xs = [t]" "ds_var s v = c"
  proof -
    have "a = NULL" using c' that(1) by simp
    then show ?thesis
      using that(2) s' w C(1) by (simp add: cond_signal_def removeHeadEntry_def)
  qed
  moreover have "cancel False t s = Inr (True, ?s')" "cancel True t s = Inl AssertFailed"
    using st rem w C(1) by (simp_all add: cancel_def Let_def) (simp add: upd_cond_def)
  ultimately show ?thesis using n c' m s' by (auto simp: freeThreadEntry_def)
qed

theorem cancel_waiter_asserts_witness:
  "\<exists>s. sync_run counting_clock cond_calls (zero_determ, Map.empty, Map.empty) =
      Some (s, [70 \<mapsto> []], [80 \<mapsto> [0, 1]]) \<and> cancel True 1 s = Inl AssertFailed"
proof -
  obtain s where s: "sync_run counting_clock cond_calls (zero_determ, Map.empty, Map.empty) =
      Some (s, [70 \<mapsto> []], [80 \<mapsto> [0, 1]])" "sync_rep s [70 \<mapsto> []] [80 \<mapsto> [0, 1]]"
    using cond_sample by metis
  have "cancel True 1 s = Inl AssertFailed"
    using cancel_waiter_asserts[OF s(2), of 80 "[0, 1]" 1] by simp
  with s(1) show ?thesis by blast
qed

text \<open>
  A new lock keeps whatever waiter count its memory holds: when the allocator hands out memory in
  which that word is not zero, the first release of the lock takes a thread from the empty queue
  and follows a null pointer.
\<close>

theorem lock_init_garbage_faults:
  assumes "p \<noteq> NULL" and "lk_waiters g \<noteq> 0"
  shows "lock_release K m t (lock_init (p, g) m s) = Inl NullDeref"
proof -
  have "lk_waiters g > 0" using assms(2) by (simp add: word_gt_0)
  then show ?thesis
    using assms(1) by (simp add: lock_release_def lock_init_def upd_lock_def removeHeadEntry_def Let_def)
qed

theorem lock_init_garbage_faults_witness:
  "lock_release (counting_clock 0) 10 0
     (lock_init (70, fresh_entry\<lparr>lk_waiters := 3\<rparr>) 10 zero_determ) = Inl NullDeref"
  by (rule lock_init_garbage_faults) (simp_all add: NULL_def)

end
