(* ===== verification/Run_Config.thy ===== *)
theory Run_Config
  imports Prelude
begin

text \<open>
  The build configurations of the thread library (the flags of its \<open>Makefile\<close>) and the constants
  of \<open>logical_clock.h\<close> that depend on them; the atomic instructions of \<open>xatomic.h\<close>.
\<close>

record run_config =
  rc_fast_forward :: bool
  rc_single_thread_opt :: bool
  rc_tx_coarsening :: bool
  rc_userspace_reading :: bool
  rc_deferred_work :: bool
  rc_round_robin :: bool
  rc_simple_locks :: bool
  rc_simple_barrier :: bool
  rc_kendo :: bool
  rc_thread_pool :: bool
  rc_static_tx_size :: "int option"

definition config_IC :: run_config where
  "config_IC = \<lparr>rc_fast_forward = True, rc_single_thread_opt = True, rc_tx_coarsening = False,
     rc_userspace_reading = True, rc_deferred_work = True, rc_round_robin = False,
     rc_simple_locks = False, rc_simple_barrier = False, rc_kendo = False, rc_thread_pool = True, rc_static_tx_size = None\<rparr>"

definition config_RR :: run_config where
  "config_RR = config_IC\<lparr>rc_fast_forward := False, rc_tx_coarsening := True, rc_round_robin := True\<rparr>"

definition config_CheckSchedule :: run_config where
  "config_CheckSchedule = config_IC\<lparr>rc_tx_coarsening := True\<rparr>"

definition config_DWC :: run_config where
  "config_DWC = \<lparr>rc_fast_forward = False, rc_single_thread_opt = False, rc_tx_coarsening = False,
     rc_userspace_reading = False, rc_deferred_work = False, rc_round_robin = True,
     rc_simple_locks = True, rc_simple_barrier = True, rc_kendo = False, rc_thread_pool = False, rc_static_tx_size = None\<rparr>"

subsection \<open>Constants of the logical clock\<close>

definition KENDO_ACQ_INC :: "run_config \<Rightarrow> int" where
  "KENDO_ACQ_INC R = (if rc_kendo R then 10000 else 0)"

definition LOGICAL_CLOCK_TIME_LOCK :: int where "LOGICAL_CLOCK_TIME_LOCK = 0"

definition LOGICAL_CLOCK_TIME_FORK_PER_PAGE :: "run_config \<Rightarrow> int" where
  "LOGICAL_CLOCK_TIME_FORK_PER_PAGE R = (if rc_round_robin R then 0 else 200)"

definition LOGICAL_CLOCK_ROUND_ROBIN_INFINITY :: "run_config \<Rightarrow> u32" where
  "LOGICAL_CLOCK_ROUND_ROBIN_INFINITY R = (if rc_round_robin R then 50000 else 0)"

definition LOGICAL_CLOCK_ROUND_ROBIN_FORKED_THREAD :: u32 where
  "LOGICAL_CLOCK_ROUND_ROBIN_FORKED_THREAD = 10"

definition LOGICAL_CLOCK_CONVERSION_COMMIT_PAGE :: int where "LOGICAL_CLOCK_CONVERSION_COMMIT_PAGE = 0"
definition LOGICAL_CLOCK_CONVERSION_UPDATE_PAGE :: int where "LOGICAL_CLOCK_CONVERSION_UPDATE_PAGE = 0"
definition LOGICAL_CLOCK_CONVERSION_MERGE_PAGE :: int where "LOGICAL_CLOCK_CONVERSION_MERGE_PAGE = 0"

definition LOGICAL_CLOCK_MIN_ALLOWABLE_TX_SIZE :: "run_config \<Rightarrow> int" where
  "LOGICAL_CLOCK_MIN_ALLOWABLE_TX_SIZE R =
     (case rc_static_tx_size R of Some n \<Rightarrow> n | None \<Rightarrow> 20000)"

definition LOGICAL_CLOCK_TX_SIZE_AFTER_TOKEN_TRANSFER :: "run_config \<Rightarrow> int" where
  "LOGICAL_CLOCK_TX_SIZE_AFTER_TOKEN_TRANSFER R =
     (case rc_static_tx_size R of Some n \<Rightarrow> n | None \<Rightarrow> 50000)"

definition LOGICAL_CLOCK_MAX_ALLOWABLE_TX_SIZE :: "run_config \<Rightarrow> int" where
  "LOGICAL_CLOCK_MAX_ALLOWABLE_TX_SIZE R =
     (case rc_static_tx_size R of Some n \<Rightarrow> n | None \<Rightarrow> 500000)"

subsection \<open>Atomic instructions\<close>

text \<open>
  The 32 bit instructions act on the low half of the 64 bit object and leave the other half alone.
\<close>

definition low32 :: "u64 \<Rightarrow> u32" where "low32 x = ucast x"

definition set_low32 :: "u32 \<Rightarrow> u64 \<Rightarrow> u64" where
  "set_low32 v x = push_bit 32 (drop_bit 32 x) + ucast v"

definition xatomic_increment :: "u64 \<Rightarrow> u64" where
  "xatomic_increment x = set_low32 (low32 x + 1) x"

definition xatomic_decrement :: "u64 \<Rightarrow> u64" where
  "xatomic_decrement x = set_low32 (low32 x - 1) x"

definition xatomic_add :: "u32 \<Rightarrow> u64 \<Rightarrow> u64" where
  "xatomic_add i x = set_low32 (low32 x + i) x"

definition xatomic_increment_and_return :: "u64 \<Rightarrow> u32 \<times> u64" where
  "xatomic_increment_and_return x = (low32 x, set_low32 (low32 x + 1) x)"

definition xatomic_decrement_and_return :: "u64 \<Rightarrow> u32 \<times> u64" where
  "xatomic_decrement_and_return x = (low32 x, set_low32 (low32 x - 1) x)"

definition xatomic_exchange :: "u64 \<Rightarrow> u64 \<Rightarrow> u64 \<times> u64" where
  "xatomic_exchange newval oldval = (oldval, newval)"

lemma unat_ucast_widen:
  assumes "LENGTH('a::len) \<le> LENGTH('b::len)"
  shows "unat (ucast (v :: 'a word) :: 'b word) = unat v"
proof -
  have "unat v < 2 ^ LENGTH('a)" by (rule unsigned_less)
  also have "(2 :: nat) ^ LENGTH('a) \<le> 2 ^ LENGTH('b)" using assms by simp
  finally show ?thesis by (simp add: unsigned_ucast_eq take_bit_nat_eq_self)
qed

lemma set_low32_id: "unat x < 2 ^ 32 \<Longrightarrow> unat (set_low32 v x) = unat v"
proof -
  assume "unat x < 2 ^ 32"
  then have "unat (drop_bit 32 x) = 0" by (simp add: unat_div drop_bit_eq_div)
  then have "drop_bit 32 x = 0" by (simp only: unat_eq_zero)
  then show ?thesis by (simp add: set_low32_def unat_ucast_widen)
qed

end
