(* ===== verification/Barrier.thy ===== *)
theory Barrier
  imports Determ Run_Config
begin

text \<open>
  Barriers of \<open>determ.h\<close>: threads arrive one by one with the token, commit in parallel, wait for
  the others, and leave. The versions of the two memory segments and the numbers of dirty pages are
  those the memory layer reports to the calling thread.
\<close>

subsection \<open>Operations\<close>

record mem_view =
  mv_heap_version :: int
  mv_globals_version :: int
  mv_dirty :: int
  mv_dirty_heap :: int
  mv_dirty_globals :: int

definition barrier_init :: "BarrierEntry \<Rightarrow> addr \<Rightarrow> int \<Rightarrow> nat \<Rightarrow> 'c determ \<Rightarrow> 'c determ result" where
  "barrier_init garbage p count bar s =
     (if p = NULL then Inl AssertFailed
      else Inr (s\<lparr>ds_barriers := (ds_barriers s)(p := garbage\<lparr>br_maxthreads := word_of_int count,
                   br_threads := 0, br_arrival_phase := True, br_head := NULL, br_counter := 0,
                   br_heapVersion := 0, br_globalsVersion := 0, br_committed := 0,
                   br_total_dirty := 0\<rparr>),
                 ds_var := (ds_var s)(bar := p)\<rparr>))"

text \<open>The loop of \<open>__find_order\<close> from index \<open>i\<close> on, with \<open>n\<close> indices left.\<close>

fun find_order_from :: "nat \<Rightarrow> (nat \<Rightarrow> u8) \<Rightarrow> nat \<Rightarrow> nat \<Rightarrow> nat \<Rightarrow> nat \<Rightarrow> nat result" where
  "find_order_from 0 order threadindex maxthreads i seen = Inl AssertFailed"
| "find_order_from (Suc n) order threadindex maxthreads i seen =
     (if \<not> seen < maxthreads then Inl AssertFailed
      else if i = threadindex then Inr seen
      else find_order_from n order threadindex maxthreads (Suc i)
             (if order i \<noteq> 0 then Suc seen else seen))"

definition find_order :: "(nat \<Rightarrow> u8) \<Rightarrow> nat \<Rightarrow> nat \<Rightarrow> nat result" where
  "find_order order threadindex maxthreads =
     find_order_from MAX_THREAD_ENTRIES order threadindex maxthreads 0 0"

text \<open>
  \<open>barrier_wait\<close> from the token to the parallel commit. The results are \<open>heapVersion\<close>,
  \<open>globalsVersion\<close>, \<open>ourHeapVersion\<close> and \<open>ourGlobalsVersion\<close>.
\<close>

definition dirty_step :: "int \<Rightarrow> u16" where "dirty_step dirty_pages = (if dirty_pages > 0 then 1 else 0)"

type_synonym versions = "u64 \<times> u64 \<times> u64 \<times> u64"

definition barrier_arrive ::
  "'c clock_api \<Rightarrow> nat \<Rightarrow> nat \<Rightarrow> mem_view \<Rightarrow> 'c determ \<Rightarrow> (versions \<times> 'c determ) result" where
  "barrier_arrive K t v mv s =
     (let b = ds_var s v in
      if b = NULL then Inl NullDeref
      else
        (let s1 = upd_barrier b (\<lambda>e. e\<lparr>br_counter := br_counter e + 1\<rparr>) s;
             s2 = (if br_counter (ds_barriers s1 b) = 1
                   then upd_barrier b (\<lambda>e. e\<lparr>br_heapVersion := word_of_int (mv_heap_version mv),
                          br_globalsVersion := word_of_int (mv_globals_version mv)\<rparr>) s1
                   else s1);
             heapVersion = ucast (br_heapVersion (ds_barriers s2 b));
             globalsVersion = ucast (br_globalsVersion (ds_barriers s2 b));
             s3 = upd_barrier b (\<lambda>e. e\<lparr>br_total_dirty := br_total_dirty e + word_of_int (mv_dirty mv),
                    br_heapVersion := br_heapVersion e + dirty_step (mv_dirty_heap mv),
                    br_globalsVersion := br_globalsVersion e + dirty_step (mv_dirty_globals mv)\<rparr>) s2;
             ourHeapVersion = ucast (br_heapVersion (ds_barriers s3 b));
             ourGlobalsVersion = ucast (br_globalsVersion (ds_barriers s3 b))
         in bindR (if ucast (br_counter (ds_barriers s3 b)) \<noteq> br_maxthreads (ds_barriers s3 b)
                   then bindR (on_clock (ca_halt K) s3) (putToken K t) else Inr s3) (\<lambda>s4.
            Inr ((heapVersion, globalsVersion, ourHeapVersion, ourGlobalsVersion), s4))))"

text \<open>The end of the thread's own commit.\<close>

definition barrier_committed :: "addr \<Rightarrow> 'c determ \<Rightarrow> 'c determ" where
  "barrier_committed b = upd_barrier b (\<lambda>e. e\<lparr>br_committed := xatomic_increment (br_committed e)\<rparr>)"

text \<open>
  \<open>__wait_for_commiters\<close>, on what its rounds read of the barrier and of the current versions; the
  result is the number of updates it performs.
\<close>

definition boundedWait :: nat where "boundedWait = 100000"

record commit_obs =
  co_committed :: u64
  co_committed_again :: u64
  co_total_dirty :: u32
  co_heap :: u64
  co_globals :: u64

fun wait_for_commiters ::
  "u64 \<Rightarrow> commit_obs list \<Rightarrow> nat \<Rightarrow> u64 \<Rightarrow> u64 \<Rightarrow> nat result" where
  "wait_for_commiters maxthreads [] counter heapVersion globalsVersion =
     (if counter < boundedWait then Inl StillSpinning else Inr 0)"
| "wait_for_commiters maxthreads (r # rs) counter heapVersion globalsVersion =
     (if \<not> (counter < boundedWait \<and> co_committed r < maxthreads - 1) then Inr 0
      else if co_committed_again r > maxthreads div 2 \<and> ucast (co_total_dirty r) < maxthreads * 10
      then Inr 0
      else if co_heap r > heapVersion \<or> co_globals r > globalsVersion
      then bindR (wait_for_commiters maxthreads rs 0 (co_heap r) (co_globals r)) (\<lambda>n. Inr (Suc n))
      else wait_for_commiters maxthreads rs (Suc counter) heapVersion globalsVersion)"

text \<open>Between the two waits on the real barrier, and after the second.\<close>

definition barrier_leave :: "'c clock_api \<Rightarrow> nat \<Rightarrow> 'c determ \<Rightarrow> 'c determ result" where
  "barrier_leave K t s =
     bindR (if isTokenHolder t s then Inr s else on_clock (ca_activate K) s) (\<lambda>s1.
     Inr (s1\<lparr>ds_clock := ca_clear_single K (ds_clock s1)\<rparr>))"

definition barrier_finish :: "'c clock_api \<Rightarrow> nat \<Rightarrow> addr \<Rightarrow> 'c determ \<Rightarrow> 'c determ result" where
  "barrier_finish K t b s =
     (if isTokenHolder t s
      then (let s1 = upd_barrier b (\<lambda>e. e\<lparr>br_counter := 0, br_heapVersion := 0, br_globalsVersion := 0,
                       br_committed := 0, br_total_dirty := 0\<rparr>) s;
                s2 = s1\<lparr>ds_activation_counter := ds_activation_counter s1 + 1\<rparr>
            in putToken K t s2)
      else Inr s)"

text \<open>
  The variant chosen by \<open>USE_SIMPLE_BARRIER\<close>: up to the first wait, and between the waits. The result of
  arriving is \<open>halted\<close>.
\<close>

definition simple_arrive ::
  "run_config \<Rightarrow> 'c clock_api \<Rightarrow> nat \<Rightarrow> nat \<Rightarrow> 'c determ \<Rightarrow> (bool \<times> 'c determ) result" where
  "simple_arrive R K t v s =
     (let b = ds_var s v in
      bindR (if rc_round_robin R then on_clock (ca_add_ticks K (LOGICAL_CLOCK_ROUND_ROBIN_INFINITY R)) s
             else Inr s) (\<lambda>s1.
      if b = NULL then Inl NullDeref
      else (let s2 = upd_barrier b (\<lambda>e. e\<lparr>br_counter := br_counter e + 1\<rparr>) s1 in
            if ucast (br_counter (ds_barriers s2 b)) < br_maxthreads (ds_barriers s2 b)
            then bindR (on_clock (ca_halt K) s2) (\<lambda>s3.
                 bindR (putToken K t s3) (\<lambda>s4. Inr (True, s4)))
            else Inr (False, s2))))"

definition simple_wake :: "'c clock_api \<Rightarrow> bool \<Rightarrow> 'c determ \<Rightarrow> 'c determ result" where
  "simple_wake K halted s =
     (if halted then bindR (on_clock (ca_activate K) s) (\<lambda>s1. Inr (on_wakeup K s1)) else Inr s)"

end
