(* ===== verification/Barrier_Theorems.thy ===== *)
theory Barrier_Theorems
  imports Barrier
begin

text \<open>
  A round of a barrier: what each arriving thread finds, who keeps the token, what is left when the
  last thread leaves; and how long a thread can wait for the commits of the others.
\<close>

subsection \<open>Arriving\<close>

lemma upd_barrier_simps [simp]:
  "ds_barriers (upd_barrier b f s) b = f (ds_barriers s b)"
  "c \<noteq> b \<Longrightarrow> ds_barriers (upd_barrier b f s) c = ds_barriers s c"
  "ds_var (upd_barrier b f s) = ds_var s" "ds_tokenpos (upd_barrier b f s) = ds_tokenpos s"
  "ds_clock (upd_barrier b f s) = ds_clock s"
  "ds_activation_counter (upd_barrier b f s) = ds_activation_counter s"
  by (simp_all add: upd_barrier_def)

lemma putToken_barrier:
  assumes "ds_tokenpos s = Some t"
  shows "\<exists>s'. putToken K t s = Inr s' \<and> ds_barriers s' = ds_barriers s \<and> ds_var s' = ds_var s \<and>
    ds_tokenpos s' = None \<and> ds_clock s' = ds_clock s \<and>
    ds_activation_counter s' = ds_activation_counter s"
  using assms by (simp add: putToken_def put_token_def upd_thread_def Let_def)

lemma small_of_nat16: "i < 2 ^ 16 \<Longrightarrow> unat (of_nat i :: u16) = i"
  by (simp add: unsigned_of_nat take_bit_nat_eq_self)

lemma counter_first: "Suc i < 2 ^ 16 \<Longrightarrow> (of_nat i :: u16) + 1 = 1 \<longleftrightarrow> i = 0"
  using small_of_nat16[of "Suc i"] by (auto simp: word_unat_eq_iff add.commute)

lemma counter_last:
  assumes "Suc i < 2 ^ 16" "n < 2 ^ 16"
  shows "(ucast ((of_nat i :: u16) + 1) :: u64) = of_nat n \<longleftrightarrow> Suc i = n"
proof -
  have "(of_nat i :: u16) + 1 = of_nat (Suc i)" by simp
  then have "unat (ucast ((of_nat i :: u16) + 1) :: u64) = Suc i"
    using small_of_nat16[OF assms(1)] by (simp only: unat_ucast_widen[where 'b = 64] len_of_numeral_defs)
  moreover have "unat (of_nat n :: u64) = n"
    using assms(2) by (simp add: unsigned_of_nat take_bit_nat_eq_self)
  ultimately show ?thesis by (metis word_unat_eq_iff)
qed

lemma arrive_step:
  assumes b: "ds_var s v = b" "b \<noteq> NULL" and c: "br_counter (ds_barriers s b) = of_nat i"
    and m: "br_maxthreads (ds_barriers s b) = of_nat n" and i: "i < n" "n < 2 ^ 16"
    and tok: "ds_tokenpos s = Some t" and halt: "ca_halt K (ds_clock s) = Inr k"
    and H: "H = (if i = 0 then word_of_int (mv_heap_version mv) else br_heapVersion (ds_barriers s b))"
    and G: "G = (if i = 0 then word_of_int (mv_globals_version mv) else br_globalsVersion (ds_barriers s b))"
  shows "\<exists>s'. barrier_arrive K t v mv s = Inr ((ucast H, ucast G, ucast (H + dirty_step (mv_dirty_heap mv)),
        ucast (G + dirty_step (mv_dirty_globals mv))), s') \<and>
      br_counter (ds_barriers s' b) = of_nat i + 1 \<and> br_maxthreads (ds_barriers s' b) = of_nat n \<and>
      br_heapVersion (ds_barriers s' b) = H + dirty_step (mv_dirty_heap mv) \<and>
      br_globalsVersion (ds_barriers s' b) = G + dirty_step (mv_dirty_globals mv) \<and>
      ds_var s' v = b \<and> ds_tokenpos s' = (if Suc i = n then Some t else None) \<and>
      ds_activation_counter s' = ds_activation_counter s \<and>
      ds_clock s' = (if Suc i = n then ds_clock s else k)"
proof -
  have bounds: "Suc i < 2 ^ 16" using i by linarith
  note first = counter_first[OF bounds] and final = counter_last[OF bounds i(2)]
  let ?e = "\<lambda>e. e\<lparr>br_counter := br_counter e + 1\<rparr>"
  let ?base = "if i = 0 then upd_barrier b (\<lambda>e. e\<lparr>br_heapVersion := word_of_int (mv_heap_version mv),
      br_globalsVersion := word_of_int (mv_globals_version mv)\<rparr>) (upd_barrier b ?e s) else upd_barrier b ?e s"
  let ?s3 = "upd_barrier b (\<lambda>e. e\<lparr>br_total_dirty := br_total_dirty e + word_of_int (mv_dirty mv),
      br_heapVersion := br_heapVersion e + dirty_step (mv_dirty_heap mv),
      br_globalsVersion := br_globalsVersion e + dirty_step (mv_dirty_globals mv)\<rparr>) ?base"
  have s3: "br_counter (ds_barriers ?s3 b) = of_nat i + 1" "br_maxthreads (ds_barriers ?s3 b) = of_nat n"
    "br_heapVersion (ds_barriers ?s3 b) = H + dirty_step (mv_dirty_heap mv)"
    "br_globalsVersion (ds_barriers ?s3 b) = G + dirty_step (mv_dirty_globals mv)"
    "ds_tokenpos ?s3 = Some t" "ds_clock ?s3 = ds_clock s" "ds_var ?s3 = ds_var s"
    "ds_activation_counter ?s3 = ds_activation_counter s"
    using c m tok H G by simp_all
  have run: "barrier_arrive K t v mv s =
      bindR (if Suc i \<noteq> n then bindR (on_clock (ca_halt K) ?s3) (putToken K t) else Inr ?s3) (\<lambda>s4.
        Inr ((ucast H, ucast G, ucast (H + dirty_step (mv_dirty_heap mv)),
          ucast (G + dirty_step (mv_dirty_globals mv))), s4))"
    using b c m H G first final by (cases "i = 0") (simp_all add: barrier_arrive_def Let_def)
  show ?thesis
  proof (cases "Suc i = n")
    case True
    then show ?thesis using run s3 b(1) by simp
  next
    case False
    let ?s4 = "?s3\<lparr>ds_clock := k\<rparr>"
    have "on_clock (ca_halt K) ?s3 = Inr ?s4" using s3(6) halt by (simp add: on_clock_def)
    moreover obtain s' where "putToken K t ?s4 = Inr s'" "ds_barriers s' = ds_barriers ?s4"
      "ds_var s' = ds_var ?s4" "ds_tokenpos s' = None" "ds_clock s' = ds_clock ?s4"
      "ds_activation_counter s' = ds_activation_counter ?s4"
      using putToken_barrier[of ?s4 t K] s3(5) by auto
    ultimately show ?thesis using run False s3 b(1) by simp
  qed
qed


text \<open>
  A round: the threads arrive in the order in which they get the token (a thread cannot get a
  token that is still held).
\<close>

fun arrive_all ::
  "(nat \<Rightarrow> 'c clock_api) \<Rightarrow> nat \<Rightarrow> (nat \<times> mem_view) list \<Rightarrow> 'c determ \<Rightarrow> (versions list \<times> 'c determ) result"
  where
  "arrive_all K v [] s = Inr ([], s)"
| "arrive_all K v ((t, mv) # xs) s =
     (if ds_tokenpos s \<noteq> None then Inl StillSpinning
      else bindR (barrier_arrive (K t) t v mv (s\<lparr>ds_tokenpos := Some t\<rparr>)) (\<lambda>(vs, s1).
           bindR (arrive_all K v xs s1) (\<lambda>(out, s2). Inr (vs # out, s2))))"

text \<open>The version of a segment after the threads with the given views have added theirs.\<close>

definition version_after :: "(mem_view \<Rightarrow> int) \<Rightarrow> u16 \<Rightarrow> mem_view list \<Rightarrow> u16" where
  "version_after f base mvs = base + (\<Sum>mv\<leftarrow>mvs. dirty_step (f mv))"

lemma version_after_Cons [simp]:
  "version_after f base (mv # mvs) = version_after f (base + dirty_step (f mv)) mvs"
  "version_after f base [] = base"
  by (simp_all add: version_after_def add.assoc)

definition round_versions :: "u16 \<Rightarrow> u16 \<Rightarrow> mem_view list \<Rightarrow> nat \<Rightarrow> versions" where
  "round_versions h g mvs i =
     (ucast (version_after mv_dirty_heap h (take i mvs)),
      ucast (version_after mv_dirty_globals g (take i mvs)),
      ucast (version_after mv_dirty_heap h (take (Suc i) mvs)),
      ucast (version_after mv_dirty_globals g (take (Suc i) mvs)))"

lemma arrive_all_from:
  assumes "ds_var s v = b" "b \<noteq> NULL" "br_counter (ds_barriers s b) = of_nat i"
    and "br_maxthreads (ds_barriers s b) = of_nat n" "n < 2 ^ 16" "i + length xs = n" "xs \<noteq> []"
    and "ds_tokenpos s = None" "\<forall>t c. \<exists>c'. ca_halt (K t) c = Inr c'"
    and "H = (if i = 0 then word_of_int (mv_heap_version (snd (hd xs))) else br_heapVersion (ds_barriers s b))"
    and "G = (if i = 0 then word_of_int (mv_globals_version (snd (hd xs))) else br_globalsVersion (ds_barriers s b))"
  shows "\<exists>out s'. arrive_all K v xs s = Inr (out, s') \<and> length out = length xs \<and>
    (\<forall>j < length xs. out ! j = round_versions H G (map snd xs) j) \<and>
    ds_tokenpos s' = Some (fst (last xs)) \<and> br_counter (ds_barriers s' b) = of_nat n \<and>
    ds_activation_counter s' = ds_activation_counter s"
  using assms
proof (induction xs arbitrary: s i H G)
  case (Cons x xs)
  obtain t mv where x: "x = (t, mv)" by (cases x)
  let ?s = "s\<lparr>ds_tokenpos := Some t\<rparr>"
  obtain k where k: "ca_halt (K t) (ds_clock ?s) = Inr k" using Cons.prems(9) by blast
  have i: "i < n" using Cons.prems(6) by simp
  have p: "ds_var ?s v = b" "br_counter (ds_barriers ?s b) = of_nat i"
    "br_maxthreads (ds_barriers ?s b) = of_nat n" "ds_tokenpos ?s = Some t"
    using Cons.prems(1,3,4) by simp_all
  have H: "H = (if i = 0 then word_of_int (mv_heap_version mv) else br_heapVersion (ds_barriers ?s b))"
    and G: "G = (if i = 0 then word_of_int (mv_globals_version mv) else br_globalsVersion (ds_barriers ?s b))"
    using Cons.prems(10,11) x by simp_all
  let ?H = "H + dirty_step (mv_dirty_heap mv)" and ?G = "G + dirty_step (mv_dirty_globals mv)"
  obtain s1 where s1: "barrier_arrive (K t) t v mv ?s = Inr ((ucast H, ucast G, ucast ?H, ucast ?G), s1)"
      "br_counter (ds_barriers s1 b) = of_nat i + 1" "br_maxthreads (ds_barriers s1 b) = of_nat n"
      "br_heapVersion (ds_barriers s1 b) = ?H" "br_globalsVersion (ds_barriers s1 b) = ?G"
      "ds_var s1 v = b" "ds_tokenpos s1 = (if Suc i = n then Some t else None)"
      "ds_activation_counter s1 = ds_activation_counter ?s"
    using arrive_step[OF p(1) Cons.prems(2) p(2,3) i Cons.prems(5) p(4) k H G] by blast
  have run: "arrive_all K v (x # xs) s = bindR (arrive_all K v xs s1) (\<lambda>(out, s2).
      Inr ((ucast H, ucast G, ucast ?H, ucast ?G) # out, s2))"
    using s1(1) x Cons.prems(8) by simp
  have first: "round_versions H G (map snd (x # xs)) 0 = (ucast H, ucast G, ucast ?H, ucast ?G)"
    by (simp add: round_versions_def x)
  show ?case
  proof (cases "xs = []")
    case True
    then have n: "Suc i = n" using Cons.prems(6) by simp
    then have "(of_nat i + 1 :: u16) = of_nat n" by auto
    then show ?thesis using s1 run first True x n by simp
  next
    case False
    have n: "Suc i \<noteq> n" "Suc i + length xs = n" using Cons.prems(6) False by auto
    have c: "br_counter (ds_barriers s1 b) = of_nat (Suc i)" using s1(2) by (simp add: add.commute)
    have tok: "ds_tokenpos s1 = None" using s1(7) n(1) by simp
    obtain out s' where ih: "arrive_all K v xs s1 = Inr (out, s')" "length out = length xs"
      "\<forall>j < length xs. out ! j = round_versions ?H ?G (map snd xs) j"
      "ds_tokenpos s' = Some (fst (last xs))" "br_counter (ds_barriers s' b) = of_nat n"
      "ds_activation_counter s' = ds_activation_counter s1"
      using Cons.IH[OF s1(6) Cons.prems(2) c s1(3) Cons.prems(5) n(2) False tok Cons.prems(9), of ?H ?G]
        s1(4,5) by auto
    have "((ucast H, ucast G, ucast ?H, ucast ?G) # out) ! j = round_versions H G (map snd (x # xs)) j"
      if "j < length (x # xs)" for j
      using that ih(3) first by (cases j) (auto simp: round_versions_def x)
    then show ?thesis using run ih s1(8) False by simp
  qed
qed simp



text \<open>Two threads with dirty heap pages meet at a barrier when the heap is at version 65535.\<close>

definition barrier_clock :: "nat \<Rightarrow> nat clock_api" where
  "barrier_clock t = \<lparr>ca_halt = \<lambda>c. Inr (c + 1), ca_activate = \<lambda>c. Inr (c + 1),
     ca_activate_other = \<lambda>u c. Inr (True, c + 1), ca_on_wakeup = \<lambda>c. c,
     ca_reset = Inr, ca_read = of_nat, ca_clear_single = \<lambda>c. c,
     ca_is_lowest = \<lambda>c. Inr (True, c), ca_is_lowest_wait = \<lambda>c. Inr (True, c),
     ca_add_ticks = \<lambda>n c. Inr c, ca_single_active = \<lambda>c. False,
     ca_estimate_next_tx = \<lambda>m c. 0, ca_last_tx_size = \<lambda>c. 0, ca_end_coarsened = Inr,
     ca_stop = \<lambda>m c. Inr c, ca_stop_no_notify = \<lambda>m c. Inr c, ca_start = Inr, ca_start_no_notify = Inr,
     ca_close = Inr\<rparr>"

definition two_barrier :: "nat determ" where
  "two_barrier = \<lparr>ds_links = \<lambda>_. \<lparr>e_prev = 0, e_next = 0\<rparr>,
     ds_threads = \<lambda>_. \<lparr>te_tid = 0, te_status = STATUS_READY, te_parent = 0, te_cond = NULL,
       te_joinee = 0, te_last_logical_clock = 0\<rparr>,
     ds_locks = \<lambda>_. \<lparr>lk_acquired = False, lk_waiters = 0, lk_head = 0\<rparr>,
     ds_conds = \<lambda>_. \<lparr>cv_waiters = 0, cv_cond = 0, cv_head = 0\<rparr>,
     ds_barriers = \<lambda>_. \<lparr>br_maxthreads = 2, br_threads = 0, br_arrival_phase = True, br_head = 0,
       br_counter = 0, br_heapVersion = 0, br_globalsVersion = 0, br_total_dirty = 0,
       br_committed = 0\<rparr>,
     ds_var = \<lambda>_. 90, ds_tokenpos = None, ds_activation_counter = 0, ds_last_token_value = 0,
     ds_last_putter = 0, ds_last_getter = 0, ds_clock = 0\<rparr>"

definition dirty_view :: mem_view where
  "dirty_view = \<lparr>mv_heap_version = 65535, mv_globals_version = 7, mv_dirty = 1, mv_dirty_heap = 1,
     mv_dirty_globals = 0\<rparr>"


subsection \<open>Waiting for the commits\<close>

lemma wait_caught_up:
  assumes "sorted (map co_heap rs)" "sorted (map co_globals rs)"
    and "\<forall>r \<in> set rs. h \<le> co_heap r \<and> g \<le> co_globals r \<and> unat (co_heap r) \<le> H \<and> unat (co_globals r) \<le> G"
    and "unat h \<le> H" "unat g \<le> G" "c \<le> boundedWait"
    and "length rs \<ge> boundedWait * ((H - unat h) + (G - unat g)) + (boundedWait - c)"
  shows "\<exists>n. wait_for_commiters mx rs c h g = Inr n \<and> n \<le> (H - unat h) + (G - unat g)"
  using assms
proof (induction rs arbitrary: c h g)
  case Nil
  then show ?case by (simp add: boundedWait_def)
next
  case (Cons r rs)
  let ?m = "(H - unat h) + (G - unat g)"
  show ?case
  proof (cases "co_heap r > h \<or> co_globals r > g")
    case False
    then show ?thesis
    proof (cases "c < boundedWait")
      case True
      then have len: "length rs \<ge> boundedWait * ?m + (boundedWait - Suc c)" "Suc c \<le> boundedWait"
        using Cons.prems(7) by simp_all
      have "\<exists>n. wait_for_commiters mx rs (Suc c) h g = Inr n \<and> n \<le> ?m"
        using Cons.prems(1-5) len by (intro Cons.IH) auto
      then show ?thesis using False by auto
    qed simp
  next
    case True
    note new = True
    let ?m' = "(H - unat (co_heap r)) + (G - unat (co_globals r))"
    have up: "unat h \<le> unat (co_heap r)" "unat g \<le> unat (co_globals r)" "unat (co_heap r) \<le> H"
      "unat (co_globals r) \<le> G" "unat h < unat (co_heap r) \<or> unat g < unat (co_globals r)"
      using Cons.prems(3) True by (auto simp: word_le_nat_alt word_less_nat_alt)
    then have dec: "Suc ?m' \<le> ?m" by linarith
    show ?thesis
    proof (cases "c < boundedWait")
      case True
      have "boundedWait * Suc ?m' \<le> boundedWait * ?m" using dec by (rule mult_le_mono2)
      then have "length rs \<ge> boundedWait * ?m' + (boundedWait - 0)"
        using Cons.prems(7) True by (simp add: algebra_simps)
      then have "\<exists>n. wait_for_commiters mx rs 0 (co_heap r) (co_globals r) = Inr n \<and> n \<le> ?m'"
        using Cons.prems up by (intro Cons.IH) auto
      then show ?thesis using dec new by auto
    qed simp
  qed
qed


text \<open>
  C21. The wait for the other threads' commits ends: if the versions that its rounds read never
  decrease and stay below \<open>H\<close> and \<open>G\<close>, it is over after at most 100000 times \<open>H + G + 2\<close>
  rounds, whatever the other threads do, with at most \<open>H + G + 1\<close> updates of the memory.
\<close>

theorem wait_for_commiters_terminates:
  assumes "sorted (map co_heap rs)" and "sorted (map co_globals rs)"
    and "\<forall>r \<in> set rs. unat (co_heap r) \<le> H \<and> unat (co_globals r) \<le> G"
    and "length rs \<ge> boundedWait * (H + G + 2)"
  shows "\<exists>n. wait_for_commiters maxthreads rs 0 heapVersion globalsVersion = Inr n \<and> n \<le> Suc (H + G)"
proof -
  have "\<exists>n. wait_for_commiters maxthreads rs c h g = Inr n \<and> n \<le> Suc (H + G)"
    if "c \<le> boundedWait" "length rs \<ge> boundedWait * (H + G + 1) + (boundedWait - c)" for c h g
    using that assms(1-3)
  proof (induction rs arbitrary: c)
    case Nil
    then show ?case by (simp add: boundedWait_def)
  next
    case (Cons r rs)
    have later: "\<forall>x \<in> set rs. co_heap r \<le> co_heap x \<and> co_globals r \<le> co_globals x"
      using Cons.prems(3,4) by simp
    show ?case
    proof (cases "c < boundedWait")
      case True
      have 1: "\<exists>n. wait_for_commiters maxthreads rs (Suc c) h g = Inr n \<and> n \<le> Suc (H + G)"
        using Cons.prems True by (intro Cons.IH) auto
      let ?m = "(H - unat (co_heap r)) + (G - unat (co_globals r))"
      have "?m \<le> H + G" by linarith
      then have "boundedWait * ?m \<le> boundedWait * (H + G)" by (rule mult_le_mono2)
      then have len: "length rs \<ge> boundedWait * ?m + (boundedWait - 0)"
        using Cons.prems(2) True by (simp add: algebra_simps)
      have 2: "\<exists>n. wait_for_commiters maxthreads rs 0 (co_heap r) (co_globals r) = Inr n \<and> n \<le> ?m"
        using Cons.prems later len by (intro wait_caught_up) auto
      obtain n m where "wait_for_commiters maxthreads rs (Suc c) h g = Inr n" "n \<le> Suc (H + G)"
        "wait_for_commiters maxthreads rs 0 (co_heap r) (co_globals r) = Inr m" "m \<le> H + G"
        using 1 2 \<open>?m \<le> H + G\<close> le_trans by blast
      then show ?thesis by simp
    qed simp
  qed
  from this[of 0] show ?thesis using assms(4) by simp
qed

theorem wait_for_commiters_terminates_witness:
  "\<exists>n. wait_for_commiters 3 (replicate 200000 \<lparr>co_committed = 0, co_committed_again = 0,
     co_total_dirty = 0, co_heap = 0, co_globals = 0\<rparr>) 0 5 0 = Inr n \<and> n \<le> 1"
  using wait_for_commiters_terminates[of "replicate 200000 \<lparr>co_committed = 0, co_committed_again = 0,
     co_total_dirty = 0, co_heap = 0, co_globals = 0\<rparr>" 0 0 3 5 0]
  by (simp add: boundedWait_def sorted_replicate)

end
