(* ===== verification/Token.thy ===== *)
theory Token
  imports Determ
begin

text \<open>
  \<open>getToken\<close> of \<open>determ.h\<close> as a thread executes it, one access to shared state at a time, with the
  threads interleaved: the spinning on the logical clock, the wait for a free token, the
  compare-and-swap, and the check of the activation counter that sends a thread back to the start.
\<close>

subsection \<open>A thread in getToken\<close>

datatype token_pc = TkOut | TkStart | TkLoop | TkLowest | TkRead | TkPoll | TkWaitFree | TkCas | TkCheck
  | TkRelease | TkHold

record token_local =
  tk_pc :: token_pc
  tk_spin_counter :: nat
  tk_is_lowest :: bool
  tk_polled :: bool
  tk_counter :: u64

definition TOKEN_SPIN_MAX :: nat where "TOKEN_SPIN_MAX = 10000000"

text \<open>One step of thread \<open>t\<close>; \<open>TkHold\<close> is the return of the call.\<close>

fun token_step ::
  "'c clock_api \<Rightarrow> nat \<Rightarrow> token_local \<times> 'c determ \<Rightarrow> (token_local \<times> 'c determ) result" where
  "token_step K t (l, s) =
     (case tk_pc l of
        TkOut \<Rightarrow> Inr (l, s)
      | TkStart \<Rightarrow> Inr (l\<lparr>tk_pc := TkLoop, tk_spin_counter := 0, tk_polled := False,
            tk_counter := ds_activation_counter s, tk_is_lowest := False\<rparr>, s)
      | TkLoop \<Rightarrow> Inr (l\<lparr>tk_pc := (if \<not> tk_is_lowest l \<and> tk_spin_counter l < TOKEN_SPIN_MAX then TkLowest
            else if \<not> tk_is_lowest l then TkPoll else TkWaitFree)\<rparr>, s)
      | TkLowest \<Rightarrow> bindR (ca_is_lowest K (ds_clock s)) (\<lambda>(b, c).
            Inr (l\<lparr>tk_is_lowest := b, tk_pc := TkRead\<rparr>, s\<lparr>ds_clock := c\<rparr>))
      | TkRead \<Rightarrow> Inr (l\<lparr>tk_counter := ds_activation_counter s, tk_spin_counter := Suc (tk_spin_counter l),
            tk_pc := TkLoop\<rparr>, s)
      | TkPoll \<Rightarrow> bindR (ca_is_lowest_wait K (ds_clock s)) (\<lambda>(b, c).
            Inr (l\<lparr>tk_polled := b, tk_pc := TkWaitFree\<rparr>, s\<lparr>ds_clock := c\<rparr>))
      | TkWaitFree \<Rightarrow> Inr (if ds_tokenpos s = None then l\<lparr>tk_pc := TkCas\<rparr> else l, s)
      | TkCas \<Rightarrow> Inr (if ds_tokenpos s = None
            then (l\<lparr>tk_pc := TkCheck\<rparr>, s\<lparr>ds_tokenpos := Some t\<rparr>)
            else (l\<lparr>tk_pc := TkWaitFree\<rparr>, s))
      | TkCheck \<Rightarrow> Inr (if ds_activation_counter s \<noteq> tk_counter l
            then (l\<lparr>tk_pc := TkRelease\<rparr>, on_wakeup K s)
            else (l\<lparr>tk_pc := TkHold\<rparr>, s\<lparr>ds_last_getter := t\<rparr>))
      | TkRelease \<Rightarrow> Inr (l\<lparr>tk_pc := TkStart\<rparr>, s\<lparr>ds_tokenpos := None\<rparr>)
      | TkHold \<Rightarrow> Inr (l, s))"

subsection \<open>All threads\<close>

record 'c token_sys =
  tks_shared :: "'c determ"
  tks_local :: "nat \<Rightarrow> token_local"

text \<open>
  What threads do: call \<open>getToken\<close>, take one step in it, and, with the token, put it back, activate a
  thread and count that activation (the two halves of \<open>lock_release\<close> and \<open>cond_signal\<close>). The clock of
  a running thread moves at any time.
\<close>

datatype 'c token_event = EvCall nat | EvStep nat | EvPut nat bool | EvActivate nat nat | EvCount nat
  | EvClock "'c \<Rightarrow> 'c"

definition pc_of :: "'c token_sys \<Rightarrow> nat \<Rightarrow> token_pc" where
  "pc_of S t = tk_pc (tks_local S t)"

fun token_enabled :: "'c token_event \<Rightarrow> 'c token_sys \<Rightarrow> bool" where
  "token_enabled (EvCall t) S = (pc_of S t = TkOut)"
| "token_enabled (EvStep t) S = True"
| "token_enabled (EvPut t ff) S = (pc_of S t = TkHold)"
| "token_enabled (EvActivate t u) S = (pc_of S t = TkHold)"
| "token_enabled (EvCount t) S = (pc_of S t = TkHold)"
| "token_enabled (EvClock f) S = True"

definition upd_local :: "nat \<Rightarrow> token_local \<Rightarrow> 'c token_sys \<Rightarrow> 'c token_sys" where
  "upd_local t l S = S\<lparr>tks_local := (tks_local S)(t := l)\<rparr>"

fun token_exec ::
  "(nat \<Rightarrow> 'c clock_api) \<Rightarrow> 'c token_event \<Rightarrow> 'c token_sys \<Rightarrow> 'c token_sys result" where
  "token_exec K (EvCall t) S = Inr (upd_local t ((tks_local S t)\<lparr>tk_pc := TkStart\<rparr>) S)"
| "token_exec K (EvStep t) S =
     bindR (token_step (K t) t (tks_local S t, tks_shared S)) (\<lambda>(l, s).
       Inr (upd_local t l (S\<lparr>tks_shared := s\<rparr>)))"
| "token_exec K (EvPut t ff) S =
     bindR (put_token (K t) t ff (tks_shared S)) (\<lambda>s.
       Inr (upd_local t ((tks_local S t)\<lparr>tk_pc := TkOut\<rparr>) (S\<lparr>tks_shared := s\<rparr>)))"
| "token_exec K (EvActivate t u) S =
     bindR (ca_activate_other (K t) u (ds_clock (tks_shared S))) (\<lambda>(b, c).
       Inr (S\<lparr>tks_shared := (tks_shared S)\<lparr>ds_clock := c\<rparr>\<rparr>))"
| "token_exec K (EvCount t) S =
     Inr (S\<lparr>tks_shared := (tks_shared S)
       \<lparr>ds_activation_counter := ds_activation_counter (tks_shared S) + 1\<rparr>\<rparr>)"
| "token_exec K (EvClock f) S =
     Inr (S\<lparr>tks_shared := (tks_shared S)\<lparr>ds_clock := f (ds_clock (tks_shared S))\<rparr>\<rparr>)"

inductive token_reachable ::
  "(nat \<Rightarrow> 'c clock_api) \<Rightarrow> 'c token_sys \<Rightarrow> bool" for K :: "nat \<Rightarrow> 'c clock_api" where
  token_init: "ds_tokenpos (tks_shared S) = None \<Longrightarrow> (\<And>t. pc_of S t = TkOut) \<Longrightarrow> token_reachable K S"
| token_event: "token_reachable K S \<Longrightarrow> token_enabled e S \<Longrightarrow> token_exec K e S = Inr S' \<Longrightarrow>
    token_reachable K S'"

subsection \<open>The token is held by one thread\<close>

definition owns_token :: "token_pc \<Rightarrow> bool" where
  "owns_token pc \<longleftrightarrow> pc \<in> {TkCheck, TkRelease, TkHold}"

definition token_inv :: "'c token_sys \<Rightarrow> bool" where
  "token_inv S \<longleftrightarrow> (\<forall>t. owns_token (pc_of S t) \<longleftrightarrow> ds_tokenpos (tks_shared S) = Some t)"

lemma pc_of_upd [simp]: "pc_of (upd_local t l S) u = (if u = t then tk_pc l else pc_of S u)"
  by (simp add: pc_of_def upd_local_def)

lemma local_upd [simp]: "tks_local (upd_local t l S) u = (if u = t then l else tks_local S u)"
  by (simp add: upd_local_def)

lemma shared_upd [simp]: "tks_shared (upd_local t l S) = tks_shared S"
  by (simp add: upd_local_def)

lemma pc_of_shared [simp]: "pc_of (S\<lparr>tks_shared := s\<rparr>) = pc_of S"
  by (simp add: pc_of_def fun_eq_iff)

lemma token_step_pos:
  assumes "token_step K t (l, s) = Inr (l', s')" and "owns_token (tk_pc l) \<longleftrightarrow> ds_tokenpos s = Some t"
  shows "(owns_token (tk_pc l') \<longleftrightarrow> ds_tokenpos s' = Some t) \<and>
    (\<forall>u. u \<noteq> t \<longrightarrow> (ds_tokenpos s' = Some u \<longleftrightarrow> ds_tokenpos s = Some u))"
  using assms
  by (cases "tk_pc l")
    (auto simp: owns_token_def bindR_Inr_iff on_wakeup_def split: if_splits prod.splits)

lemma token_invD: "token_inv S \<Longrightarrow> owns_token (pc_of S t) \<longleftrightarrow> ds_tokenpos (tks_shared S) = Some t"
  by (simp add: token_inv_def)

lemma token_inv_change:
  assumes "token_inv S"
    and "owns_token (pc_of S' t) \<longleftrightarrow> ds_tokenpos (tks_shared S') = Some t"
    and "\<And>u. u \<noteq> t \<Longrightarrow> pc_of S' u = pc_of S u \<and>
      (ds_tokenpos (tks_shared S') = Some u \<longleftrightarrow> ds_tokenpos (tks_shared S) = Some u)"
  shows "token_inv S'"
  unfolding token_inv_def
proof
  fix u show "owns_token (pc_of S' u) \<longleftrightarrow> ds_tokenpos (tks_shared S') = Some u"
    using assms by (cases "u = t") (simp_all add: token_inv_def)
qed

lemma token_exec_inv:
  assumes "token_inv S" "token_enabled e S" "token_exec K e S = Inr S'"
  shows "token_inv S'"
proof (cases e)
  case (EvCall t)
  then show ?thesis
    using assms token_invD[OF assms(1), of t]
    by (intro token_inv_change[of S S' t]) (auto simp: owns_token_def)
next
  case (EvStep t)
  then obtain l s where st: "token_step (K t) t (tks_local S t, tks_shared S) = Inr (l, s)"
    and S': "S' = upd_local t l (S\<lparr>tks_shared := s\<rparr>)"
    using assms(3) by (auto simp: bindR_Inr_iff simp del: token_step.simps)
  have "owns_token (tk_pc (tks_local S t)) \<longleftrightarrow> ds_tokenpos (tks_shared S) = Some t"
    using token_invD[OF assms(1), of t] by (simp add: pc_of_def)
  from token_step_pos[OF st this] show ?thesis
    unfolding S' by (intro token_inv_change[OF assms(1), of _ t]) simp_all
next
  case (EvPut t ff)
  then have "ds_tokenpos (tks_shared S) = Some t"
    using assms(2) token_invD[OF assms(1), of t] by (simp add: owns_token_def)
  then show ?thesis
    using assms EvPut
    by (intro token_inv_change[of S S' t])
      (auto simp: owns_token_def bindR_Inr_iff put_token_def upd_thread_def Let_def split: if_splits)
qed (use assms in \<open>auto simp: token_inv_def bindR_Inr_iff\<close>)

lemma token_reachable_inv: "token_reachable K S \<Longrightarrow> token_inv S"
proof (induction rule: token_reachable.induct)
  case (token_init S)
  then show ?case by (simp add: token_inv_def owns_token_def)
qed (blast intro: token_exec_inv)


subsection \<open>Counting activations\<close>

text \<open>
  Ghost state: how many activations have been counted so far, and how many there were when each
  thread last read the counter.
\<close>

fun counted_after :: "'c token_event \<Rightarrow> nat \<Rightarrow> nat" where
  "counted_after (EvCount t) n = Suc n"
| "counted_after e n = n"

fun reads_after :: "'c token_event \<Rightarrow> 'c token_sys \<Rightarrow> nat \<Rightarrow> (nat \<Rightarrow> nat) \<Rightarrow> nat \<Rightarrow> nat" where
  "reads_after (EvStep t) S n r = (if pc_of S t \<in> {TkStart, TkRead} then r(t := n) else r)"
| "reads_after e S n r = r"

inductive token_counted ::
  "(nat \<Rightarrow> 'c clock_api) \<Rightarrow> 'c token_sys \<Rightarrow> nat \<Rightarrow> (nat \<Rightarrow> nat) \<Rightarrow> bool" for K :: "nat \<Rightarrow> 'c clock_api" where
  counted_init: "ds_tokenpos (tks_shared S) = None \<Longrightarrow> (\<And>t. pc_of S t = TkOut) \<Longrightarrow>
    ds_activation_counter (tks_shared S) = 0 \<Longrightarrow> token_counted K S 0 (\<lambda>_. 0)"
| counted_event: "token_counted K S n r \<Longrightarrow> token_enabled e S \<Longrightarrow> token_exec K e S = Inr S' \<Longrightarrow>
    token_counted K S' (counted_after e n) (reads_after e S n r)"

lemma token_counted_reachable: "token_counted K S n r \<Longrightarrow> token_reachable K S"
  by (induction rule: token_counted.induct) (auto intro: token_reachable.intros)

definition counted_inv :: "'c token_sys \<Rightarrow> nat \<Rightarrow> (nat \<Rightarrow> nat) \<Rightarrow> bool" where
  "counted_inv S n r \<longleftrightarrow> ds_activation_counter (tks_shared S) = of_nat n \<and>
     (\<forall>t. r t \<le> n \<and> (pc_of S t \<notin> {TkOut, TkStart} \<longrightarrow> tk_counter (tks_local S t) = of_nat (r t)))"

lemma token_step_counter:
  assumes "token_step K t (l, s) = Inr (l', s')"
  shows "ds_activation_counter s' = ds_activation_counter s \<and>
    (tk_pc l' \<notin> {TkOut, TkStart} \<longrightarrow> tk_counter l' =
      (if tk_pc l \<in> {TkStart, TkRead} then ds_activation_counter s else tk_counter l)) \<and>
    (tk_pc l \<in> {TkOut, TkStart} \<longrightarrow> tk_pc l' \<notin> {TkOut, TkStart} \<longrightarrow> tk_pc l = TkStart)"
  using assms
  by (cases "tk_pc l") (auto simp: bindR_Inr_iff on_wakeup_def split: if_splits prod.splits)

lemma token_counted_inv: "token_counted K S n r \<Longrightarrow> counted_inv S n r"
proof (induction rule: token_counted.induct)
  case (counted_init S)
  then show ?case by (simp add: counted_inv_def)
next
  case (counted_event S n r e S')
  note inv = counted_event.IH[unfolded counted_inv_def]
  show ?case
  proof (cases e)
    case (EvStep t)
    then obtain l s where st: "token_step (K t) t (tks_local S t, tks_shared S) = Inr (l, s)"
      and S': "S' = upd_local t l (S\<lparr>tks_shared := s\<rparr>)"
      using counted_event by (auto simp: bindR_Inr_iff simp del: token_step.simps)
    note c = token_step_counter[OF st]
    have pcl: "tk_pc (tks_local S u) = pc_of S u" for u by (simp add: pc_of_def)
    have "tk_counter l = of_nat (if pc_of S t \<in> {TkStart, TkRead} then n else r t)"
      if "tk_pc l \<notin> {TkOut, TkStart}"
      using c inv that by (cases "pc_of S t \<in> {TkStart, TkRead}") (auto simp: pcl)
    then show ?thesis
      using c inv EvStep by (auto simp: counted_inv_def S')
  next
    case (EvPut t ff)
    then show ?thesis
      using counted_event inv
      by (auto simp: counted_inv_def bindR_Inr_iff put_token_def upd_thread_def Let_def
          split: option.splits if_splits)
  next
    case (EvCall t)
    then show ?thesis
      using counted_event inv by (auto simp: counted_inv_def)
  qed (use counted_event inv in \<open>auto simp: counted_inv_def bindR_Inr_iff intro: le_SucI\<close>)
qed

text \<open>
  C4. The token is never held twice, the holder can always put it back, and the check that ends
  \<open>getToken\<close> keeps the token exactly when the number of activations counted since the thread's last
  reading of the counter is a multiple of 2^64.
\<close>

theorem token_protocol_safe:
  assumes "token_counted K S n r"
  shows "(owns_token (pc_of S t) \<longrightarrow> owns_token (pc_of S u) \<longrightarrow> t = u) \<and>
    (pc_of S t = TkHold \<longrightarrow> (\<exists>s'. put_token (K t) t ff (tks_shared S) = Inr s' \<and> ds_tokenpos s' = None)) \<and>
    (pc_of S t = TkCheck \<longrightarrow> (\<exists>S'. token_exec K (EvStep t) S = Inr S' \<and>
       pc_of S' t = (if 2 ^ 64 dvd n - r t then TkHold else TkRelease)))"
proof (intro conjI impI)
  note inv = token_reachable_inv[OF token_counted_reachable[OF assms]]
  show "t = u" if "owns_token (pc_of S t)" "owns_token (pc_of S u)"
    using that token_invD[OF inv, of t] token_invD[OF inv, of u] by simp
  show "\<exists>s'. put_token (K t) t ff (tks_shared S) = Inr s' \<and> ds_tokenpos s' = None" if "pc_of S t = TkHold"
    using that token_invD[OF inv, of t]
    by (auto simp: owns_token_def put_token_def upd_thread_def Let_def)
  assume pc: "pc_of S t = TkCheck"
  have c: "ds_activation_counter (tks_shared S) = of_nat n" "r t \<le> n" "tk_counter (tks_local S t) = of_nat (r t)"
    using token_counted_inv[OF assms] pc by (auto simp: counted_inv_def)
  have "(of_nat n :: u64) = of_nat (r t) \<longleftrightarrow> 2 ^ 64 dvd n - r t"
  proof -
    have "(of_nat n :: u64) = of_nat (r t) \<longleftrightarrow> n mod 2 ^ 64 = r t mod 2 ^ 64"
      by (simp add: word_of_nat_eq_iff take_bit_eq_mod)
    also have "\<dots> \<longleftrightarrow> 2 ^ 64 dvd n - r t"
      using mod_eq_dvd_iff_nat[OF c(2)] by blast
    finally show ?thesis .
  qed
  then show "\<exists>S'. token_exec K (EvStep t) S = Inr S' \<and>
      pc_of S' t = (if 2 ^ 64 dvd n - r t then TkHold else TkRelease)"
    using c pc by (simp add: pc_of_def)
qed


subsection \<open>Runs\<close>

fun token_run ::
  "(nat \<Rightarrow> 'c clock_api) \<Rightarrow> 'c token_event list \<Rightarrow> 'c token_sys \<times> nat \<times> (nat \<Rightarrow> nat) \<Rightarrow>
   ('c token_sys \<times> nat \<times> (nat \<Rightarrow> nat)) option" where
  "token_run K [] st = Some st"
| "token_run K (e # es) (S, n, r) =
     (if token_enabled e S
      then (case token_exec K e S of
              Inl f \<Rightarrow> None
            | Inr S' \<Rightarrow> token_run K es (S', counted_after e n, reads_after e S n r))
      else None)"

lemma token_run_counted:
  "token_counted K S n r \<Longrightarrow> token_run K es (S, n, r) = Some (S', n', r') \<Longrightarrow> token_counted K S' n' r'"
proof (induction es arbitrary: S n r)
  case (Cons e es)
  from Cons.prems(2) obtain S1 where "token_enabled e S" "token_exec K e S = Inr S1"
    "token_run K es (S1, counted_after e n, reads_after e S n r) = Some (S', n', r')"
    by (auto split: if_splits sum.splits)
  with Cons show ?case by (blast intro: counted_event)
qed simp

text \<open>A clock given by a table: the active threads and the ticks of every thread.\<close>

type_synonym table = "nat list \<times> (nat \<Rightarrow> nat)"

fun table_lowest :: "nat \<Rightarrow> table \<Rightarrow> bool" where
  "table_lowest t (act, ticks) \<longleftrightarrow> t \<in> set act \<and>
     (\<forall>u \<in> set act. u = t \<or> ticks t < ticks u \<or> ticks t = ticks u \<and> t < u)"

definition table_clock :: "nat \<Rightarrow> table clock_api" where
  "table_clock t = \<lparr>
     ca_halt = \<lambda>(act, ticks). Inr (remove1 t act, ticks),
     ca_activate = \<lambda>(act, ticks). Inr (t # act, ticks),
     ca_activate_other = \<lambda>u (act, ticks). Inr (table_lowest u (u # act, ticks), (u # act, ticks)),
     ca_on_wakeup = \<lambda>c. c,
     ca_reset = \<lambda>(act, ticks). Inr (act, ticks(t := 0)),
     ca_read = \<lambda>(act, ticks). of_nat (ticks t),
     ca_clear_single = \<lambda>c. c,
     ca_is_lowest = \<lambda>c. Inr (table_lowest t c, c),
     ca_is_lowest_wait = \<lambda>c. Inr (True, c),
     ca_add_ticks = \<lambda>n (act, ticks). Inr (act, ticks(t := ticks t + unat n)),
     ca_single_active = \<lambda>(act, ticks). act = [t],
     ca_estimate_next_tx = \<lambda>m c. - 1, ca_last_tx_size = \<lambda>c. 0, ca_end_coarsened = Inr,
     ca_stop = \<lambda>m c. Inr c, ca_stop_no_notify = \<lambda>m c. Inr c, ca_start = Inr, ca_start_no_notify = Inr,
     ca_close = Inr\<rparr>"

definition table_determ :: "table determ" where
  "table_determ = \<lparr>ds_links = \<lambda>_. \<lparr>e_prev = 0, e_next = 0\<rparr>,
     ds_threads = \<lambda>_. \<lparr>te_tid = 0, te_status = STATUS_READY, te_parent = 0, te_cond = NULL,
       te_joinee = 0, te_last_logical_clock = 0\<rparr>,
     ds_locks = \<lambda>_. \<lparr>lk_acquired = False, lk_waiters = 0, lk_head = 0\<rparr>,
     ds_conds = \<lambda>_. \<lparr>cv_waiters = 0, cv_cond = 0, cv_head = 0\<rparr>,
     ds_barriers = \<lambda>_. \<lparr>br_maxthreads = 0, br_threads = 0, br_arrival_phase = False, br_head = 0,
       br_counter = 0, br_heapVersion = 0, br_globalsVersion = 0, br_total_dirty = 0,
       br_committed = 0\<rparr>,
     ds_var = \<lambda>_. NULL, ds_tokenpos = None, ds_activation_counter = 0, ds_last_token_value = 0,
     ds_last_putter = 0, ds_last_getter = 0,
     ds_clock = ([0, 1], \<lambda>t. if t = 0 then 4 else if t = 1 then 5 else 3)\<rparr>"

text \<open>Threads 0 and 1 are active with clocks 4 and 5, and thread 2, with clock 3, is halted.\<close>

definition token_sample :: "table token_sys" where
  "token_sample = \<lparr>tks_shared = table_determ, tks_local = \<lambda>_. \<lparr>tk_pc = TkOut, tk_spin_counter = 0,
     tk_is_lowest = False, tk_polled = False, tk_counter = 0\<rparr>\<rparr>"

definition token_sample_run :: "table token_event list" where
  "token_sample_run = [EvCall 0, EvStep 0, EvStep 0, EvStep 0, EvStep 0, EvStep 0, EvStep 0, EvStep 0]"

lemmas token_simps = token_sample_def table_determ_def table_clock_def pc_of_def upd_local_def
  TOKEN_SPIN_MAX_def put_token_def upd_thread_def

theorem token_protocol_safe_witness:
  "\<exists>S n r. token_run table_clock token_sample_run (token_sample, 0, \<lambda>_. 0) = Some (S, n, r) \<and>
    pc_of S 0 = TkCheck \<and>
    (\<exists>S'. token_exec table_clock (EvStep 0) S = Inr S' \<and> pc_of S' 0 = TkHold)"
proof -
  obtain S n r where run: "token_run table_clock token_sample_run (token_sample, 0, \<lambda>_. 0) = Some (S, n, r)"
    "pc_of S 0 = TkCheck" "n = 0" "r 0 = 0"
    by (simp add: token_simps token_sample_run_def)
  have "token_counted table_clock token_sample 0 (\<lambda>_. 0)"
    by (rule counted_init) (simp_all add: token_simps)
  from token_run_counted[OF this run(1)]
  have "token_counted table_clock S n r" .
  from token_protocol_safe[OF this, of 0] run show ?thesis by auto
qed

text \<open>
  The check does not cover the time between finding out that one is the lowest and reading the
  counter. Here thread 0 holds the token; thread 1 finds itself the lowest; thread 0 then
  activates thread 2, whose clock is lower, and counts that; only now does thread 1 read the
  counter, so that the check passes and thread 1 keeps a token that thread 2 should get first.
\<close>

definition stale_run :: "table token_event list" where
  "stale_run = [EvCall 0, EvStep 0, EvStep 0, EvStep 0, EvStep 0, EvStep 0, EvStep 0, EvStep 0, EvStep 0,
      EvClock (\<lambda>(act, ticks). (act, ticks(0 := 6))), EvCall 1, EvStep 1, EvStep 1, EvStep 1,
      EvActivate 0 2, EvCount 0, EvStep 1, EvStep 1, EvPut 0 True, EvStep 1, EvStep 1, EvStep 1]"

theorem token_stale_lowest:
  "\<exists>S n r. token_run table_clock stale_run (token_sample, 0, \<lambda>_. 0) = Some (S, n, r) \<and>
    pc_of S 1 = TkHold \<and> ds_tokenpos (tks_shared S) = Some 1 \<and>
    ca_is_lowest (table_clock 1) (ds_clock (tks_shared S)) = Inr (False, ds_clock (tks_shared S)) \<and>
    ca_is_lowest (table_clock 2) (ds_clock (tks_shared S)) = Inr (True, ds_clock (tks_shared S))"
  by (simp add: token_simps stale_run_def)

end
