(* ===== verification/Thread_Pool.thy ===== *)
theory Thread_Pool
  imports Token Run_Config
begin

text \<open>
  The pool of parked threads of \<open>thread_pool.h\<close>: threads that have finished are kept and used again
  for the next ones that are created. The pool's list is a linear doubly linked list of entries.
\<close>

subsection \<open>State\<close>

definition THREAD_POOL_MAX_SIZE :: nat where "THREAD_POOL_MAX_SIZE = 256"

datatype pool_status = THREAD_POOL_ENTRY_EXIT | THREAD_POOL_ENTRY_WAITING | THREAD_POOL_ENTRY_READY
  | THREAD_POOL_ENTRY_INIT

record pool_entry =
  pe_run_function :: nat
  pe_run_function_arg :: addr
  pe_thread_status_obj :: addr
  pe_id :: nat
  pe_status :: pool_status
  pe_is_stack_allocated_var :: bool
  pe_stack_space :: "u8 list"
  pe_stack_size :: nat
  pe_stack_start_addr :: addr

text \<open>The entry with index \<open>i\<close> of \<open>thread_arr\<close> is at address \<open>i + 1\<close>; its links are in the store.\<close>

record thread_pool =
  pl_head :: addr
  pl_tail :: addr
  pl_links :: store
  pl_entries :: "addr \<Rightarrow> pool_entry"
  pl_id_counter :: nat

definition upd_entry :: "addr \<Rightarrow> (pool_entry \<Rightarrow> pool_entry) \<Rightarrow> thread_pool \<Rightarrow> thread_pool" where
  "upd_entry e f p = p\<lparr>pl_entries := (pl_entries p)(e := f (pl_entries p e))\<rparr>"

definition set_links :: "addr \<Rightarrow> (entry \<Rightarrow> entry) \<Rightarrow> thread_pool \<Rightarrow> thread_pool" where
  "set_links e f p = p\<lparr>pl_links := (pl_links p)(e := f (pl_links p e))\<rparr>"

text \<open>The readable memory of the parent, byte by byte.\<close>

type_synonym memory = "addr \<Rightarrow> u8 option"

subsection \<open>Operations\<close>

definition pool_initialize :: "thread_pool \<Rightarrow> thread_pool" where
  "pool_initialize p =
     p\<lparr>pl_entries := \<lambda>e. if 0 < e \<and> e \<le> THREAD_POOL_MAX_SIZE
         then (pl_entries p e)\<lparr>pe_status := THREAD_POOL_ENTRY_INIT, pe_id := e,
                pe_run_function_arg := NULL, pe_run_function := 0, pe_thread_status_obj := NULL,
                pe_is_stack_allocated_var := False, pe_stack_size := 0, pe_stack_start_addr := NULL\<rparr>
         else pl_entries p e,
       pl_id_counter := 0, pl_head := NULL, pl_tail := NULL\<rparr>"

definition add_thread_to_pool :: "run_config \<Rightarrow> addr \<Rightarrow> thread_pool \<Rightarrow> thread_pool" where
  "add_thread_to_pool R e p =
     (let p1 = set_links e (\<lambda>l. l\<lparr>e_next := NULL, e_prev := NULL\<rparr>) p;
          p2 = (if pl_head p1 = NULL then p1\<lparr>pl_head := e, pl_tail := e\<rparr>
                else (let p' = set_links e (\<lambda>l. l\<lparr>e_next := pl_head p1\<rparr>) p1;
                          p'' = set_links (pl_head p1) (\<lambda>l. l\<lparr>e_prev := e\<rparr>) p'
                      in p''\<lparr>pl_head := e\<rparr>))
      in upd_entry e (\<lambda>x. x\<lparr>pe_is_stack_allocated_var := False,
           pe_status := (if rc_thread_pool R then THREAD_POOL_ENTRY_WAITING else THREAD_POOL_ENTRY_INIT)\<rparr>) p2)"

definition add_thread_to_pool_by_id :: "run_config \<Rightarrow> nat \<Rightarrow> thread_pool \<Rightarrow> thread_pool result" where
  "add_thread_to_pool_by_id R ident p =
     (if ident = 0 then Inl AssertFailed else Inr (add_thread_to_pool R ident p))"

text \<open>
  \<open>park_thread\<close>: the thread sleeps until it is used again; then the bytes saved from the parent's
  stack are written back. The result is what is written, from which address on.
\<close>

definition copy_parent_stack :: "pool_entry \<Rightarrow> (addr \<times> u8 list) option" where
  "copy_parent_stack x =
     (if pe_stack_start_addr x \<noteq> NULL
      then Some (pe_stack_start_addr x, take (pe_stack_size x) (pe_stack_space x)) else None)"

definition park_thread_begin :: "run_config \<Rightarrow> addr \<Rightarrow> thread_pool \<Rightarrow> thread_pool" where
  "park_thread_begin R e p =
     (if rc_thread_pool R then p else upd_entry e (\<lambda>x. x\<lparr>pe_status := THREAD_POOL_ENTRY_EXIT\<rparr>) p)"

definition park_thread_end :: "run_config \<Rightarrow> addr \<Rightarrow> thread_pool \<Rightarrow> (addr \<times> u8 list) option" where
  "park_thread_end R e p =
     (if rc_thread_pool R \<and> pe_is_stack_allocated_var (pl_entries p e)
      then copy_parent_stack (pl_entries p e) else None)"

definition set_threadstatus :: "addr \<Rightarrow> addr \<Rightarrow> thread_pool \<Rightarrow> thread_pool" where
  "set_threadstatus e obj = upd_entry e (\<lambda>x. x\<lparr>pe_thread_status_obj := obj\<rparr>)"

definition set_exit_by_id :: "nat \<Rightarrow> thread_pool \<Rightarrow> thread_pool" where
  "set_exit_by_id ident = upd_entry ident
     (\<lambda>x. x\<lparr>pe_status := THREAD_POOL_ENTRY_EXIT, pe_is_stack_allocated_var := False\<rparr>)"

text \<open>
  A read that is not allowed is caught, and leaves the start address null.
\<close>

definition STACK_COPY_SIZE :: nat where "STACK_COPY_SIZE = 300"

definition save_parent_stack :: "memory \<Rightarrow> addr \<Rightarrow> pool_entry \<Rightarrow> pool_entry" where
  "save_parent_stack mem arg x =
     (let bytes = map (\<lambda>i. mem (arg + i)) [0..<STACK_COPY_SIZE];
          x1 = x\<lparr>pe_stack_size := STACK_COPY_SIZE, pe_stack_start_addr := NULL\<rparr> in
      if None \<in> set bytes then x1
      else x1\<lparr>pe_stack_space := map the bytes @ drop STACK_COPY_SIZE (pe_stack_space x1),
             pe_stack_start_addr := arg\<rparr>)"

definition take_entry :: "thread_pool \<Rightarrow> addr \<times> thread_pool" where
  "take_entry p =
     (let e = pl_tail p in
      if e \<noteq> NULL
      then (let prev = e_prev (pl_links p e); p1 = p\<lparr>pl_tail := prev\<rparr> in
            if prev \<noteq> NULL then (e, set_links prev (\<lambda>l. l\<lparr>e_next := NULL\<rparr>) p1)
            else (e, p1\<lparr>pl_head := NULL\<rparr>))
      else if pl_id_counter p < THREAD_POOL_MAX_SIZE - 1
      then (Suc (pl_id_counter p), p\<lparr>pl_id_counter := Suc (pl_id_counter p)\<rparr>)
      else (NULL, p))"

datatype arg_allocation_t = STACK_ALLOCATED_ARG | HEAP_OR_GLOBAL_ARG

definition get_thread ::
  "run_config \<Rightarrow> 'c clock_api \<Rightarrow> memory \<Rightarrow> nat \<Rightarrow> addr \<Rightarrow> arg_allocation_t \<Rightarrow> thread_pool \<Rightarrow> 'c \<Rightarrow>
   (addr \<times> thread_pool \<times> 'c) result" where
  "get_thread R K mem run arg arg_alloc p c =
     (case take_entry p of (e, p1) \<Rightarrow>
      if e = NULL then Inl NullDeref
      else
        (let p2 = upd_entry e (\<lambda>x. x\<lparr>pe_run_function := run, pe_run_function_arg := arg,
                    pe_is_stack_allocated_var := (arg_alloc = STACK_ALLOCATED_ARG)\<rparr>) p1;
             p3 = (if rc_thread_pool R \<and> pe_is_stack_allocated_var (pl_entries p2 e) \<and>
                      pe_status (pl_entries p2 e) \<noteq> THREAD_POOL_ENTRY_INIT
                   then upd_entry e (save_parent_stack mem arg) p2 else p2)
         in bindR (ca_activate_other K (pe_id (pl_entries p3 e)) c) (\<lambda>(lowest, c').
            Inr (e, upd_entry e (\<lambda>x. x\<lparr>pe_status :=
              (if pe_status x = THREAD_POOL_ENTRY_WAITING then THREAD_POOL_ENTRY_READY
               else THREAD_POOL_ENTRY_INIT)\<rparr>) p3, c'))))"

definition terminate_all :: "run_config \<Rightarrow> thread_pool \<Rightarrow> thread_pool" where
  "terminate_all R p =
     (if rc_thread_pool R
      then p\<lparr>pl_entries := \<lambda>e. if 0 < e \<and> e \<le> THREAD_POOL_MAX_SIZE \<and>
             pe_status (pl_entries p e) = THREAD_POOL_ENTRY_WAITING
           then (pl_entries p e)\<lparr>pe_status := THREAD_POOL_ENTRY_EXIT\<rparr> else pl_entries p e\<rparr>
      else p)"

subsection \<open>The pool is a queue\<close>

text \<open>\<open>xs\<close>: the parked entries, the one parked last first.\<close>

definition pool_rep :: "thread_pool \<Rightarrow> addr list \<Rightarrow> bool" where
  "pool_rep p xs \<longleftrightarrow> pl_head p = hd (xs @ [NULL]) \<and> pl_tail p = last (NULL # xs) \<and>
     dseg (pl_links p) NULL xs NULL \<and> distinct xs \<and> set xs \<subseteq> {1..pl_id_counter p} \<and>
     pl_id_counter p < THREAD_POOL_MAX_SIZE"

lemma pool_rep_NULL: "pool_rep p xs \<Longrightarrow> NULL \<notin> set xs"
  by (auto simp: pool_rep_def NULL_def)

lemma upd_entry_rep [simp]: "pool_rep (upd_entry e f p) xs = pool_rep p xs"
  by (simp add: pool_rep_def upd_entry_def)

lemma pool_initialize_rep: "pool_rep (pool_initialize p) []"
  by (simp add: pool_rep_def pool_initialize_def THREAD_POOL_MAX_SIZE_def)

lemma add_thread_rep:
  assumes p: "pool_rep p xs" and e: "e \<notin> set xs" "0 < e" "e \<le> pl_id_counter p"
  shows "pool_rep (add_thread_to_pool R e p) (e # xs)"
proof (cases xs)
  case Nil
  then show ?thesis
    using p e by (simp add: pool_rep_def add_thread_to_pool_def set_links_def upd_entry_def Let_def)
next
  case (Cons x ys)
  have x: "pl_head p = x" "x \<noteq> NULL" "e \<noteq> x" "x \<notin> set ys" "e \<notin> set ys" "e \<noteq> NULL"
    using p e pool_rep_NULL[OF p] Cons by (auto simp: pool_rep_def NULL_def)
  have d: "dseg (pl_links p) x ys NULL" "e_next (pl_links p x) = hd (ys @ [NULL])"
    using p Cons by (simp_all add: pool_rep_def)
  let ?h = "(pl_links p)(e := \<lparr>e_prev = NULL, e_next = x\<rparr>, x := (pl_links p x)\<lparr>e_prev := e\<rparr>)"
  have "dseg ?h x ys NULL" using d(1) x by (simp add: fun_upd_def) (rule iffD2[OF dseg_cong], auto)
  then have "dseg ?h NULL (e # xs) NULL" using d x Cons by simp
  moreover have "pl_links (add_thread_to_pool R e p) = ?h" "pl_head (add_thread_to_pool R e p) = e"
    "pl_tail (add_thread_to_pool R e p) = pl_tail p"
    "pl_id_counter (add_thread_to_pool R e p) = pl_id_counter p"
    using x by (auto simp: add_thread_to_pool_def set_links_def upd_entry_def Let_def fun_eq_iff)
  ultimately show ?thesis using p e Cons by (simp add: pool_rep_def)
qed

lemma take_entry_parked:
  assumes p: "pool_rep p (ys @ [x])"
  obtains p' where "take_entry p = (x, p')" and "pool_rep p' ys"
    and "pl_entries p' = pl_entries p" and "pl_id_counter p' = pl_id_counter p"
proof (cases ys rule: rev_cases)
  case Nil
  have "x \<noteq> NULL" using pool_rep_NULL[OF p] by auto
  with p Nil have "take_entry p = (x, p\<lparr>pl_tail := NULL, pl_head := NULL\<rparr>)"
    by (simp add: pool_rep_def take_entry_def Let_def)
  then show thesis by (rule that) (use p Nil in \<open>simp_all add: pool_rep_def\<close>)
next
  case (snoc zs y)
  have n: "x \<noteq> NULL" "y \<noteq> NULL" "y \<noteq> x" "y \<notin> set zs" "x \<notin> set zs"
    using pool_rep_NULL[OF p] p snoc by (auto simp: pool_rep_def)
  have d: "dseg (pl_links p) NULL (zs @ [y]) x" "e_prev (pl_links p x) = y"
    using p snoc dseg_append[of "pl_links p" NULL "zs @ [y]" "[x]" NULL]
    by (simp_all add: pool_rep_def)
  let ?p = "set_links y (\<lambda>l. l\<lparr>e_next := NULL\<rparr>) (p\<lparr>pl_tail := y\<rparr>)"
  have t: "take_entry p = (x, ?p)"
    using p snoc n d by (simp add: pool_rep_def take_entry_def Let_def)
  have "pool_rep ?p ys"
    using p snoc dseg_set_last[OF d(1) n(4), of NULL]
    by (simp add: pool_rep_def set_links_def hd_append)
  with t show thesis by (rule that) (simp_all add: set_links_def)
qed

lemma take_entry_fresh:
  assumes "pool_rep p []" and "pl_id_counter p < THREAD_POOL_MAX_SIZE - 1"
  shows "take_entry p = (Suc (pl_id_counter p), p\<lparr>pl_id_counter := Suc (pl_id_counter p)\<rparr>)"
    "pool_rep (p\<lparr>pl_id_counter := Suc (pl_id_counter p)\<rparr>) []"
  using assms by (auto simp: pool_rep_def take_entry_def)

lemma take_entry_exhausted:
  assumes "pool_rep p []" and "\<not> pl_id_counter p < THREAD_POOL_MAX_SIZE - 1"
  shows "take_entry p = (NULL, p)"
  using assms by (simp add: pool_rep_def take_entry_def)

text \<open>What a caller gets: an entry with its function and argument, woken when it is a parked thread.\<close>

lemma get_thread_ok:
  assumes t: "take_entry p = (e, p1)" "e \<noteq> NULL"
    and K: "ca_activate_other K (pe_id (pl_entries p1 e)) c = Inr (b, c')"
  obtains p' where "get_thread R K mem run arg al p c = Inr (e, p', c')"
    and "\<And>xs. pool_rep p' xs = pool_rep p1 xs" and "pl_id_counter p' = pl_id_counter p1"
    and "\<And>i. i \<noteq> e \<Longrightarrow> pl_entries p' i = pl_entries p1 i"
    and "pe_id (pl_entries p' e) = pe_id (pl_entries p1 e)"
    and "pe_status (pl_entries p' e) =
      (if pe_status (pl_entries p1 e) = THREAD_POOL_ENTRY_WAITING then THREAD_POOL_ENTRY_READY
       else THREAD_POOL_ENTRY_INIT)"
    and "pe_run_function (pl_entries p' e) = run" and "pe_run_function_arg (pl_entries p' e) = arg"
proof -
  let ?p2 = "upd_entry e (\<lambda>x. x\<lparr>pe_run_function := run, pe_run_function_arg := arg,
      pe_is_stack_allocated_var := (al = STACK_ALLOCATED_ARG)\<rparr>) p1"
  let ?p3 = "if rc_thread_pool R \<and> pe_is_stack_allocated_var (pl_entries ?p2 e) \<and>
      pe_status (pl_entries ?p2 e) \<noteq> THREAD_POOL_ENTRY_INIT
    then upd_entry e (save_parent_stack mem arg) ?p2 else ?p2"
  let ?p' = "upd_entry e (\<lambda>x. x\<lparr>pe_status :=
      (if pe_status x = THREAD_POOL_ENTRY_WAITING then THREAD_POOL_ENTRY_READY
       else THREAD_POOL_ENTRY_INIT)\<rparr>) ?p3"
  have id: "pe_id (pl_entries ?p3 e) = pe_id (pl_entries p1 e)"
    by (simp add: upd_entry_def save_parent_stack_def Let_def)
  have "get_thread R K mem run arg al p c = Inr (e, ?p', c')"
    using t K id by (simp add: get_thread_def Let_def)
  then show thesis
    by (rule that) (simp_all add: upd_entry_def save_parent_stack_def Let_def pool_rep_def)
qed

subsection \<open>Sequences of operations\<close>

text \<open>
  Parked threads wait for work exactly when the pool is enabled; an entry that was never handed out
  does not.
\<close>

definition pool_inv :: "run_config \<Rightarrow> thread_pool \<Rightarrow> addr list \<Rightarrow> bool" where
  "pool_inv R p xs \<longleftrightarrow> pool_rep p xs \<and>
     (\<forall>e. 0 < e \<and> e \<le> THREAD_POOL_MAX_SIZE \<longrightarrow> pe_id (pl_entries p e) = e) \<and>
     (\<forall>e\<in>set xs. (pe_status (pl_entries p e) = THREAD_POOL_ENTRY_WAITING) = rc_thread_pool R) \<and>
     (\<forall>e. pl_id_counter p < e \<and> e \<le> THREAD_POOL_MAX_SIZE \<longrightarrow>
        pe_status (pl_entries p e) \<noteq> THREAD_POOL_ENTRY_WAITING)"

datatype pool_op = PoolPark nat | PoolGet nat addr arg_allocation_t

fun pool_run ::
  "run_config \<Rightarrow> 'c clock_api \<Rightarrow> memory \<Rightarrow> pool_op list \<Rightarrow> thread_pool \<Rightarrow> 'c \<Rightarrow>
   ((nat \<times> pool_status) list \<times> thread_pool \<times> 'c) result" where
  "pool_run R K mem [] p c = Inr ([], p, c)"
| "pool_run R K mem (PoolPark i # os) p c =
     bindR (add_thread_to_pool_by_id R i p) (\<lambda>p'. pool_run R K mem os p' c)"
| "pool_run R K mem (PoolGet run arg al # os) p c =
     bindR (get_thread R K mem run arg al p c) (\<lambda>(e, p', c').
     bindR (pool_run R K mem os p' c') (\<lambda>(out, st).
       Inr ((pe_id (pl_entries p' e), pe_status (pl_entries p' e)) # out, st)))"

text \<open>The same on a list and a counter; \<open>None\<close>: parking a thread that is not running.\<close>

fun apool_run ::
  "pool_op list \<Rightarrow> nat list \<Rightarrow> nat \<Rightarrow> ((nat \<times> bool) list \<times> nat list \<times> nat) result option" where
  "apool_run [] xs n = Some (Inr ([], xs, n))"
| "apool_run (PoolPark i # os) xs n =
     (if i = 0 \<or> n < i \<or> i \<in> set xs then None else apool_run os (i # xs) n)"
| "apool_run (PoolGet run arg al # os) xs n =
     (if xs \<noteq> []
      then map_option (map_sum id (\<lambda>(out, st). ((last xs, True) # out, st))) (apool_run os (butlast xs) n)
      else if n < 255
      then map_option (map_sum id (\<lambda>(out, st). ((Suc n, False) # out, st))) (apool_run os [] (Suc n))
      else Some (Inl NullDeref))"

lemma pool_inv_park:
  assumes "pool_inv R p xs" and i: "0 < i" "i \<le> pl_id_counter p" "i \<notin> set xs"
  shows "pool_inv R (add_thread_to_pool R i p) (i # xs)"
    "pl_id_counter (add_thread_to_pool R i p) = pl_id_counter p"
proof -
  have c: "pl_id_counter (add_thread_to_pool R i p) = pl_id_counter p"
    and e: "pl_entries (add_thread_to_pool R i p) = (pl_entries p)(i := (pl_entries p i)
      \<lparr>pe_is_stack_allocated_var := False,
       pe_status := if rc_thread_pool R then THREAD_POOL_ENTRY_WAITING else THREAD_POOL_ENTRY_INIT\<rparr>)"
    by (simp_all add: add_thread_to_pool_def set_links_def upd_entry_def Let_def)
  show "pl_id_counter (add_thread_to_pool R i p) = pl_id_counter p" by (rule c)
  show "pool_inv R (add_thread_to_pool R i p) (i # xs)"
    using assms add_thread_rep[of p xs i R] unfolding pool_inv_def c e by auto
qed

lemma pool_inv_get:
  assumes I: "pool_inv R p xs" and t: "take_entry p = (e, p1)" "e \<noteq> NULL"
    and p1: "pool_rep p1 ys" "pl_entries p1 = pl_entries p" "pl_id_counter p \<le> pl_id_counter p1"
    and e: "e \<notin> set ys" "e \<le> pl_id_counter p1" "set ys \<subseteq> set xs"
    and K: "\<And>u c. \<exists>b c'. ca_activate_other K u c = Inr (b, c')"
  obtains p' c' where "get_thread R K mem run arg al p c = Inr (e, p', c')" and "pool_inv R p' ys"
    and "pl_id_counter p' = pl_id_counter p1" and "pe_id (pl_entries p' e) = e"
    and "pe_status (pl_entries p' e) =
      (if pe_status (pl_entries p e) = THREAD_POOL_ENTRY_WAITING then THREAD_POOL_ENTRY_READY
       else THREAD_POOL_ENTRY_INIT)"
proof -
  have eb: "0 < e" "e \<le> THREAD_POOL_MAX_SIZE"
    using t e p1(1) by (auto simp: NULL_def pool_rep_def)
  then have id: "pe_id (pl_entries p1 e) = e" using I p1(2) by (simp add: pool_inv_def)
  obtain b c' where "ca_activate_other K (pe_id (pl_entries p1 e)) c = Inr (b, c')" using K by blast
  note g = get_thread_ok[OF t this, where R = R and mem = mem and run = run and arg = arg and al = al]
  obtain p' where p': "get_thread R K mem run arg al p c = Inr (e, p', c')"
    "\<And>xs. pool_rep p' xs = pool_rep p1 xs" "pl_id_counter p' = pl_id_counter p1"
    "\<And>i. i \<noteq> e \<Longrightarrow> pl_entries p' i = pl_entries p1 i"
    "pe_id (pl_entries p' e) = pe_id (pl_entries p1 e)"
    "pe_status (pl_entries p' e) =
      (if pe_status (pl_entries p1 e) = THREAD_POOL_ENTRY_WAITING then THREAD_POOL_ENTRY_READY
       else THREAD_POOL_ENTRY_INIT)"
    by (rule g) blast
  have "pool_inv R p' ys" unfolding pool_inv_def
  proof (intro conjI allI ballI impI)
    show "pool_rep p' ys" using p'(2) p1(1) by simp
    show "pe_id (pl_entries p' i) = i" if "0 < i \<and> i \<le> THREAD_POOL_MAX_SIZE" for i
      using that I p'(4)[of i] p'(5) id p1(2) by (cases "i = e") (auto simp: pool_inv_def)
    show "(pe_status (pl_entries p' i) = THREAD_POOL_ENTRY_WAITING) = rc_thread_pool R"
      if "i \<in> set ys" for i
    proof -
      have "i \<noteq> e" "i \<in> set xs" using that e by auto
      with I p'(4)[of i] p1(2) show ?thesis by (simp add: pool_inv_def)
    qed
    show "pe_status (pl_entries p' i) \<noteq> THREAD_POOL_ENTRY_WAITING"
      if "pl_id_counter p' < i \<and> i \<le> THREAD_POOL_MAX_SIZE" for i
      using that I p'(3,6) p'(4)[of i] p1(2,3) by (cases "i = e") (auto simp: pool_inv_def)
  qed
  then show thesis by (rule that[OF p'(1)]) (use p' id p1(2) in simp_all)
qed

text \<open>A request with a parked thread, and one with an empty pool.\<close>

lemma get_parked:
  assumes I: "pool_inv R p xs" and ne: "xs \<noteq> []"
    and K: "\<And>u c. \<exists>b c'. ca_activate_other K u c = Inr (b, c')"
  obtains p' c' where "get_thread R K mem run arg al p c = Inr (last xs, p', c')"
    "pl_id_counter p = pl_id_counter p'" "pool_inv R p' (butlast xs)"
    "pe_id (pl_entries p' (last xs)) = last xs"
    "pe_status (pl_entries p' (last xs)) =
      (if rc_thread_pool R \<and> True then THREAD_POOL_ENTRY_READY else THREAD_POOL_ENTRY_INIT)"
proof -
  have rep: "pool_rep p xs" using I by (simp add: pool_inv_def)
  obtain ys x where xs: "xs = ys @ [x]" using ne by (metis rev_exhaust)
  obtain p1 where t: "take_entry p = (x, p1)" "pool_rep p1 ys" "pl_entries p1 = pl_entries p"
    "pl_id_counter p1 = pl_id_counter p" using take_entry_parked rep xs by metis
  have e: "x \<noteq> NULL" "x \<notin> set ys" "x \<le> pl_id_counter p1" "set ys \<subseteq> set xs"
    using rep xs pool_rep_NULL[OF rep] t(4) by (auto simp: pool_rep_def)
  have le: "pl_id_counter p \<le> pl_id_counter p1" using t(4) by simp
  have w: "(pe_status (pl_entries p x) = THREAD_POOL_ENTRY_WAITING) = rc_thread_pool R"
    using I xs by (auto simp: pool_inv_def)
  show thesis
    by (rule pool_inv_get[OF I t(1) e(1) t(2,3) le e(2,3,4) K]) (rule that; use xs t(4) w in simp)
qed

lemma get_fresh:
  assumes I: "pool_inv R p []" and n: "pl_id_counter p < 255"
    and K: "\<And>u c. \<exists>b c'. ca_activate_other K u c = Inr (b, c')"
  defines "e \<equiv> Suc (pl_id_counter p)"
  obtains p' c' where "get_thread R K mem run arg al p c = Inr (e, p', c')" "e = pl_id_counter p'"
    "pool_inv R p' []" "pe_id (pl_entries p' e) = e"
    "pe_status (pl_entries p' e) =
      (if rc_thread_pool R \<and> False then THREAD_POOL_ENTRY_READY else THREAD_POOL_ENTRY_INIT)"
proof -
  have rep: "pool_rep p []" and n': "pl_id_counter p < THREAD_POOL_MAX_SIZE - 1"
    using I n by (simp_all add: pool_inv_def THREAD_POOL_MAX_SIZE_def)
  note t = take_entry_fresh[OF rep n', folded e_def]
  have w: "pe_status (pl_entries p e) \<noteq> THREAD_POOL_ENTRY_WAITING"
    using I n by (simp add: pool_inv_def THREAD_POOL_MAX_SIZE_def e_def)
  obtain p' c' where g: "get_thread R K mem run arg al p c = Inr (e, p', c')"
    "pool_inv R p' []" "pl_id_counter p' = pl_id_counter (p\<lparr>pl_id_counter := e\<rparr>)" "pe_id (pl_entries p' e) = e"
    "pe_status (pl_entries p' e) = (if pe_status (pl_entries p e) = THREAD_POOL_ENTRY_WAITING
      then THREAD_POOL_ENTRY_READY else THREAD_POOL_ENTRY_INIT)"
    by (rule pool_inv_get[OF I t(1) _ t(2) _ _ _ _ _ K]) (simp_all add: NULL_def e_def)
  with w that show thesis by simp
qed

text \<open>The run of the code agrees with that of the list and the counter.\<close>

definition pool_agrees ::
  "run_config \<Rightarrow> ((nat \<times> pool_status) list \<times> thread_pool \<times> 'c) result \<Rightarrow>
   ((nat \<times> bool) list \<times> nat list \<times> nat) result \<Rightarrow> bool" where
  "pool_agrees R m r \<longleftrightarrow>
     (case r of
        Inl f \<Rightarrow> m = Inl f
      | Inr (out, ys, n) \<Rightarrow> \<exists>p' c'. m = Inr (map (\<lambda>(i, parked).
          (i, if rc_thread_pool R \<and> parked then THREAD_POOL_ENTRY_READY
              else THREAD_POOL_ENTRY_INIT)) out, p', c') \<and>
          pool_inv R p' ys \<and> pl_id_counter p' = n)"

lemma pool_agrees_get:
  assumes "get_thread R K mem run arg al p c = Inr (e, p', c')" and "pe_id (pl_entries p' e) = e"
    and "pe_status (pl_entries p' e) = (if rc_thread_pool R \<and> parked then THREAD_POOL_ENTRY_READY
      else THREAD_POOL_ENTRY_INIT)"
    and "pool_agrees R (pool_run R K mem os p' c') r"
  shows "pool_agrees R (pool_run R K mem (PoolGet run arg al # os) p c)
    (map_sum id (\<lambda>(out, st). ((e, parked) # out, st)) r)"
proof (cases r)
  case (Inl f)
  then show ?thesis using assms by (simp add: pool_agrees_def)
next
  case (Inr x)
  obtain out ys n where x: "x = (out, ys, n)" by (cases x) auto
  then obtain p2 c2 where "pool_run R K mem os p' c' = Inr (map (\<lambda>(i, parked).
      (i, if rc_thread_pool R \<and> parked then THREAD_POOL_ENTRY_READY
          else THREAD_POOL_ENTRY_INIT)) out, p2, c2)" "pool_inv R p2 ys" "pl_id_counter p2 = n"
    using assms(4) Inr unfolding pool_agrees_def by auto
  then show ?thesis using assms(1-3) Inr x unfolding pool_agrees_def by simp
qed


text \<open>Two threads are created; both park; the next one taken is the first that parked.\<close>

definition sample_pool :: thread_pool where
  "sample_pool = pool_initialize \<lparr>pl_head = NULL, pl_tail = NULL,
     pl_links = \<lambda>_. \<lparr>e_prev = 0, e_next = 0\<rparr>,
     pl_entries = \<lambda>_. \<lparr>pe_run_function = 0, pe_run_function_arg = 0, pe_thread_status_obj = 0,
       pe_id = 0, pe_status = THREAD_POOL_ENTRY_EXIT, pe_is_stack_allocated_var = False,
       pe_stack_space = [], pe_stack_size = 0, pe_stack_start_addr = 0\<rparr>,
     pl_id_counter = 0\<rparr>"

lemma pool_initialize_inv: "pool_inv R (pool_initialize p) []"
  by (simp add: pool_inv_def pool_initialize_rep) (simp add: pool_initialize_def)


end
