(* ===== verification/Xmemory.thy ===== *)
theory Xmemory
  imports Run_Config
begin

text \<open>
  The memory layer of the thread library: a persistent segment (\<open>xpersist.h\<close>), the program's globals
  (\<open>xglobals.h\<close>) and the heap as two segments that are committed and updated together
  (\<open>xmemory.h\<close>), and the tables of page entries and of page bitmaps. The versioned segments
  themselves are those of the Conversion library, a parameter.
\<close>

subsection \<open>The Conversion library\<close>

record 'm conv_api =
  cv_checkout_create :: "u64 \<Rightarrow> u64 \<Rightarrow> ('m \<times> u64) option"
  cv_commit_and_update :: "'m \<Rightarrow> 'm"
  cv_update :: "'m \<Rightarrow> 'm"
  cv_partial_background_update :: "'m \<Rightarrow> 'm"
  cv_sleep :: "'m \<Rightarrow> 'm"
  cv_wake :: "'m \<Rightarrow> 'm"
  cv_deferred_start :: "'m \<Rightarrow> 'm"
  cv_deferred_end :: "'m \<Rightarrow> 'm"
  cv_committed_version_num :: "'m \<Rightarrow> int"
  cv_current_version_num :: "'m \<Rightarrow> int"
  cv_linearized_version_num :: "'m \<Rightarrow> int"
  cv_dirty_page_count :: "'m \<Rightarrow> int"
  cv_updated_page_count :: "'m \<Rightarrow> int"
  cv_merged_page_count :: "'m \<Rightarrow> int"
  cv_logical_page_count :: "'m \<Rightarrow> int"
  cv_partial_updated_unique_pages :: "'m \<Rightarrow> int"
  cv_set_partial_updated_unique_pages :: "int \<Rightarrow> 'm \<Rightarrow> 'm"

subsection \<open>xpersist\<close>

record 'm xpersist =
  xp_startaddr :: u64
  xp_snapMemory :: u64
  xp_size :: u64
  xp_seg :: 'm
  xp_isProtected :: bool
  xp_trans :: u32
  xp_threadindex :: int

definition map_seg :: "('m \<Rightarrow> 'm) \<Rightarrow> 'm xpersist \<Rightarrow> 'm xpersist" where
  "map_seg f p = p\<lparr>xp_seg := f (xp_seg p)\<rparr>"

text \<open>
  The constructor: a region that is to be placed over existing data has to be large enough for it.
\<close>

definition xpersist_create ::
  "'m conv_api \<Rightarrow> u64 \<Rightarrow> u64 \<Rightarrow> u64 \<Rightarrow> 'm xpersist result" where
  "xpersist_create V elts startaddr startsize =
     (if startsize > 0 \<and> startsize > elts then Inl ExitCalled
      else case cv_checkout_create V elts startaddr of
        None \<Rightarrow> Inl ExitCalled
      | Some (seg, segment) \<Rightarrow>
          Inr \<lparr>xp_startaddr = startaddr, xp_snapMemory = segment, xp_size = elts, xp_seg = seg,
               xp_isProtected = False, xp_trans = 0, xp_threadindex = 0\<rparr>)"

definition openProtection_seg :: "'m conv_api \<Rightarrow> 'm xpersist \<Rightarrow> 'm xpersist" where
  "openProtection_seg V p = (map_seg (cv_commit_and_update V) p)\<lparr>xp_isProtected := True, xp_trans := 0\<rparr>"

text \<open>Reading the number of partially updated pages resets it.\<close>

definition get_partial_unique_pages_seg :: "'m conv_api \<Rightarrow> 'm xpersist \<Rightarrow> int \<times> 'm xpersist" where
  "get_partial_unique_pages_seg V p =
     (cv_partial_updated_unique_pages V (xp_seg p),
      map_seg (cv_set_partial_updated_unique_pages V 0) p)"

definition setThreadIndex_seg :: "int \<Rightarrow> 'm xpersist \<Rightarrow> 'm xpersist" where
  "setThreadIndex_seg i p = p\<lparr>xp_threadindex := i\<rparr>"

definition inRange :: "'m xpersist \<Rightarrow> u64 \<Rightarrow> bool" where
  "inRange p a \<longleftrightarrow> a \<ge> xp_snapMemory p \<and> a < xp_snapMemory p + xp_size p"

text \<open>\<open>mem_write\<close> stores a word, here its address and value.\<close>

definition mem_write_seg :: "'m xpersist \<Rightarrow> u64 \<Rightarrow> u64 \<Rightarrow> (u64 \<Rightarrow> u64) \<Rightarrow> (u64 \<Rightarrow> u64)" where
  "mem_write_seg p a val words =
     (let offset = a - xp_snapMemory p in words(xp_snapMemory p + offset := val))"

definition begin_seg :: "'m conv_api \<Rightarrow> 'm xpersist \<Rightarrow> 'm xpersist" where
  "begin_seg V = map_seg (cv_update V)"

definition update_seg :: "'m conv_api \<Rightarrow> 'm xpersist \<Rightarrow> 'm xpersist" where
  "update_seg V = map_seg (cv_update V)"

definition checkandcommit_seg :: "'m conv_api \<Rightarrow> 'm xpersist \<Rightarrow> 'm xpersist" where
  "checkandcommit_seg V = map_seg (cv_commit_and_update V)"

definition partialUpdate_seg :: "'m conv_api \<Rightarrow> 'm xpersist \<Rightarrow> 'm xpersist" where
  "partialUpdate_seg V = map_seg (cv_partial_background_update V)"

definition sleep_seg :: "'m conv_api \<Rightarrow> 'm xpersist \<Rightarrow> 'm xpersist" where
  "sleep_seg V = map_seg (cv_sleep V)"

definition wake_seg :: "'m conv_api \<Rightarrow> 'm xpersist \<Rightarrow> 'm xpersist" where
  "wake_seg V = map_seg (cv_wake V)"

definition commit_deferred_start_seg :: "'m conv_api \<Rightarrow> 'm xpersist \<Rightarrow> 'm xpersist" where
  "commit_deferred_start_seg V = map_seg (cv_deferred_start V)"

definition commit_deferred_end_seg :: "'m conv_api \<Rightarrow> 'm xpersist \<Rightarrow> 'm xpersist" where
  "commit_deferred_end_seg V = map_seg (cv_deferred_end V)"

text \<open>
  \<open>commit_parallel\<close> waits for the commits that precede its own; each round of the wait is one
  step of the other threads on the segment.
\<close>

fun commit_parallel_seg ::
  "'m conv_api \<Rightarrow> int \<Rightarrow> ('m \<Rightarrow> 'm) list \<Rightarrow> 'm xpersist \<Rightarrow> 'm xpersist result" where
  "commit_parallel_seg V ver [] p =
     (if cv_linearized_version_num V (xp_seg p) < ver then Inl StillSpinning
      else Inr (checkandcommit_seg V p))"
| "commit_parallel_seg V ver (f # fs) p =
     (if cv_linearized_version_num V (xp_seg p) < ver then commit_parallel_seg V ver fs (map_seg f p)
      else Inr (checkandcommit_seg V p))"

subsection \<open>The globals\<close>

definition PageSize :: u64 where "PageSize = 4096"
definition PAGE_SIZE_MASK :: u64 where "PAGE_SIZE_MASK = PageSize - 1"
definition MAX_GLOBALS_SIZE :: u64 where "MAX_GLOBALS_SIZE = 1048576 * 20"
definition PROTECTEDHEAP_SIZE :: u64 where "PROTECTEDHEAP_SIZE = 1048576 * 8000"
definition NUM_HEAPS :: int where "NUM_HEAPS = 32"

unbundle bit_operations_syntax

definition PAGE_ALIGN_DOWN :: "u64 \<Rightarrow> u64" where
  "PAGE_ALIGN_DOWN x = x AND NOT PAGE_SIZE_MASK"

definition PAGE_ALIGN_UP :: "u64 \<Rightarrow> u64" where
  "PAGE_ALIGN_UP x = (x + PAGE_SIZE_MASK) AND NOT PAGE_SIZE_MASK"

definition GLOBALS_SIZE :: "u64 \<Rightarrow> u64 \<Rightarrow> u64" where
  "GLOBALS_SIZE data_start end_addr = PAGE_ALIGN_UP (end_addr - 1) - PAGE_ALIGN_DOWN data_start"

definition xglobals_create :: "'m conv_api \<Rightarrow> u64 \<Rightarrow> u64 \<Rightarrow> 'm xpersist result" where
  "xglobals_create V data_start end_addr =
     bindR (xpersist_create V MAX_GLOBALS_SIZE (PAGE_ALIGN_DOWN data_start) (GLOBALS_SIZE data_start end_addr))
       (\<lambda>p. if GLOBALS_SIZE data_start end_addr \<le> MAX_GLOBALS_SIZE then Inr p else Inl AssertFailed)"

subsection \<open>xmemory\<close>

record 'm xmemory =
  xm_pheap :: "'m xpersist"
  xm_globals :: "'m xpersist"
  xm_heapid :: int

text \<open>Each operation goes to the heap and to the globals.\<close>

definition both_segs :: "('m xpersist \<Rightarrow> 'm xpersist) \<Rightarrow> 'm xmemory \<Rightarrow> 'm xmemory" where
  "both_segs f m = m\<lparr>xm_pheap := f (xm_pheap m), xm_globals := f (xm_globals m)\<rparr>"

definition xm_setThreadIndex :: "int \<Rightarrow> 'm xmemory \<Rightarrow> 'm xmemory" where
  "xm_setThreadIndex i m = (both_segs (setThreadIndex_seg i) m)\<lparr>xm_heapid := i mod NUM_HEAPS\<rparr>"

definition xm_openProtection :: "'m conv_api \<Rightarrow> 'm xmemory \<Rightarrow> 'm xmemory" where
  "xm_openProtection V = both_segs (openProtection_seg V)"

definition xm_begin :: "'m conv_api \<Rightarrow> 'm xmemory \<Rightarrow> 'm xmemory" where
  "xm_begin V = both_segs (begin_seg V)"

definition xm_inHeapRange :: "'m xmemory \<Rightarrow> u64 \<Rightarrow> bool" where
  "xm_inHeapRange m = inRange (xm_pheap m)"

definition xm_inGlobalsRange :: "'m xmemory \<Rightarrow> u64 \<Rightarrow> bool" where
  "xm_inGlobalsRange m = inRange (xm_globals m)"

definition xm_mem_write :: "'m xmemory \<Rightarrow> u64 \<Rightarrow> u64 \<Rightarrow> (u64 \<Rightarrow> u64) \<Rightarrow> (u64 \<Rightarrow> u64)" where
  "xm_mem_write m dest val words =
     (if inRange (xm_pheap m) dest then mem_write_seg (xm_pheap m) dest val words
      else if inRange (xm_globals m) dest then mem_write_seg (xm_globals m) dest val words
      else words)"

definition xm_update :: "'m conv_api \<Rightarrow> 'm xmemory \<Rightarrow> 'm xmemory" where
  "xm_update V = both_segs (update_seg V)"

definition xm_partialUpdate :: "'m conv_api \<Rightarrow> 'm xmemory \<Rightarrow> 'm xmemory" where
  "xm_partialUpdate V = both_segs (partialUpdate_seg V)"

definition xm_dirty_pages_heap :: "'m conv_api \<Rightarrow> 'm xmemory \<Rightarrow> int" where
  "xm_dirty_pages_heap V m = cv_dirty_page_count V (xp_seg (xm_pheap m))"

definition xm_dirty_pages_globals :: "'m conv_api \<Rightarrow> 'm xmemory \<Rightarrow> int" where
  "xm_dirty_pages_globals V m = cv_dirty_page_count V (xp_seg (xm_globals m))"

definition xm_dirty_pages :: "'m conv_api \<Rightarrow> 'm xmemory \<Rightarrow> int" where
  "xm_dirty_pages V m = xm_dirty_pages_heap V m + xm_dirty_pages_globals V m"

definition xm_updated_pages :: "'m conv_api \<Rightarrow> 'm xmemory \<Rightarrow> int" where
  "xm_updated_pages V m =
     cv_updated_page_count V (xp_seg (xm_pheap m)) + cv_updated_page_count V (xp_seg (xm_globals m))"

definition xm_merged_pages :: "'m conv_api \<Rightarrow> 'm xmemory \<Rightarrow> int" where
  "xm_merged_pages V m =
     cv_merged_page_count V (xp_seg (xm_pheap m)) + cv_merged_page_count V (xp_seg (xm_globals m))"

definition xm_logical_pages :: "'m conv_api \<Rightarrow> 'm xmemory \<Rightarrow> int" where
  "xm_logical_pages V m =
     cv_logical_page_count V (xp_seg (xm_pheap m)) + cv_logical_page_count V (xp_seg (xm_globals m))"

definition xm_partial_unique_pages :: "'m conv_api \<Rightarrow> 'm xmemory \<Rightarrow> int \<times> 'm xmemory" where
  "xm_partial_unique_pages V m =
     (case get_partial_unique_pages_seg V (xm_pheap m) of (n, h) \<Rightarrow>
      case get_partial_unique_pages_seg V (xm_globals m) of (k, g) \<Rightarrow>
        (n + k, m\<lparr>xm_pheap := h, xm_globals := g\<rparr>))"

definition xm_sleep :: "'m conv_api \<Rightarrow> 'm xmemory \<Rightarrow> 'm xmemory" where
  "xm_sleep V = both_segs (sleep_seg V)"

definition xm_wake :: "'m conv_api \<Rightarrow> 'm xmemory \<Rightarrow> 'm xmemory" where
  "xm_wake V = both_segs (wake_seg V)"

definition xm_commit :: "'m conv_api \<Rightarrow> 'm xmemory \<Rightarrow> 'm xmemory" where
  "xm_commit V = both_segs (checkandcommit_seg V)"

definition xm_commit_deferred_start :: "'m conv_api \<Rightarrow> 'm xmemory \<Rightarrow> 'm xmemory" where
  "xm_commit_deferred_start V = both_segs (commit_deferred_start_seg V)"

definition xm_commit_deferred_end :: "'m conv_api \<Rightarrow> 'm xmemory \<Rightarrow> 'm xmemory" where
  "xm_commit_deferred_end V = both_segs (commit_deferred_end_seg V)"

definition xm_commit_parallel ::
  "'m conv_api \<Rightarrow> int \<Rightarrow> int \<Rightarrow> ('m \<Rightarrow> 'm) list \<Rightarrow> ('m \<Rightarrow> 'm) list \<Rightarrow> 'm xmemory \<Rightarrow> 'm xmemory result"
  where
  "xm_commit_parallel V heapVersion globalsVersion fs gs m =
     bindR (commit_parallel_seg V heapVersion fs (xm_pheap m)) (\<lambda>h.
     bindR (commit_parallel_seg V globalsVersion gs (xm_globals m)) (\<lambda>g.
       Inr (m\<lparr>xm_pheap := h, xm_globals := g\<rparr>)))"

definition xm_current_heap_version :: "'m conv_api \<Rightarrow> 'm xmemory \<Rightarrow> int" where
  "xm_current_heap_version V m = cv_committed_version_num V (xp_seg (xm_pheap m))"

definition xm_current_globals_version :: "'m conv_api \<Rightarrow> 'm xmemory \<Rightarrow> int" where
  "xm_current_globals_version V m = cv_committed_version_num V (xp_seg (xm_globals m))"

definition xm_local_heap_version :: "'m conv_api \<Rightarrow> 'm xmemory \<Rightarrow> int" where
  "xm_local_heap_version V m = cv_current_version_num V (xp_seg (xm_pheap m))"

definition xm_local_globals_version :: "'m conv_api \<Rightarrow> 'm xmemory \<Rightarrow> int" where
  "xm_local_globals_version V m = cv_current_version_num V (xp_seg (xm_globals m))"

subsection \<open>Page entries and bitmaps\<close>

definition PAGE_ENTRY_NUM :: int where "PAGE_ENTRY_NUM = 800000"

record xpageentry =
  pg_start :: u64
  pg_cur :: int
  pg_total :: int

definition xpageentry_initialize :: "u64 \<Rightarrow> xpageentry" where
  "xpageentry_initialize start = \<lparr>pg_start = start, pg_cur = 0, pg_total = PAGE_ENTRY_NUM\<rparr>"

definition xpageentry_alloc :: "xpageentry \<Rightarrow> (int \<times> xpageentry) result" where
  "xpageentry_alloc p =
     (if pg_cur p < pg_total p then Inr (pg_cur p, p\<lparr>pg_cur := pg_cur p + 1\<rparr>) else Inl ExitCalled)"

definition xpageentry_cleanup :: "xpageentry \<Rightarrow> xpageentry" where
  "xpageentry_cleanup p = p\<lparr>pg_cur := 0\<rparr>"

text \<open>
  The bitmaps: the counter and the versions are in the first two pages of the mapping at
  \<open>bm_ptr\<close>, the bitmaps follow. \<open>bm_words\<close> is the mapping as an array of 32 bit words.
\<close>

definition BITMAP_SIZE_PER_PAGE :: int where "BITMAP_SIZE_PER_PAGE = 4096"
definition INITIAL_PAGES :: int where "INITIAL_PAGES = 81920"

record xbitmap =
  bm_ptr :: int
  bm_total :: int
  bm_words :: "int \<Rightarrow> u32"

definition bm_cur :: "xbitmap \<Rightarrow> int" where "bm_cur b = sint (bm_words b (bm_ptr b))"

definition set_bm_cur :: "int \<Rightarrow> xbitmap \<Rightarrow> xbitmap" where
  "set_bm_cur n b = b\<lparr>bm_words := (bm_words b)(bm_ptr b := word_of_int n)\<rparr>"

definition xbitmap_initialize :: "int \<Rightarrow> xbitmap" where
  "xbitmap_initialize ptr = set_bm_cur 1 \<lparr>bm_ptr = ptr, bm_total = INITIAL_PAGES, bm_words = \<lambda>_. 0\<rparr>"

definition xbitmap_get :: "xbitmap \<Rightarrow> (int \<times> xbitmap) result" where
  "xbitmap_get b =
     (if bm_cur b + 1 < bm_total b then Inr (bm_cur b, set_bm_cur (bm_cur b + 1) b) else Inl AssertFailed)"

definition xbitmap_getAddress :: "int \<Rightarrow> xbitmap \<Rightarrow> int" where
  "xbitmap_getAddress index b = bm_ptr b + 2 * 4096 + index * BITMAP_SIZE_PER_PAGE"

definition xbitmap_version_addr :: "int \<Rightarrow> xbitmap \<Rightarrow> int" where
  "xbitmap_version_addr index b = bm_ptr b + 4 + 4 * index"

definition xbitmap_setVersion :: "int \<Rightarrow> int \<Rightarrow> xbitmap \<Rightarrow> xbitmap" where
  "xbitmap_setVersion index version b =
     b\<lparr>bm_words := (bm_words b)(xbitmap_version_addr index b := word_of_int version)\<rparr>"

definition xbitmap_getVersion :: "int \<Rightarrow> xbitmap \<Rightarrow> int result" where
  "xbitmap_getVersion index b =
     (if index = 0 then Inl AssertFailed else Inr (sint (bm_words b (xbitmap_version_addr index b))))"

definition xbitmap_cleanup :: "xbitmap \<Rightarrow> xbitmap" where
  "xbitmap_cleanup = set_bm_cur 1"

end
