(* ===== verification/Xrun.thy ===== *)
theory Xrun
  imports Token Barrier Thread_Pool Xmemory
begin

text \<open>
  The per-thread runtime of \<open>xrun.h\<close> and \<open>xthread.cpp\<close>: what a thread of the program does for each
  call of the threads interface. A thread's calls are run against a script of the other threads:
  whenever the thread waits, each round of its wait is preceded by the next element of the
  script, an arbitrary change of the shared state.
\<close>

subsection \<open>State\<close>

record ThreadStatus =
  ts_tid :: int
  ts_threadIndex :: nat
  ts_retval :: addr

text \<open>
  What is shared: the synchronisation state, the thread's view of versioned memory, the pool of threads,
  the status objects, the flag of \<open>determ::finalize\<close>, and the threads for which a process was cloned.
\<close>

record ('c, 'm) world =
  w_d :: "'c determ"
  w_mem :: "'m xmemory"
  w_pool :: thread_pool
  w_status :: "addr \<Rightarrow> ThreadStatus"
  w_master_finished :: bool
  w_cloned :: "nat list"

text \<open>
  The static members of \<open>xrun\<close>. \<open>xr_commits\<close> is not in the code: it records for each commit of
  memory whether the thread had the token.
\<close>

record ('c, 'm) xrun =
  xr_initialized :: bool
  xr_thread_index :: nat
  xr_lock_count :: u64
  xr_token_holding :: bool
  xr_coarsening_counter :: u32
  xr_coarsening_level :: int
  xr_consecutively_coarsened :: u32
  xr_monitor_next :: bool
  xr_sleep_count :: int
  xr_is_sleeping :: bool
  xr_w :: "('c, 'm) world"
  xr_script :: "(('c, 'm) world \<Rightarrow> ('c, 'm) world) list"
  xr_commits :: "bool list"

text \<open>
  What a thread runs with: the configuration, the clock, the Conversion library, the
  variables that a commit makes visible, the allocator of synchronisation objects, the memory that can be
  read, and the steps of the other threads in the parallel part of a barrier.
\<close>

record ('c, 'm) run_env =
  re_config :: run_config
  re_clock :: "'c clock_api"
  re_conv :: "'m conv_api"
  re_update :: "(nat \<Rightarrow> addr) \<Rightarrow> (nat \<Rightarrow> addr)"
  re_alloc_lock :: "'c determ \<Rightarrow> addr \<times> LockEntry"
  re_alloc_cond :: "'c determ \<Rightarrow> addr"
  re_alloc_barrier :: "'c determ \<Rightarrow> BarrierEntry \<times> addr"
  re_alloc_status :: "(addr \<Rightarrow> ThreadStatus) \<Rightarrow> addr"
  re_memory :: memory
  re_commit_heap :: "'c determ \<Rightarrow> ('m \<Rightarrow> 'm) list"
  re_commit_globals :: "'c determ \<Rightarrow> ('m \<Rightarrow> 'm) list"
  re_commit_obs :: "'c determ \<Rightarrow> commit_obs list"

type_synonym ('c, 'm) xstep = "('c, 'm) xrun \<Rightarrow> ('c, 'm) xrun result"

abbreviation xr_d :: "('c, 'm) xrun \<Rightarrow> 'c determ" where "xr_d x \<equiv> w_d (xr_w x)"
abbreviation xr_clock :: "('c, 'm) xrun \<Rightarrow> 'c" where "xr_clock x \<equiv> ds_clock (xr_d x)"
abbreviation xr_mem :: "('c, 'm) xrun \<Rightarrow> 'm xmemory" where "xr_mem x \<equiv> w_mem (xr_w x)"

text \<open>Statements in sequence.\<close>

fun steps :: "('a \<Rightarrow> 'a result) list \<Rightarrow> 'a \<Rightarrow> 'a result" where
  "steps [] x = Inr x"
| "steps (f # fs) x = bindR (f x) (steps fs)"

definition when_step :: "bool \<Rightarrow> ('a \<Rightarrow> 'a result) \<Rightarrow> 'a \<Rightarrow> 'a result" where
  "when_step b f x = (if b then f x else Inr x)"

definition on_determ :: "('c determ \<Rightarrow> 'c determ result) \<Rightarrow> ('c, 'm) xstep" where
  "on_determ f x = bindR (f (xr_d x)) (\<lambda>d. Inr (x\<lparr>xr_w := (xr_w x)\<lparr>w_d := d\<rparr>\<rparr>))"

definition on_mem :: "('m xmemory \<Rightarrow> 'm xmemory) \<Rightarrow> ('c, 'm) xstep" where
  "on_mem f x = Inr (x\<lparr>xr_w := (xr_w x)\<lparr>w_mem := f (xr_mem x)\<rparr>\<rparr>)"

definition on_pool :: "(thread_pool \<Rightarrow> thread_pool result) \<Rightarrow> ('c, 'm) xstep" where
  "on_pool f x = bindR (f (w_pool (xr_w x))) (\<lambda>p. Inr (x\<lparr>xr_w := (xr_w x)\<lparr>w_pool := p\<rparr>\<rparr>))"

definition upd_var :: "(('c, 'm) xrun \<Rightarrow> ('c, 'm) xrun) \<Rightarrow> ('c, 'm) xstep" where
  "upd_var f x = Inr (f x)"

definition add_ticks :: "('c, 'm) run_env \<Rightarrow> u32 \<Rightarrow> ('c, 'm) xstep" where
  "add_ticks E n = on_determ (on_clock (ca_add_ticks (re_clock E) n))"

definition round_robin_ticks :: "('c, 'm) run_env \<Rightarrow> ('c, 'm) xstep" where
  "round_robin_ticks E = when_step (rc_round_robin (re_config E))
     (add_ticks E (LOGICAL_CLOCK_ROUND_ROBIN_INFINITY (re_config E)))"

text \<open>One step of the other threads.\<close>

fun others :: "('c, 'm) xstep" where
  "others x = (case xr_script x of
     [] \<Rightarrow> Inl StillSpinning
   | f # fs \<Rightarrow> Inr (x\<lparr>xr_w := f (xr_w x), xr_script := fs\<rparr>))"

subsection \<open>Coarsening of transactions\<close>

definition singleActiveThread :: "('c, 'm) run_env \<Rightarrow> ('c, 'm) xrun \<Rightarrow> bool" where
  "singleActiveThread E x \<longleftrightarrow> rc_single_thread_opt (re_config E) \<and>
     ca_single_active (re_clock E) (xr_clock x) \<and> xr_thread_index x = ds_last_getter (xr_d x)"

definition coarsening :: "('c, 'm) xrun \<Rightarrow> bool" where
  "coarsening x \<longleftrightarrow> sint (xr_coarsening_counter x) > 0"

definition inCoarsenedTx :: "('c, 'm) run_env \<Rightarrow> ('c, 'm) xrun \<Rightarrow> bool" where
  "inCoarsenedTx E x \<longleftrightarrow> rc_userspace_reading (re_config E) \<and> coarsening x"

definition endTXCoarsening :: "('c, 'm) run_env \<Rightarrow> ('c, 'm) xstep" where
  "endTXCoarsening E x = when_step (rc_tx_coarsening (re_config E)) (steps
     [when_step (inCoarsenedTx E x) (on_determ (on_clock (ca_end_coarsened (re_clock E)))),
      upd_var (\<lambda>x. x\<lparr>xr_coarsening_counter := 0, xr_consecutively_coarsened := 0\<rparr>)]) x"

definition resetTXCoarsening :: "('c, 'm) run_env \<Rightarrow> ('c, 'm) xstep" where
  "resetTXCoarsening E = when_step (rc_tx_coarsening (re_config E)) (steps
     [upd_var (\<lambda>x. x\<lparr>xr_monitor_next := False,
        xr_coarsening_level := LOGICAL_CLOCK_MIN_ALLOWABLE_TX_SIZE (re_config E)\<rparr>),
      endTXCoarsening E])"

definition useTxCoarsening ::
  "('c, 'm) run_env \<Rightarrow> u64 \<Rightarrow> ('c, 'm) xrun \<Rightarrow> (bool \<times> ('c, 'm) xrun) result" where
  "useTxCoarsening E ident x =
     (if \<not> rc_tx_coarsening (re_config E) then Inr (False, x)
      else
        (let next_tx = ca_estimate_next_tx (re_clock E) ident (xr_clock x) in
         if next_tx \<ge> 0 \<and> sint (xr_coarsening_counter x) + next_tx < xr_coarsening_level x
         then Inr (True, x\<lparr>xr_coarsening_counter :=
                     xr_coarsening_counter x + ucast (ca_last_tx_size (re_clock E) (xr_clock x)),
                   xr_consecutively_coarsened := xr_consecutively_coarsened x + 1\<rparr>)
         else if singleActiveThread E x \<and> coarsening x
         then bindR (endTXCoarsening E x) (\<lambda>x'. Inr (False, x'))
         else if coarsening x then Inr (False, x\<lparr>xr_monitor_next := True\<rparr>)
         else Inr (False, x)))"

subsection \<open>The clock\<close>

definition fast_forward_clock :: "('c, 'm) run_env \<Rightarrow> ('c, 'm) xrun \<Rightarrow> u64" where
  "fast_forward_clock E x =
     (if rc_fast_forward (re_config E)
      then (let clockDiff = ds_last_token_value (xr_d x) - ca_read (re_clock E) (xr_clock x) in
            if sint clockDiff > 0 then clockDiff else 0)
      else 0)"

definition stopClock :: "('c, 'm) run_env \<Rightarrow> u64 \<Rightarrow> ('c, 'm) xstep" where
  "stopClock E ident x = on_determ (on_clock
     ((if inCoarsenedTx E x then ca_stop_no_notify else ca_stop) (re_clock E) ident)) x"

definition stopClockNoCoarsen :: "('c, 'm) run_env \<Rightarrow> ('c, 'm) xstep" where
  "stopClockNoCoarsen E = steps [stopClock E 0, endTXCoarsening E]"

definition startClock :: "('c, 'm) run_env \<Rightarrow> ('c, 'm) xstep" where
  "startClock E x = on_determ (on_clock
     ((if inCoarsenedTx E x then ca_start_no_notify else ca_start) (re_clock E))) x"

subsection \<open>The token\<close>

text \<open>
  \<open>determ::getToken\<close>, with the other threads between any two of its accesses. The loop for the lowest
  clock also updates memory.
\<close>

definition with_local_mem :: "('c, 'm) run_env \<Rightarrow> token_pc \<Rightarrow> 'm xmemory \<Rightarrow> 'm xmemory" where
  "with_local_mem E pc m = (if pc = TkRead then xm_partialUpdate (re_conv E) m else m)"

fun get_token_loop ::
  "('c, 'm) run_env \<Rightarrow> nat \<Rightarrow> (('c, 'm) world \<Rightarrow> ('c, 'm) world) list \<Rightarrow> token_local \<Rightarrow> ('c, 'm) world \<Rightarrow>
   ((('c, 'm) world \<Rightarrow> ('c, 'm) world) list \<times> ('c, 'm) world) result" where
  "get_token_loop E t [] l w = Inl StillSpinning"
| "get_token_loop E t (f # fs) l w =
     bindR (token_step (re_clock E) t (l, w_d (f w))) (\<lambda>(l', d).
       let w' = (f w)\<lparr>w_d := d, w_mem := with_local_mem E (tk_pc l) (w_mem (f w))\<rparr> in
       if tk_pc l' = TkHold then Inr (fs, w') else get_token_loop E t fs l' w')"

definition token_start :: token_local where
  "token_start = \<lparr>tk_pc = TkStart, tk_spin_counter = 0, tk_is_lowest = False, tk_polled = False,
     tk_counter = 0\<rparr>"

definition getToken :: "('c, 'm) run_env \<Rightarrow> ('c, 'm) xstep" where
  "getToken E x = bindR (get_token_loop E (xr_thread_index x) (xr_script x) token_start (xr_w x))
     (\<lambda>(fs, w). Inr (x\<lparr>xr_w := w, xr_script := fs\<rparr>))"

definition adapt_level :: "('c, 'm) run_env \<Rightarrow> ('c, 'm) xrun \<Rightarrow> ('c, 'm) xrun" where
  "adapt_level E x =
     (if xr_monitor_next x
      then x\<lparr>xr_coarsening_level :=
               (if ds_last_putter (xr_d x) = xr_thread_index x
                then min (xr_coarsening_level x + xr_coarsening_level x)
                       (LOGICAL_CLOCK_MAX_ALLOWABLE_TX_SIZE (re_config E))
                else LOGICAL_CLOCK_TX_SIZE_AFTER_TOKEN_TRANSFER (re_config E)),
             xr_monitor_next := False\<rparr>
      else x)"

definition waitToken :: "('c, 'm) run_env \<Rightarrow> ('c, 'm) xstep" where
  "waitToken E x = when_step (\<not> xr_token_holding x) (steps
     [getToken E,
      \<lambda>x. add_ticks E (ucast (fast_forward_clock E x)) x,
      upd_var (\<lambda>x. x\<lparr>xr_token_holding := True\<rparr>),
      upd_var (adapt_level E)]) x"

text \<open>\<open>release E ff\<close>: what both ways of giving the token back end with.\<close>

definition release :: "('c, 'm) run_env \<Rightarrow> bool \<Rightarrow> ('c, 'm) xstep" where
  "release E ff x = when_step (xr_token_holding x) (steps
     [on_determ (put_token (re_clock E) (xr_thread_index x) ff),
      upd_var (\<lambda>x. x\<lparr>xr_token_holding := False\<rparr>)]) x"

definition putToken_run :: "('c, 'm) run_env \<Rightarrow> ('c, 'm) xstep" where
  "putToken_run E x = steps
     [when_step (rc_tx_coarsening (re_config E) \<and> coarsening x) (endTXCoarsening E),
      release E True] x"

definition putTokenNoFastForward_run :: "('c, 'm) run_env \<Rightarrow> ('c, 'm) xstep" where
  "putTokenNoFastForward_run E = release E False"

subsection \<open>Commits\<close>

text \<open>
  \<open>commitAndUpdateMemory\<close>: the arguments of the call that records statistics are evaluated in every
  configuration, and one of them resets the count it reads.
\<close>

definition commitAndUpdateMemory :: "('c, 'm) run_env \<Rightarrow> ('c, 'm) xstep" where
  "commitAndUpdateMemory E = steps
     [upd_var (\<lambda>x. x\<lparr>xr_commits := xr_commits x @ [isTokenHolder (xr_thread_index x) (xr_d x)]\<rparr>),
      on_mem (xm_commit (re_conv E)),
      on_mem (\<lambda>m. snd (xm_partial_unique_pages (re_conv E) m))]"

record local_copy_stats =
  cs_partial_unique :: int
  cs_dirty_pages :: int
  cs_merged_pages :: int

definition commitAndUpdateMemory_stats ::
  "('c, 'm) run_env \<Rightarrow> ('c, 'm) xrun \<Rightarrow> (local_copy_stats \<times> ('c, 'm) xrun) result" where
  "commitAndUpdateMemory_stats E x =
     (let dirty = xm_dirty_pages (re_conv E) (xr_mem x) in
      bindR (commitAndUpdateMemory E x) (\<lambda>x1.
      case xm_partial_unique_pages (re_conv E) (xr_mem x1) of (n, m) \<Rightarrow>
        Inr (\<lparr>cs_partial_unique = n, cs_dirty_pages = dirty,
               cs_merged_pages = xm_merged_pages (re_conv E) m\<rparr>,
             x1\<lparr>xr_w := (xr_w x1)\<lparr>w_mem := m\<rparr>\<rparr>)))"

definition ticks_to_add :: "('c, 'm) run_env \<Rightarrow> local_copy_stats \<Rightarrow> ('c, 'm) xrun \<Rightarrow> u32" where
  "ticks_to_add E cs x =
     word_of_int (cs_partial_unique cs * LOGICAL_CLOCK_CONVERSION_UPDATE_PAGE +
       cs_dirty_pages cs * LOGICAL_CLOCK_CONVERSION_COMMIT_PAGE +
       cs_merged_pages cs * LOGICAL_CLOCK_CONVERSION_MERGE_PAGE) + ucast (fast_forward_clock E x)"

end
