(* ===== verification/Xrun_Sync.thy ===== *)
theory Xrun_Sync
  imports Xrun
begin

text \<open>
  The synchronisation calls of \<open>xrun.h\<close>: mutexes in both variants, condition variables and barriers.
\<close>

subsection \<open>Operations of determ.h, on a thread's state\<close>

text \<open>\<open>lock_acquire\<close> commits memory up to twice when the variable has no entry yet.\<close>

definition commitAndUpdate :: "('c, 'm) run_env \<Rightarrow> ('c, 'm) xstep" where
  "commitAndUpdate E = steps
     [upd_var (\<lambda>x. x\<lparr>xr_commits := xr_commits x @ [isTokenHolder (xr_thread_index x) (xr_d x)]\<rparr>),
      on_mem (xm_commit (re_conv E))]"

definition lock_acquire_run ::
  "('c, 'm) run_env \<Rightarrow> nat \<Rightarrow> ('c, 'm) xrun \<Rightarrow> (bool \<times> ('c, 'm) xrun) result" where
  "lock_acquire_run E mutex x =
     (let d = xr_d x; fresh = (ds_var d mutex = NULL) in
      bindR (steps [when_step fresh (commitAndUpdate E),
               when_step (fresh \<and> re_update E (ds_var d) mutex = NULL) (commitAndUpdate E)] x) (\<lambda>x1.
      case lock_acquire (re_update E) (re_alloc_lock E d) mutex (xr_thread_index x) d of (got, d') \<Rightarrow>
        Inr (got, x1\<lparr>xr_w := (xr_w x1)\<lparr>w_d := d'\<rparr>\<rparr>)))"

text \<open>A wait for the own status to become ready.\<close>

fun wait_ready_loop ::
  "nat \<Rightarrow> (('c, 'm) world \<Rightarrow> ('c, 'm) world) list \<Rightarrow> ('c, 'm) world \<Rightarrow>
   ((('c, 'm) world \<Rightarrow> ('c, 'm) world) list \<times> ('c, 'm) world) result" where
  "wait_ready_loop t fs w =
     (if status_of (w_d w) t = STATUS_READY then Inr (fs, w)
      else case fs of [] \<Rightarrow> Inl StillSpinning | f # fs' \<Rightarrow> wait_ready_loop t fs' (f w))"

definition wait_ready :: "('c, 'm) xstep" where
  "wait_ready x = bindR (wait_ready_loop (xr_thread_index x) (xr_script x) (xr_w x))
     (\<lambda>(fs, w). Inr (x\<lparr>xr_w := w, xr_script := fs\<rparr>))"

definition wait_on_lock_and_release_token :: "('c, 'm) run_env \<Rightarrow> nat \<Rightarrow> ('c, 'm) xstep" where
  "wait_on_lock_and_release_token E mutex x = steps
     [on_determ (wait_on_lock_begin (re_clock E) mutex (xr_thread_index x)),
      when_step (rc_deferred_work (re_config E)) (on_mem (xm_commit_deferred_end (re_conv E))),
      wait_ready,
      on_determ (wait_on_lock_end (re_clock E) (xr_thread_index x))] x"

definition cond_wait_determ :: "('c, 'm) run_env \<Rightarrow> nat \<Rightarrow> nat \<Rightarrow> ('c, 'm) xstep" where
  "cond_wait_determ E cond mutex x = steps
     [on_determ (cond_wait_begin (re_clock E) (xr_thread_index x) cond mutex),
      wait_ready,
      on_determ (cond_wait_end (re_clock E) (xr_thread_index x))] x"

subsection \<open>Mutexes\<close>

text \<open>
  \<open>__mutex_lock_inner\<close>: from \<open>retry\<close> on; a failed attempt goes back to \<open>retry\<close>. A
  retry waits for the token, so the length of the script bounds the number of attempts.
\<close>

definition lock_token :: "('c, 'm) run_env \<Rightarrow> nat \<Rightarrow> ('c, 'm) xstep" where
  "lock_token E failures x =
     when_step ((\<not> singleActiveThread E x \<and> \<not> xr_token_holding x) \<or> 0 < failures) (waitToken E) x"

definition lock_failed :: "('c, 'm) run_env \<Rightarrow> nat \<Rightarrow> nat \<Rightarrow> ('c, 'm) xstep" where
  "lock_failed E mutex failures = steps
     [when_step (failures = 0)
        (\<lambda>x. bindR (commitAndUpdateMemory_stats E x) (\<lambda>(cs, x'). Inr x')),
      endTXCoarsening E,
      if rc_kendo (re_config E)
      then steps [add_ticks E (word_of_int (KENDO_ACQ_INC (re_config E))), putToken_run E]
      else steps [wait_on_lock_and_release_token E mutex,
                  upd_var (\<lambda>x. x\<lparr>xr_token_holding := False\<rparr>)]]"

definition lock_commit :: "('c, 'm) run_env \<Rightarrow> ('c, 'm) xstep" where
  "lock_commit E x = bindR (commitAndUpdateMemory_stats E x) (\<lambda>(cs, x').
     add_ticks E (word_of_int (KENDO_ACQ_INC (re_config E)) + ticks_to_add E cs x' +
       word_of_int LOGICAL_CLOCK_TIME_LOCK) x')"

fun mutex_lock_retry ::
  "nat \<Rightarrow> ('c, 'm) run_env \<Rightarrow> nat \<Rightarrow> bool \<Rightarrow> nat \<Rightarrow> ('c, 'm) xstep" where
  "mutex_lock_retry 0 E mutex using failures x = Inl StillSpinning"
| "mutex_lock_retry (Suc n) E mutex using failures x =
     (let single = singleActiveThread E x in
      bindR (lock_token E failures x) (\<lambda>x1.
      let shouldUpdate = (xr_thread_index x1 \<noteq> ds_last_putter (xr_d x1)) in
      bindR (lock_acquire_run E mutex x1) (\<lambda>(got, x2).
      if \<not> got
      then if single then Inl ExitCalled
           else bindR (lock_failed E mutex failures x2) (mutex_lock_retry n E mutex False (Suc failures))
      else steps
        [when_step ((\<not> single \<and> \<not> using) \<or> shouldUpdate) (lock_commit E),
         round_robin_ticks E,
         when_step (\<not> single \<and> \<not> using) (putToken_run E)] x2)))"

definition mutex_lock_inner_full :: "('c, 'm) run_env \<Rightarrow> nat \<Rightarrow> bool \<Rightarrow> ('c, 'm) xstep" where
  "mutex_lock_inner_full E mutex allow_coarsening x =
     bindR (useTxCoarsening E (of_nat mutex) (x\<lparr>xr_lock_count := xr_lock_count x + 1\<rparr>)) (\<lambda>(b, x1).
       mutex_lock_retry (length (xr_script x1) + 2) E mutex (b \<and> allow_coarsening) 0 x1)"

text \<open>The variant chosen by \<open>USE_SIMPLE_LOCKS\<close>: the token is kept while any lock is held.\<close>

definition mutex_lock_inner_simple :: "('c, 'm) run_env \<Rightarrow> nat \<Rightarrow> ('c, 'm) xstep" where
  "mutex_lock_inner_simple E mutex x =
     (let need_to_update = \<not> xr_token_holding x in
      steps
        [waitToken E,
         upd_var (\<lambda>x. x\<lparr>xr_lock_count := xr_lock_count x + 1\<rparr>),
         round_robin_ticks E,
         \<lambda>x. bindR (lock_acquire_run E mutex x) (\<lambda>(got, x'). Inr x'),
         when_step need_to_update (commitAndUpdateMemory E)] x)"

definition mutex_lock_inner :: "('c, 'm) run_env \<Rightarrow> nat \<Rightarrow> bool \<Rightarrow> ('c, 'm) xstep" where
  "mutex_lock_inner E mutex allow_coarsening =
     (if rc_simple_locks (re_config E) then mutex_lock_inner_simple E mutex
      else mutex_lock_inner_full E mutex allow_coarsening)"

definition mutex_lock :: "('c, 'm) run_env \<Rightarrow> nat \<Rightarrow> ('c, 'm) xstep" where
  "mutex_lock E mutex = steps [stopClock E 0, mutex_lock_inner E mutex True, startClock E]"

definition mutex_unlock_simple :: "('c, 'm) run_env \<Rightarrow> nat \<Rightarrow> ('c, 'm) xstep" where
  "mutex_unlock_simple E mutex = steps
     [stopClock E (of_nat mutex),
      upd_var (\<lambda>x. x\<lparr>xr_lock_count := xr_lock_count x - 1\<rparr>),
      \<lambda>x. on_determ (lock_release (re_clock E) mutex (xr_thread_index x)) x,
      \<lambda>x. when_step (xr_lock_count x = 0)
            (steps [commitAndUpdateMemory E, round_robin_ticks E, putToken_run E]) x,
      startClock E]"

definition mutex_unlock_full :: "('c, 'm) run_env \<Rightarrow> nat \<Rightarrow> ('c, 'm) xstep" where
  "mutex_unlock_full E mutex x =
     bindR (stopClock E (of_nat mutex) x) (\<lambda>x1.
     let single = singleActiveThread E x1 in
     bindR (useTxCoarsening E 0 x1) (\<lambda>(using, x2).
     bindR (when_step (\<not> single \<and> \<not> xr_token_holding x2) (waitToken E)
              (x2\<lparr>xr_lock_count := xr_lock_count x2 - 1\<rparr>)) (\<lambda>x3.
     let shouldUpdate = (xr_thread_index x3 \<noteq> ds_last_putter (xr_d x3)) in
     bindR (lock_waiters_count mutex (xr_d x3)) (\<lambda>waiters.
     let commitForWaitingThread = (sint (ucast waiters :: u32) > 0 \<and> \<not> using) in
     steps
       [when_step ((\<not> singleActiveThread E x3 \<and> \<not> using) \<or> shouldUpdate \<or> commitForWaitingThread)
          (commitAndUpdateMemory E),
        on_determ (lock_release (re_clock E) mutex (xr_thread_index x3)),
        round_robin_ticks E,
        when_step (\<not> single \<and> \<not> using) (putToken_run E),
        startClock E] x3))))"

definition mutex_unlock :: "('c, 'm) run_env \<Rightarrow> nat \<Rightarrow> ('c, 'm) xstep" where
  "mutex_unlock E mutex =
     (if rc_simple_locks (re_config E) then mutex_unlock_simple E mutex else mutex_unlock_full E mutex)"

text \<open>What the calls that create a synchronisation object have in common.\<close>

definition with_token :: "('c, 'm) run_env \<Rightarrow> ('c, 'm) xstep \<Rightarrow> ('c, 'm) xstep" where
  "with_token E f = steps
     [stopClock E 0, waitToken E, f, commitAndUpdateMemory E, putToken_run E, startClock E]"

definition mutex_init :: "('c, 'm) run_env \<Rightarrow> nat \<Rightarrow> ('c, 'm) xstep" where
  "mutex_init E mutex = with_token E
     (\<lambda>x. on_determ (\<lambda>d. Inr (lock_init (re_alloc_lock E d) mutex d)) x)"

text \<open>
  Destroying a mutex needs no token. \<open>clearSyncEntry\<close> clears the caller's copy of the variable; its write
  to the shared copy goes to the address it has just cleared.
\<close>

definition mutex_destroy :: "('c, 'm) run_env \<Rightarrow> nat \<Rightarrow> ('c, 'm) xstep" where
  "mutex_destroy E mutex = on_determ (\<lambda>d. Inr (lock_destroy mutex d))"

subsection \<open>Condition variables\<close>

definition cond_init_run :: "('c, 'm) run_env \<Rightarrow> nat \<Rightarrow> ('c, 'm) xstep" where
  "cond_init_run E cond = with_token E
     (\<lambda>x. on_determ (\<lambda>d. Inr (cond_init (re_alloc_cond E d) cond d)) x)"

definition cond_destroy_run :: "bool \<Rightarrow> ('c, 'm) xstep" where
  "cond_destroy_run asserts x = (if asserts then Inl AssertFailed else Inr x)"

definition MAX_SLEEP_COUNT :: int where "MAX_SLEEP_COUNT = 10"

definition cond_wait_run :: "('c, 'm) run_env \<Rightarrow> nat \<Rightarrow> nat \<Rightarrow> ('c, 'm) xstep" where
  "cond_wait_run E cond mutex = steps
     [stopClock E 0,
      upd_var (\<lambda>x. x\<lparr>xr_lock_count := xr_lock_count x - 1\<rparr>),
      waitToken E,
      commitAndUpdateMemory E,
      \<lambda>x. when_step (xr_sleep_count x < MAX_SLEEP_COUNT) (steps
            [on_mem (xm_sleep (re_conv E)),
             upd_var (\<lambda>x. x\<lparr>xr_is_sleeping := True, xr_sleep_count := xr_sleep_count x + 1\<rparr>)]) x,
      endTXCoarsening E,
      cond_wait_determ E cond mutex,
      \<lambda>x. when_step (xr_is_sleeping x) (steps
            [on_mem (xm_wake (re_conv E)), upd_var (\<lambda>x. x\<lparr>xr_is_sleeping := False\<rparr>)]) x,
      upd_var (\<lambda>x. x\<lparr>xr_token_holding := False\<rparr>),
      commitAndUpdateMemory E,
      mutex_lock_inner E mutex False,
      startClock E]"

definition cond_broadcast_run :: "('c, 'm) run_env \<Rightarrow> nat \<Rightarrow> ('c, 'm) xstep" where
  "cond_broadcast_run E cond = steps
     [stopClock E 0,
      resetTXCoarsening E,
      waitToken E,
      commitAndUpdateMemory E,
      \<lambda>x. on_determ (cond_broadcast (re_clock E) (xr_thread_index x) cond) x,
      round_robin_ticks E,
      putToken_run E,
      startClock E]"

definition cond_signal_run :: "('c, 'm) run_env \<Rightarrow> nat \<Rightarrow> ('c, 'm) xstep" where
  "cond_signal_run E cond x =
     bindR (steps [stopClock E 0, resetTXCoarsening E] x) (\<lambda>x1.
     let acquiringToken = \<not> xr_token_holding x1 in
     steps
       [when_step acquiringToken (steps [waitToken E, commitAndUpdateMemory E]),
        \<lambda>x. on_determ (cond_signal (re_clock E) (xr_thread_index x) cond) x,
        round_robin_ticks E,
        when_step acquiringToken (putToken_run E),
        startClock E] x1)"

subsection \<open>Barriers\<close>

definition barrier_init_run :: "('c, 'm) run_env \<Rightarrow> nat \<Rightarrow> u32 \<Rightarrow> ('c, 'm) xstep" where
  "barrier_init_run E bar count = with_token E
     (\<lambda>x. on_determ (\<lambda>d. barrier_init (fst (re_alloc_barrier E d)) (snd (re_alloc_barrier E d))
        (sint count) bar d) x)"

definition barrier_destroy_run :: "bool \<Rightarrow> ('c, 'm) xstep" where
  "barrier_destroy_run asserts x = (if asserts then Inl AssertFailed else Inr x)"

definition mem_view_of :: "('c, 'm) run_env \<Rightarrow> 'm xmemory \<Rightarrow> mem_view" where
  "mem_view_of E m = \<lparr>mv_heap_version = xm_current_heap_version (re_conv E) m,
     mv_globals_version = xm_current_globals_version (re_conv E) m,
     mv_dirty = xm_dirty_pages (re_conv E) m,
     mv_dirty_heap = xm_dirty_pages_heap (re_conv E) m,
     mv_dirty_globals = xm_dirty_pages_globals (re_conv E) m\<rparr>"

text \<open>The versions are passed to \<open>commit_parallel\<close> as an \<open>int\<close>.\<close>

definition barrier_wait_full :: "('c, 'm) run_env \<Rightarrow> nat \<Rightarrow> ('c, 'm) xstep" where
  "barrier_wait_full E v x =
     bindR (getToken E x) (\<lambda>x1.
     let t = xr_thread_index x1; b = ds_var (xr_d x1) v in
     bindR (barrier_arrive (re_clock E) t v (mem_view_of E (xr_mem x1)) (xr_d x1))
       (\<lambda>((heapVersion, globalsVersion, ourHeapVersion, ourGlobalsVersion), d).
     let x2 = x1\<lparr>xr_w := (xr_w x1)\<lparr>w_d := d\<rparr>\<rparr> in
     bindR (xm_commit_parallel (re_conv E) (sint (ucast heapVersion :: u32)) (sint (ucast globalsVersion :: u32))
         (re_commit_heap E d) (re_commit_globals E d) (xr_mem x2)) (\<lambda>m.
     bindR (wait_for_commiters (br_maxthreads (ds_barriers d b)) (re_commit_obs E d) 0
         ourHeapVersion ourGlobalsVersion) (\<lambda>n.
     steps
       [on_mem (\<lambda>_. m),
        on_determ (\<lambda>d. Inr (barrier_committed b d)),
        on_mem (xm_update (re_conv E) ^^ n),
        others,
        on_determ (barrier_leave (re_clock E) t),
        on_mem (xm_update (re_conv E)),
        others,
        on_determ (barrier_finish (re_clock E) t b)] x2))))"

definition barrier_wait_simple :: "('c, 'm) run_env \<Rightarrow> nat \<Rightarrow> ('c, 'm) xstep" where
  "barrier_wait_simple E v x =
     bindR (steps [getToken E, commitAndUpdate E] x) (\<lambda>x1.
     let t = xr_thread_index x1; b = ds_var (xr_d x1) v in
     bindR (simple_arrive (re_config E) (re_clock E) t v (xr_d x1)) (\<lambda>(halted, d).
     steps
       [others,
        on_determ (simple_wake (re_clock E) halted),
        others,
        when_step halted (getToken E),
        when_step (\<not> halted) (on_determ (\<lambda>d. Inr (upd_barrier b (\<lambda>e. e\<lparr>br_counter := 0\<rparr>) d))),
        commitAndUpdate E,
        round_robin_ticks E,
        on_determ (putToken (re_clock E) t)] (x1\<lparr>xr_w := (xr_w x1)\<lparr>w_d := d\<rparr>\<rparr>)))"

definition barrier_wait_run :: "('c, 'm) run_env \<Rightarrow> nat \<Rightarrow> ('c, 'm) xstep" where
  "barrier_wait_run E v = steps
     [stopClock E 0,
      putToken_run E,
      if rc_simple_barrier (re_config E) then barrier_wait_simple E v else barrier_wait_full E v,
      startClock E]"

end
