(* ===== verification/Xrun_Threads.thy ===== *)
theory Xrun_Threads
  imports Xrun_Sync
begin

text \<open>
  The calls of \<open>xrun.h\<close> and \<open>xthread.cpp\<close> that begin, end, join and cancel threads.
\<close>

subsection \<open>Beginning and end of the program\<close>

text \<open>\<open>initialize\<close>, after the stack limit has been set; \<open>mem\<close> is freshly initialised memory.\<close>

definition initialize_vars :: "('c, 'm) run_env \<Rightarrow> ('c, 'm) xrun \<Rightarrow> ('c, 'm) xrun" where
  "initialize_vars E x = x\<lparr>xr_initialized := True, xr_lock_count := 0, xr_token_holding := False,
     xr_sleep_count := 0, xr_is_sleeping := False, xr_coarsening_counter := 0,
     xr_consecutively_coarsened := 0,
     xr_coarsening_level := LOGICAL_CLOCK_MIN_ALLOWABLE_TX_SIZE (re_config E),
     xr_monitor_next := False, xr_thread_index := 0\<rparr>"

definition initialize :: "('c, 'm) run_env \<Rightarrow> int \<Rightarrow> 'm xmemory \<Rightarrow> ('c, 'm) xstep" where
  "initialize E pid mem = steps
     [upd_var (initialize_vars E),
      on_mem (\<lambda>_. xm_setThreadIndex 0 mem),
      on_determ (\<lambda>d. Inr (registerMaster 0 pid d)),
      on_determ (on_clock (ca_activate (re_clock E))),
      startClock E]"

definition finalize_determ :: "('c, 'm) xstep" where
  "finalize_determ = upd_var (\<lambda>x. x\<lparr>xr_w := (xr_w x)\<lparr>w_master_finished := True\<rparr>\<rparr>)"

definition done_run :: "('c, 'm) run_env \<Rightarrow> ('c, 'm) xstep" where
  "done_run E = steps
     [waitToken E,
      finalize_determ,
      on_pool (\<lambda>p. Inr (terminate_all (re_config E) p)),
      putToken_run E]"

text \<open>The handler of the signal that makes a thread commit.\<close>

definition sigstopHandle :: "('c, 'm) run_env \<Rightarrow> ('c, 'm) xstep" where
  "sigstopHandle E = steps
     [stopClock E 0, waitToken E, commitAndUpdateMemory E, putToken_run E, startClock E]"

subsection \<open>Beginning and end of a thread\<close>

definition childRegister :: "('c, 'm) run_env \<Rightarrow> int \<Rightarrow> nat \<Rightarrow> nat \<Rightarrow> ('c, 'm) xstep" where
  "childRegister E pid parentindex child_index = steps
     [upd_var (\<lambda>x. x\<lparr>xr_thread_index := child_index, xr_lock_count := 0, xr_token_holding := False\<rparr>),
      on_mem (xm_wake (re_conv E)),
      on_determ (\<lambda>d. Inr (registerThread child_index pid parentindex d)),
      on_mem (xm_setThreadIndex (int child_index)),
      waitToken E,
      round_robin_ticks E,
      commitAndUpdateMemory E,
      putToken_run E]"

text \<open>
  \<open>deregisterThread\<close> waits with the token until a parent that joins the thread has seen its exit.
\<close>

fun wait_parent_loop ::
  "nat \<Rightarrow> (('c, 'm) world \<Rightarrow> ('c, 'm) world) list \<Rightarrow> ('c, 'm) world \<Rightarrow>
   ((('c, 'm) world \<Rightarrow> ('c, 'm) world) list \<times> ('c, 'm) world) result" where
  "wait_parent_loop parent fs w =
     (if status_of (w_d w) parent \<noteq> STATUS_OTHERS_NEED_TO_WAIT then Inr (fs, w)
      else case fs of [] \<Rightarrow> Inl StillSpinning | f # fs' \<Rightarrow> wait_parent_loop parent fs' (f w))"

definition deregisterThread :: "('c, 'm) run_env \<Rightarrow> ('c, 'm) xstep" where
  "deregisterThread E x =
     (let t = xr_thread_index x; parent = te_parent (ds_threads (xr_d x) t) in
      case deregister_begin t (xr_d x) of (wait, d) \<Rightarrow>
      bindR (if wait then wait_parent_loop parent (xr_script x) ((xr_w x)\<lparr>w_d := d\<rparr>)
             else Inr (xr_script x, (xr_w x)\<lparr>w_d := d\<rparr>)) (\<lambda>(fs, w).
      on_determ (deregister_end (re_clock E) t) (x\<lparr>xr_w := w, xr_script := fs\<rparr>)))"

definition threadDeregister :: "('c, 'm) run_env \<Rightarrow> ('c, 'm) xstep" where
  "threadDeregister E = steps
     [stopClock E 0,
      waitToken E,
      commitAndUpdateMemory E,
      \<lambda>x. on_pool (if w_master_finished (xr_w x)
                   then \<lambda>p. Inr (set_exit_by_id (xr_thread_index x) p)
                   else add_thread_to_pool_by_id (re_config E) (xr_thread_index x)) x,
      on_mem (xm_sleep (re_conv E)),
      deregisterThread E]"

definition finalThreadExit :: "('c, 'm) run_env \<Rightarrow> ('c, 'm) xstep" where
  "finalThreadExit E = on_determ (on_clock (ca_close (re_clock E)))"

subsection \<open>xthread\<close>

definition upd_status_obj ::
  "addr \<Rightarrow> (ThreadStatus \<Rightarrow> ThreadStatus) \<Rightarrow> ('c, 'm) xrun \<Rightarrow> ('c, 'm) xrun" where
  "upd_status_obj a f x =
     x\<lparr>xr_w := (xr_w x)\<lparr>w_status := (w_status (xr_w x))(a := f (w_status (xr_w x) a))\<rparr>\<rparr>"

definition pool_entry_of :: "addr \<Rightarrow> ('c, 'm) xrun \<Rightarrow> pool_entry" where
  "pool_entry_of tpe x = pl_entries (w_pool (xr_w x)) tpe"

text \<open>A process is created only for an entry without a parked thread.\<close>

definition forkSpawn :: "addr \<Rightarrow> ('c, 'm) xstep" where
  "forkSpawn tpe x =
     (if pe_status (pool_entry_of tpe x) = THREAD_POOL_ENTRY_INIT
      then Inr (x\<lparr>xr_w := (xr_w x)\<lparr>w_cloned := w_cloned (xr_w x) @ [pe_id (pool_entry_of tpe x)]\<rparr>\<rparr>)
      else Inr x)"

definition spawn_xthread :: "('c, 'm) run_env \<Rightarrow> addr \<Rightarrow> ('c, 'm) xstep" where
  "spawn_xthread E tpe x =
     (let obj = pe_thread_status_obj (pool_entry_of tpe x);
          t = (if obj = NULL then re_alloc_status E (w_status (xr_w x)) else obj) in
      steps
        [when_step (obj = NULL) (on_pool (\<lambda>p. Inr (set_threadstatus tpe t p))),
         upd_var (upd_status_obj t (\<lambda>s. s\<lparr>ts_threadIndex := pe_id (pool_entry_of tpe x)\<rparr>)),
         forkSpawn tpe] x)"

definition getThreadIndex :: "addr \<Rightarrow> ('c, 'm) xrun \<Rightarrow> nat" where
  "getThreadIndex v x = ts_threadIndex (w_status (xr_w x) v)"

text \<open>
  \<open>do_work\<close>, one round: the function \<open>body\<close> of the thread runs between the registration and the
  exit. The result says whether the thread ends.
\<close>

definition run_thread :: "('c, 'm) run_env \<Rightarrow> (addr \<Rightarrow> ('c, 'm) xrun \<Rightarrow> (addr \<times> ('c, 'm) xrun) result) \<Rightarrow>
    addr \<Rightarrow> addr \<Rightarrow> ('c, 'm) xstep" where
  "run_thread E body t arg x =
     bindR (on_determ (on_clock (ca_start (re_clock E))) x) (\<lambda>x1.
     bindR (body arg x1) (\<lambda>(res, x2).
     bindR (threadDeregister E x2) (\<lambda>x3. Inr (upd_status_obj t (\<lambda>s. s\<lparr>ts_retval := res\<rparr>) x3))))"

definition do_work_round ::
  "('c, 'm) run_env \<Rightarrow> (nat \<Rightarrow> 'c \<Rightarrow> 'c result) \<Rightarrow>
   (nat \<Rightarrow> addr \<Rightarrow> ('c, 'm) xrun \<Rightarrow> (addr \<times> ('c, 'm) xrun) result) \<Rightarrow> int \<Rightarrow> nat \<Rightarrow> addr \<Rightarrow>
   ('c, 'm) xrun \<Rightarrow> (bool \<times> ('c, 'm) xrun) result" where
  "do_work_round E init_with_id body pid parent_index tpe x =
     (let e = pool_entry_of tpe x; t = pe_thread_status_obj e in
      bindR (steps
        [upd_var (upd_status_obj t (\<lambda>s. s\<lparr>ts_tid := pid\<rparr>)),
         on_determ (if pe_status e = THREAD_POOL_ENTRY_INIT then on_clock (init_with_id (pe_id e))
                    else (\<lambda>d. Inr (on_wakeup (re_clock E) d))),
         childRegister E pid parent_index (pe_id e),
         run_thread E (body (pe_run_function e)) t (pe_run_function_arg e),
         on_pool (\<lambda>p. Inr (park_thread_begin (re_config E) tpe p)),
         when_step (rc_thread_pool (re_config E)) others] x) (\<lambda>x'.
      Inr (pe_status (pool_entry_of tpe x') = THREAD_POOL_ENTRY_EXIT, x')))"

subsection \<open>Calls on other threads\<close>

definition STACK_SIZE :: u64 where "STACK_SIZE = 1048576 * 100"

definition is_stack_addr :: "u64 \<Rightarrow> u64 \<Rightarrow> ('c, 'm) xrun \<Rightarrow> bool" where
  "is_stack_addr a end_of_stack x \<longleftrightarrow>
     \<not> (xm_inHeapRange (xr_mem x) a \<or> xm_inGlobalsRange (xr_mem x) a) \<and>
     a > end_of_stack \<and> a - end_of_stack < STACK_SIZE"

text \<open>\<open>spawn\<close>; the result is the thread's handle, its status object.\<close>

definition get_thread_run ::
  "('c, 'm) run_env \<Rightarrow> nat \<Rightarrow> u64 \<Rightarrow> u64 \<Rightarrow> ('c, 'm) xrun \<Rightarrow> (addr \<times> ('c, 'm) xrun) result" where
  "get_thread_run E fn arg end_of_stack x =
     bindR (get_thread (re_config E) (re_clock E) (re_memory E) fn (unat arg)
        (if is_stack_addr arg end_of_stack x then STACK_ALLOCATED_ARG else HEAP_OR_GLOBAL_ARG)
        (w_pool (xr_w x)) (xr_clock x)) (\<lambda>(tpe, p, c).
     Inr (tpe, x\<lparr>xr_w := (xr_w x)\<lparr>w_pool := p, w_d := (xr_d x)\<lparr>ds_clock := c\<rparr>\<rparr>\<rparr>))"

definition spawn ::
  "('c, 'm) run_env \<Rightarrow> nat \<Rightarrow> u64 \<Rightarrow> u64 \<Rightarrow> ('c, 'm) xrun \<Rightarrow> (addr \<times> ('c, 'm) xrun) result" where
  "spawn E fn arg end_of_stack x =
     bindR (stopClockNoCoarsen E x) (\<lambda>x0.
     if xr_lock_count x0 > 0 then Inl ExitCalled
     else bindR (steps
       [waitToken E,
        commitAndUpdateMemory E,
        \<lambda>x. add_ticks E (word_of_int (LOGICAL_CLOCK_TIME_FORK_PER_PAGE (re_config E) *
               xm_logical_pages (re_conv E) (xr_mem x))) x] x0) (\<lambda>x1.
     bindR (get_thread_run E fn arg end_of_stack x1) (\<lambda>(tpe, x2).
     bindR (steps
       [when_step (rc_round_robin (re_config E)) (add_ticks E LOGICAL_CLOCK_ROUND_ROBIN_FORKED_THREAD),
        putTokenNoFastForward_run E,
        spawn_xthread E tpe] x2) (\<lambda>x3.
     let tid = pe_thread_status_obj (pool_entry_of tpe x3) in
     bindR (steps
       [waitToken E, commitAndUpdateMemory E, putToken_run E, startClock E] x3) (\<lambda>x4.
     Inr (tid, x4))))))"

text \<open>
  \<open>determ::join\<close>: the loop around the wait for threads to exit, each wait one step of the others.
\<close>

fun join_loop ::
  "'c clock_api \<Rightarrow> nat \<Rightarrow> nat \<Rightarrow> (('c, 'm) world \<Rightarrow> ('c, 'm) world) list \<Rightarrow> ('c, 'm) world \<Rightarrow>
   ((('c, 'm) world \<Rightarrow> ('c, 'm) world) list \<times> ('c, 'm) world) result" where
  "join_loop K me guest fs w =
     (if status_of (w_d w) guest = STATUS_EXIT then Inr (fs, w)
      else bindR (join_round K me (w_d w)) (\<lambda>d.
        case fs of [] \<Rightarrow> Inl StillSpinning | f # fs' \<Rightarrow> join_loop K me guest fs' (f (w\<lparr>w_d := d\<rparr>))))"

definition join_determ :: "('c, 'm) run_env \<Rightarrow> nat \<Rightarrow> ('c, 'm) xstep" where
  "join_determ E guest x =
     (let me = xr_thread_index x in
      bindR (join_begin (re_clock E) guest me (xr_d x)) (\<lambda>(halted, d).
      bindR (join_loop (re_clock E) me guest (xr_script x) ((xr_w x)\<lparr>w_d := d\<rparr>)) (\<lambda>(fs, w).
      steps
        [on_determ (join_end (re_clock E) halted me),
         when_step halted (getToken E)] (x\<lparr>xr_w := w, xr_script := fs\<rparr>))))"

text \<open>\<open>join\<close>; the result is that of the joined thread, or nothing for a null handle.\<close>

definition join ::
  "('c, 'm) run_env \<Rightarrow> addr \<Rightarrow> ('c, 'm) xrun \<Rightarrow> (addr option \<times> ('c, 'm) xrun) result" where
  "join E v x =
     bindR (stopClockNoCoarsen E x) (\<lambda>x0.
     if v = NULL then Inr (None, x0)
     else bindR (steps
       [waitToken E,
        commitAndUpdateMemory E,
        on_mem (xm_sleep (re_conv E)),
        \<lambda>x. join_determ E (getThreadIndex v x) x,
        \<lambda>x. add_ticks E (ucast (fast_forward_clock E x)) x,
        on_mem (xm_wake (re_conv E)),
        commitAndUpdateMemory E,
        putToken_run E] x0) (\<lambda>x1.
     bindR (startClock E x1) (\<lambda>x2. Inr (Some (ts_retval (w_status (xr_w x1) v)), x2))))"

definition cancel_run :: "('c, 'm) run_env \<Rightarrow> bool \<Rightarrow> addr \<Rightarrow> ('c, 'm) xstep" where
  "cancel_run E asserts v = steps
     [stopClockNoCoarsen E,
      waitToken E,
      commitAndUpdateMemory E,
      \<lambda>x. on_determ (\<lambda>d. bindR (cancel asserts (getThreadIndex v x) d) (\<lambda>(found, d'). Inr d')) x,
      putToken_run E,
      startClock E]"

end
