(* ===== verification/Token_Effect.thy ===== *)
theory Token_Effect
  imports Determ
begin

text \<open>
  What the operations of \<open>determ.h\<close> do to the token, whatever the queues look like: they
  leave it where it is, or they give it up.
\<close>

definition keeps_token :: "('c determ \<Rightarrow> 'c determ result) \<Rightarrow> bool" where
  "keeps_token f \<longleftrightarrow> (\<forall>d d'. f d = Inr d' \<longrightarrow> ds_tokenpos d' = ds_tokenpos d)"

definition gives_token :: "('c determ \<Rightarrow> 'c determ result) \<Rightarrow> bool" where
  "gives_token f \<longleftrightarrow> (\<forall>d d'. f d = Inr d' \<longrightarrow> ds_tokenpos d' = None)"

named_theorems token_effect \<open>which operations keep the token and which give it up\<close>

lemma token_upds [simp]:
  "ds_tokenpos (upd_thread t f s) = ds_tokenpos s"
  "ds_tokenpos (upd_lock p g s) = ds_tokenpos s"
  "ds_tokenpos (upd_cond p h s) = ds_tokenpos s"
  "ds_tokenpos (upd_barrier p k s) = ds_tokenpos s"
  "ds_tokenpos (set_status t st s) = ds_tokenpos s"
  by (simp_all add: upd_thread_def upd_lock_def upd_cond_def upd_barrier_def set_status_def)

lemma on_clock_keeps [token_effect]: "keeps_token (on_clock f)"
  by (auto simp: keeps_token_def on_clock_def bindR_Inr_iff)

lemma on_clock_pos: "on_clock f s = Inr s' \<Longrightarrow> ds_tokenpos s' = ds_tokenpos s"
  using on_clock_keeps[of f] by (simp add: keeps_token_def)

lemma pure_keeps: "(\<And>d. ds_tokenpos (f d) = ds_tokenpos d) \<Longrightarrow> keeps_token (\<lambda>d. Inr (f d))"
  by (auto simp: keeps_token_def)

lemma activate_pos:
  "activate_and_count K t s = Inr s' \<Longrightarrow> ds_tokenpos s' = ds_tokenpos s"
  by (auto simp: activate_and_count_def bindR_Inr_iff Let_def split: prod.splits)

lemma lock_release_keeps [token_effect]: "keeps_token (lock_release K mutex t)"
  unfolding keeps_token_def lock_release_def
  by (auto simp: bindR_Inr_iff Let_def dest!: activate_pos split: if_splits prod.splits)

lemma cond_signal_keeps [token_effect]: "keeps_token (cond_signal K t c)"
  unfolding keeps_token_def cond_signal_def
  by (auto simp: bindR_Inr_iff Let_def dest!: activate_pos split: if_splits prod.splits)

lemma cond_wake_all_pos: "cond_wake_all n K c s = Inr s' \<Longrightarrow> ds_tokenpos s' = ds_tokenpos s"
proof (induction n arbitrary: s)
  case (Suc n)
  obtain w a h where r: "removeHeadEntry (cv_head (ds_conds s c)) (ds_links s) = Inr (w, a, h)"
    using Suc(2) by (auto simp: bindR_Inr_iff)
  show ?case using Suc(2) r by (auto simp: bindR_Inr_iff Let_def dest!: Suc(1) split: if_splits)
qed simp

lemma cond_broadcast_keeps [token_effect]: "keeps_token (cond_broadcast K t c)"
  unfolding keeps_token_def cond_broadcast_def
  by (auto simp: bindR_Inr_iff Let_def dest!: cond_wake_all_pos split: if_splits)

lemma lock_acquire_pos: "lock_acquire u mem mutex t s = (got, s') \<Longrightarrow> ds_tokenpos s' = ds_tokenpos s"
  by (auto simp: lock_acquire_def lock_init_def Let_def split: if_splits prod.splits)

lemma lock_init_keeps [token_effect]: "keeps_token (\<lambda>d. Inr (lock_init (mem d) mutex d))"
  by (rule pure_keeps) (simp add: lock_init_def split: prod.splits)

lemma lock_destroy_keeps [token_effect]: "keeps_token (\<lambda>d. Inr (lock_destroy mutex d))"
  by (rule pure_keeps) (simp add: lock_destroy_def)

lemma cond_init_keeps [token_effect]: "keeps_token (\<lambda>d. Inr (cond_init (p d) c d))"
  by (rule pure_keeps) (simp add: cond_init_def)

lemma register_keeps [token_effect]: "keeps_token (\<lambda>d. Inr (registerThread t pid p d))"
  by (rule pure_keeps) (simp add: registerThread_def)

lemma cancel_keeps [token_effect]:
  "keeps_token (\<lambda>d. bindR (cancel asserts (t d) d) (\<lambda>(found, d'). Inr d'))"
  unfolding keeps_token_def cancel_def
  by (auto simp: bindR_Inr_iff Let_def freeThreadEntry_def
      split: threadStatus.splits if_splits prod.splits)

lemma put_token_gives [token_effect]: "gives_token (put_token K t ff)"
  unfolding gives_token_def put_token_def
  by (auto simp: Let_def split: option.splits if_splits)

lemma put_token_pos: "put_token K t ff s = Inr s' \<Longrightarrow> ds_tokenpos s' = None"
  using put_token_gives[of K t ff] by (simp add: gives_token_def)

lemma wait_on_lock_begin_gives [token_effect]: "gives_token (wait_on_lock_begin K mutex t)"
  unfolding gives_token_def wait_on_lock_begin_def
  by (auto simp: bindR_Inr_iff Let_def putToken_def dest!: put_token_pos split: if_splits)

lemma cond_wait_begin_gives [token_effect]: "gives_token (cond_wait_begin K t c mutex)"
  unfolding gives_token_def cond_wait_begin_def
  by (auto simp: bindR_Inr_iff Let_def putTokenLockHeld_def dest!: put_token_pos split: if_splits)

lemma wait_end_keeps [token_effect]:
  "keeps_token (wait_on_lock_end K t)" "keeps_token (cond_wait_end K t)"
  by (auto simp: keeps_token_def wait_on_lock_end_def cond_wait_end_def on_wakeup_def split: if_splits)

lemma on_wakeup_keeps [token_effect]: "keeps_token (\<lambda>d. Inr (on_wakeup K d))"
  by (rule pure_keeps) (simp add: on_wakeup_def)

lemma join_begin_pos:
  "join_begin K g me s = Inr (b, s') \<Longrightarrow> ds_tokenpos s' = ds_tokenpos s"
  by (auto simp: join_begin_def bindR_Inr_iff dest!: on_clock_pos split: if_splits)

lemma join_end_keeps [token_effect]: "keeps_token (join_end K b me)"
  unfolding keeps_token_def join_end_def
  by (auto simp: bindR_Inr_iff dest!: on_clock_pos split: if_splits)

lemma join_round_pos:
  "join_round K me s = Inr s' \<Longrightarrow> ds_tokenpos s' = (if ds_tokenpos s = Some me then None else ds_tokenpos s)"
  by (auto simp: join_round_def Let_def putTokenLockHeld_def dest!: put_token_pos split: if_splits)

end
