(* ===== verification/Run_Discipline.thy ===== *)
theory Run_Discipline
  imports Xrun_Threads Token_Effect
begin

text \<open>
  How the calls of a thread use the token. Each call is a sequence of steps, and a triple says of a
  sequence what holds after it. The calls are followed for an arbitrary property of the thread's state that the
  single steps keep, together with what is known about the flag \<open>_token_holding\<close> and about
  the token itself.
\<close>

subsection \<open>Triples\<close>

definition triple :: "('a \<Rightarrow> bool) \<Rightarrow> ('a \<Rightarrow> 'a result) \<Rightarrow> ('a \<Rightarrow> bool) \<Rightarrow> bool" where
  "triple P f Q \<longleftrightarrow> (\<forall>x y. P x \<longrightarrow> f x = Inr y \<longrightarrow> Q y)"

lemma tripleI: "(\<And>x y. P x \<Longrightarrow> f x = Inr y \<Longrightarrow> Q y) \<Longrightarrow> triple P f Q"
  by (simp add: triple_def)

lemma tripleD: "triple P f Q \<Longrightarrow> P x \<Longrightarrow> f x = Inr y \<Longrightarrow> Q y"
  by (simp add: triple_def)

lemma triple_Nil: "(\<And>x. P x \<Longrightarrow> Q x) \<Longrightarrow> triple P (steps []) Q"
  by (simp add: triple_def)

lemma triple_Cons: "triple P f Q \<Longrightarrow> triple Q (steps fs) R \<Longrightarrow> triple P (steps (f # fs)) R"
  by (auto simp: triple_def bindR_Inr_iff)

lemma triple_last: "triple P f Q \<Longrightarrow> triple P (steps [f]) Q"
  by (auto simp: triple_def bindR_Inr_iff)

lemma triple_all: "(\<And>f. f \<in> set fs \<Longrightarrow> triple P f P) \<Longrightarrow> triple P (steps fs) P"
  by (induction fs) (auto intro: triple_Nil triple_Cons)

lemma triple_when: "(b \<Longrightarrow> triple P f Q) \<Longrightarrow> (\<And>x. \<not> b \<Longrightarrow> P x \<Longrightarrow> Q x) \<Longrightarrow> triple P (when_step b f) Q"
  by (auto simp: triple_def when_step_def)

lemma triple_when_true: "b \<Longrightarrow> triple P f Q \<Longrightarrow> triple P (when_step b f) Q"
  by (simp add: triple_def when_step_def)

lemma triple_when_false: "\<not> b \<Longrightarrow> triple P (when_step b f) P"
  by (simp add: triple_def when_step_def)

lemma triple_weaken: "triple P' f Q' \<Longrightarrow> (\<And>x. P x \<Longrightarrow> P' x) \<Longrightarrow> (\<And>x. Q' x \<Longrightarrow> Q x) \<Longrightarrow> triple P f Q"
  by (auto simp: triple_def)

text \<open>A step that looks at the state first.\<close>

lemma triple_at: "(\<And>z. P z \<Longrightarrow> triple (\<lambda>x. P x \<and> x = z) (f z) Q) \<Longrightarrow> triple P (\<lambda>x. f x x) Q"
  by (auto simp: triple_def)

declare wait_ready_loop.simps [simp del] join_loop.simps [simp del] wait_parent_loop.simps [simp del]

subsection \<open>The contract\<close>

definition mine :: "('c, 'm) xrun \<Rightarrow> bool" where
  "mine x \<longleftrightarrow> ds_tokenpos (xr_d x) = Some (xr_thread_index x)"

text \<open>
  \<open>base n x\<close>: a property of what a thread keeps outside the synchronisation state, its
  variables for the token and the memory; \<open>n\<close> bounds the commits without the token, which are
  counted when no thread ever runs alone.
\<close>

locale run_contract =
  fixes E :: "('c, 'm) run_env" and base :: "nat \<Rightarrow> ('c, 'm) xrun \<Rightarrow> bool"
  assumes frame: "base n x \<Longrightarrow> xr_thread_index y = xr_thread_index x \<Longrightarrow>
      xr_coarsening_level y = xr_coarsening_level x \<Longrightarrow> xr_commits y = xr_commits x \<Longrightarrow>
      xr_script y = xr_script x \<Longrightarrow> base n y"
    and script: "base n x \<Longrightarrow> xr_script x = f # fs \<Longrightarrow> base n (x\<lparr>xr_w := w, xr_script := fs\<rparr>)"
    and env: "base n x \<Longrightarrow> xr_script x = f # fs \<Longrightarrow>
      ds_tokenpos (w_d (f w)) = Some (xr_thread_index x) \<longleftrightarrow> ds_tokenpos (w_d w) = Some (xr_thread_index x)"
    and reset: "base n x \<Longrightarrow>
      base n (x\<lparr>xr_coarsening_level := LOGICAL_CLOCK_MIN_ALLOWABLE_TX_SIZE (re_config E)\<rparr>)"
    and adapt: "base n x \<Longrightarrow> base n (adapt_level E x)"
    and alone: "\<exists>z. singleActiveThread E z \<Longrightarrow> base n x \<Longrightarrow> base k x"
    and commit: "base n x \<Longrightarrow>
      base (if mine x \<or> (\<exists>z. singleActiveThread E z) then n else Suc n) (x\<lparr>xr_commits := xr_commits x @ [mine x]\<rparr>)"
    and more: "base n x \<Longrightarrow> base (Suc n) x"
begin

text \<open>\<open>obeys n R\<close>: the property, and the relation \<open>R\<close> between the flag and the token.\<close>

definition obeys :: "nat \<Rightarrow> (bool \<Rightarrow> bool \<Rightarrow> bool) \<Rightarrow> ('c, 'm) xrun \<Rightarrow> bool" where
  "obeys n R x \<longleftrightarrow> base n x \<and> R (xr_token_holding x) (mine x)"

abbreviation held :: "nat \<Rightarrow> ('c, 'm) xrun \<Rightarrow> bool" where "held n \<equiv> obeys n (\<lambda>f m. f \<and> m)"
abbreviation free :: "nat \<Rightarrow> ('c, 'm) xrun \<Rightarrow> bool" where "free n \<equiv> obeys n (\<lambda>f m. \<not> f \<and> \<not> m)"
abbreviation known :: "nat \<Rightarrow> ('c, 'm) xrun \<Rightarrow> bool" where "known n \<equiv> obeys n (\<lambda>f m. f = m)"

lemma obeys_weaken: "obeys n R x \<Longrightarrow> (\<And>f m. R f m \<Longrightarrow> S f m) \<Longrightarrow> obeys n S x"
  by (simp add: obeys_def)

lemma obeys_frame:
  assumes "obeys n R x" and "xr_thread_index y = xr_thread_index x" "xr_coarsening_level y = xr_coarsening_level x"
    "xr_commits y = xr_commits x" "xr_script y = xr_script x" "xr_token_holding y = xr_token_holding x"
    "ds_tokenpos (xr_d y) = ds_tokenpos (xr_d x)"
  shows "obeys n R y"
  using assms frame[of n x y] by (simp add: obeys_def mine_def)

lemma upd_frame:
  assumes "\<And>x. xr_thread_index (f x) = xr_thread_index x \<and> xr_coarsening_level (f x) = xr_coarsening_level x \<and>
    xr_commits (f x) = xr_commits x \<and> xr_script (f x) = xr_script x \<and>
    xr_token_holding (f x) = xr_token_holding x \<and> ds_tokenpos (xr_d (f x)) = ds_tokenpos (xr_d x)"
  shows "triple (obeys n R) (upd_var f) (obeys n R)"
  using assms obeys_frame by (auto simp: triple_def upd_var_def)

lemma mem_step: "triple (obeys n R) (on_mem f) (obeys n R)"
  by (rule tripleI) (auto simp: on_mem_def elim!: obeys_frame)

lemma pool_step: "triple (obeys n R) (on_pool f) (obeys n R)"
  by (rule tripleI) (auto simp: on_pool_def bindR_Inr_iff elim!: obeys_frame)

lemma determ_step: "keeps_token f \<Longrightarrow> triple (obeys n R) (on_determ f) (obeys n R)"
  by (rule tripleI) (auto simp: on_determ_def bindR_Inr_iff keeps_token_def elim!: obeys_frame)

lemma gives_step: "gives_token f \<Longrightarrow> triple (obeys n R) (on_determ f) (obeys n (\<lambda>f m. \<not> m \<and> (\<exists>p. R f p)))"
  by (rule tripleI)
    (auto simp: on_determ_def bindR_Inr_iff gives_token_def obeys_def mine_def elim!: frame)

lemma flag_step:
  "triple (obeys n R) (upd_var (\<lambda>x. x\<lparr>xr_token_holding := b\<rparr>)) (obeys n (\<lambda>f m. f = b \<and> (\<exists>g. R g m)))"
  by (rule tripleI) (auto simp: upd_var_def obeys_def mine_def elim!: frame)

lemma script_step:
  "obeys n R x \<Longrightarrow> xr_script x = f # fs \<Longrightarrow> obeys n R (x\<lparr>xr_w := f (xr_w x), xr_script := fs\<rparr>)"
  using env[of n x f fs "xr_w x"] script[of n x f fs] by (simp add: obeys_def mine_def)

lemma others_step: "triple (obeys n R) others (obeys n R)"
  by (rule tripleI) (auto split: list.splits dest: script_step)

lemma ticks_step: "triple (obeys n R) (add_ticks E k) (obeys n R)"
  unfolding add_ticks_def by (rule determ_step[OF on_clock_keeps])

lemma clock_steps:
  "triple (obeys n R) (stopClock E i) (obeys n R)" "triple (obeys n R) (startClock E) (obeys n R)"
  by (auto simp: stopClock_def startClock_def intro!: tripleI
      dest: tripleD[OF determ_step[OF on_clock_keeps]])

lemma round_robin_step: "triple (obeys n R) (round_robin_ticks E) (obeys n R)"
  unfolding round_robin_ticks_def by (rule triple_when[OF ticks_step])

lemma end_coarsening_step: "triple (obeys n R) (endTXCoarsening E) (obeys n R)"
proof (rule tripleI)
  fix x y assume "obeys n R x" "endTXCoarsening E x = Inr y"
  moreover have "triple (obeys n R) (when_step (rc_tx_coarsening (re_config E)) (steps
     [when_step (inCoarsenedTx E x) (on_determ (on_clock (ca_end_coarsened (re_clock E)))),
      upd_var (\<lambda>x. x\<lparr>xr_coarsening_counter := 0, xr_consecutively_coarsened := 0\<rparr>)])) (obeys n R)"
    by (intro triple_when triple_Cons[of _ _ "obeys n R"] triple_last upd_frame
        determ_step[OF on_clock_keeps]) auto
  ultimately show "obeys n R y" unfolding endTXCoarsening_def by (rule tripleD[rotated])
qed

lemma stop_no_coarsen_step: "triple (obeys n R) (stopClockNoCoarsen E) (obeys n R)"
  unfolding stopClockNoCoarsen_def by (rule triple_Cons[OF clock_steps(1) triple_last[OF end_coarsening_step]])

lemma reset_coarsening_step: "triple (obeys n R) (resetTXCoarsening E) (obeys n R)"
proof -
  have "triple (obeys n R) (upd_var (\<lambda>x. x\<lparr>xr_monitor_next := False,
      xr_coarsening_level := LOGICAL_CLOCK_MIN_ALLOWABLE_TX_SIZE (re_config E)\<rparr>)) (obeys n R)"
  proof (rule tripleI)
    fix x y assume x: "obeys n R x"
      and "upd_var (\<lambda>x. x\<lparr>xr_monitor_next := False,
        xr_coarsening_level := LOGICAL_CLOCK_MIN_ALLOWABLE_TX_SIZE (re_config E)\<rparr>) x = Inr y"
    then have y: "y = x\<lparr>xr_monitor_next := False,
      xr_coarsening_level := LOGICAL_CLOCK_MIN_ALLOWABLE_TX_SIZE (re_config E)\<rparr>" by (simp add: upd_var_def)
    have "base n y" unfolding y by (rule frame[OF reset]) (use x in \<open>auto simp: obeys_def\<close>)
    with x show "obeys n R y" by (simp add: y obeys_def mine_def)
  qed
  then show ?thesis unfolding resetTXCoarsening_def
    by (intro triple_when triple_Cons[of _ _ "obeys n R"] triple_last end_coarsening_step) auto
qed

lemma use_coarsening_step:
  assumes "obeys n R x" and "useTxCoarsening E i x = Inr (b, y)"
  shows "obeys n R y" and "\<not> rc_tx_coarsening (re_config E) \<Longrightarrow> \<not> b"
    and "xr_script y = xr_script x"
proof -
  note end_step = tripleD[OF end_coarsening_step assms(1)]
  show "obeys n R y" using assms
    by (auto simp: useTxCoarsening_def Let_def bindR_Inr_iff dest!: end_step intro: obeys_frame[OF assms(1)] split: if_splits)
  show "\<not> rc_tx_coarsening (re_config E) \<Longrightarrow> \<not> b" using assms by (auto simp: useTxCoarsening_def)
  show "xr_script y = xr_script x" using assms(2)
    by (auto simp: useTxCoarsening_def Let_def bindR_Inr_iff endTXCoarsening_def when_step_def upd_var_def
        on_determ_def split: if_splits)
qed

text \<open>\<open>getToken\<close>: the thread's own steps, from a start without the token, keep track of it.\<close>

lemma get_token_loop_ok:
  assumes "get_token_loop E t fs l w = Inr (fs', w')" and "base n x" and "xr_thread_index x = t"
    and "xr_script x = fs" and "owns_token (tk_pc l) \<longleftrightarrow> ds_tokenpos (w_d w) = Some t"
  shows "base n (x\<lparr>xr_w := w', xr_script := fs'\<rparr>) \<and> ds_tokenpos (w_d w') = Some t"
  using assms
proof (induction E t fs l w arbitrary: x rule: get_token_loop.induct)
  case (2 E' t f fs l w)
  obtain l' d where s: "token_step (re_clock E') t (l, w_d (f w)) = Inr (l', d)"
    using 2(2) by (auto simp: bindR_Inr_iff)
  let ?w = "(f w)\<lparr>w_d := d, w_mem := with_local_mem E' (tk_pc l) (w_mem (f w))\<rparr>"
  have "owns_token (tk_pc l) \<longleftrightarrow> ds_tokenpos (w_d (f w)) = Some t"
    using env[OF 2(3) 2(5), of w] 2(4,6) by simp
  from token_step_pos[OF s this] have o: "owns_token (tk_pc l') \<longleftrightarrow> ds_tokenpos d = Some t" by blast
  have b: "base n (x\<lparr>xr_w := ?w, xr_script := fs\<rparr>)" by (rule script[OF 2(3,5)])
  show ?case
  proof (cases "tk_pc l' = TkHold")
    case True
    with 2(2) s have "fs' = fs" "w' = ?w" by (auto simp: Let_def)
    with b o True show ?thesis by (simp add: owns_token_def)
  next
    case False
    with 2(2) s have "get_token_loop E' t fs l' ?w = Inr (fs', w')" by (auto simp: Let_def)
    from 2(1)[OF refl False this b] 2(4) o show ?thesis by simp
  qed
qed simp

lemma get_step:
  assumes "\<And>f m. R f m \<Longrightarrow> \<not> m"
  shows "triple (obeys n R) (getToken E) (obeys n (\<lambda>f m. m \<and> (\<exists>p. R f p)))"
proof (rule tripleI)
  fix x y assume x: "obeys n R x" and "getToken E x = Inr y"
  then obtain fs w where l: "get_token_loop E (xr_thread_index x) (xr_script x) token_start (xr_w x) = Inr (fs, w)"
    and y: "y = x\<lparr>xr_w := w, xr_script := fs\<rparr>" by (auto simp: getToken_def bindR_Inr_iff)
  have "owns_token (tk_pc token_start) \<longleftrightarrow> ds_tokenpos (xr_d x) = Some (xr_thread_index x)"
    using x assms by (auto simp: owns_token_def token_start_def obeys_def mine_def)
  from get_token_loop_ok[OF l _ refl refl this, of n] x
  show "obeys n (\<lambda>f m. m \<and> (\<exists>p. R f p)) y" by (auto simp: obeys_def mine_def y)
qed

lemma adapt_step: "triple (obeys n R) (upd_var (adapt_level E)) (obeys n R)"
proof (rule tripleI)
  fix x y assume x: "obeys n R x" and "upd_var (adapt_level E) x = Inr y"
  then have y: "y = adapt_level E x" by (simp add: upd_var_def)
  have "base n y" unfolding y by (rule adapt) (use x in \<open>simp add: obeys_def\<close>)
  moreover have "mine y = mine x" "xr_token_holding y = xr_token_holding x"
    by (simp_all add: y adapt_level_def mine_def)
  ultimately show "obeys n R y" using x by (simp add: obeys_def)
qed

lemma wait_step: "triple (known n) (waitToken E) (held n)"
proof (rule tripleI)
  fix x y assume x: "known n x" and w: "waitToken E x = Inr y"
  show "held n y"
  proof (cases "xr_token_holding x")
    case True
    with x w show ?thesis by (simp add: waitToken_def when_step_def obeys_def)
  next
    case False
    let ?got = "obeys n (\<lambda>f m. m \<and> \<not> f)"
    have "triple (free n) (getToken E) ?got"
      by (rule triple_weaken[OF get_step]) (auto elim: obeys_weaken)
    moreover have "triple ?got (\<lambda>x. add_ticks E (ucast (fast_forward_clock E x)) x) ?got"
      by (auto intro!: tripleI dest: tripleD[OF ticks_step])
    moreover have "triple ?got (upd_var (\<lambda>x. x\<lparr>xr_token_holding := True\<rparr>)) (held n)"
      by (rule triple_weaken[OF flag_step]) (auto elim: obeys_weaken)
    ultimately have "triple (free n) (steps
       [getToken E, \<lambda>x. add_ticks E (ucast (fast_forward_clock E x)) x,
        upd_var (\<lambda>x. x\<lparr>xr_token_holding := True\<rparr>), upd_var (adapt_level E)]) (held n)"
      by (blast intro: triple_Cons triple_last adapt_step)
    moreover have "free n x" using x False by (simp add: obeys_def)
    ultimately show ?thesis using w False by (simp add: waitToken_def when_step_def triple_def)
  qed
qed

lemma release_step: "triple (known n) (release E ff) (free n)"
proof (rule tripleI)
  fix x y assume x: "known n x" and r: "release E ff x = Inr y"
  show "free n y"
  proof (cases "xr_token_holding x")
    case False
    with x r show ?thesis by (simp add: release_def when_step_def obeys_def)
  next
    case True
    have "triple (known n) (steps [on_determ (put_token (re_clock E) (xr_thread_index x) ff),
        upd_var (\<lambda>x. x\<lparr>xr_token_holding := False\<rparr>)]) (free n)"
      by (rule triple_Cons[OF gives_step[OF put_token_gives] triple_last[OF triple_weaken[OF flag_step]]])
        (auto elim: obeys_weaken)
    from tripleD[OF this x] r True show ?thesis by (simp add: release_def when_step_def)
  qed
qed

lemma put_step: "triple (known n) (putToken_run E) (free n)"
proof (rule tripleI)
  fix x y assume x: "known n x" and r: "putToken_run E x = Inr y"
  have "triple (known n) (steps [when_step (rc_tx_coarsening (re_config E) \<and> coarsening x) (endTXCoarsening E),
      release E True]) (free n)"
    by (rule triple_Cons[OF triple_when[OF end_coarsening_step] triple_last[OF release_step]]) auto
  from tripleD[OF this x r[unfolded putToken_run_def]] show "free n y" .
qed

lemma put_no_fast_forward_step: "triple (known n) (putTokenNoFastForward_run E) (free n)"
  unfolding putTokenNoFastForward_run_def by (rule release_step)

subsection \<open>Commits\<close>

definition may_commit :: "(bool \<Rightarrow> bool \<Rightarrow> bool) \<Rightarrow> bool" where
  "may_commit R \<longleftrightarrow> (\<forall>f m. R f m \<longrightarrow> m) \<or> (\<exists>z. singleActiveThread E z)"

lemma obeys_base: "obeys n R x \<Longrightarrow> base n x" by (simp add: obeys_def)

lemma log_step:
  "triple (obeys n R) (upd_var (\<lambda>x. x\<lparr>xr_commits := xr_commits x @ [isTokenHolder (xr_thread_index x) (xr_d x)]\<rparr>))
    (obeys (if may_commit R then n else Suc n) R)"
proof (rule tripleI)
  fix x y assume x: "obeys n R x" and "upd_var (\<lambda>x. x\<lparr>xr_commits :=
    xr_commits x @ [isTokenHolder (xr_thread_index x) (xr_d x)]\<rparr>) x = Inr y"
  then have y: "y = x\<lparr>xr_commits := xr_commits x @ [mine x]\<rparr>"
    by (simp add: upd_var_def isTokenHolder_def mine_def)
  have "base (if mine x \<or> (\<exists>z. singleActiveThread E z) then n else Suc n) y"
    unfolding y by (rule commit[OF obeys_base[OF x]])
  moreover have "base (Suc n) y" if "mine x" "\<not> may_commit R"
    using that x more commit[of n x] by (simp add: y obeys_def)
  ultimately have "base (if may_commit R then n else Suc n) y"
    using x alone[of n y] by (auto simp: may_commit_def obeys_def split: if_splits)
  then show "obeys (if may_commit R then n else Suc n) R y" using x by (simp add: y obeys_def mine_def)
qed

lemma commit_step:
  "triple (obeys n R) (commitAndUpdateMemory E) (obeys (if may_commit R then n else Suc n) R)"
  unfolding commitAndUpdateMemory_def
  by (intro triple_Cons[OF log_step] triple_Cons[OF mem_step] triple_last[OF mem_step])

lemma commit_determ_step:
  "triple (obeys n R) (commitAndUpdate E) (obeys (if may_commit R then n else Suc n) R)"
  unfolding commitAndUpdate_def by (intro triple_Cons[OF log_step] triple_last[OF mem_step])

lemma commit_held: "triple (held n) (commitAndUpdateMemory E) (held n)"
  using commit_step[of n "\<lambda>f m. f \<and> m"] by (simp add: may_commit_def)

lemma commit_stats_step:
  assumes "obeys n R x" and "may_commit R" and "commitAndUpdateMemory_stats E x = Inr (cs, y)"
  shows "obeys n R y"
proof -
  from assms(3) obtain x1 m where x1: "commitAndUpdateMemory E x = Inr x1"
    "y = x1\<lparr>xr_w := (xr_w x1)\<lparr>w_mem := m\<rparr>\<rparr>"
    by (auto simp: commitAndUpdateMemory_stats_def bindR_Inr_iff Let_def case_prod_unfold)
  have "obeys n R x1" using tripleD[OF commit_step assms(1) x1(1)] assms(2) by simp
  then show ?thesis unfolding x1(2) by (rule obeys_frame) simp_all
qed

lemma acquire_step:
  assumes "obeys n R x" and "may_commit R" and "lock_acquire_run E mutex x = Inr (got, y)"
  shows "obeys n R y"
proof -
  let ?d = "xr_d x" and ?fresh = "ds_var (xr_d x) mutex = NULL"
  obtain g d' where a: "lock_acquire (re_update E) (re_alloc_lock E ?d) mutex (xr_thread_index x) ?d = (g, d')"
    by (cases "lock_acquire (re_update E) (re_alloc_lock E ?d) mutex (xr_thread_index x) ?d")
  from assms(3) a obtain x1 where x1: "steps [when_step ?fresh (commitAndUpdate E),
      when_step (?fresh \<and> re_update E (ds_var ?d) mutex = NULL) (commitAndUpdate E)] x = Inr x1"
    and d': "y = x1\<lparr>xr_w := (xr_w x1)\<lparr>w_d := d'\<rparr>\<rparr>"
    by (auto simp: lock_acquire_run_def Let_def bindR_Inr_iff)
  have c: "triple (obeys n R) (commitAndUpdate E) (obeys n R)"
    using commit_determ_step[of n R] assms(2) by simp
  have "triple (\<lambda>z. obeys n R z \<and> ds_tokenpos (xr_d z) = ds_tokenpos ?d)
      (commitAndUpdate E) (\<lambda>z. obeys n R z \<and> ds_tokenpos (xr_d z) = ds_tokenpos ?d)"
    using c by (auto simp: triple_def commitAndUpdate_def upd_var_def on_mem_def)
  then have "triple (\<lambda>z. obeys n R z \<and> ds_tokenpos (xr_d z) = ds_tokenpos ?d)
      (steps [when_step ?fresh (commitAndUpdate E),
        when_step (?fresh \<and> re_update E (ds_var ?d) mutex = NULL) (commitAndUpdate E)])
      (\<lambda>z. obeys n R z \<and> ds_tokenpos (xr_d z) = ds_tokenpos ?d)"
    by (intro triple_Cons[OF triple_when] triple_last[OF triple_when]) auto
  from tripleD[OF this _ x1] assms(1)
  have "obeys n R x1" "ds_tokenpos (xr_d x1) = ds_tokenpos ?d" by auto
  then show ?thesis using lock_acquire_pos[OF a] unfolding d' by (auto elim!: obeys_frame)
qed

subsection \<open>Locks\<close>

lemma wait_ready_loop_ok:
  assumes "wait_ready_loop t fs w = Inr (fs', w')" and "obeys n R (x\<lparr>xr_w := w, xr_script := fs\<rparr>)"
  shows "obeys n R (x\<lparr>xr_w := w', xr_script := fs'\<rparr>)"
  using assms
proof (induction t fs w rule: wait_ready_loop.induct)
  case (1 t fs w)
  show ?case
  proof (cases "status_of (w_d w) t = STATUS_READY")
    case True
    with 1 show ?thesis by (simp add: wait_ready_loop.simps)
  next
    case False
    with 1(2) obtain f fs1 where fs: "fs = f # fs1" "wait_ready_loop t fs1 (f w) = Inr (fs', w')"
      by (auto simp: wait_ready_loop.simps[of t fs] split: list.splits)
    from script_step[OF 1(3), of f fs1] fs(1) have "obeys n R (x\<lparr>xr_w := f w, xr_script := fs1\<rparr>)" by simp
    from 1(1)[OF False fs(1) fs(2) this] show ?thesis .
  qed
qed

lemma wait_ready_step: "triple (obeys n R) wait_ready (obeys n R)"
proof (rule tripleI)
  fix x y assume x: "obeys n R x" and "wait_ready x = Inr y"
  then obtain fs w where l: "wait_ready_loop (xr_thread_index x) (xr_script x) (xr_w x) = Inr (fs, w)"
    and y: "y = x\<lparr>xr_w := w, xr_script := fs\<rparr>" by (auto simp: wait_ready_def bindR_Inr_iff)
  from wait_ready_loop_ok[OF l, of n R x] x show "obeys n R y" by (simp add: y)
qed

lemma wait_on_lock_step:
  "triple (obeys n R) (wait_on_lock_and_release_token E mutex) (obeys n (\<lambda>f m. \<not> m))"
proof (rule tripleI)
  fix x y assume x: "obeys n R x" and w: "wait_on_lock_and_release_token E mutex x = Inr y"
  let ?N = "obeys n (\<lambda>f m. \<not> m)"
  have "triple (obeys n R) (on_determ (wait_on_lock_begin (re_clock E) mutex (xr_thread_index x))) ?N"
    by (rule triple_weaken[OF gives_step[OF wait_on_lock_begin_gives]]) (auto elim: obeys_weaken)
  then have "triple (obeys n R) (steps
     [on_determ (wait_on_lock_begin (re_clock E) mutex (xr_thread_index x)),
      when_step (rc_deferred_work (re_config E)) (on_mem (xm_commit_deferred_end (re_conv E))),
      wait_ready, on_determ (wait_on_lock_end (re_clock E) (xr_thread_index x))]) ?N"
    by (rule triple_Cons[OF _ triple_all])
      (auto intro: determ_step[OF wait_end_keeps(1)] triple_when wait_ready_step mem_step)
  from tripleD[OF this x w[unfolded wait_on_lock_and_release_token_def]] show "?N y" .
qed

text \<open>\<open>K h\<close>: the flag is exact, and, when \<open>h\<close>, the thread does not have the token.\<close>

abbreviation level :: "bool \<Rightarrow> nat \<Rightarrow> ('c, 'm) xrun \<Rightarrow> bool" where
  "level h n \<equiv> obeys n (\<lambda>f m. f = m \<and> (h \<longrightarrow> \<not> f))"

lemma level_known: "level h n x \<Longrightarrow> known n x" by (erule obeys_weaken) simp
lemma free_level: "free n x \<Longrightarrow> level h n x" by (erule obeys_weaken) simp
lemma free_known: "free n x \<Longrightarrow> known n x" by (erule obeys_weaken) simp
lemma held_known: "held n x \<Longrightarrow> known n x" by (erule obeys_weaken) simp
lemma held_level: "held n x \<Longrightarrow> level False n x" by (erule obeys_weaken) simp
lemma may_commit_held: "may_commit (\<lambda>f m. f \<and> m)" by (simp add: may_commit_def)
lemma may_commit_alone: "singleActiveThread E z \<Longrightarrow> may_commit R" by (auto simp: may_commit_def)

lemma lock_failed_step: "triple (held n) (lock_failed E mutex k) (free n)"
proof -
  have "triple (held n) (steps [wait_on_lock_and_release_token E mutex,
      upd_var (\<lambda>x. x\<lparr>xr_token_holding := False\<rparr>)]) (free n)"
    by (rule triple_Cons[OF wait_on_lock_step triple_last[OF triple_weaken[OF flag_step]]])
      (auto elim: obeys_weaken)
  moreover have "triple (held n) (steps [add_ticks E t, putToken_run E]) (free n)" for t
    by (rule triple_Cons[OF ticks_step triple_last[OF triple_weaken[OF put_step held_known]]])
  moreover have "triple (held n) (\<lambda>x. bindR (commitAndUpdateMemory_stats E x) (\<lambda>(cs, x'). Inr x')) (held n)"
    by (rule tripleI) (auto simp: bindR_Inr_iff dest: commit_stats_step[OF _ may_commit_held])
  ultimately have "triple (held n) (if rc_kendo (re_config E)
      then steps [add_ticks E (word_of_int (KENDO_ACQ_INC (re_config E))), putToken_run E]
      else steps [wait_on_lock_and_release_token E mutex,
        upd_var (\<lambda>x. x\<lparr>xr_token_holding := False\<rparr>)]) (free n)"
    and "triple (held n) (when_step (k = 0)
      (\<lambda>x. bindR (commitAndUpdateMemory_stats E x) (\<lambda>(cs, x'). Inr x'))) (held n)"
    by (auto intro: triple_when)
  note last = this
  show ?thesis unfolding lock_failed_def
    by (rule triple_Cons[OF last(2) triple_Cons[OF end_coarsening_step triple_last[OF last(1)]]])
qed

lemma lock_commit_step:
  assumes "may_commit R"
  shows "triple (obeys n R) (lock_commit E) (obeys n R)"
proof (rule tripleI)
  fix x y assume x: "obeys n R x" and "lock_commit E x = Inr y"
  then obtain cs x1 k where c: "commitAndUpdateMemory_stats E x = Inr (cs, x1)" "add_ticks E k x1 = Inr y"
    by (auto simp: lock_commit_def bindR_Inr_iff)
  from tripleD[OF ticks_step commit_stats_step[OF x assms c(1)] c(2)] show "obeys n R y" .
qed

lemma lock_token_step:
  assumes "level h n x" and "lock_token E k x = Inr y"
  shows "held n y \<or> singleActiveThread E x \<and> level h n y"
proof (cases "(\<not> singleActiveThread E x \<and> \<not> xr_token_holding x) \<or> 0 < k")
  case True
  then have "waitToken E x = Inr y" using assms(2) by (simp add: lock_token_def when_step_def)
  from tripleD[OF wait_step level_known[OF assms(1)] this] show ?thesis by blast
next
  case False
  then have "y = x" using assms(2) by (auto simp: lock_token_def when_step_def split: if_splits)
  with False assms(1) show ?thesis by (auto simp: obeys_def)
qed

lemma lock_done_step:
  assumes x: "held n x \<or> single \<and> level h n x" and one: "single \<Longrightarrow> \<exists>z. singleActiveThread E z"
    and h: "h \<Longrightarrow> \<not> single \<and> \<not> coarse"
    and s: "steps [when_step c (lock_commit E), round_robin_ticks E,
      when_step (\<not> single \<and> \<not> coarse) (putToken_run E)] x = Inr y"
  shows "level h n y"
proof -
  have run: "triple (obeys n R) (steps [when_step c (lock_commit E), round_robin_ticks E,
      when_step (\<not> single \<and> \<not> coarse) (putToken_run E)]) (level h n)"
    if "may_commit R" and "\<And>x. obeys n R x \<Longrightarrow> known n x"
      and "\<And>x. \<not> (\<not> single \<and> \<not> coarse) \<Longrightarrow> obeys n R x \<Longrightarrow> level h n x" for R
    by (intro triple_Cons[OF triple_when[OF lock_commit_step[OF that(1)]]] triple_Cons[OF round_robin_step]
        triple_last[OF triple_when[OF triple_weaken[OF put_step that(2) free_level]]] that(3)) auto
  from x show ?thesis
  proof
    assume x: "held n x"
    show ?thesis
      by (rule tripleD[OF run[OF may_commit_held held_known] x s]) (use h in \<open>auto elim!: obeys_weaken\<close>)
  next
    assume x: "single \<and> level h n x"
    then have "may_commit (\<lambda>f m. f = m \<and> (h \<longrightarrow> \<not> f))" using one by (auto simp: may_commit_def)
    then have "triple (level h n) (steps [when_step c (lock_commit E), round_robin_ticks E,
      when_step (\<not> single \<and> \<not> coarse) (putToken_run E)]) (level h n)" by (rule run) (auto dest: level_known)
    from tripleD[OF this _ s] x show ?thesis by blast
  qed
qed

lemma lock_retry_ok:
  assumes "mutex_lock_retry k E mutex coarse j x = Inr y" and "level h n x"
    and "h \<Longrightarrow> \<not> coarse \<and> (\<forall>z. \<not> singleActiveThread E z)"
  shows "level h n y"
  using assms
proof (induction k arbitrary: x coarse j)
  case (Suc k)
  let ?single = "singleActiveThread E x"
  obtain x1 where x1: "lock_token E j x = Inr x1" using Suc(2) by (auto simp: Let_def bindR_Inr_iff)
  obtain got x2 where x2: "lock_acquire_run E mutex x1 = Inr (got, x2)"
    using Suc(2) x1 by (auto simp: Let_def bindR_Inr_iff)
  from lock_token_step[OF Suc(3) x1] have "held n x2 \<or> ?single \<and> level h n x2"
    using acquire_step[OF _ may_commit_held x2] acquire_step[OF _ may_commit_alone x2] by blast
  note ok = this
  show ?case
  proof (cases got)
    case True
    then obtain c where s: "steps [when_step c (lock_commit E), round_robin_ticks E,
        when_step (\<not> ?single \<and> \<not> coarse) (putToken_run E)] x2 = Inr y"
      using Suc(2) x1 x2 by (auto simp: Let_def)
    show ?thesis using lock_done_step[OF ok _ _ s] Suc(4) by blast
  next
    case False
    then obtain x3 where x3: "\<not> ?single" "lock_failed E mutex j x2 = Inr x3"
      "mutex_lock_retry k E mutex False (Suc j) x3 = Inr y"
      using Suc(2) x1 x2 by (auto simp: Let_def bindR_Inr_iff split: if_splits)
    from ok x3(1) have "held n x2" by blast
    from free_level[OF tripleD[OF lock_failed_step this x3(2)]] show ?thesis
      using Suc(1)[OF x3(3)] Suc(4) by blast
  qed
qed simp

end

end
