(* ===== verification/Run_Calls.thy ===== *)
theory Run_Calls
  imports Run_Discipline
begin

text \<open>
  Sequences of calls of one thread, and what the contract of the single steps gives for them.
\<close>

subsection \<open>Calls\<close>

datatype run_call = MutexInit nat | MutexLock nat | MutexUnlock nat | MutexDestroy nat
  | CondInit nat | CondWait nat nat | CondSignal nat | CondBroadcast nat
  | BarrierInit nat u32 | BarrierWait nat
  | Spawn nat u64 u64 | Join addr | Cancel addr | SigStop | Done

fun do_call :: "('c, 'm) run_env \<Rightarrow> run_call \<Rightarrow> ('c, 'm) xstep" where
  "do_call E (MutexInit m) = mutex_init E m"
| "do_call E (MutexLock m) = mutex_lock E m"
| "do_call E (MutexUnlock m) = mutex_unlock E m"
| "do_call E (MutexDestroy m) = mutex_destroy E m"
| "do_call E (CondInit c) = cond_init_run E c"
| "do_call E (CondWait c m) = cond_wait_run E c m"
| "do_call E (CondSignal c) = cond_signal_run E c"
| "do_call E (CondBroadcast c) = cond_broadcast_run E c"
| "do_call E (BarrierInit b k) = barrier_init_run E b k"
| "do_call E (BarrierWait b) = barrier_wait_run E b"
| "do_call E (Spawn f a e) = (\<lambda>x. bindR (spawn E f a e x) (\<lambda>(tid, y). Inr y))"
| "do_call E (Join v) = (\<lambda>x. bindR (join E v x) (\<lambda>(r, y). Inr y))"
| "do_call E (Cancel v) = cancel_run E False v"
| "do_call E SigStop = sigstopHandle E"
| "do_call E Done = done_run E"

text \<open>The commits that a call may make without the token.\<close>

fun untokened :: "('c, 'm) run_env \<Rightarrow> run_call \<Rightarrow> nat" where
  "untokened E (CondWait c m) = 1"
| "untokened E (MutexUnlock m) = (if rc_simple_locks (re_config E) then 1 else 0)"
| "untokened E _ = 0"

context run_contract begin

lemma at_wait: "triple (level h n) (waitToken E) (held n)"
  by (rule triple_weaken[OF wait_step level_known])

lemma held_free: "triple (held n) (putToken_run E) (free n)"
  by (rule triple_weaken[OF put_step held_known])

lemma held_put: "triple (held n) (putToken_run E) (level h n)"
  by (rule triple_weaken[OF put_step held_known free_level])

text \<open>The frame of most calls: from the stopped clock with the token to the clock's start.\<close>

lemma held_call:
  assumes "triple (held n) f (held n)"
  shows "triple (level h n) (steps [stopClock E i, waitToken E, f, putToken_run E, startClock E]) (level h n)"
  by (intro triple_Cons[OF clock_steps(1)] triple_Cons[OF at_wait] triple_Cons[OF assms]
      triple_Cons[OF held_put[where h = h]] triple_last[OF clock_steps(2)])

lemma with_token_ok:
  assumes "triple (held n) f (held n)"
  shows "triple (level h n) (with_token E f) (level h n)"
  unfolding with_token_def
  by (intro triple_Cons[OF clock_steps(1)] triple_Cons[OF at_wait] triple_Cons[OF assms]
      triple_Cons[OF commit_held] triple_Cons[OF held_put[where h = h]] triple_last[OF clock_steps(2)])

lemma determ_at: "(\<And>z. keeps_token (f z)) \<Longrightarrow> triple (obeys n R) (\<lambda>x. on_determ (f x) x) (obeys n R)"
  by (rule tripleI) (blast dest: tripleD[OF determ_step])

lemma mutex_init_ok: "triple (level h n) (mutex_init E m) (level h n)"
  unfolding mutex_init_def by (rule with_token_ok[OF determ_at[OF lock_init_keeps]])

lemma cond_init_ok: "triple (level h n) (cond_init_run E m) (level h n)"
  unfolding cond_init_run_def by (rule with_token_ok[OF determ_at[OF cond_init_keeps]])

lemma barrier_init_ok: "triple (level h n) (barrier_init_run E b k) (level h n)"
proof -
  have "keeps_token (\<lambda>d. barrier_init (fst (re_alloc_barrier E d)) (snd (re_alloc_barrier E d)) (sint k) b d)"
    by (auto simp: keeps_token_def barrier_init_def split: if_splits)
  then show ?thesis unfolding barrier_init_run_def by (intro with_token_ok determ_at)
qed

lemma lock_count_step:
  "triple (obeys n R) (upd_var (\<lambda>x. x\<lparr>xr_lock_count := f (xr_lock_count x)\<rparr>)) (obeys n R)"
  by (rule upd_frame) simp

lemma acquire_held: "triple (held n) (\<lambda>x. bindR (lock_acquire_run E m x) (\<lambda>(got, x'). Inr x')) (held n)"
  by (rule tripleI) (auto simp: bindR_Inr_iff dest: acquire_step[OF _ may_commit_held])

lemma lock_inner_simple_ok: "triple (level h n) (mutex_lock_inner_simple E m) (held n)"
proof (rule tripleI)
  fix x y assume x: "level h n x" and s: "mutex_lock_inner_simple E m x = Inr y"
  have "triple (level h n) (steps
        [waitToken E, upd_var (\<lambda>x. x\<lparr>xr_lock_count := xr_lock_count x + 1\<rparr>), round_robin_ticks E,
         \<lambda>x. bindR (lock_acquire_run E m x) (\<lambda>(got, x'). Inr x'),
         when_step (\<not> xr_token_holding x) (commitAndUpdateMemory E)]) (held n)"
    by (intro triple_Cons[OF at_wait] triple_Cons[OF lock_count_step] triple_Cons[OF round_robin_step]
        triple_Cons[OF acquire_held] triple_last[OF triple_when[OF commit_held]])
  from tripleD[OF this x] s show "held n y" by (simp add: mutex_lock_inner_simple_def)
qed

lemma lock_inner_full_ok:
  assumes "h \<Longrightarrow> \<not> rc_tx_coarsening (re_config E) \<and> (\<forall>z. \<not> singleActiveThread E z)"
  shows "triple (level h n) (mutex_lock_inner_full E m a) (level h n)"
proof (rule tripleI)
  fix x y assume x: "level h n x" and "mutex_lock_inner_full E m a x = Inr y"
  then obtain b x1 where b: "useTxCoarsening E (of_nat m) (x\<lparr>xr_lock_count := xr_lock_count x + 1\<rparr>) = Inr (b, x1)"
    and r: "mutex_lock_retry (length (xr_script x1) + 2) E m (b \<and> a) 0 x1 = Inr y"
    by (auto simp: mutex_lock_inner_full_def bindR_Inr_iff)
  have "level h n (x\<lparr>xr_lock_count := xr_lock_count x + 1\<rparr>)" by (rule obeys_frame[OF x]) simp_all
  note u = use_coarsening_step[OF this b]
  show "level h n y" by (rule lock_retry_ok[OF r u(1)]) (use assms u(2) in auto)
qed

lemma lock_inner_ok:
  assumes "h \<Longrightarrow> \<not> rc_tx_coarsening (re_config E) \<and> \<not> rc_simple_locks (re_config E) \<and>
    (\<forall>z. \<not> singleActiveThread E z)"
  shows "triple (level h n) (mutex_lock_inner E m a) (level h n)"
proof (cases "rc_simple_locks (re_config E)")
  case True
  then have "\<not> h" using assms by blast
  then have "level h n x" if "held n x" for x using held_level[OF that] by simp
  with True show ?thesis
    unfolding mutex_lock_inner_def by (auto intro: triple_weaken[OF lock_inner_simple_ok])
next
  case False
  then show ?thesis
    unfolding mutex_lock_inner_def by (simp, intro lock_inner_full_ok) (use assms in blast)
qed

lemma mutex_lock_ok:
  assumes "h \<Longrightarrow> \<not> rc_tx_coarsening (re_config E) \<and> \<not> rc_simple_locks (re_config E) \<and>
    (\<forall>z. \<not> singleActiveThread E z)"
  shows "triple (level h n) (mutex_lock E m) (level h n)"
  unfolding mutex_lock_def
  by (intro triple_Cons[OF clock_steps(1)] triple_Cons[OF lock_inner_ok] triple_last[OF clock_steps(2)])
    (use assms in blast)

lemma level_more: "level h n x \<Longrightarrow> level h (n + k) x"
  by (induction k) (auto simp: obeys_def intro: more)

lemma mutex_unlock_simple_ok: "triple (known n) (mutex_unlock_simple E m) (known (Suc n))"
proof -
  let ?tail = "\<lambda>x. when_step (xr_lock_count x = 0)
            (steps [commitAndUpdateMemory E, round_robin_ticks E, putToken_run E]) x"
  have commit: "triple (known n) (commitAndUpdateMemory E) (known (Suc n))"
    by (rule triple_weaken[OF commit_step[of n "\<lambda>f m. f = m"]]) (auto intro: more simp: obeys_def split: if_splits)
  have "triple (known n) (steps [commitAndUpdateMemory E, round_robin_ticks E, putToken_run E]) (known (Suc n))"
    by (intro triple_Cons[OF commit] triple_Cons[OF round_robin_step]
        triple_last[OF triple_weaken[OF put_step _ free_known]])
  note run = this
  have tail: "triple (known n) ?tail (known (Suc n))"
  proof (rule tripleI)
    fix x y assume x: "known n x" and y: "?tail x = Inr y"
    show "known (Suc n) y"
    proof (cases "xr_lock_count x = 0")
      case True
      with y have "steps [commitAndUpdateMemory E, round_robin_ticks E, putToken_run E] x = Inr y"
        by (simp add: when_step_def del: steps.simps)
      from tripleD[OF run x this] show ?thesis .
    next
      case False
      with x y show ?thesis by (auto simp: when_step_def obeys_def intro: more)
    qed
  qed
  show ?thesis unfolding mutex_unlock_simple_def
    by (intro triple_Cons[OF clock_steps(1)] triple_Cons[OF lock_count_step]
        triple_Cons[OF determ_at[OF lock_release_keeps]] triple_Cons[OF tail] triple_last[OF clock_steps(2)])
qed

lemma mutex_unlock_full_ok:
  assumes "h \<Longrightarrow> \<not> rc_tx_coarsening (re_config E) \<and> (\<forall>z. \<not> singleActiveThread E z)"
  shows "triple (level h n) (mutex_unlock_full E m) (level h n)"
proof (rule tripleI)
  fix x y assume x: "level h n x" and "mutex_unlock_full E m x = Inr y"
  then obtain x1 coarse x2 x3 c where x1: "stopClock E (of_nat m) x = Inr x1"
    and x2: "useTxCoarsening E 0 x1 = Inr (coarse, x2)"
    and x3: "when_step (\<not> singleActiveThread E x1 \<and> \<not> xr_token_holding x2) (waitToken E)
      (x2\<lparr>xr_lock_count := xr_lock_count x2 - 1\<rparr>) = Inr x3"
    and y: "steps [when_step c (commitAndUpdateMemory E),
        on_determ (lock_release (re_clock E) m (xr_thread_index x3)), round_robin_ticks E,
        when_step (\<not> singleActiveThread E x1 \<and> \<not> coarse) (putToken_run E), startClock E] x3 = Inr y"
    unfolding mutex_unlock_full_def Let_def bindR_Inr_iff by (auto simp: bindR_Inr_iff simp del: steps.simps)
  let ?single = "singleActiveThread E x1"
  have u: "level h n x2" "\<not> rc_tx_coarsening (re_config E) \<Longrightarrow> \<not> coarse"
    using use_coarsening_step[OF tripleD[OF clock_steps(1) x x1] x2] by blast+
  have x2': "level h n (x2\<lparr>xr_lock_count := xr_lock_count x2 - 1\<rparr>)" by (rule obeys_frame[OF u(1)]) simp_all
  have run: "triple (obeys n R) (steps [when_step c (commitAndUpdateMemory E),
        on_determ (lock_release (re_clock E) m (xr_thread_index x3)), round_robin_ticks E,
        when_step (\<not> ?single \<and> \<not> coarse) (putToken_run E), startClock E]) (level h n)"
    if "may_commit R" "\<And>z. obeys n R z \<Longrightarrow> known n z"
      "\<And>z. \<not> (\<not> ?single \<and> \<not> coarse) \<Longrightarrow> obeys n R z \<Longrightarrow> level h n z" for R
  proof -
    have c: "triple (obeys n R) (when_step c (commitAndUpdateMemory E)) (obeys n R)"
      by (rule triple_when) (use commit_step[of n R] that(1) in simp_all)
    have p: "triple (obeys n R) (when_step (\<not> ?single \<and> \<not> coarse) (putToken_run E)) (level h n)"
      by (rule triple_when[OF triple_weaken[OF put_step that(2) free_level] that(3)])
    show ?thesis
      by (rule triple_Cons[OF c triple_Cons[OF determ_step[OF lock_release_keeps]
          triple_Cons[OF round_robin_step triple_Cons[OF p triple_last[OF clock_steps(2)]]]]])
  qed
  consider (held) "held n x3" | (alone) "?single" "level h n x3"
  proof (cases "\<not> ?single \<and> \<not> xr_token_holding x2")
    case True
    then have "waitToken E (x2\<lparr>xr_lock_count := xr_lock_count x2 - 1\<rparr>) = Inr x3"
      using x3 by (simp add: when_step_def)
    from tripleD[OF at_wait x2' this] show thesis by (rule held)
  next
    case False
    then have "x3 = x2\<lparr>xr_lock_count := xr_lock_count x2 - 1\<rparr>"
      using x3 by (auto simp: when_step_def split: if_splits)
    with x2' have "level h n x3" by simp
    with False held alone \<open>x3 = _\<close> show thesis by (auto simp: obeys_def)
  qed
  then show "level h n y"
  proof cases
    case held
    have "level h n z" if "\<not> (\<not> ?single \<and> \<not> coarse)" "held n z" for z
      using that assms u(2) by (auto elim!: obeys_weaken)
    from tripleD[OF run[OF may_commit_held held_known this] held y] show ?thesis .
  next
    case alone
    have "triple (level h n) (steps [when_step c (commitAndUpdateMemory E),
        on_determ (lock_release (re_clock E) m (xr_thread_index x3)), round_robin_ticks E,
        when_step (\<not> ?single \<and> \<not> coarse) (putToken_run E), startClock E]) (level h n)"
      by (rule run[OF may_commit_alone[OF alone(1)]]) (auto dest: level_known)
    from tripleD[OF this alone(2) y] show ?thesis .
  qed
qed

subsection \<open>Condition variables\<close>

lemma cond_wait_determ_step: "triple (held n) (cond_wait_determ E c m) (obeys n (\<lambda>f m. \<not> m))"
proof (rule tripleI)
  fix x y assume x: "held n x" and w: "cond_wait_determ E c m x = Inr y"
  let ?N = "obeys n (\<lambda>f m. \<not> m)"
  have "triple (held n) (on_determ (cond_wait_begin (re_clock E) (xr_thread_index x) c m)) ?N"
    by (rule triple_weaken[OF gives_step[OF cond_wait_begin_gives]]) (auto elim: obeys_weaken)
  then have "triple (held n) (steps [on_determ (cond_wait_begin (re_clock E) (xr_thread_index x) c m),
      wait_ready, on_determ (cond_wait_end (re_clock E) (xr_thread_index x))]) ?N"
    by (rule triple_Cons[OF _ triple_Cons[OF wait_ready_step triple_last[OF determ_step[OF wait_end_keeps(2)]]]])
  from tripleD[OF this x w[unfolded cond_wait_determ_def]] show "?N y" .
qed

lemma sleep_step:
  "triple (obeys n R) (\<lambda>x. when_step (xr_sleep_count x < MAX_SLEEP_COUNT) (steps
     [on_mem g, upd_var (\<lambda>x. x\<lparr>xr_is_sleeping := True, xr_sleep_count := xr_sleep_count x + 1\<rparr>)]) x)
   (obeys n R)"
  "triple (obeys n R) (\<lambda>x. when_step (xr_is_sleeping x) (steps
     [on_mem g, upd_var (\<lambda>x. x\<lparr>xr_is_sleeping := False\<rparr>)]) x) (obeys n R)"
  by (auto simp: triple_def when_step_def on_mem_def upd_var_def elim!: obeys_frame split: if_splits)

lemma commit_free: "triple (free n) (commitAndUpdateMemory E) (free (Suc n))"
  by (rule triple_weaken[OF commit_step]) (auto simp: obeys_def intro: more split: if_splits)

lemma cond_wait_ok:
  assumes "h \<Longrightarrow> \<not> rc_tx_coarsening (re_config E) \<and> \<not> rc_simple_locks (re_config E) \<and>
    (\<forall>z. \<not> singleActiveThread E z)"
  shows "triple (level h n) (cond_wait_run E c m) (level h (Suc n))"
proof -
  have clear: "triple (obeys n (\<lambda>f m. \<not> m)) (upd_var (\<lambda>x. x\<lparr>xr_token_holding := False\<rparr>)) (free n)"
    by (rule triple_weaken[OF flag_step]) (auto elim: obeys_weaken)
  have inner: "triple (free k) (mutex_lock_inner E m False) (level h k)" for k
    by (rule triple_weaken[OF lock_inner_ok[OF assms] free_level])
  show ?thesis unfolding cond_wait_run_def
    by (intro triple_Cons[OF clock_steps(1)] triple_Cons[OF lock_count_step] triple_Cons[OF at_wait]
        triple_Cons[OF commit_held] triple_Cons[OF sleep_step(1)] triple_Cons[OF end_coarsening_step]
        triple_Cons[OF cond_wait_determ_step] triple_Cons[OF sleep_step(2)] triple_Cons[OF clear]
        triple_Cons[OF commit_free] triple_Cons[OF inner] triple_last[OF clock_steps(2)])
qed

lemma cond_broadcast_ok: "triple (level h n) (cond_broadcast_run E c) (free n)"
  unfolding cond_broadcast_run_def
  by (intro triple_Cons[OF clock_steps(1)] triple_Cons[OF reset_coarsening_step] triple_Cons[OF at_wait]
      triple_Cons[OF commit_held] triple_Cons[OF determ_at[OF cond_broadcast_keeps]]
      triple_Cons[OF round_robin_step] triple_Cons[OF held_free]
      triple_last[OF clock_steps(2)])

lemma cond_signal_ok: "triple (level h n) (cond_signal_run E c) (level h n)"
proof (rule tripleI)
  fix x y assume x: "level h n x" and "cond_signal_run E c x = Inr y"
  then obtain x1 where x1: "steps [stopClock E 0, resetTXCoarsening E] x = Inr x1"
    and y: "steps [when_step (\<not> xr_token_holding x1) (steps [waitToken E, commitAndUpdateMemory E]),
        \<lambda>x. on_determ (cond_signal (re_clock E) (xr_thread_index x) c) x, round_robin_ticks E,
        when_step (\<not> xr_token_holding x1) (putToken_run E), startClock E] x1 = Inr y"
    unfolding cond_signal_run_def Let_def bindR_Inr_iff by (auto simp: bindR_Inr_iff simp del: steps.simps)
  have "triple (level h n) (steps [stopClock E 0, resetTXCoarsening E]) (level h n)"
    by (rule triple_Cons[OF clock_steps(1) triple_last[OF reset_coarsening_step]])
  from tripleD[OF this x x1] have l: "level h n x1" .
  show "level h n y"
  proof (cases "xr_token_holding x1")
    case True
    then have t: "\<not> \<not> xr_token_holding x1" by simp
    from tripleD[OF triple_Cons[OF triple_when_false[OF t] triple_Cons[OF determ_at[OF cond_signal_keeps]
      triple_Cons[OF round_robin_step triple_Cons[OF triple_when_false[OF t] triple_last[OF clock_steps(2)]]]]] l y]
    show ?thesis .
  next
    case False
    have w: "triple (level h n) (steps [waitToken E, commitAndUpdateMemory E]) (held n)"
      by (rule triple_Cons[OF at_wait triple_last[OF commit_held]])
    from tripleD[OF triple_Cons[OF triple_when_true[OF False w] triple_Cons[OF determ_at[OF cond_signal_keeps]
      triple_Cons[OF round_robin_step triple_Cons[OF triple_when_true[OF False held_put]
        triple_last[OF clock_steps(2)]]]]] l y]
    show ?thesis .
  qed
qed

subsection \<open>Barriers\<close>

abbreviation gone :: "nat \<Rightarrow> ('c, 'm) xrun \<Rightarrow> bool" where "gone n \<equiv> obeys n (\<lambda>f m. \<not> f)"

lemma set_determ: "gone n x \<Longrightarrow> gone n (x\<lparr>xr_w := (xr_w x)\<lparr>w_d := d\<rparr>\<rparr>)"
  by (auto simp: obeys_def elim!: frame)

lemma gone_determ: "triple (gone n) (on_determ f) (gone n)"
  by (rule tripleI) (auto simp: on_determ_def bindR_Inr_iff intro: set_determ)

lemma get_gone: "triple (free n) (getToken E) (gone n)"
  by (rule triple_weaken[OF get_step]) (auto elim: obeys_weaken)

lemma barrier_finish_pos: "barrier_finish K t b s = Inr s' \<Longrightarrow> ds_tokenpos s' \<noteq> Some t"
  by (auto simp: barrier_finish_def isTokenHolder_def Let_def putToken_def dest!: put_token_pos split: if_splits)

lemma barrier_full_step: "triple (free n) (barrier_wait_full E v) (free n)"
proof (rule tripleI)
  fix x y assume x: "free n x" and "barrier_wait_full E v x = Inr y"
  then obtain x1 d m k where x1: "getToken E x = Inr x1"
    and y: "steps [on_mem (\<lambda>_. m), on_determ (\<lambda>d. Inr (barrier_committed (ds_var (xr_d x1) v) d)),
        on_mem (xm_update (re_conv E) ^^ k), others,
        on_determ (barrier_leave (re_clock E) (xr_thread_index x1)), on_mem (xm_update (re_conv E)), others,
        on_determ (barrier_finish (re_clock E) (xr_thread_index x1) (ds_var (xr_d x1) v))]
      (x1\<lparr>xr_w := (xr_w x1)\<lparr>w_d := d\<rparr>\<rparr>) = Inr y"
    unfolding barrier_wait_full_def Let_def bindR_Inr_iff
    by (auto simp: bindR_Inr_iff simp del: steps.simps)
  have g: "gone n (x1\<lparr>xr_w := (xr_w x1)\<lparr>w_d := d\<rparr>\<rparr>)" by (rule set_determ[OF tripleD[OF get_gone x x1]])
  let ?t = "xr_thread_index x1"
  have same: "triple (\<lambda>z. xr_thread_index z = ?t) (on_mem g) (\<lambda>z. xr_thread_index z = ?t)"
    "triple (\<lambda>z. xr_thread_index z = ?t) (on_determ f) (\<lambda>z. xr_thread_index z = ?t)"
    "triple (\<lambda>z. xr_thread_index z = ?t) others (\<lambda>z. xr_thread_index z = ?t)" for f g
    by (auto simp: triple_def on_mem_def on_determ_def bindR_Inr_iff split: list.splits)
  have "triple (\<lambda>z. gone n z \<and> xr_thread_index z = ?t) (on_mem g) (\<lambda>z. gone n z \<and> xr_thread_index z = ?t)"
    "triple (\<lambda>z. gone n z \<and> xr_thread_index z = ?t) (on_determ f) (\<lambda>z. gone n z \<and> xr_thread_index z = ?t)"
    "triple (\<lambda>z. gone n z \<and> xr_thread_index z = ?t) others (\<lambda>z. gone n z \<and> xr_thread_index z = ?t)" for f g
    using same mem_step[of n "\<lambda>f m. \<not> f"] gone_determ[of n] others_step[of n "\<lambda>f m. \<not> f"]
    unfolding triple_def by blast+
  note k = this
  have fin: "triple (\<lambda>z. gone n z \<and> xr_thread_index z = ?t) (on_determ (barrier_finish (re_clock E) ?t b)) (free n)" for b
    by (rule tripleI) (auto simp: on_determ_def bindR_Inr_iff obeys_def mine_def
        dest: barrier_finish_pos elim!: frame)
  from tripleD[OF triple_Cons[OF k(1) triple_Cons[OF k(2) triple_Cons[OF k(1) triple_Cons[OF k(3)
    triple_Cons[OF k(2) triple_Cons[OF k(1) triple_Cons[OF k(3) triple_last[OF fin]]]]]]]] _ y] g
  show "free n y" by simp
qed

lemma simple_arrive_pos:
  "simple_arrive R K t v s = Inr (halted, s') \<Longrightarrow>
    ds_tokenpos s' = (if halted then None else ds_tokenpos s)"
  by (auto simp: simple_arrive_def bindR_Inr_iff Let_def putToken_def
      dest!: put_token_pos on_clock_pos split: if_splits)

lemma simple_wake_keeps: "keeps_token (simple_wake K halted)"
  by (auto simp: keeps_token_def simple_wake_def bindR_Inr_iff on_wakeup_def dest!: on_clock_pos split: if_splits)

lemma barrier_simple_step: "triple (free n) (barrier_wait_simple E v) (free n)"
proof (rule tripleI)
  let ?got = "\<lambda>n. obeys n (\<lambda>f m. m \<and> \<not> f)"
  fix x y assume x: "free n x" and "barrier_wait_simple E v x = Inr y"
  then obtain x1 halted d b where x1: "steps [getToken E, commitAndUpdate E] x = Inr x1"
    and d: "simple_arrive (re_config E) (re_clock E) (xr_thread_index x1) v (xr_d x1) = Inr (halted, d)"
    and y: "steps [others, on_determ (simple_wake (re_clock E) halted), others,
        when_step halted (getToken E),
        when_step (\<not> halted) (on_determ (\<lambda>d. Inr (upd_barrier b (\<lambda>e. e\<lparr>br_counter := 0\<rparr>) d))),
        commitAndUpdate E, round_robin_ticks E, on_determ (putToken (re_clock E) (xr_thread_index x1))]
      (x1\<lparr>xr_w := (xr_w x1)\<lparr>w_d := d\<rparr>\<rparr>) = Inr y"
    unfolding barrier_wait_simple_def Let_def bindR_Inr_iff
    by (auto simp: bindR_Inr_iff simp del: steps.simps)
  have get: "triple (free n) (getToken E) (?got n)" for n
    by (rule triple_weaken[OF get_step]) (auto elim: obeys_weaken)
  have com: "triple (?got n) (commitAndUpdate E) (?got n)"
    using commit_determ_step[of n "\<lambda>f m. m \<and> \<not> f"] by (simp add: may_commit_def)
  have put: "triple (?got n) (on_determ (putToken (re_clock E) t)) (free n)" for t
    unfolding putToken_def
    by (rule triple_weaken[OF gives_step[OF put_token_gives]]) (auto elim: obeys_weaken)
  have "?got n x1" by (rule tripleD[OF triple_Cons[OF get triple_last[OF com]] x x1])
  with simple_arrive_pos[OF d] have arr: "if halted then free n (x1\<lparr>xr_w := (xr_w x1)\<lparr>w_d := d\<rparr>\<rparr>)
      else ?got n (x1\<lparr>xr_w := (xr_w x1)\<lparr>w_d := d\<rparr>\<rparr>)"
    by (auto simp: obeys_def mine_def elim!: frame)
  have zero: "keeps_token (\<lambda>d. Inr (upd_barrier b (\<lambda>e. e\<lparr>br_counter := 0\<rparr>) d))"
    by (rule pure_keeps) simp
  show "free n y"
  proof (cases halted)
    case True
    then have f: "\<not> \<not> halted" by simp
    from tripleD[OF triple_Cons[OF others_step triple_Cons[OF determ_step[OF simple_wake_keeps]
      triple_Cons[OF others_step triple_Cons[OF triple_when_true[OF True get]
      triple_Cons[OF triple_when_false[OF f] triple_Cons[OF com
      triple_Cons[OF round_robin_step triple_last[OF put]]]]]]]] _ y] arr True
    show ?thesis by simp
  next
    case False
    from tripleD[OF triple_Cons[OF others_step triple_Cons[OF determ_step[OF simple_wake_keeps]
      triple_Cons[OF others_step triple_Cons[OF triple_when_false[OF False]
      triple_Cons[OF triple_when_true[OF False determ_step[OF zero]] triple_Cons[OF com
      triple_Cons[OF round_robin_step triple_last[OF put]]]]]]]] _ y] arr False
    show ?thesis by simp
  qed
qed

lemma barrier_wait_ok: "triple (level h n) (barrier_wait_run E v) (level h n)"
proof -
  have "triple (free n) (if rc_simple_barrier (re_config E) then barrier_wait_simple E v
      else barrier_wait_full E v) (free n)"
    using barrier_simple_step barrier_full_step by simp
  note b = triple_weaken[OF this _ free_level[where h = h]]
  show ?thesis unfolding barrier_wait_run_def
    by (rule triple_Cons[OF clock_steps(1) triple_Cons[OF triple_weaken[OF put_step level_known]
        triple_Cons[OF b triple_last[OF clock_steps(2)]]]])
qed

subsection \<open>Threads\<close>

lemma join_loop_ok:
  assumes "join_loop K me g fs w = Inr (fs', w')" and "base n x" and "xr_thread_index x = me"
    and "xr_script x = fs"
  shows "base n (x\<lparr>xr_w := w', xr_script := fs'\<rparr>) \<and>
    (if status_of (w_d w) g = STATUS_EXIT then fs' = fs \<and> w' = w else ds_tokenpos (w_d w') \<noteq> Some me)"
  using assms
proof (induction K me g fs w arbitrary: x rule: join_loop.induct)
  case (1 K me g fs w)
  show ?case
  proof (cases "status_of (w_d w) g = STATUS_EXIT")
    case True
    with 1(2) have "fs' = fs" "w' = w" by (auto simp: join_loop.simps)
    moreover have "base n (x\<lparr>xr_w := w, xr_script := fs\<rparr>)" by (rule frame[OF 1(3)]) (use 1(5) in simp_all)
    ultimately show ?thesis using True by simp
  next
    case False
    with 1(2) obtain f fs1 where fs: "fs = f # fs1"
      by (cases fs) (auto simp: join_loop.simps[of K me g "[]"] bindR_Inr_iff)
    with 1(2) False obtain d where d: "join_round K me (w_d w) = Inr d"
      and l: "join_loop K me g fs1 (f (w\<lparr>w_d := d\<rparr>)) = Inr (fs', w')"
      by (auto simp: join_loop.simps[of K me g "f # fs1"] bindR_Inr_iff)
    let ?w = "f (w\<lparr>w_d := d\<rparr>)" and ?x = "x\<lparr>xr_w := f (w\<lparr>w_d := d\<rparr>), xr_script := fs1\<rparr>"
    have "ds_tokenpos d \<noteq> Some me" using join_round_pos[OF d] by auto
    then have p: "ds_tokenpos (w_d ?w) \<noteq> Some me"
      using env[OF 1(3) 1(5)[unfolded fs], of "w\<lparr>w_d := d\<rparr>"] 1(4) by simp
    have b: "base n ?x" by (rule script[OF 1(3) 1(5)[unfolded fs]])
    from 1(1)[OF False fs l b] 1(4) p show ?thesis using False by (auto split: if_splits)
  qed
qed

lemma join_begin_status:
  "join_begin K g me s = Inr (halted, s') \<Longrightarrow> (status_of s' g \<noteq> STATUS_EXIT) = halted \<and> (\<not> halted \<longrightarrow> s' = s)"
  by (auto simp: join_begin_def bindR_Inr_iff status_of_def upd_thread_def on_clock_def split: if_splits)

lemma join_determ_step: "triple (held n) (join_determ E g) (held n)"
proof (rule tripleI)
  fix x y assume x: "held n x" and "join_determ E g x = Inr y"
  then obtain halted d fs w where d: "join_begin (re_clock E) g (xr_thread_index x) (xr_d x) = Inr (halted, d)"
    and l: "join_loop (re_clock E) (xr_thread_index x) g (xr_script x) ((xr_w x)\<lparr>w_d := d\<rparr>) = Inr (fs, w)"
    and y: "steps [on_determ (join_end (re_clock E) halted (xr_thread_index x)),
      when_step halted (getToken E)] (x\<lparr>xr_w := w, xr_script := fs\<rparr>) = Inr y"
    unfolding join_determ_def Let_def bindR_Inr_iff by (auto simp: bindR_Inr_iff simp del: steps.simps)
  note st = join_begin_status[OF d]
  note b = join_loop_ok[OF l obeys_base[OF x] refl refl]
  show "held n y"
  proof (cases halted)
    case True
    with b st have "obeys n (\<lambda>f m. f \<and> \<not> m) (x\<lparr>xr_w := w, xr_script := fs\<rparr>)"
      using x by (simp add: obeys_def mine_def)
    moreover have "triple (obeys n (\<lambda>f m. f \<and> \<not> m)) (getToken E) (held n)"
      by (rule triple_weaken[OF get_step]) (auto elim: obeys_weaken)
    ultimately show ?thesis
      using tripleD[OF triple_Cons[OF determ_step[OF join_end_keeps]
        triple_last[OF triple_when_true[OF True]]] _ y] by blast
  next
    case False
    with b st have "x\<lparr>xr_w := w, xr_script := fs\<rparr> = x\<lparr>xr_w := (xr_w x)\<lparr>w_d := xr_d x\<rparr>\<rparr>" by auto
    then have "held n (x\<lparr>xr_w := w, xr_script := fs\<rparr>)" using x by simp
    from tripleD[OF triple_Cons[OF determ_step[OF join_end_keeps]
      triple_last[OF triple_when_false[OF False]]] this y] show ?thesis .
  qed
qed

lemma ticks_at: "triple (obeys n R) (\<lambda>x. add_ticks E (k x) x) (obeys n R)"
  by (rule tripleI) (blast dest: tripleD[OF ticks_step])

lemma join_ok: "triple (level h n) (\<lambda>x. bindR (join E v x) (\<lambda>(r, y). Inr y)) (level h n)"
proof (rule tripleI)
  fix x y assume x: "level h n x" and "bindR (join E v x) (\<lambda>(r, y). Inr y) = Inr y"
  then obtain r where "join E v x = Inr (r, y)" by (auto simp: bindR_Inr_iff)
  then obtain x0 where x0: "stopClockNoCoarsen E x = Inr x0" and
    y: "if v = NULL then y = x0 else \<exists>x1. steps [waitToken E, commitAndUpdateMemory E,
        on_mem (xm_sleep (re_conv E)), \<lambda>x. join_determ E (getThreadIndex v x) x,
        \<lambda>x. add_ticks E (ucast (fast_forward_clock E x)) x, on_mem (xm_wake (re_conv E)),
        commitAndUpdateMemory E, putToken_run E] x0 = Inr x1 \<and> startClock E x1 = Inr y"
    unfolding join_def bindR_Inr_iff by (auto simp: bindR_Inr_iff simp del: steps.simps split: if_splits)
  note l = tripleD[OF stop_no_coarsen_step x x0]
  have j: "triple (held n) (\<lambda>x. join_determ E (getThreadIndex v x) x) (held n)"
    by (rule tripleI) (blast dest: tripleD[OF join_determ_step])
  have "triple (level h n) (steps [waitToken E, commitAndUpdateMemory E,
        on_mem (xm_sleep (re_conv E)), \<lambda>x. join_determ E (getThreadIndex v x) x,
        \<lambda>x. add_ticks E (ucast (fast_forward_clock E x)) x, on_mem (xm_wake (re_conv E)),
        commitAndUpdateMemory E, putToken_run E]) (level h n)"
    by (rule triple_Cons[OF at_wait triple_Cons[OF commit_held triple_Cons[OF mem_step triple_Cons[OF j
        triple_Cons[OF ticks_at triple_Cons[OF mem_step triple_Cons[OF commit_held
        triple_last[OF held_put]]]]]]]])
  then show "level h n y" using y l tripleD[OF clock_steps(2)] unfolding triple_def by (metis (lifting))
qed

lemma spawn_xthread_step: "triple (obeys n R) (spawn_xthread E tpe) (obeys n R)"
proof (rule tripleI)
  fix x y assume x: "obeys n R x" and s: "spawn_xthread E tpe x = Inr y"
  have "triple (obeys n R) (upd_var (upd_status_obj t f)) (obeys n R)" for t f
    by (rule upd_frame) (simp add: upd_status_obj_def)
  moreover have "triple (obeys n R) (forkSpawn tpe) (obeys n R)"
    by (rule tripleI) (auto simp: forkSpawn_def elim!: obeys_frame split: if_splits)
  ultimately have "triple (obeys n R) (steps [when_step c (on_pool p), upd_var (upd_status_obj t f), forkSpawn tpe])
      (obeys n R)" for c p t f
    by (intro triple_Cons[OF triple_when[OF pool_step]] triple_Cons[of _ _ "obeys n R"] triple_last)
  from tripleD[OF this x s[unfolded spawn_xthread_def Let_def]] show "obeys n R y" .
qed

lemma get_thread_step:
  assumes "obeys n R x" and "get_thread_run E f a e x = Inr (tpe, y)"
  shows "obeys n R y"
  using assms by (auto simp: get_thread_run_def bindR_Inr_iff elim!: obeys_frame)

lemma spawn_ok: "triple (level h n) (\<lambda>x. bindR (spawn E f a e x) (\<lambda>(tid, y). Inr y)) (level h n)"
proof (rule tripleI)
  fix x y assume x: "level h n x" and "bindR (spawn E f a e x) (\<lambda>(tid, y). Inr y) = Inr y"
  then obtain tid where "spawn E f a e x = Inr (tid, y)" by (auto simp: bindR_Inr_iff)
  then obtain x0 x1 tpe x2 x3 k where x0: "stopClockNoCoarsen E x = Inr x0"
    and x1: "steps [waitToken E, commitAndUpdateMemory E, \<lambda>x. add_ticks E (k x) x] x0 = Inr x1"
    and x2: "get_thread_run E f a e x1 = Inr (tpe, x2)"
    and x3: "steps [when_step (rc_round_robin (re_config E)) (add_ticks E LOGICAL_CLOCK_ROUND_ROBIN_FORKED_THREAD),
       putTokenNoFastForward_run E, spawn_xthread E tpe] x2 = Inr x3"
    and y: "steps [waitToken E, commitAndUpdateMemory E, putToken_run E, startClock E] x3 = Inr y"
    unfolding spawn_def Let_def bindR_Inr_iff by (auto simp: bindR_Inr_iff simp del: steps.simps split: if_splits)
  have "held n x1"
    by (rule tripleD[OF triple_Cons[OF at_wait triple_Cons[OF commit_held triple_last[OF ticks_at]]]
        tripleD[OF stop_no_coarsen_step x x0] x1])
  from get_thread_step[OF this x2] have h2: "held n x2" .
  have "triple (held n) (steps [when_step (rc_round_robin (re_config E))
      (add_ticks E LOGICAL_CLOCK_ROUND_ROBIN_FORKED_THREAD), putTokenNoFastForward_run E,
      spawn_xthread E tpe]) (level h n)"
    by (rule triple_Cons[OF triple_when[OF ticks_step] triple_Cons[OF
        triple_weaken[OF put_no_fast_forward_step held_known free_level] triple_last[OF spawn_xthread_step]]])
  from tripleD[OF this h2 x3] have "level h n x3" .
  from tripleD[OF triple_Cons[OF at_wait triple_Cons[OF commit_held triple_Cons[OF held_put
    triple_last[OF clock_steps(2)]]]] this y]
  show "level h n y" .
qed

lemma cancel_ok: "triple (level h n) (cancel_run E asserts v) (level h n)"
  unfolding cancel_run_def
  by (intro triple_Cons[OF stop_no_coarsen_step] triple_Cons[OF at_wait] triple_Cons[OF commit_held]
      triple_Cons[OF determ_at[OF cancel_keeps]] triple_Cons[OF held_put[where h = h]]
      triple_last[OF clock_steps(2)])

lemma sigstop_ok: "triple (level h n) (sigstopHandle E) (level h n)"
  unfolding sigstopHandle_def by (rule held_call[OF commit_held])

lemma done_ok: "triple (level h n) (done_run E) (level h n)"
proof -
  have "triple (held n) finalize_determ (held n)" unfolding finalize_determ_def by (rule upd_frame) simp
  then show ?thesis unfolding done_run_def
    by (intro triple_Cons[OF at_wait] triple_Cons[of _ _ "held n"] pool_step triple_last[OF held_put])
qed

text \<open>All calls.\<close>

lemma do_call_ok:
  assumes "h \<Longrightarrow> \<not> rc_tx_coarsening (re_config E) \<and> \<not> rc_simple_locks (re_config E) \<and>
    (\<forall>z. \<not> singleActiveThread E z)"
  shows "triple (level h n) (do_call E c) (level h (n + untokened E c))"
proof (cases c)
  case (MutexUnlock m)
  show ?thesis
  proof (cases "rc_simple_locks (re_config E)")
    case True
    then have "\<not> h" using assms by blast
    then show ?thesis using mutex_unlock_simple_ok[of n m] True MutexUnlock by (simp add: mutex_unlock_def)
  next
    case False
    have "triple (level h n) (mutex_unlock_full E m) (level h n)"
      by (rule mutex_unlock_full_ok) (use assms in blast)
    then show ?thesis using False MutexUnlock by (simp add: mutex_unlock_def)
  qed
next
  case (CondWait k m)
  have "triple (level h n) (cond_wait_run E k m) (level h (Suc n))"
    by (rule cond_wait_ok) (use assms in blast)
  then show ?thesis using CondWait by simp
next
  case (MutexLock m)
  have "triple (level h n) (mutex_lock E m) (level h n)" by (rule mutex_lock_ok) (use assms in blast)
  then show ?thesis using MutexLock by simp
next
  case (CondBroadcast k)
  have "triple (level h n) (cond_broadcast_run E k) (level h n)"
    by (rule triple_weaken[OF cond_broadcast_ok _ free_level])
  then show ?thesis using CondBroadcast by simp
next
  case (MutexDestroy m)
  then show ?thesis unfolding mutex_destroy_def do_call.simps untokened.simps
    using determ_step[OF lock_destroy_keeps] by (simp add: mutex_destroy_def)
qed (simp_all add: mutex_init_ok cond_init_ok cond_signal_ok barrier_init_ok barrier_wait_ok spawn_ok
    join_ok cancel_ok sigstop_ok done_ok)

lemma do_calls_ok:
  assumes "h \<Longrightarrow> \<not> rc_tx_coarsening (re_config E) \<and> \<not> rc_simple_locks (re_config E) \<and>
    (\<forall>z. \<not> singleActiveThread E z)"
  shows "triple (level h n) (steps (map (do_call E) cs)) (level h (n + sum_list (map (untokened E) cs)))"
proof (induction cs arbitrary: n)
  case Nil
  then show ?case by (simp add: triple_def)
next
  case (Cons c cs)
  from triple_Cons[OF do_call_ok[OF assms] Cons] show ?case by (simp add: add.assoc del: steps.simps)
qed

end

end
