(* ===== verification/Run_Samples.thy ===== *)
theory Run_Samples
  imports Run_Calls
begin

text \<open>
  A concrete thread, the only one of its program but for steps that wake it when it waits, on which the
  properties of calls are instantiated.
\<close>

definition sample_clock :: "table clock_api" where
  "sample_clock = (table_clock 0)\<lparr>ca_single_active := \<lambda>_. False\<rparr>"

definition sample_conv :: "unit conv_api" where
  "sample_conv = \<lparr>cv_checkout_create = \<lambda>_ _. None, cv_commit_and_update = id, cv_update = id,
     cv_partial_background_update = id, cv_sleep = id, cv_wake = id, cv_deferred_start = id,
     cv_deferred_end = id, cv_committed_version_num = \<lambda>_. 0, cv_current_version_num = \<lambda>_. 0,
     cv_linearized_version_num = \<lambda>_. 0, cv_dirty_page_count = \<lambda>_. 0, cv_updated_page_count = \<lambda>_. 0,
     cv_merged_page_count = \<lambda>_. 0, cv_logical_page_count = \<lambda>_. 0,
     cv_partial_updated_unique_pages = \<lambda>_. 0, cv_set_partial_updated_unique_pages = \<lambda>_. id\<rparr>"

definition sample_env :: "run_config \<Rightarrow> (table, unit) run_env" where
  "sample_env R = \<lparr>re_config = R, re_clock = sample_clock, re_conv = sample_conv, re_update = id,
     re_alloc_lock = \<lambda>d. (16, \<lparr>lk_acquired = False, lk_waiters = 0, lk_head = 0\<rparr>),
     re_alloc_cond = \<lambda>d. 32, re_alloc_barrier = \<lambda>d. (ds_barriers d 0, 48), re_alloc_status = \<lambda>_. 64,
     re_memory = \<lambda>_. None, re_commit_heap = \<lambda>_. [], re_commit_globals = \<lambda>_. [], re_commit_obs = \<lambda>_. []\<rparr>"

definition sample_mem :: "unit xmemory" where
  "sample_mem = (let s = \<lparr>xp_startaddr = 0, xp_snapMemory = 0, xp_size = 0, xp_seg = (),
     xp_isProtected = False, xp_trans = 0, xp_threadindex = 0\<rparr> in
     \<lparr>xm_pheap = s, xm_globals = s, xm_heapid = 0\<rparr>)"

definition sample_wake :: "(table, unit) world \<Rightarrow> (table, unit) world" where
  "sample_wake w = (if status_of (w_d w) 0 = STATUS_COND_WAITING
     then w\<lparr>w_d := (set_status 0 STATUS_READY (w_d w))\<lparr>ds_clock := ([0], snd (ds_clock (w_d w)))\<rparr>\<rparr> else w)"

definition sample_script :: "((table, unit) world \<Rightarrow> (table, unit) world) list" where
  "sample_script = (let w = sample_wake; ws = [w, w, w, w, w, w, w, w, w, w] in ws @ ws @ ws @ ws @ ws @ ws)"

definition sample_run :: "(table, unit) xrun" where
  "sample_run = \<lparr>xr_initialized = True, xr_thread_index = 0, xr_lock_count = 0, xr_token_holding = False,
     xr_coarsening_counter = 0, xr_coarsening_level = 20000, xr_consecutively_coarsened = 0,
     xr_monitor_next = False, xr_sleep_count = 0, xr_is_sleeping = False,
     xr_w = \<lparr>w_d = table_determ, w_mem = sample_mem, w_pool = sample_pool,
       w_status = \<lambda>_. \<lparr>ts_tid = 0, ts_threadIndex = 0, ts_retval = 0\<rparr>, w_master_finished = False,
       w_cloned = []\<rparr>,
     xr_script = sample_script, xr_commits = []\<rparr>"

lemmas sample_defs = sample_clock_def sample_conv_def sample_env_def sample_mem_def sample_run_def sample_script_def
  table_clock_def table_determ_def

lemmas call_defs = mutex_init_def mutex_lock_def mutex_unlock_def mutex_unlock_full_def with_token_def
  mutex_lock_inner_def mutex_lock_inner_full_def lock_commit_def lock_token_def lock_acquire_run_def
  commitAndUpdate_def waitToken_def getToken_def putToken_run_def release_def stopClock_def startClock_def
  commitAndUpdateMemory_def commitAndUpdateMemory_stats_def on_determ_def on_mem_def on_clock_def upd_var_def
  when_step_def round_robin_ticks_def add_ticks_def useTxCoarsening_def inCoarsenedTx_def coarsening_def
  singleActiveThread_def fast_forward_clock_def token_start_def with_local_mem_def adapt_level_def
  endTXCoarsening_def put_token_def ticks_to_add_def
  lock_init_def lock_acquire_def lock_release_def lock_waiters_count_def upd_lock_def upd_thread_def
  xm_commit_def both_segs_def checkandcommit_seg_def map_seg_def xm_partial_unique_pages_def
  get_partial_unique_pages_seg_def xm_dirty_pages_def xm_dirty_pages_heap_def xm_dirty_pages_globals_def
  xm_merged_pages_def xm_partialUpdate_def partialUpdate_seg_def TOKEN_SPIN_MAX_def NULL_def
  isTokenHolder_def config_IC_def KENDO_ACQ_INC_def LOGICAL_CLOCK_TIME_LOCK_def
  LOGICAL_CLOCK_CONVERSION_UPDATE_PAGE_def LOGICAL_CLOCK_CONVERSION_COMMIT_PAGE_def
  LOGICAL_CLOCK_CONVERSION_MERGE_PAGE_def


lemmas cond_defs = cond_init_run_def cond_wait_run_def cond_wait_determ_def cond_init_def cond_wait_begin_def
  cond_wait_end_def wait_ready_def wait_ready_loop.simps xm_sleep_def xm_wake_def sleep_seg_def wake_seg_def
  sample_wake_def status_of_def set_status_def MAX_SLEEP_COUNT_def insertTail_def list_ops
  putTokenLockHeld_def on_wakeup_def thread_addr_def upd_cond_def isEmpty_def

end
