(* ===== verification/Run_Theorems.thy ===== *)
theory Run_Theorems
  imports Run_Samples
begin

text \<open>
  The contract of the single steps for the code's model, and the properties of a thread's calls.
\<close>

subsection \<open>The contract, for the commits and for the coarsening level\<close>

text \<open>The other threads do not take or give this thread's token.\<close>

definition env_ok :: "nat \<Rightarrow> (('c, 'm) world \<Rightarrow> ('c, 'm) world) \<Rightarrow> bool" where
  "env_ok t f \<longleftrightarrow> (\<forall>w. ds_tokenpos (w_d (f w)) = Some t \<longleftrightarrow> ds_tokenpos (w_d w) = Some t)"

definition script_ok :: "('c, 'm) xrun \<Rightarrow> bool" where
  "script_ok x \<longleftrightarrow> (\<forall>f\<in>set (xr_script x). env_ok (xr_thread_index x) f)"

definition commits_bound :: "('c, 'm) run_env \<Rightarrow> nat \<Rightarrow> nat \<Rightarrow> ('c, 'm) xrun \<Rightarrow> bool" where
  "commits_bound E t n x \<longleftrightarrow> xr_thread_index x = t \<and> script_ok x \<and>
     ((\<forall>z. \<not> singleActiveThread E z) \<longrightarrow> length (filter Not (xr_commits x)) \<le> n)"

lemma script_okD:
  "script_ok x \<Longrightarrow> xr_script x = f # fs \<Longrightarrow>
   script_ok (x\<lparr>xr_w := w, xr_script := fs\<rparr>) \<and> env_ok (xr_thread_index x) f"
  by (simp add: script_ok_def)

lemma script_ok_cong:
  "xr_script y = xr_script x \<Longrightarrow> xr_thread_index y = xr_thread_index x \<Longrightarrow> script_ok y = script_ok x"
  by (simp add: script_ok_def)

lemma adapt_frame [simp]:
  "xr_thread_index (adapt_level E x) = xr_thread_index x" "xr_script (adapt_level E x) = xr_script x"
  "xr_commits (adapt_level E x) = xr_commits x"
  by (simp_all add: adapt_level_def)

interpretation cb: run_contract E "commits_bound E t" for E :: "('c, 'm) run_env" and t :: nat
proof
  fix n k :: nat and x y :: "('c, 'm) xrun" and f fs and w :: "('c, 'm) world"
  show "commits_bound E t n x \<Longrightarrow> xr_thread_index y = xr_thread_index x \<Longrightarrow>
      xr_coarsening_level y = xr_coarsening_level x \<Longrightarrow> xr_commits y = xr_commits x \<Longrightarrow>
      xr_script y = xr_script x \<Longrightarrow> commits_bound E t n y"
    using script_ok_cong[of y x] by (simp add: commits_bound_def)
  show "commits_bound E t n x \<Longrightarrow> xr_script x = f # fs \<Longrightarrow> commits_bound E t n (x\<lparr>xr_w := w, xr_script := fs\<rparr>)"
    using script_okD[of x f fs w] by (simp add: commits_bound_def)
  show "commits_bound E t n x \<Longrightarrow> xr_script x = f # fs \<Longrightarrow>
      (ds_tokenpos (w_d (f w)) = Some (xr_thread_index x)) = (ds_tokenpos (w_d w) = Some (xr_thread_index x))"
    using script_okD[of x f fs w] by (simp add: commits_bound_def env_ok_def)
  show "commits_bound E t n x \<Longrightarrow>
      commits_bound E t n (x\<lparr>xr_coarsening_level := LOGICAL_CLOCK_MIN_ALLOWABLE_TX_SIZE (re_config E)\<rparr>)"
    by (auto simp: commits_bound_def script_ok_def)
  show "commits_bound E t n x \<Longrightarrow> commits_bound E t n (adapt_level E x)"
    using script_ok_cong[of "adapt_level E x" x] by (simp add: commits_bound_def)
  show "\<exists>z. singleActiveThread E z \<Longrightarrow> commits_bound E t n x \<Longrightarrow> commits_bound E t k x"
    by (auto simp: commits_bound_def)
  show "commits_bound E t n x \<Longrightarrow>
      commits_bound E t (if mine x \<or> (\<exists>z. singleActiveThread E z) then n else Suc n)
        (x\<lparr>xr_commits := xr_commits x @ [mine x]\<rparr>)"
    by (auto simp: commits_bound_def script_ok_def)
  show "commits_bound E t n x \<Longrightarrow> commits_bound E t (Suc n) x"
    by (auto simp: commits_bound_def)
qed

text \<open>The bounds of the coarsening level; a static size is taken to be positive.\<close>

definition level_bound :: "('c, 'm) run_env \<Rightarrow> ('c, 'm) xrun \<Rightarrow> bool" where
  "level_bound E x \<longleftrightarrow> LOGICAL_CLOCK_MIN_ALLOWABLE_TX_SIZE (re_config E) \<le> xr_coarsening_level x \<and>
     xr_coarsening_level x \<le> LOGICAL_CLOCK_MAX_ALLOWABLE_TX_SIZE (re_config E)"

definition level_base :: "('c, 'm) run_env \<Rightarrow> nat \<Rightarrow> ('c, 'm) xrun \<Rightarrow> bool" where
  "level_base E n x \<longleftrightarrow> script_ok x \<and>
     (0 \<le> LOGICAL_CLOCK_MIN_ALLOWABLE_TX_SIZE (re_config E) \<longrightarrow> level_bound E x)"

lemma tx_sizes:
  "LOGICAL_CLOCK_MIN_ALLOWABLE_TX_SIZE R \<le> LOGICAL_CLOCK_TX_SIZE_AFTER_TOKEN_TRANSFER R"
  "LOGICAL_CLOCK_TX_SIZE_AFTER_TOKEN_TRANSFER R \<le> LOGICAL_CLOCK_MAX_ALLOWABLE_TX_SIZE R"
  by (simp_all add: LOGICAL_CLOCK_MIN_ALLOWABLE_TX_SIZE_def LOGICAL_CLOCK_TX_SIZE_AFTER_TOKEN_TRANSFER_def
      LOGICAL_CLOCK_MAX_ALLOWABLE_TX_SIZE_def split: option.splits)

lemma adapt_level_bound:
  assumes "0 \<le> LOGICAL_CLOCK_MIN_ALLOWABLE_TX_SIZE (re_config E)" and "level_bound E x"
  shows "level_bound E (adapt_level E x)"
  using assms tx_sizes[of "re_config E"] by (auto simp: level_bound_def adapt_level_def)

interpretation lv: run_contract E "level_base E" for E :: "('c, 'm) run_env"
proof
  fix n k :: nat and x y :: "('c, 'm) xrun" and f fs and w :: "('c, 'm) world"
  show "level_base E n x \<Longrightarrow> xr_thread_index y = xr_thread_index x \<Longrightarrow>
      xr_coarsening_level y = xr_coarsening_level x \<Longrightarrow> xr_commits y = xr_commits x \<Longrightarrow>
      xr_script y = xr_script x \<Longrightarrow> level_base E n y"
    using script_ok_cong[of y x] by (simp add: level_base_def level_bound_def)
  show "level_base E n x \<Longrightarrow> xr_script x = f # fs \<Longrightarrow> level_base E n (x\<lparr>xr_w := w, xr_script := fs\<rparr>)"
    using script_okD[of x f fs w] by (simp add: level_base_def level_bound_def)
  show "level_base E n x \<Longrightarrow> xr_script x = f # fs \<Longrightarrow>
      (ds_tokenpos (w_d (f w)) = Some (xr_thread_index x)) = (ds_tokenpos (w_d w) = Some (xr_thread_index x))"
    using script_okD[of x f fs w] by (simp add: level_base_def env_ok_def)
  show "level_base E n x \<Longrightarrow>
      level_base E n (x\<lparr>xr_coarsening_level := LOGICAL_CLOCK_MIN_ALLOWABLE_TX_SIZE (re_config E)\<rparr>)"
    using tx_sizes[of "re_config E"] by (simp add: level_base_def level_bound_def script_ok_def)
  show "level_base E n x \<Longrightarrow> level_base E n (adapt_level E x)"
    using adapt_level_bound[of E x] script_ok_cong[of "adapt_level E x" x] by (simp add: level_base_def)
  show "level_base E n x \<Longrightarrow>
      level_base E (if mine x \<or> (\<exists>z. singleActiveThread E z) then n else Suc n)
        (x\<lparr>xr_commits := xr_commits x @ [mine x]\<rparr>)"
    by (simp add: level_base_def level_bound_def script_ok_def)
  show "\<exists>z. singleActiveThread E z \<Longrightarrow> level_base E n x \<Longrightarrow> level_base E k x" by (simp add: level_base_def)
  show "level_base E n x \<Longrightarrow> level_base E (Suc n) x" by (simp add: level_base_def)
qed

subsection \<open>The token and the commits\<close>

definition flag_exact :: "('c, 'm) xrun \<Rightarrow> bool" where
  "flag_exact x \<longleftrightarrow> xr_token_holding x = isTokenHolder (xr_thread_index x) (xr_d x)"

lemma flag_known: "flag_exact x \<longleftrightarrow> xr_token_holding x = mine x"
  by (simp add: flag_exact_def mine_def isTokenHolder_def)

lemma cb_start:
  assumes "script_ok x" and "flag_exact x" and "h \<longrightarrow> \<not> xr_token_holding x"
  shows "cb.level E (xr_thread_index x) h (length (filter Not (xr_commits x))) x"
  using assms by (simp add: cb.obeys_def commits_bound_def flag_known)

text \<open>
  C7. The flag \<open>_token_holding\<close> is exact: after any sequence of calls, in every configuration and
  whatever the other threads do while this one waits (other than taking or giving its
  token), it says whether the shared token is this thread's.
\<close>

theorem token_flag_exact:
  assumes "script_ok x" and "flag_exact x" and "steps (map (do_call E) cs) x = Inr y"
  shows "flag_exact y \<and> xr_thread_index y = xr_thread_index x"
  using tripleD[OF cb.do_calls_ok[where h = False] cb_start[OF assms(1,2)] assms(3)]
  by (simp add: cb.obeys_def commits_bound_def flag_known)

lemma sample_start: "script_ok sample_run" "flag_exact sample_run"
  by (simp_all add: script_ok_def flag_exact_def sample_defs env_ok_def sample_wake_def set_status_def
      upd_thread_def isTokenHolder_def)

theorem token_flag_exact_witness:
  "\<exists>y. steps (map (do_call (sample_env config_IC)) [MutexInit 5, MutexLock 5, MutexUnlock 5]) sample_run = Inr y \<and>
    flag_exact y"
proof -
  obtain y where y: "steps (map (do_call (sample_env config_IC)) [MutexInit 5, MutexLock 5, MutexUnlock 5])
      sample_run = Inr y"
    by (simp add: sample_defs call_defs sample_wake_def status_of_def)
  from token_flag_exact[OF sample_start y] y show ?thesis by blast
qed


lemma sample_alone: "\<not> singleActiveThread (sample_env R) z"
  by (simp add: singleActiveThread_def sample_env_def sample_clock_def)


text \<open>
  The coarsening level stays between the smallest and the largest allowed size, through all calls.
\<close>

theorem coarsening_level_bounds:
  assumes "script_ok x" and "flag_exact x" and "0 \<le> LOGICAL_CLOCK_MIN_ALLOWABLE_TX_SIZE (re_config E)"
    and "level_bound E x" and "steps (map (do_call E) cs) x = Inr y"
  shows "level_bound E y"
proof -
  have "lv.level E False 0 x" using assms by (simp add: lv.obeys_def level_base_def flag_known)
  from tripleD[OF lv.do_calls_ok[where h = False] this assms(5)] assms(3)
  show ?thesis by (simp add: lv.obeys_def level_base_def)
qed

theorem coarsening_level_bounds_witness:
  "\<exists>y. steps (map (do_call (sample_env config_CheckSchedule)) [MutexInit 5, MutexLock 5])
      (sample_run\<lparr>xr_monitor_next := True\<rparr>) = Inr y \<and>
    20000 \<le> xr_coarsening_level y \<and> xr_coarsening_level y \<le> 500000"
proof -
  let ?x = "sample_run\<lparr>xr_monitor_next := True\<rparr>"
  obtain y where y: "steps (map (do_call (sample_env config_CheckSchedule)) [MutexInit 5, MutexLock 5]) ?x = Inr y"
    by (simp add: sample_defs call_defs cond_defs config_CheckSchedule_def
        LOGICAL_CLOCK_MAX_ALLOWABLE_TX_SIZE_def)
  have "script_ok ?x" "flag_exact ?x"
    using sample_start by (simp_all add: script_ok_def flag_exact_def)
  moreover have "0 \<le> LOGICAL_CLOCK_MIN_ALLOWABLE_TX_SIZE (re_config (sample_env config_CheckSchedule))"
    "level_bound (sample_env config_CheckSchedule) ?x"
    by (simp_all add: level_bound_def sample_defs config_CheckSchedule_def config_IC_def
        LOGICAL_CLOCK_MIN_ALLOWABLE_TX_SIZE_def LOGICAL_CLOCK_MAX_ALLOWABLE_TX_SIZE_def)
  ultimately have "level_bound (sample_env config_CheckSchedule) y"
    using coarsening_level_bounds y by blast
  with y show ?thesis
    by (auto simp: level_bound_def sample_env_def config_CheckSchedule_def config_IC_def
        LOGICAL_CLOCK_MIN_ALLOWABLE_TX_SIZE_def LOGICAL_CLOCK_MAX_ALLOWABLE_TX_SIZE_def simp del: steps.simps)
qed

end
