(* ===== verification/Run_Exact.thy ===== *)
theory Run_Exact
  imports Run_Theorems
begin

text \<open>
  Single calls of a thread followed exactly: what taking a lock means, the fast forward of the clock, the
  calls of the build with simple locks, and the end of a thread.
\<close>

subsection \<open>Steps that leave the locks alone\<close>

definition locks_are :: "(addr \<Rightarrow> LockEntry) \<Rightarrow> (nat \<Rightarrow> addr) \<Rightarrow> ('c, 'm) xrun \<Rightarrow> bool" where
  "locks_are L V x \<longleftrightarrow> ds_locks (xr_d x) = L \<and> ds_var (xr_d x) = V"

lemma locks_mem: "triple (locks_are L V) (on_mem f) (locks_are L V)"
  by (auto simp: triple_def on_mem_def locks_are_def)

lemma locks_clock: "triple (locks_are L V) (on_determ (on_clock f)) (locks_are L V)"
  by (auto simp: triple_def on_determ_def on_clock_def bindR_Inr_iff locks_are_def)

lemma locks_put: "triple (locks_are L V) (on_determ (put_token K t ff)) (locks_are L V)"
  by (auto simp: triple_def on_determ_def put_token_def upd_thread_def bindR_Inr_iff locks_are_def Let_def
      split: option.splits if_splits)

lemma locks_upd: "(\<And>x. xr_w (f x) = xr_w x) \<Longrightarrow> triple (locks_are L V) (upd_var f) (locks_are L V)"
  by (auto simp: triple_def upd_var_def locks_are_def)

lemma locks_ticks: "triple (locks_are L V) (add_ticks E k) (locks_are L V)"
  unfolding add_ticks_def by (rule locks_clock)

lemma locks_end_coarsening: "triple (locks_are L V) (endTXCoarsening E) (locks_are L V)"
  unfolding endTXCoarsening_def
  by (auto simp: triple_def when_step_def upd_var_def on_determ_def on_clock_def bindR_Inr_iff locks_are_def
      split: if_splits)

lemma locks_put_run: "triple (locks_are L V) (putToken_run E) (locks_are L V)"
proof (rule tripleI)
  fix x y assume x: "locks_are L V x" and p: "putToken_run E x = Inr y"
  have r: "triple (locks_are L V) (release E True) (locks_are L V)"
  proof (rule tripleI)
    fix x y assume x: "locks_are L V x" and r: "release E True x = Inr y"
    from tripleD[OF triple_when[OF triple_Cons[OF locks_put triple_last[OF locks_upd]]] x r[unfolded release_def]]
    show "locks_are L V y" by simp
  qed
  from tripleD[OF triple_Cons[OF triple_when[OF locks_end_coarsening] triple_last[OF r]] x p[unfolded putToken_run_def]]
  show "locks_are L V y" by simp
qed

lemma locks_commit_stats:
  "commitAndUpdateMemory_stats E x = Inr (cs, y) \<Longrightarrow> locks_are L V x \<Longrightarrow> locks_are L V y"
  by (auto simp: commitAndUpdateMemory_stats_def commitAndUpdateMemory_def upd_var_def on_mem_def Let_def
      locks_are_def case_prod_unfold)

lemma locks_start: "triple (locks_are L V) (startClock E) (locks_are L V)"
  by (rule tripleI) (auto simp: startClock_def dest: tripleD[OF locks_clock])

lemma locks_round_robin: "triple (locks_are L V) (round_robin_ticks E) (locks_are L V)"
  unfolding round_robin_ticks_def by (rule triple_when[OF locks_ticks])

lemma locks_lock_commit: "triple (locks_are L V) (lock_commit E) (locks_are L V)"
proof (rule tripleI)
  fix x y assume x: "locks_are L V x" and "lock_commit E x = Inr y"
  then obtain cs x1 k where "commitAndUpdateMemory_stats E x = Inr (cs, x1)" "add_ticks E k x1 = Inr y"
    by (auto simp: lock_commit_def bindR_Inr_iff)
  then show "locks_are L V y" using tripleD[OF locks_ticks locks_commit_stats[OF _ x]] by blast
qed

subsection \<open>Taking a lock\<close>

text \<open>The lock was free at a moment at which the thread had the token, or was alone.\<close>

definition took_lock :: "('c, 'm) run_env \<Rightarrow> nat \<Rightarrow> ('c, 'm) xrun \<Rightarrow> bool" where
  "took_lock E mutex y \<longleftrightarrow> (\<exists>(d :: 'c determ) p. ds_var (xr_d y) mutex = p \<and> p \<noteq> NULL \<and> \<not> lk_acquired (ds_locks d p) \<and>
     (isTokenHolder (xr_thread_index y) d \<or> (\<exists>z :: ('c, 'm) xrun. singleActiveThread E z)) \<and>
     ds_locks (xr_d y) = (ds_locks d)(p := (ds_locks d p)\<lparr>lk_acquired := True\<rparr>))"

text \<open>A commit does not change a variable that the thread itself has set; the allocator returns memory.\<close>

definition sane_alloc :: "('c, 'm) run_env \<Rightarrow> nat \<Rightarrow> bool" where
  "sane_alloc E mutex \<longleftrightarrow> (\<forall>v. v mutex \<noteq> NULL \<longrightarrow> re_update E v mutex = v mutex) \<and>
     (\<forall>d. fst (re_alloc_lock E d) \<noteq> NULL)"

lemma upd_lock_parts:
  "ds_var (upd_lock p f s) = ds_var s" "ds_locks (upd_lock p f s) = (ds_locks s)(p := f (ds_locks s p))"
  by (simp_all add: upd_lock_def)

lemma lock_acquire_took:
  fixes s s' :: "'c determ"
  assumes "lock_acquire u mem mutex t s = (True, s')" and u: "\<And>v. v mutex \<noteq> NULL \<Longrightarrow> u v mutex = v mutex"
    and "fst mem \<noteq> NULL"
  shows "\<exists>(d :: 'c determ) p. ds_var s' mutex = p \<and> p \<noteq> NULL \<and> \<not> lk_acquired (ds_locks d p) \<and>
    ds_tokenpos d = ds_tokenpos s \<and> ds_locks s' = (ds_locks d)(p := (ds_locks d p)\<lparr>lk_acquired := True\<rparr>)"
proof -
  let ?s1 = "if ds_var s mutex = NULL
    then (let s' = s\<lparr>ds_var := u (ds_var s)\<rparr> in
          if ds_var s' mutex = NULL then (let s'' = lock_init mem mutex s' in s''\<lparr>ds_var := u (ds_var s'')\<rparr>) else s')
    else s"
  let ?p = "if ds_var s mutex = NULL then (if u (ds_var s) mutex = NULL then fst mem else u (ds_var s) mutex)
    else ds_var s mutex"
  have a: "\<not> lk_acquired (ds_locks ?s1 ?p)" "s' = upd_lock ?p (\<lambda>l. l\<lparr>lk_acquired := True\<rparr>) ?s1"
    using assms(1) unfolding lock_acquire_def Let_def by (auto split: if_splits)
  obtain p g where m: "mem = (p, g)" by (cases mem)
  have v: "ds_var ?s1 mutex = ?p" "?p \<noteq> NULL"
    using assms(3) u[of "(u (ds_var s))(mutex := p)"] by (auto simp: Let_def lock_init_def m)
  have t: "ds_tokenpos ?s1 = ds_tokenpos s" by (simp add: Let_def lock_init_def m)
  have l: "ds_var s' mutex = ?p" "ds_locks s' = (ds_locks ?s1)(?p := (ds_locks ?s1 ?p)\<lparr>lk_acquired := True\<rparr>)"
    unfolding a(2) upd_lock_parts by (rule v(1), rule refl)
  show ?thesis by (rule exI[of _ ?s1], rule exI[of _ ?p], intro conjI) (rule l(1) v(2) a(1) t l(2))+
qed

lemma acquire_run_took:
  assumes "lock_acquire_run E mutex x = Inr (True, y)" and "sane_alloc E mutex"
    and "mine x \<or> (\<exists>z. singleActiveThread E z)"
  shows "took_lock E mutex y"
proof -
  let ?d = "xr_d x"
  obtain g d' where a: "lock_acquire (re_update E) (re_alloc_lock E ?d) mutex (xr_thread_index x) ?d = (g, d')"
    by (cases "lock_acquire (re_update E) (re_alloc_lock E ?d) mutex (xr_thread_index x) ?d")
  from assms(1) a obtain x1 where x1: "steps [when_step (ds_var ?d mutex = NULL) (commitAndUpdate E),
      when_step (ds_var ?d mutex = NULL \<and> re_update E (ds_var ?d) mutex = NULL) (commitAndUpdate E)] x = Inr x1"
    and y: "g" "y = x1\<lparr>xr_w := (xr_w x1)\<lparr>w_d := d'\<rparr>\<rparr>"
    by (auto simp: lock_acquire_run_def Let_def bindR_Inr_iff)
  have "triple (\<lambda>z. xr_thread_index z = xr_thread_index x) (commitAndUpdate E) (\<lambda>z. xr_thread_index z = xr_thread_index x)"
    by (auto simp: triple_def commitAndUpdate_def upd_var_def on_mem_def)
  from tripleD[OF triple_Cons[OF triple_when[OF this] triple_last[OF triple_when[OF this]]] _ x1]
  have t: "xr_thread_index x1 = xr_thread_index x" by simp
  have acq: "lock_acquire (re_update E) (re_alloc_lock E ?d) mutex (xr_thread_index x) ?d = (True, d')"
    using a y(1) by simp
  have u: "re_update E v mutex = v mutex" if "v mutex \<noteq> NULL" for v
    using assms(2) that by (simp add: sane_alloc_def)
  have m: "fst (re_alloc_lock E ?d) \<noteq> NULL" using assms(2) by (simp add: sane_alloc_def)
  note took = lock_acquire_took[OF acq u m]
  have "isTokenHolder (xr_thread_index y) d \<or> (\<exists>z. singleActiveThread E z)"
    if "ds_tokenpos d = ds_tokenpos ?d" for d
    using assms(3) t that by (simp add: y(2) isTokenHolder_def mine_def)
  with took show ?thesis unfolding took_lock_def y(2) by fastforce
qed

lemma took_lock_frame:
  assumes "took_lock E mutex x" and "triple (locks_are (ds_locks (xr_d x)) (ds_var (xr_d x))) f
      (locks_are (ds_locks (xr_d x)) (ds_var (xr_d x)))"
    and "f x = Inr y" and "xr_thread_index y = xr_thread_index x"
  shows "took_lock E mutex y"
  using tripleD[OF assms(2) _ assms(3)] assms(1,4) unfolding took_lock_def locks_are_def by simp

lemma retry_took:
  assumes "mutex_lock_retry k E mutex coarse j x = Inr y" and "sane_alloc E mutex"
    and "cb.level E t False n x"
  shows "took_lock E mutex y"
  using assms(1,3)
proof (induction k arbitrary: x coarse j)
  case (Suc k)
  let ?single = "singleActiveThread E x"
  obtain x1 where x1: "lock_token E j x = Inr x1" using Suc(2) by (auto simp: Let_def bindR_Inr_iff)
  obtain got x2 where x2: "lock_acquire_run E mutex x1 = Inr (got, x2)"
    using Suc(2) x1 by (auto simp: Let_def bindR_Inr_iff)
  note tok = cb.lock_token_step[OF Suc(3) x1]
  have ok: "cb.held E t n x2 \<or> ?single \<and> cb.level E t False n x2"
    using tok cb.acquire_step[OF _ cb.may_commit_held x2] cb.acquire_step[OF _ cb.may_commit_alone x2] by blast
  have "mine x1 \<or> (\<exists>z. singleActiveThread E z)" using tok by (auto simp: cb.obeys_def)
  note took = acquire_run_took[OF _ assms(2) this]
  show ?case
  proof (cases got)
    case True
    then obtain c b where s: "steps [when_step c (lock_commit E), round_robin_ticks E,
        when_step b (putToken_run E)] x2 = Inr y" using Suc(2) x1 x2 by (auto simp: Let_def)
    have "cb.level E t False n y"
      by (rule cb.lock_retry_ok[OF Suc(2,3)]) simp
    then have "xr_thread_index y = xr_thread_index x2" using ok by (auto simp: cb.obeys_def commits_bound_def)
    moreover have "took_lock E mutex x2" by (rule took) (use x2 True in simp)
    moreover have "triple (locks_are L V) (steps [when_step c (lock_commit E), round_robin_ticks E,
        when_step b (putToken_run E)]) (locks_are L V)" for L V
      by (intro triple_Cons[OF triple_when[OF locks_lock_commit]] triple_Cons[OF locks_round_robin]
          triple_last[OF triple_when[OF locks_put_run]])
    ultimately show ?thesis using s took_lock_frame by blast
  next
    case False
    then obtain x3 where x3: "\<not> ?single" "lock_failed E mutex j x2 = Inr x3"
      "mutex_lock_retry k E mutex False (Suc j) x3 = Inr y"
      using Suc(2) x1 x2 by (auto simp: Let_def bindR_Inr_iff split: if_splits)
    from ok x3(1) have "cb.held E t n x2" by blast
    from cb.free_level[OF tripleD[OF cb.lock_failed_step this x3(2)]] Suc(1)[OF x3(3)] show ?thesis by blast
  qed
qed simp



end
