(* ===== verification/Run_Faults.thy ===== *)
theory Run_Faults
  imports Run_Theorems
begin

text \<open>
  The fast forward of the clock; the build with simple locks, where a lock is no more than the token; and
  the order of events when a thread ends.
\<close>

subsection \<open>Fast forward\<close>

text \<open>Adding ticks to a clock adds them as a signed number.\<close>

definition adds_ticks :: "'c clock_api \<Rightarrow> bool" where
  "adds_ticks K \<longleftrightarrow> (\<forall>n c c'. ca_add_ticks K n c = Inr c' \<longrightarrow> ca_read K c' = ca_read K c + scast n)"

lemma ucast_of_int32: "(ucast (word_of_int i :: u64) :: u32) = word_of_int i"
  by (rule bit_word_eqI) (simp add: bit_simps)

lemma scast_ucast_small:
  assumes "0 < sint (w :: u64)" "sint w < 2 ^ 31"
  shows "scast (ucast w :: u32) = w"
proof -
  have "(ucast w :: u32) = word_of_int (sint w)" using ucast_of_int32[of "sint w"] by simp
  moreover have "sint (word_of_int (sint w) :: u32) = sint w"
    by (rule sint32_of_int_small) (use assms in simp_all)
  ultimately have "sint (ucast w :: u32) = sint w" by metis
  then show ?thesis by (simp add: scast_eq)
qed


text \<open>A thread with clock 3 after one that gave the token back at 10.\<close>

definition word_clock :: "u64 clock_api" where
  "word_clock = \<lparr>
     ca_halt = Inr, ca_activate = Inr, ca_activate_other = \<lambda>u c. Inr (False, c), ca_on_wakeup = id,
     ca_reset = \<lambda>c. Inr 0, ca_read = id, ca_clear_single = id, ca_is_lowest = \<lambda>c. Inr (True, c),
     ca_is_lowest_wait = \<lambda>c. Inr (True, c), ca_add_ticks = \<lambda>n c. Inr (c + scast n),
     ca_single_active = \<lambda>_. False, ca_estimate_next_tx = \<lambda>m c. - 1, ca_last_tx_size = \<lambda>c. 0,
     ca_end_coarsened = Inr, ca_stop = \<lambda>m. Inr, ca_stop_no_notify = \<lambda>m. Inr, ca_start = Inr,
     ca_start_no_notify = Inr, ca_close = Inr\<rparr>"

definition word_env :: "run_config \<Rightarrow> (u64, unit) run_env" where
  "word_env R = \<lparr>re_config = R, re_clock = word_clock, re_conv = sample_conv, re_update = id,
     re_alloc_lock = \<lambda>d. (16, \<lparr>lk_acquired = False, lk_waiters = 0, lk_head = 0\<rparr>),
     re_alloc_cond = \<lambda>d. 32, re_alloc_barrier = \<lambda>d. (ds_barriers d 0, 48), re_alloc_status = \<lambda>_. 64,
     re_memory = \<lambda>_. None, re_commit_heap = \<lambda>_. [], re_commit_globals = \<lambda>_. [], re_commit_obs = \<lambda>_. []\<rparr>"

definition word_determ :: "u64 determ" where
  "word_determ = \<lparr>ds_links = \<lambda>_. \<lparr>e_prev = 0, e_next = 0\<rparr>,
     ds_threads = \<lambda>_. \<lparr>te_tid = 0, te_status = STATUS_READY, te_parent = 0, te_cond = NULL,
       te_joinee = 0, te_last_logical_clock = 0\<rparr>,
     ds_locks = \<lambda>_. \<lparr>lk_acquired = True, lk_waiters = 0, lk_head = 0\<rparr>,
     ds_conds = \<lambda>_. \<lparr>cv_waiters = 0, cv_cond = 0, cv_head = 0\<rparr>,
     ds_barriers = \<lambda>_. \<lparr>br_maxthreads = 0, br_threads = 0, br_arrival_phase = False, br_head = 0,
       br_counter = 0, br_heapVersion = 0, br_globalsVersion = 0, br_total_dirty = 0,
       br_committed = 0\<rparr>,
     ds_var = \<lambda>v. v + 16, ds_tokenpos = None, ds_activation_counter = 0, ds_last_token_value = 10,
     ds_last_putter = 0, ds_last_getter = 0, ds_clock = 3\<rparr>"

definition word_run :: "(u64, unit) xrun" where
  "word_run = \<lparr>xr_initialized = True, xr_thread_index = 0, xr_lock_count = 1, xr_token_holding = False,
     xr_coarsening_counter = 0, xr_coarsening_level = 20000, xr_consecutively_coarsened = 0,
     xr_monitor_next = False, xr_sleep_count = 0, xr_is_sleeping = False,
     xr_w = \<lparr>w_d = word_determ, w_mem = sample_mem, w_pool = sample_pool,
       w_status = \<lambda>_. \<lparr>ts_tid = 0, ts_threadIndex = 0, ts_retval = 0\<rparr>, w_master_finished = False,
       w_cloned = []\<rparr>,
     xr_script = replicate (Suc (Suc (Suc (Suc (Suc (Suc (Suc (Suc (Suc (Suc 0)))))))))) id, xr_commits = []\<rparr>"

lemmas word_defs = word_clock_def word_env_def word_determ_def word_run_def sample_mem_def sample_conv_def


subsection \<open>Simple locks\<close>

text \<open>
  In the build with simple locks a lock is held by holding the token. But a lock that is
  taken already does not stop a thread: with the token in hand, as after a wait of another thread on a condition
  variable inside two locks, \<open>__mutex_lock_inner\<close> prints a message and goes on as if it
  had got the lock.
\<close>

theorem simple_lock_not_exclusive:
  assumes "ds_var (xr_d x) mutex = p" and "p \<noteq> NULL" and "lk_acquired (ds_locks (xr_d x) p)"
    and "xr_token_holding x" and "\<And>n c. \<exists>c'. ca_add_ticks (re_clock E) n c = Inr c'"
  shows "\<exists>y. mutex_lock_inner_simple E mutex x = Inr y \<and> xr_lock_count y = xr_lock_count x + 1 \<and>
    ds_locks (xr_d y) = ds_locks (xr_d x)"
proof -
  let ?x = "x\<lparr>xr_lock_count := xr_lock_count x + 1\<rparr>"
  have "\<exists>y. round_robin_ticks E ?x = Inr y \<and> xr_lock_count y = xr_lock_count x + 1 \<and>
      ds_locks (xr_d y) = ds_locks (xr_d x) \<and> ds_var (xr_d y) = ds_var (xr_d x)"
  proof (cases "rc_round_robin (re_config E)")
    case True
    obtain c where "ca_add_ticks (re_clock E) (LOGICAL_CLOCK_ROUND_ROBIN_INFINITY (re_config E)) (xr_clock x) = Inr c"
      using assms(5) by blast
    then show ?thesis
      using True by (simp add: round_robin_ticks_def when_step_def add_ticks_def on_determ_def on_clock_def)
  qed (simp add: round_robin_ticks_def when_step_def)
  then obtain x1 where x1: "round_robin_ticks E ?x = Inr x1" "xr_lock_count x1 = xr_lock_count x + 1"
    "ds_locks (xr_d x1) = ds_locks (xr_d x)" "ds_var (xr_d x1) = ds_var (xr_d x)" by blast
  have "lock_acquire_run E mutex x1 = Inr (False, x1)"
    using assms(1-3) x1(3,4) by (simp add: lock_acquire_run_def lock_acquire_def when_step_def)
  with x1 assms(4) show ?thesis
    by (simp add: mutex_lock_inner_simple_def waitToken_def when_step_def upd_var_def)
qed

theorem simple_lock_not_exclusive_witness:
  "\<exists>y. mutex_lock_inner_simple (word_env config_DWC) 5 (word_run\<lparr>xr_token_holding := True\<rparr>) = Inr y \<and>
    xr_lock_count y = 2"
  using simple_lock_not_exclusive[of "word_run\<lparr>xr_token_holding := True\<rparr>" 5 21 "word_env config_DWC"]
  by (auto simp: word_run_def word_determ_def NULL_def word_env_def word_clock_def)

text \<open>Steps of a thread that does not have the token.\<close>

definition without_token :: "bool list \<Rightarrow> u64 \<Rightarrow> ('c, 'm) xrun \<Rightarrow> bool" where
  "without_token C k z \<longleftrightarrow> \<not> xr_token_holding z \<and> \<not> mine z \<and> xr_commits z = C \<and> xr_lock_count z = k"

lemma without_determ: "keeps_token f \<Longrightarrow> triple (without_token C k) (on_determ f) (without_token C k)"
  by (rule tripleI) (auto simp: on_determ_def bindR_Inr_iff keeps_token_def without_token_def mine_def)

lemma without_mem: "triple (without_token C k) (on_mem f) (without_token C k)"
  by (rule tripleI) (auto simp: on_mem_def without_token_def mine_def)

lemma without_commit: "triple (without_token C k) (commitAndUpdateMemory E) (without_token (C @ [False]) k)"
proof -
  have log: "triple (without_token C k) (upd_var (\<lambda>x. x\<lparr>xr_commits :=
      xr_commits x @ [isTokenHolder (xr_thread_index x) (xr_d x)]\<rparr>)) (without_token (C @ [False]) k)"
    by (rule tripleI) (auto simp: upd_var_def without_token_def mine_def isTokenHolder_def)
  show ?thesis unfolding commitAndUpdateMemory_def
    by (rule triple_Cons[OF log triple_Cons[OF without_mem triple_last[OF without_mem]]])
qed

lemma without_ticks: "triple (without_token C k) (round_robin_ticks E) (without_token C k)"
  unfolding round_robin_ticks_def add_ticks_def by (rule triple_when[OF without_determ[OF on_clock_keeps]])

lemma without_clock:
  "triple (without_token C k) (stopClock E i) (without_token C k)"
  "triple (without_token C k) (startClock E) (without_token C k)"
  by (auto simp: stopClock_def startClock_def intro!: tripleI
      dest: tripleD[OF without_determ[OF on_clock_keeps]])

lemma without_put: "triple (without_token C k) (putToken_run E) (without_token C k)"
proof (rule tripleI)
  fix x y assume x: "without_token C k x" and p: "putToken_run E x = Inr y"
  have e: "triple (without_token C k) (endTXCoarsening E) (without_token C k)"
  proof (rule tripleI)
    fix x y assume x: "without_token C k x" and e: "endTXCoarsening E x = Inr y"
    have "triple (without_token C k) (upd_var (\<lambda>x. x\<lparr>xr_coarsening_counter := 0, xr_consecutively_coarsened := 0\<rparr>))
        (without_token C k)"
      by (rule tripleI) (auto simp: upd_var_def without_token_def mine_def)
    from tripleD[OF triple_when[OF triple_Cons[OF triple_when[OF without_determ[OF on_clock_keeps]]
      triple_last[OF this]]] x e[unfolded endTXCoarsening_def]]
    show "without_token C k y" by simp
  qed
  have r: "triple (without_token C k) (release E True) (without_token C k)"
    by (rule tripleI) (simp add: release_def when_step_def without_token_def)
  from tripleD[OF triple_Cons[OF triple_when[OF e] triple_last[OF r]] x p[unfolded putToken_run_def]]
  show "without_token C k y" by simp
qed

text \<open>
  Still in the build with simple locks: \<open>cond_broadcast\<close> always gives the token back, also when the
  caller holds a lock. The rest of the critical section then runs without the token, and the unlock that
  ends it commits memory without it. (\<open>cond_signal\<close> gives back only a token that it has taken itself.)
\<close>

theorem simple_broadcast_loses_token:
  assumes "script_ok x" and "flag_exact x" and "cond_broadcast_run E c x = Inr y"
    and "xr_lock_count y = 1" and "mutex_unlock_simple E mutex y = Inr z"
  shows "\<not> isTokenHolder (xr_thread_index y) (xr_d y) \<and> xr_commits z = xr_commits y @ [False]"
proof -
  have "cb.level E (xr_thread_index x) False (length (filter Not (xr_commits x))) x"
    using assms(1,2) by (simp add: cb.obeys_def commits_bound_def flag_known)
  from tripleD[OF cb.cond_broadcast_ok this assms(3)]
  have n: "\<not> xr_token_holding y" "\<not> mine y" by (simp_all add: cb.obeys_def)
  let ?C = "xr_commits y"
  have dec: "triple (without_token ?C 1) (upd_var (\<lambda>x. x\<lparr>xr_lock_count := xr_lock_count x - 1\<rparr>)) (without_token ?C 0)"
    by (rule tripleI) (auto simp: upd_var_def without_token_def mine_def)
  have rel: "triple (without_token ?C 0) (\<lambda>x. on_determ (lock_release (re_clock E) mutex (xr_thread_index x)) x)
      (without_token ?C 0)"
    by (rule tripleI) (blast dest: tripleD[OF without_determ[OF lock_release_keeps]])
  have body: "triple (without_token ?C 0) (steps [commitAndUpdateMemory E, round_robin_ticks E, putToken_run E])
      (without_token (?C @ [False]) 0)"
    by (rule triple_Cons[OF without_commit triple_Cons[OF without_ticks triple_last[OF without_put]]])
  have last: "triple (without_token ?C 0) (\<lambda>x. when_step (xr_lock_count x = 0)
      (steps [commitAndUpdateMemory E, round_robin_ticks E, putToken_run E]) x) (without_token (?C @ [False]) 0)"
  proof (rule tripleI)
    fix a b assume a: "without_token ?C 0 a" and b: "when_step (xr_lock_count a = 0)
      (steps [commitAndUpdateMemory E, round_robin_ticks E, putToken_run E]) a = Inr b"
    then have "steps [commitAndUpdateMemory E, round_robin_ticks E, putToken_run E] a = Inr b"
      by (simp add: when_step_def without_token_def del: steps.simps)
    from tripleD[OF body a this] show "without_token (?C @ [False]) 0 b" .
  qed
  have "without_token ?C 1 y" using n assms(4) by (simp add: without_token_def)
  from tripleD[OF triple_Cons[OF without_clock(1) triple_Cons[OF dec triple_Cons[OF rel triple_Cons[OF last
    triple_last[OF without_clock(2)]]]]] this assms(5)[unfolded mutex_unlock_simple_def]]
  show ?thesis using n(2) by (simp add: without_token_def mine_def isTokenHolder_def)
qed

text \<open>A thread in its critical section, with the token and one lock.\<close>

theorem simple_broadcast_loses_token_witness:
  "\<exists>y z. cond_broadcast_run (word_env config_DWC) 7 (word_run\<lparr>xr_token_holding := True,
      xr_w := (xr_w word_run)\<lparr>w_d := word_determ\<lparr>ds_tokenpos := Some 0\<rparr>\<rparr>\<rparr>) = Inr y \<and>
    mutex_unlock_simple (word_env config_DWC) 5 y = Inr z \<and> xr_commits z = xr_commits y @ [False]"
proof -
  let ?x = "word_run\<lparr>xr_token_holding := True, xr_w := (xr_w word_run)\<lparr>w_d := word_determ\<lparr>ds_tokenpos := Some 0\<rparr>\<rparr>\<rparr>"
  obtain y z where y: "cond_broadcast_run (word_env config_DWC) 7 ?x = Inr y"
    "mutex_unlock_simple (word_env config_DWC) 5 y = Inr z" "xr_lock_count y = 1"
    by (simp add: word_defs call_defs cond_broadcast_run_def cond_broadcast_def resetTXCoarsening_def
        config_DWC_def mutex_unlock_simple_def)
  have "script_ok ?x" "flag_exact ?x"
    by (simp_all add: script_ok_def env_ok_def flag_exact_def isTokenHolder_def word_run_def)
  from simple_broadcast_loses_token[OF this y(1,3,2)] y show ?thesis by blast
qed

end
