(* ===== verification/Thread_Exit.thy ===== *)
theory Thread_Exit
  imports Run_Theorems
begin

text \<open>
  How a thread ends: what a thread that joins it can see, and whom it wakes.
\<close>

subsection \<open>The exit of a thread\<close>

text \<open>The other threads do not bring a thread that has exited back to life.\<close>

definition stays_exited :: "nat \<Rightarrow> (('c, 'm) world \<Rightarrow> ('c, 'm) world) \<Rightarrow> bool" where
  "stays_exited t f \<longleftrightarrow> (\<forall>w. status_of (w_d w) t = STATUS_EXIT \<longrightarrow> status_of (w_d (f w)) t = STATUS_EXIT)"

definition script_within :: "('c, 'm) xrun \<Rightarrow> ('c, 'm) xrun \<Rightarrow> bool" where
  "script_within x z \<longleftrightarrow> set (xr_script z) \<subseteq> set (xr_script x) \<and> xr_thread_index z = xr_thread_index x"

lemma get_token_loop_script:
  "get_token_loop E t fs l w = Inr (fs', w') \<Longrightarrow> set fs' \<subseteq> set fs"
proof (induction E t fs l w rule: get_token_loop.induct)
  case (2 E t f fs l w)
  then obtain l' d where s: "token_step (re_clock E) t (l, w_d (f w)) = Inr (l', d)"
    by (auto simp: bindR_Inr_iff)
  show ?case
  proof (cases "tk_pc l' = TkHold")
    case True
    with 2(2) s show ?thesis by (auto simp: Let_def)
  next
    case False
    with 2(2) s have "get_token_loop E t fs l' ((f w)\<lparr>w_d := d, w_mem := with_local_mem E (tk_pc l) (w_mem (f w))\<rparr>)
        = Inr (fs', w')" by (auto simp: Let_def)
    from 2(1)[OF refl False this] show ?thesis by auto
  qed
qed simp

lemma within_determ: "triple (script_within x) (on_determ f) (script_within x)"
  by (auto simp: triple_def on_determ_def bindR_Inr_iff script_within_def)

lemma within_others:
  "triple (script_within x) (on_mem g) (script_within x)" "triple (script_within x) (on_pool h) (script_within x)"
  by (auto simp: triple_def on_mem_def on_pool_def bindR_Inr_iff script_within_def)

lemma within_wait: "triple (script_within x) (waitToken E) (script_within x)"
  by (auto simp: triple_def waitToken_def when_step_def getToken_def bindR_Inr_iff add_ticks_def upd_var_def
      on_determ_def script_within_def dest!: get_token_loop_script split: if_splits)

lemma within_commit: "triple (script_within x) (commitAndUpdateMemory E) (script_within x)"
  by (auto simp: triple_def commitAndUpdateMemory_def upd_var_def on_mem_def script_within_def)

lemma within_stop: "triple (script_within x) (stopClock E i) (script_within x)"
  by (rule tripleI) (auto simp: stopClock_def dest: tripleD[OF within_determ])

lemma status_keep:
  "on_clock f d = Inr d' \<Longrightarrow> status_of d' t = status_of d t"
  "put_token K u ff d = Inr d' \<Longrightarrow> status_of d' t = status_of d t"
  by (auto simp: on_clock_def bindR_Inr_iff status_of_def put_token_def upd_thread_def Let_def
      split: option.splits if_splits)

lemma wait_parent_exited:
  assumes "wait_parent_loop p fs w = Inr (fs', w')" and "\<forall>f\<in>set fs. stays_exited t f"
    and "status_of (w_d w) t = STATUS_EXIT"
  shows "status_of (w_d w') t = STATUS_EXIT"
  using assms
proof (induction p fs w rule: wait_parent_loop.induct)
  case (1 p fs w)
  show ?case
  proof (cases "status_of (w_d w) p \<noteq> STATUS_OTHERS_NEED_TO_WAIT")
    case True
    with 1(2,4) show ?thesis by (auto simp: wait_parent_loop.simps)
  next
    case False
    with 1(2) obtain f fs1 where fs: "fs = f # fs1" "wait_parent_loop p fs1 (f w) = Inr (fs', w')"
      by (auto simp: wait_parent_loop.simps[of p fs] split: list.splits)
    show ?thesis by (rule 1(1)[OF False fs]) (use 1(3,4) fs(1) in \<open>auto simp: stays_exited_def\<close>)
  qed
qed

lemma deregister_begin_exit: "deregister_begin t s = (b, s') \<Longrightarrow> status_of s' t = STATUS_EXIT"
  by (auto simp: deregister_begin_def freeThreadEntry_def set_status_def upd_thread_def status_of_def Let_def
      split: if_splits)

lemma deregister_end_exit:
  "deregister_end K t s = Inr s' \<Longrightarrow> status_of s' u = status_of s u \<and> ds_tokenpos s' = None"
proof -
  assume "deregister_end K t s = Inr s'"
  then obtain s1 s2 where "on_clock (ca_halt K) s = Inr s1" "on_clock (ca_reset K) s1 = Inr s2"
    "put_token K t True s2 = Inr s'" by (auto simp: deregister_end_def bindR_Inr_iff putTokenLockHeld_def)
  then show "status_of s' u = status_of s u \<and> ds_tokenpos s' = None"
    using status_keep put_token_pos by metis
qed

lemma deregister_exit:
  assumes "deregisterThread E x = Inr y" and "\<forall>f\<in>set (xr_script x). stays_exited (xr_thread_index x) f"
  shows "status_of (xr_d y) (xr_thread_index x) = STATUS_EXIT \<and> ds_tokenpos (xr_d y) = None"
proof -
  let ?t = "xr_thread_index x" and ?p = "te_parent (ds_threads (xr_d x) (xr_thread_index x))"
  obtain wait d where b: "deregister_begin ?t (xr_d x) = (wait, d)" by fastforce
  obtain fs w where l: "(if wait then wait_parent_loop ?p (xr_script x) ((xr_w x)\<lparr>w_d := d\<rparr>)
      else Inr (xr_script x, (xr_w x)\<lparr>w_d := d\<rparr>)) = Inr (fs, w)"
    and e: "on_determ (deregister_end (re_clock E) ?t) (x\<lparr>xr_w := w, xr_script := fs\<rparr>) = Inr y"
    using assms(1) b by (auto simp: deregisterThread_def Let_def bindR_Inr_iff)
  have "status_of (w_d w) ?t = STATUS_EXIT"
    using l wait_parent_exited[OF _ assms(2)] deregister_begin_exit[OF b] by (auto split: if_splits)
  moreover from e obtain d' where "deregister_end (re_clock E) ?t (w_d w) = Inr d'" "xr_d y = d'"
    by (auto simp: on_determ_def bindR_Inr_iff)
  ultimately show ?thesis using deregister_end_exit by metis
qed

text \<open>
  C37. The result of a thread comes too late: \<open>run_thread\<close> stores it when the exit has been announced and the
  token has been given back. A thread that gets the token in between and joins does not wait, and
  reads the result before it is there.
\<close>

theorem result_after_exit:
  assumes "on_determ (on_clock (ca_start (re_clock E))) x = Inr x1" and "body arg x1 = Inr (res, x2)"
    and "threadDeregister E x2 = Inr x3"
    and "\<forall>f\<in>set (xr_script x2). stays_exited (xr_thread_index x2) f"
  shows "run_thread E body obj arg x = Inr (upd_status_obj obj (\<lambda>s. s\<lparr>ts_retval := res\<rparr>) x3) \<and>
    ds_tokenpos (xr_d x3) = None \<and>
    (\<forall>K j. join_begin K (xr_thread_index x2) j ((xr_d x3)\<lparr>ds_tokenpos := Some j\<rparr>) =
      Inr (False, (xr_d x3)\<lparr>ds_tokenpos := Some j\<rparr>))"
proof -
  from assms(3) obtain z where z: "steps [stopClock E 0, waitToken E, commitAndUpdateMemory E,
      \<lambda>x. on_pool (if w_master_finished (xr_w x) then \<lambda>p. Inr (set_exit_by_id (xr_thread_index x) p)
        else add_thread_to_pool_by_id (re_config E) (xr_thread_index x)) x,
      on_mem (xm_sleep (re_conv E))] x2 = Inr z" and d: "deregisterThread E z = Inr x3"
    unfolding threadDeregister_def by (auto simp: bindR_Inr_iff)
  have pool: "triple (script_within x2) (\<lambda>x. on_pool (if w_master_finished (xr_w x)
      then \<lambda>p. Inr (set_exit_by_id (xr_thread_index x) p)
      else add_thread_to_pool_by_id (re_config E) (xr_thread_index x)) x) (script_within x2)"
    by (rule tripleI) (blast dest: tripleD[OF within_others(2)])
  have "script_within x2 z"
    by (rule tripleD[OF triple_Cons[OF within_stop triple_Cons[OF within_wait triple_Cons[OF within_commit
        triple_Cons[OF pool triple_last[OF within_others(1)]]]]] _ z]) (simp add: script_within_def)
  then have "\<forall>f\<in>set (xr_script z). stays_exited (xr_thread_index z) f" "xr_thread_index z = xr_thread_index x2"
    using assms(4) by (auto simp: script_within_def)
  with deregister_exit[OF d] have e: "status_of (xr_d x3) (xr_thread_index x2) = STATUS_EXIT"
    "ds_tokenpos (xr_d x3) = None" by auto
  then show ?thesis using assms(1-3) by (simp add: run_thread_def join_begin_def status_of_def)
qed

definition sample_body :: "addr \<Rightarrow> (table, unit) xrun \<Rightarrow> (addr \<times> (table, unit) xrun) result" where
  "sample_body arg x = Inr (42, x)"

text \<open>The thread with index 1, whose parent is thread 0.\<close>

definition child_run :: "(table, unit) xrun" where
  "child_run = sample_run\<lparr>xr_thread_index := 1, xr_script := replicate (Suc (Suc (Suc (Suc (Suc (Suc (Suc (Suc (Suc
     (Suc 0)))))))))) id, xr_w := (xr_w sample_run)\<lparr>w_d := table_determ\<lparr>ds_clock := ([1], \<lambda>_. 0)\<rparr>\<rparr>\<rparr>"

definition child_env :: "(table, unit) run_env" where
  "child_env = (sample_env config_IC)\<lparr>re_clock := (table_clock 1)\<lparr>ca_single_active := \<lambda>_. False\<rparr>\<rparr>"

theorem result_after_exit_witness:
  "\<exists>x3. threadDeregister child_env child_run = Inr x3 \<and> ts_retval (w_status (xr_w x3) 64) = 0 \<and>
    run_thread child_env sample_body 64 0 child_run =
      Inr (upd_status_obj 64 (\<lambda>s. s\<lparr>ts_retval := 42\<rparr>) x3) \<and>
    (\<forall>K j. join_begin K 1 j ((xr_d x3)\<lparr>ds_tokenpos := Some j\<rparr>) = Inr (False, (xr_d x3)\<lparr>ds_tokenpos := Some j\<rparr>))"
proof -
  obtain x3 where x3: "threadDeregister child_env child_run = Inr x3" "ts_retval (w_status (xr_w x3) 64) = 0"
    by (simp add: child_env_def child_run_def sample_defs call_defs threadDeregister_def on_pool_def
        add_thread_to_pool_by_id_def deregisterThread_def deregister_begin_def deregister_end_def
        freeThreadEntry_def set_status_def status_of_def putTokenLockHeld_def xm_sleep_def sleep_seg_def)
  have s: "on_determ (on_clock (ca_start (re_clock child_env))) child_run = Inr child_run"
    by (simp add: on_determ_def on_clock_def child_env_def sample_env_def table_clock_def)
  have b: "sample_body 0 child_run = Inr (42, child_run)" by (simp add: sample_body_def)
  have k: "\<forall>f\<in>set (xr_script child_run). stays_exited (xr_thread_index child_run) f"
    by (simp add: child_run_def stays_exited_def)
  have t: "xr_thread_index child_run = 1" by (simp add: child_run_def)
  from result_after_exit[where body = sample_body and obj = 64, OF s b x3(1) k] x3 show ?thesis unfolding t by blast
qed

text \<open>
  An exiting thread announces its exit to its registered parent only: unless the parent
  itself is joining it, no broadcast is made, and a thread other than the parent that waits for it in
  \<open>join\<close> stays there. A thread taken from the pool keeps the parent that first created it, so this
  happens to every other thread that uses and joins it.
\<close>

theorem join_wakes_parent_only:
  assumes "deregister_begin t s = (wait, s')" and "j \<noteq> t" and "j \<noteq> te_parent (ds_threads s t)"
    and "status_of s j = STATUS_JOINING" and "te_joinee (ds_threads s j) = t"
  shows "ds_threads s' j = ds_threads s j \<and> status_of s' t = STATUS_EXIT \<and>
    (wait \<longleftrightarrow> te_parent (ds_threads s t) \<noteq> t \<and> status_of s (te_parent (ds_threads s t)) = STATUS_JOINING \<and>
      te_joinee (ds_threads s (te_parent (ds_threads s t))) = t)"
  using assms
  by (auto simp: deregister_begin_def freeThreadEntry_def set_status_def upd_thread_def status_of_def Let_def
      split: if_splits)

theorem join_wakes_parent_only_witness:
  "\<exists>s'. deregister_begin 1 (table_determ\<lparr>ds_threads := (ds_threads table_determ)
      (2 := (ds_threads table_determ 2)\<lparr>te_status := STATUS_JOINING, te_joinee := 1\<rparr>)\<rparr>) = (False, s') \<and>
    status_of s' 2 = STATUS_JOINING"
proof -
  let ?s = "table_determ\<lparr>ds_threads := (ds_threads table_determ)
      (2 := (ds_threads table_determ 2)\<lparr>te_status := STATUS_JOINING, te_joinee := 1\<rparr>)\<rparr>"
  obtain wait s' where b: "deregister_begin 1 ?s = (wait, s')" by fastforce
  have p: "te_parent (ds_threads ?s 1) = 0" "status_of ?s 0 = STATUS_READY" "status_of ?s 2 = STATUS_JOINING"
    "te_joinee (ds_threads ?s 2) = 1" by (simp_all add: table_determ_def status_of_def)
  from join_wakes_parent_only[OF b, of 2] p b show ?thesis by (auto simp: status_of_def)
qed

end
