(* ===== verification/Clock_Turns.thy ===== *)
theory Clock_Turns
  imports Clock_Reach
begin

text \<open>
  Whose turn it is. The turn belongs to the least active thread in the order of clocks and
  identifiers. A call changes the clock, and the place in the list of active threads, of the caller
  and of the thread it activates only; so the turn of another thread can be lost only when one of
  these two becomes active with a lower clock or has its clock moved back.
\<close>

subsection \<open>Turns as a linear order\<close>

datatype turn = Turn (turn_clock: u64) (turn_tid: int)

instantiation turn :: linorder
begin

definition less_eq_turn :: "turn \<Rightarrow> turn \<Rightarrow> bool" where
  "less_eq_turn a b \<longleftrightarrow> turn_clock a < turn_clock b \<or>
     (turn_clock a = turn_clock b \<and> turn_tid a \<le> turn_tid b)"

definition less_turn :: "turn \<Rightarrow> turn \<Rightarrow> bool" where
  "less_turn a b \<longleftrightarrow> turn_clock a < turn_clock b \<or>
     (turn_clock a = turn_clock b \<and> turn_tid a < turn_tid b)"

instance
  by standard (auto simp: less_eq_turn_def less_turn_def turn.expand)

end

definition turn_of :: "task_clock_group \<Rightarrow> int \<Rightarrow> turn" where
  "turn_of g i = Turn (get_clock_ticks g i) i"

lemma clock_is_lower_turn: "clock_is_lower g a b \<longleftrightarrow> turn_of g a < turn_of g b"
  by (simp add: clock_is_lower_def turn_of_def less_turn_def)

lemma turn_of_inj [simp]: "turn_of g a = turn_of g b \<longleftrightarrow> a = b"
  by (auto simp: turn_of_def)

lemma lowest_of_turn:
  "m \<noteq> -1 \<Longrightarrow> lowest_of g S m \<longleftrightarrow> m \<in> S \<and> (\<forall>y \<in> S. turn_of g m \<le> turn_of g y)"
  by (auto simp: lowest_of_def clock_is_lower_turn order.order_iff_strict)

subsection \<open>What a call can change\<close>

definition on_list :: "task_clock_group \<Rightarrow> int set" where
  "on_list g = {i. \<exists>xs. la_abs (tg_active_threads g) xs \<and> i \<in> set xs}"

lemma on_list_abs:
  assumes "la_abs (tg_active_threads g) xs" shows "on_list g = set xs"
  using la.elems_repr[OF assms] la.elems_repr by (fastforce simp: on_list_def intro: assms)

definition sched_key :: "task_clock_entry \<Rightarrow> u64 \<times> u64 \<times> bool \<times> bool" where
  "sched_key c = (ce_ticks c, ce_base_ticks c, ce_initialized c, ce_inactive c)"

lemma sched_key_simps [simp]:
  "sched_key (c\<lparr>ce_waiting := b\<rparr>) = sched_key c"
  "sched_key (c\<lparr>ce_sleeping := b\<rparr>) = sched_key c"
  "sched_key (c\<lparr>ce_event := e\<rparr>) = sched_key c"
  by (simp_all add: sched_key_def)

definition only :: "int set \<Rightarrow> task_clock_group \<Rightarrow> task_clock_group \<Rightarrow> bool" where
  "only U g g' \<longleftrightarrow> (\<forall>i. i \<notin> U \<longrightarrow> sched_key (tg_clocks g' i) = sched_key (tg_clocks g i) \<and>
     (i \<in> on_list g' \<longleftrightarrow> i \<in> on_list g))"

named_theorems only_intros \<open>operations of one thread\<close>

lemma only_refl [only_intros]: "only U g g" by (simp add: only_def)

lemma only_trans: "only U g h \<Longrightarrow> only U h k \<Longrightarrow> only U g k" by (auto simp: only_def)

lemma only_mono: "only U g h \<Longrightarrow> U \<subseteq> V \<Longrightarrow> only V g h" by (auto simp: only_def)

lemma only_same_list:
  assumes "tg_active_threads g' = tg_active_threads g"
    and "\<And>i. i \<notin> U \<Longrightarrow> sched_key (tg_clocks g' i) = sched_key (tg_clocks g i)"
  shows "only U g g'"
  using assms by (simp add: only_def on_list_def)

lemma onlyD:
  assumes "only U g g'" "i \<notin> U"
  shows "get_clock_ticks g' i = get_clock_ticks g i" "candidate g' i = candidate g i"
    "i \<in> on_list g' \<longleftrightarrow> i \<in> on_list g"
  using assms by (auto simp: only_def sched_key_def get_clock_ticks_def candidate_def)

lemma only_upd [only_intros]:
  "t \<in> U \<Longrightarrow> only U g (upd_clock t f g)"
  "only U g (upd_user u k g)"
  "only U g (upd_event v e g)"
  by (rule only_same_list; auto simp: upd_event_def)+

lemma only_flags [simp]:
  "only U g (g'\<lparr>tg_notification_needed := b\<rparr>) = only U g g'"
  "only U g (g'\<lparr>tg_nmi_new_low := b\<rparr>) = only U g g'"
  "only U g (g'\<lparr>tg_pending_work := b\<rparr>) = only U g g'"
  "only U g (g'\<lparr>tg_lowest_ticks := v\<rparr>) = only U g g'"
  "only U g (g'\<lparr>tg_lowest_tid := t\<rparr>) = only U g g'"
  "only U g (g'\<lparr>tg_user_status_mapped := b\<rparr>) = only U g g'"
  by (simp_all add: only_def on_list_def)

lemma only_if [only_intros]: "only U g h \<Longrightarrow> only U g k \<Longrightarrow> only U g (if b then h else k)"
  by simp

text \<open>Counting, on the thread's own entry.\<close>

lemma only_macros [only_intros]:
  "cur_tid ctx \<in> U \<Longrightarrow> only U g (tick_counter_turn_off ctx g)"
  "cur_tid ctx \<in> U \<Longrightarrow> only U g (tick_counter_turn_on ctx g)"
  "t \<in> U \<Longrightarrow> only U g (reset_chunk_ticks t g)"
  "t \<in> U \<Longrightarrow> only U g (inc_clock_ticks_no_chunk_add t v g)"
  "only U g (publish_ticks ctx g)"
  "t \<in> U \<Longrightarrow> only U g (set_sample_period t v g)"
  "t \<in> U \<Longrightarrow> only U g (logical_clock_set_perf_counter cfg t g)"
  "t \<in> U \<Longrightarrow> only U g (logical_clock_set_perf_counter_max cfg t g)"
  "t \<in> U \<Longrightarrow> only U g (logical_clock_reset_overflow_period cfg ctx t g)"
  "cur_tid ctx \<in> U \<Longrightarrow> t \<in> U \<Longrightarrow> only U g (inc_clock_ticks cfg ctx t v g)"
  "cur_tid ctx \<in> U \<Longrightarrow> only U g (end_bounded_memory_fence_early cfg ctx g)"
  "cur_tid ctx \<in> U \<Longrightarrow> only U g (clear_entry_state cfg ctx g)"
  "cur_tid ctx \<in> U \<Longrightarrow> only U g (set_current_thread_to_lowest cfg ctx g)"
  by (rule only_same_list; auto simp: clock_macros publish_ticks_def set_sample_period_def
      logical_clock_set_perf_counter_def logical_clock_set_perf_counter_max_def
      logical_clock_reset_overflow_period_def fence_defs force_sigusr1_def set_trap_flag_def Let_def)+

lemma only_update_clock_ticks:
  "cur_tid ctx \<in> U \<Longrightarrow> t \<in> U \<Longrightarrow> only U g (logical_clock_update_clock_ticks cfg ctx t g)"
  unfolding logical_clock_update_clock_ticks_def Let_def
  by (auto intro: only_intros only_trans)

lemma only_read_clock:
  assumes "logical_clock_read_clock_and_update cfg ctx t g = Inr g'" "cur_tid ctx \<in> U" "t \<in> U"
  shows "only U g g'"
proof (cases "instruction_counting cfg")
  case True
  have s: "only U g (upd_event t e (tick_counter_turn_off ctx (upd_event t e' g)))" for e e'
    by (rule only_trans[OF only_upd(3) only_trans[OF only_macros(1)[OF assms(2)] only_upd(3)]])
  have "only U g (upd_user u (\<lambda>x. x\<lparr>us_ticks := v\<rparr>) (inc_clock_ticks cfg ctx t d
      (upd_event t e (tick_counter_turn_off ctx (upd_event t e' g)))))" for u v d e e'
    by (rule only_trans[OF s only_trans[OF only_macros(10)[OF assms(2,3)] only_upd(2)]])
  with s assms(1) True show ?thesis
    by (auto simp: logical_clock_read_clock_and_update_def bindR_Inr_iff Let_def split: if_splits)
next
  case False
  with assms show ?thesis by (simp add: logical_clock_read_clock_and_update_def only_refl)
qed

lemma only_reset_ticks:
  "logical_clock_reset_current_ticks cfg ctx t g = Inr g' \<Longrightarrow> t \<in> U \<Longrightarrow> only U g g'"
  by (auto simp: logical_clock_reset_current_ticks_def bindR_Inr_iff intro: only_intros split: if_splits)

lemma only_update_period:
  "logical_clock_update_overflow_period cfg ctx t g = Inr g' \<Longrightarrow> t \<in> U \<Longrightarrow> only U g g'"
  by (auto simp: logical_clock_update_overflow_period_def bindR_Inr_iff Let_def intro: only_intros
      split: if_splits)

text \<open>Deciding and waking.\<close>

lemma only_wake:
  "wake_if_found (w, g) = Inr g' \<Longrightarrow> only U g g'"
  by (auto simp: wake_if_found_def wake_up_waiting_thread_def intro: only_intros split: if_splits)

lemma only_determine:
  assumes "determine_lowest_and_notify_or_wait cfg ctx g = Inr (w, g')" and c: "cur_tid ctx \<in> U"
  shows "only U g g'"
proof (cases "current_is_only_active_thread ctx (publish_ticks ctx g)")
  case True
  then have "g' = set_current_thread_to_lowest cfg ctx (upd_user (cur_tid ctx)
      (\<lambda>u. u\<lparr>us_single_active_thread := True\<rparr>) (publish_ticks ctx g))"
    using assms(1) by (simp add: determine_lowest_and_notify_or_wait_def Let_def)
  moreover have "only U g (upd_user (cur_tid ctx)
      (\<lambda>u. u\<lparr>us_single_active_thread := True\<rparr>) (publish_ticks ctx g))"
    by (rule only_trans[OF only_macros(5) only_upd(2)])
  ultimately show ?thesis using only_trans[OF _ only_macros(13)[OF c]] by blast
next
  case False
  have k2: "only U g (upd_clock t f (publish_ticks ctx g))" if "t \<in> U" for t f
    by (rule only_trans[OF only_macros(5) only_upd(1)[OF that]])
  have k4: "only U g (set_current_thread_to_lowest cfg ctx h)" "only U g (upd_user u f h)"
    if "only U g h" for h u f
    by (rule only_trans[OF that only_macros(13)[OF c]], rule only_trans[OF that only_upd(2)])
  show ?thesis
    using assms False
    by (auto simp: determine_lowest_and_notify_or_wait_def bindR_Inr_iff Let_def
        intro!: k4 k2 split: if_splits)
qed

lemma only_decide_and_wake:
  assumes "decide_and_wake cfg ctx g = Inr g'" "cur_tid ctx \<in> U"
  shows "only U g g'"
proof -
  obtain w h where "determine_lowest_and_notify_or_wait cfg ctx g = Inr (w, h)"
    "wake_if_found (w, h) = Inr g'"
    using assms(1) by (auto simp: decide_and_wake_def bindR_Inr_iff)
  then show ?thesis using only_trans[OF only_determine only_wake] assms(2) by blast
qed

lemma only_mark_as_active:
  assumes "group_ok g" "mark_as_active t g = Inr g'" "t \<in> U"
  shows "only U g g'"
proof -
  obtain xs where xs: "la_abs (tg_active_threads g) xs" using assms(1) by (auto simp: group_ok_def)
  obtain la where la: "listarray_insert (tg_active_threads g) t = Inr la"
    "g' = (upd_clock t (\<lambda>c. c\<lparr>ce_inactive := False\<rparr>) g)\<lparr>tg_active_threads := la\<rparr>"
    using assms(2) by (auto simp: mark_as_active_def bindR_Inr_iff)
  have "la_abs (tg_active_threads g') (xs @ [t])" using la.ins_InrD[OF xs la(1)] la(2) by simp
  from on_list_abs[OF this] on_list_abs[OF xs] la(2) assms(3) show ?thesis
    by (auto simp: only_def)
qed

lemma only_mark_as_inactive:
  assumes "group_ok g" "mark_as_inactive t g = Inr g'" "t \<in> U"
  shows "only U g g'"
proof -
  obtain xs where xs: "la_abs (tg_active_threads g) xs" using assms(1) by (auto simp: group_ok_def)
  obtain la where la: "listarray_remove (tg_active_threads g) t = Inr la"
    "g' = (upd_clock t (\<lambda>c. c\<lparr>ce_inactive := True\<rparr>) g)\<lparr>tg_active_threads := la\<rparr>"
    using assms(2) by (auto simp: mark_as_inactive_def bindR_Inr_iff)
  have "la_abs (tg_active_threads g') (remove1 t xs)" using la.rem_InrD[OF xs la(1)] la(2) by simp
  from on_list_abs[OF this] on_list_abs[OF xs] la(2) assms(3) la.repr_ok[OF xs] show ?thesis
    by (auto simp: only_def)
qed

subsection \<open>Every handler\<close>

text \<open>The threads a call acts on: the caller, and the one it activates.\<close>

fun actors :: "kctx \<Rightarrow> kcall \<Rightarrow> int set" where
  "actors ctx (KActivateOther t) = {cur_tid ctx, t}"
| "actors ctx c = {cur_tid ctx}"

lemma actors_cur [simp]: "cur_tid ctx \<in> actors ctx c" by (cases c) auto

lemma only_on_disable:
  assumes "task_clock_on_disable cfg ctx g = Inr g'" and c: "cur_tid ctx \<in> U"
  shows "only U g g'"
proof -
  let ?g1 = "if single_stepping_on cfg g (cur_tid ctx)
    then end_bounded_memory_fence_early cfg ctx g else g"
  obtain h where h: "(if tick_counter_is_running ctx ?g1
      then Inr (tick_counter_turn_off ctx
             (logical_clock_update_clock_ticks cfg ctx (cur_tid ctx) ?g1))
      else logical_clock_reset_current_ticks cfg ctx (cur_tid ctx) ?g1) = Inr h"
    "decide_and_wake cfg ctx (h\<lparr>tg_notification_needed := True\<rparr>) = Inr g'"
    using assms(1) by (auto simp: task_clock_on_disable_def bindR_Inr_iff Let_def)
  have 1: "only U g ?g1" using c by (intro only_intros)
  have "only U ?g1 h"
    using h(1) only_reset_ticks[of cfg ctx "cur_tid ctx" ?g1 h U] c
      only_trans[OF only_update_clock_ticks[OF c c] only_macros(1)[OF c]]
    by (cases "tick_counter_is_running ctx ?g1") auto
  then have "only U g (h\<lparr>tg_notification_needed := True\<rparr>)" using only_trans[OF 1] by simp
  then show ?thesis using only_trans[OF _ only_decide_and_wake[OF h(2) c]] by blast
qed

lemma only_entry_stop:
  assumes "task_clock_entry_stop cfg ctx g = Inr g'" and c: "cur_tid ctx \<in> U"
  shows "only U g g'"
proof -
  let ?g1 = "if single_stepping_on cfg g (cur_tid ctx)
    then end_bounded_memory_fence_early cfg ctx g else g"
  obtain h where h: "logical_clock_read_clock_and_update cfg ctx (cur_tid ctx) ?g1 = Inr h"
    "decide_and_wake cfg ctx h = Inr g'"
    using assms(1) by (auto simp: task_clock_entry_stop_def bindR_Inr_iff Let_def)
  have "only U g ?g1" using c by (intro only_intros)
  from only_trans[OF only_trans[OF this only_read_clock[OF h(1) c c]] only_decide_and_wake[OF h(2) c]]
  show ?thesis .
qed

lemma only_on_enable:
  assumes "task_clock_on_enable cfg ctx g = Inr g'" and c: "cur_tid ctx \<in> U"
  shows "only U g g'"
proof -
  let ?t = "cur_tid ctx"
  let ?g2 = "logical_clock_reset_overflow_period cfg ctx ?t
    (tick_counter_turn_on ctx (reset_chunk_ticks ?t g))"
  have 2: "only U g ?g2" by (meson c only_trans only_macros)
  obtain g3 where g3: "logical_clock_update_overflow_period cfg ctx ?t ?g2 = Inr g3"
    and r3: "(let g4 = (if ce_userspace_reading (tg_clocks g3 ?t)
                then logical_clock_set_perf_counter cfg ?t
                       (upd_clock ?t (\<lambda>c. c\<lparr>ce_userspace_reading := False\<rparr>) g3)
                else g3) in
      bindR (determine_lowest_and_notify_or_wait cfg ctx g4) (\<lambda>(lowest_tid, g5).
      let g6 = (if tg_lowest_tid g5 = ?t
                then g5\<lparr>tg_notification_needed := True, tg_nmi_new_low := False\<rparr> else g5) in
      wake_if_found (lowest_tid, clear_entry_state cfg ctx g6))) = Inr g'"
    using assms(1) unfolding task_clock_on_enable_def Let_def bindR_Inr_iff by blast
  define g4 where "g4 = (if ce_userspace_reading (tg_clocks g3 ?t)
                then logical_clock_set_perf_counter cfg ?t
                       (upd_clock ?t (\<lambda>c. c\<lparr>ce_userspace_reading := False\<rparr>) g3)
                else g3)"
  have 3: "only U g g3" using only_trans[OF 2 only_update_period[OF g3 c]] .
  have "only U g3 g4" unfolding g4_def
    by (rule only_if[OF only_trans[OF only_upd(1)[OF c] only_macros(7)[OF c]] only_refl])
  then have 4: "only U g g4" using only_trans[OF 3] by blast
  obtain w g5 where g5: "determine_lowest_and_notify_or_wait cfg ctx g4 = Inr (w, g5)"
    and r5: "wake_if_found (w, clear_entry_state cfg ctx (if tg_lowest_tid g5 = ?t
        then g5\<lparr>tg_notification_needed := True, tg_nmi_new_low := False\<rparr> else g5)) = Inr g'"
    using r3 unfolding Let_def g4_def[symmetric] bindR_Inr_iff by auto
  have 5: "only U g g5" using only_trans[OF 4 only_determine[OF g5 c]] .
  show ?thesis
    by (rule only_trans[OF _ only_wake[OF r5]], rule only_trans[OF _ only_macros(12)[OF c]])
       (simp add: 5)
qed

lemma only_entry_sleep:
  assumes "task_clock_entry_sleep cfg ctx g = Inr g'" and c: "cur_tid ctx \<in> U"
  shows "only U g g'"
proof -
  obtain w h where h: "determine_lowest_and_notify_or_wait cfg ctx g = Inr (w, h)"
    "wake_if_found (w, if ce_waiting (tg_clocks h (cur_tid ctx))
        then upd_clock (cur_tid ctx) (\<lambda>c. c\<lparr>ce_sleeping := True\<rparr>) h else h) = Inr g'"
    using assms(1) by (auto simp: task_clock_entry_sleep_def bindR_Inr_iff)
  show ?thesis
    by (rule only_trans[OF only_determine[OF h(1) c] only_trans[OF _ only_wake[OF h(2)]]])
       (use c in \<open>intro only_intros\<close>)
qed

lemma only_notify:
  assumes "task_clock_notify_waiting_threads ctx g = Inr g'"
  shows "only U g g'"
proof -
  obtain w h where h: "notify_waiting_threads_locked ctx g = Inr (w, h)"
    "wake_if_found (w, h) = Inr g'"
    using assms by (auto simp: task_clock_notify_waiting_threads_def bindR_Inr_iff)
  have "only U g h"
    using h(1) by (auto simp: notify_waiting_threads_locked_def bindR_Inr_iff set_new_low_def Let_def
        only_refl split: if_splits)
  then show ?thesis using only_trans[OF _ only_wake[OF h(2)]] by blast
qed

lemma only_start:
  assumes "task_clock_entry_start cfg ctx g = Inr g'" and c: "cur_tid ctx \<in> U"
  shows "only U g g'"
proof -
  obtain h where h: "logical_clock_reset_current_ticks cfg ctx (cur_tid ctx)
      (upd_user (cur_tid ctx) (\<lambda>u. u\<lparr>us_notifying_id := 0\<rparr>) g) = Inr h"
    "task_clock_on_enable cfg ctx h = Inr g'"
    using assms(1) by (auto simp: task_clock_entry_start_def bindR_Inr_iff)
  show ?thesis
    by (rule only_trans[OF only_trans[OF only_upd(2) only_reset_ticks[OF h(1) c]] only_on_enable[OF h(2) c]])
qed

lemma only_start_no_notify:
  assumes "task_clock_entry_start_no_notify cfg ctx g = Inr g'" and c: "cur_tid ctx \<in> U"
  shows "only U g g'"
proof -
  obtain h where h: "logical_clock_reset_current_ticks cfg ctx (cur_tid ctx)
      (upd_clock (cur_tid ctx) (\<lambda>c. c\<lparr>ce_userspace_reading := True\<rparr>) g) = Inr h"
    "g' = upd_user (cur_tid ctx) (\<lambda>u. u\<lparr>us_notifying_id := 666\<rparr>) (tick_counter_turn_off ctx
              (logical_clock_set_perf_counter_max cfg (cur_tid ctx) h))"
    using assms(1) by (auto simp: task_clock_entry_start_no_notify_def bindR_Inr_iff)
  have "only U g h" by (rule only_trans[OF only_upd(1)[OF c] only_reset_ticks[OF h(1) c]])
  moreover have "only U h (tick_counter_turn_off ctx
      (logical_clock_set_perf_counter_max cfg (cur_tid ctx) h))"
    by (rule only_trans[OF only_macros(8)[OF c] only_macros(1)[OF c]])
  ultimately show ?thesis unfolding h(2) using only_trans only_upd(2) by blast
qed

lemma only_halt:
  assumes ok: "group_ok g" and "task_clock_entry_halt cfg ctx g = Inr g'" and c: "cur_tid ctx \<in> U"
  shows "only U g g'"
proof -
  obtain h w k where h: "mark_as_inactive (cur_tid ctx) g = Inr h"
    "determine_lowest_and_notify_or_wait cfg ctx h = Inr (w, k)"
    "wake_if_found (w, upd_clock (cur_tid ctx) (\<lambda>c. c\<lparr>ce_waiting := False\<rparr>) k) = Inr g'"
    using assms(2) by (auto simp: task_clock_entry_halt_def bindR_Inr_iff)
  show ?thesis
    by (rule only_trans[OF only_mark_as_inactive[OF ok h(1) c] only_trans[OF only_determine[OF h(2) c]
          only_trans[OF only_upd(1)[OF c] only_wake[OF h(3)]]]])
qed

lemma only_activate:
  assumes ok: "group_ok g" and "task_clock_entry_activate cfg ctx g = Inr g'" and c: "cur_tid ctx \<in> U"
  shows "only U g g'"
proof -
  let ?t = "cur_tid ctx" and ?g1 = "reset_chunk_ticks (cur_tid ctx) (clear_entry_state cfg ctx g)"
  obtain g2 g4 where g2: "mark_as_active ?t ?g1 = Inr g2"
    and g4: "logical_clock_update_overflow_period cfg ctx ?t
      (logical_clock_reset_overflow_period cfg ctx ?t g2) = Inr g4"
    and fin: "\<exists>f1 f2 f3. g' = upd_clock ?t (\<lambda>c. c\<lparr>ce_userspace_reading := False\<rparr>)
        (upd_user ?t f1 g4) \<or>
      (g' = upd_user ?t f2 ((upd_clock ?t (\<lambda>c. c\<lparr>ce_userspace_reading := False\<rparr>)
        (upd_user ?t f3 g4))\<lparr>tg_notification_needed := False, tg_lowest_tid := ?t\<rparr>))"
    using assms(2)
    by (simp add: task_clock_entry_activate_def bindR_Inr_iff Let_def split: if_splits) blast+
  have "group_ok ?g1"
    by (rule keeps_ok[OF keeps_trans[OF keeps_clear_entry_state same_sched_keeps[OF same_sched_macros(3)]] ok])
  from only_trans[OF only_trans[OF only_macros(12)[OF c] only_macros(3)[OF c]] only_mark_as_active[OF this g2 c]]
  have 2: "only U g g2" .
  have 4: "only U g g4"
    using only_trans[OF 2 only_trans[OF only_macros(9)[OF c] only_update_period[OF g4 c]]] .
  have u: "only U g (upd_clock ?t f (upd_user ?t f' g4))" for f f'
    using only_trans[OF only_trans[OF 4 only_upd(2)] only_upd(1)[OF c]] .
  then have "only U g (upd_user ?t k ((upd_clock ?t f (upd_user ?t f' g4))
      \<lparr>tg_notification_needed := False, tg_lowest_tid := ?t\<rparr>))" for k f f'
    using only_trans[OF _ only_upd(2)] by simp
  with fin u show ?thesis by metis
qed

lemma only_activate_other:
  assumes ok: "group_ok g" and "task_clock_entry_activate_other ctx t g = Inr g'" and t: "t \<in> U"
  shows "only U g g'"
proof -
  let ?g1 = "if \<not> ce_initialized (tg_clocks g t)
      then upd_clock t (\<lambda>c. c\<lparr>ce_base_ticks := get_clock_ticks g (cur_tid ctx) + 1, ce_ticks := 0\<rparr>) g
      else g"
  let ?h = "clear_entry_state_by_id ctx t (upd_clock t (\<lambda>c. c\<lparr>ce_initialized := True\<rparr>) ?g1)"
  obtain k where k: "mark_as_active t ?h = Inr k"
    "g' = (let g5 = reset_chunk_ticks t k in
       if tg_lowest_tid g5 < 0 \<or> clock_is_lower g5 t (tg_lowest_tid g5)
       then upd_user (cur_tid ctx) (\<lambda>u. u\<lparr>us_activated_lowest := True\<rparr>) g5 else g5)"
    using assms(2)
    by (auto simp: task_clock_entry_activate_other_def bindR_Inr_iff Let_def split: if_splits)
  have "group_ok ?h" by (rule keeps_ok[OF _ ok]) (auto simp: keeps_def clock_macros)
  moreover have "only U g ?h"
    using t by (intro only_same_list) (auto simp: clock_macros)
  ultimately have "only U g k" using only_trans only_mark_as_active[OF _ k(1) t] by blast
  then have "only U g (reset_chunk_ticks t k)" using only_trans only_macros(3)[OF t] by blast
  then show ?thesis
    unfolding k(2) Let_def using only_trans[OF _ only_upd(2)] by (intro only_if) blast+
qed

lemma only_handle:
  assumes ok: "group_ok g" and h: "handle cfg ctx c g = Inr g'"
  shows "only (actors ctx c) g g'"
proof -
  have overflow: "only U g g'" if "task_clock_overflow_handler cfg ctx (g, tf) = Inr (g', tf')" for U tf tf'
    using that by (auto simp: task_clock_overflow_handler_def bindR_Inr_iff Let_def only_refl split: if_splits)
  have period: "only {cur_tid ctx} g g'" if "task_clock_entry_overflow_update_period cfg ctx g = Inr g'"
    using that only_trans[OF only_update_clock_ticks only_update_period]
    by (auto simp: task_clock_entry_overflow_update_period_def only_refl split: if_splits)
  have step: "only {cur_tid ctx} g (fst (snd (on_single_step cfg ctx (g, tf))))" for tf
    by (rule only_same_list) (auto simp: on_single_step_def clock_macros Let_def)
  have init: "only {cur_tid ctx} g g'" if "task_clock_entry_init cfg ctx pte e g = Inr g'" for pte :: "unit option" and e
    using that by (intro only_same_list)
      (auto simp: task_clock_entry_init_def clock_macros Let_def split: if_splits option.splits)
  have add: "only {cur_tid ctx} g g'" if "task_clock_add_ticks cfg ctx n g = Inr g'" for n
    using that only_trans[OF only_trans[OF only_macros(4) only_macros(5)] only_decide_and_wake]
    by (auto simp: task_clock_add_ticks_def)
  show ?thesis
  proof (cases c)
    case (KActivateOther t)
    then show ?thesis using only_activate_other[OF ok] h by simp
  next
    case KReset
    then show ?thesis using h by (auto simp: task_clock_entry_reset_def intro: only_intros)
  next
    case KWokeUp
    then show ?thesis using h by (auto simp: task_clock_entry_woke_up_def intro: only_intros)
  qed (use h overflow period step init add only_on_disable only_entry_stop only_on_enable only_entry_sleep
      only_notify only_start only_start_no_notify only_halt[OF ok] only_activate[OF ok]
      only_decide_and_wake only_read_clock in
      \<open>auto simp: bindR_Inr_iff task_clock_entry_wait_def task_clock_entry_stop_no_notify_def
         task_clock_entry_is_singlestep_def task_clock_notify_waiting_threads_irq_def\<close>)
qed

subsection \<open>The turn\<close>

definition active_turns :: "task_clock_group \<Rightarrow> int set" where
  "active_turns g = {i \<in> on_list g. candidate g i}"

definition has_turn :: "task_clock_group \<Rightarrow> int \<Rightarrow> bool" where
  "has_turn g t \<longleftrightarrow> t \<in> active_turns g \<and> (\<forall>i \<in> active_turns g. turn_of g t \<le> turn_of g i)"

text \<open>\<open>overtakes g g' u t\<close>: in the step from \<open>g\<close> to \<open>g'\<close>, \<open>u\<close> comes before \<open>t\<close> by becoming active or by a
  clock that moves back.\<close>

definition overtakes :: "task_clock_group \<Rightarrow> task_clock_group \<Rightarrow> int \<Rightarrow> int \<Rightarrow> bool" where
  "overtakes g g' u t \<longleftrightarrow> u \<in> active_turns g' \<and> turn_of g' u < turn_of g' t \<and>
     (u \<notin> active_turns g \<or> get_clock_ticks g' u < get_clock_ticks g u)"

lemma has_turn_step:
  assumes ok: "group_ok g" and t: "has_turn g t" and h: "handle cfg ctx c g = Inr g'"
    and other: "t \<notin> actors ctx c"
  shows "has_turn g' t \<or> (\<exists>u \<in> actors ctx c. overtakes g g' u t)"
proof (rule disjCI)
  assume none: "\<not> (\<exists>u \<in> actors ctx c. overtakes g g' u t)"
  note same = onlyD[OF only_handle[OF ok h]]
  have act: "i \<in> active_turns g' \<longleftrightarrow> i \<in> active_turns g" "turn_of g' i = turn_of g i"
    if "i \<notin> actors ctx c" for i
    using same[OF that] by (simp_all add: active_turns_def turn_of_def)
  have "turn_of g' t \<le> turn_of g' i" if i: "i \<in> active_turns g'" for i
  proof (cases "i \<in> actors ctx c")
    case True
    with none i have "turn_of g' t \<le> turn_of g' i \<or>
        i \<in> active_turns g \<and> get_clock_ticks g i \<le> get_clock_ticks g' i"
      by (auto simp: overtakes_def not_less)
    moreover have "turn_of g t \<le> turn_of g i" if "i \<in> active_turns g"
      using t that by (simp add: has_turn_def)
    ultimately show ?thesis
      using act(2)[OF other] by (auto simp: turn_of_def less_eq_turn_def)
  next
    case False
    with i t act other show ?thesis by (simp add: has_turn_def)
  qed
  with t act[OF other] show "has_turn g' t" by (simp add: has_turn_def)
qed

lemma has_turn_search:
  assumes ok: "group_ok g" and nmi: "\<not> in_nmi d"
  shows "has_turn g t \<longleftrightarrow> search_for_lowest d g = Inr t \<and> t \<noteq> -1"
proof -
  obtain xs where xs: "la_abs (tg_active_threads g) xs" using ok by (auto simp: group_ok_def)
  have "search_for_lowest d g = Inr t \<longleftrightarrow> lowest_of g {i \<in> set xs. candidate g i} t"
    using search_for_lowest_list[OF xs nmi] lowest_of_unique by (metis Inr_inject)
  moreover have "t \<noteq> -1" if "t \<in> set xs" using that la_abs_nonneg[OF xs] by auto
  ultimately show ?thesis
    using lowest_of_turn[of t g "{i \<in> set xs. candidate g i}"]
    by (auto simp: has_turn_def active_turns_def on_list_abs[OF xs])
qed

fun handle_all :: "kconfig \<Rightarrow> (kctx \<times> kcall) list \<Rightarrow> task_clock_group \<Rightarrow> task_clock_group result" where
  "handle_all cfg [] g = Inr g"
| "handle_all cfg ((ctx, c) # cs) g = bindR (handle cfg ctx c g) (handle_all cfg cs)"

text \<open>\<open>overtaken cfg cs g t\<close>: at some call of the run one of its actors overtakes \<open>t\<close>.\<close>

fun overtaken :: "kconfig \<Rightarrow> (kctx \<times> kcall) list \<Rightarrow> task_clock_group \<Rightarrow> int \<Rightarrow> bool" where
  "overtaken cfg [] g t = False"
| "overtaken cfg ((ctx, c) # cs) g t =
     (case handle cfg ctx c g of Inl e \<Rightarrow> False
      | Inr h \<Rightarrow> (\<exists>u \<in> actors ctx c. overtakes g h u t) \<or> overtaken cfg cs h t)"

lemma has_turn_run:
  assumes "group_ok g" "has_turn g t" "handle_all cfg cs g = Inr g'"
    and "\<forall>(ctx, c) \<in> set cs. t \<notin> actors ctx c"
  shows "group_ok g' \<and> (has_turn g' t \<or> overtaken cfg cs g t)"
  using assms
proof (induction cs arbitrary: g)
  case Nil
  then show ?case by simp
next
  case (Cons p cs)
  obtain ctx c where p: "p = (ctx, c)" by force
  from Cons.prems(3) p obtain h where h: "handle cfg ctx c g = Inr h" "handle_all cfg cs h = Inr g'"
    by (auto simp: bindR_Inr_iff)
  have ok: "group_ok h" using handle_group_ok[OF Cons.prems(1) h(1)] .
  have t: "t \<notin> actors ctx c" using Cons.prems(4) p by auto
  show ?case
  proof (cases "has_turn h t")
    case True
    with Cons.IH[OF ok True h(2)] Cons.prems(4) h(1) p show ?thesis by auto
  next
    case False
    with has_turn_step[OF Cons.prems(1,2) h(1) t] have "overtaken cfg (p # cs) g t" using h(1) p by simp
    moreover have "group_ok g'" using h(2) ok
      by (induction cs arbitrary: h) (auto simp: bindR_Inr_iff handle_group_ok)
    ultimately show ?thesis by simp
  qed
qed

text \<open>
  C5. The turn is stable, which is what makes the order of the threads independent of their speed. A
  thread that the search elects stays elected through any calls of other threads, in any
  order, until a call activates a thread with a lower clock or moves a clock backwards.
\<close>

theorem turn_is_stable:
  assumes "reachable cfg g" and "\<not> in_nmi d"
    and "search_for_lowest d g = Inr t" and "t \<noteq> -1"
    and "handle_all cfg cs g = Inr g'" and "\<forall>(ctx, c) \<in> set cs. t \<notin> actors ctx c"
  shows "search_for_lowest d g' = Inr t \<or> overtaken cfg cs g t"
proof -
  have "group_ok g"
    using assms(1) by (induction rule: reachable.induct) (auto intro: group_ok_init handle_group_ok)
  then show ?thesis
    using has_turn_run[OF _ _ assms(5,6)] has_turn_search[OF _ assms(2)] assms(3,4) by blast
qed

text \<open>Threads 1 and 2 are activated in turn by thread 0, which is not active itself; 1 keeps its turn.\<close>

theorem turn_is_stable_witness:
  "\<exists>g g'. handle plain_cfg (sample_ctx 0 False) (KActivateOther 1) (task_clock_group_init 4 wait_group) = Inr g \<and>
    handle_all plain_cfg [(sample_ctx 0 False, KActivateOther 2)] g = Inr g' \<and>
    search_for_lowest (sample_ctx 0 False) g' = Inr 1"
proof -
  let ?g0 = "task_clock_group_init 4 wait_group" and ?d = "sample_ctx 0 False"
  have idx: "la_index_ok 1" "la_index_ok 2" by (simp_all add: la_index_ok_def la_consts)
  have "la_abs (tg_active_threads ?g0) []"
    using la_abs_init by (simp add: task_clock_group_init_def init_task_clock_entries_def Let_def)
  then obtain la where la: "listarray_insert (tg_active_threads ?g0) 1 = Inr la" "la_abs la [1]"
    using la.ins_new[of _ "[]" 1] idx by auto
  then obtain la' where la': "listarray_insert la 2 = Inr la'" "la_abs la' [1, 2]"
    using la.ins_new[of la "[1]" 2] idx by auto
  note sg = task_clock_entry_activate_other_def mark_as_active_def clock_macros task_clock_entry_woke_up_def Let_def
  obtain g where g: "handle plain_cfg ?d (KActivateOther 1) ?g0 = Inr g"
    and k: "tg_active_threads g = la" "get_clock_ticks g 1 = 1" "candidate g 1" "get_clock_ticks g 0 = 0"
      "\<not> ce_initialized (tg_clocks g 2)"
    using la by (auto simp: sg sample_defs task_clock_group_init_def init_task_clock_entries_def
        get_clock_ticks_def candidate_def wait_group_def)
  have "\<exists>g'. task_clock_entry_activate_other ?d 2 g = Inr g' \<and> tg_active_threads g' = la' \<and>
      (\<forall>i. get_clock_ticks g' i = (if i = 2 then 1 else get_clock_ticks g i))"
    using la'(1) k by (simp add: sg sample_defs get_clock_ticks_def)
  then obtain g' where g': "handle_all plain_cfg [(?d, KActivateOther 2)] g = Inr g'"
    and c: "tg_active_threads g' = la'" "get_clock_ticks g' 2 = 1" "get_clock_ticks g' 1 = 1"
    using k(2) by auto
  have r: "\<not> overtaken plain_cfg [(?d, KActivateOther 2)] g 1"
    using g' c on_list_abs[of g' "[1, 2]"] la'(2)
    by (auto simp: overtakes_def active_turns_def turn_of_def less_turn_def sample_defs bindR_Inr_iff)
  have "search_for_lowest ?d g = Inr 1"
    using search_for_lowest_list[of g "[1]" ?d] la(2) k
    by (auto simp: lowest_of_def sample_defs)
  from turn_is_stable[OF reach_call[OF reach_init g] _ this _ g'] r g g' show ?thesis
    by (auto simp: sample_defs)
qed

end
