(* ===== verification/Clock_Faults.thy ===== *)
theory Clock_Faults
  imports Clock_Reach
begin

text \<open>
  Three places where the module and its environment come apart: the wake-up after the critical
  section, the single page that is mapped for the user statuses, and the hooks that unloading
  the module leaves behind.
\<close>

subsection \<open>The wake-up runs outside the critical section\<close>

text \<open>
  Threads 0, 1 and 2 are active, thread 1 waits with the lowest clock, and thread 3 is a pooled
  thread that was initialised earlier, with an older clock, and is not active.
\<close>

definition race_group :: task_clock_group where
  "race_group = upd_clock 3 (\<lambda>c. c\<lparr>ce_initialized := True, ce_ticks := 1\<rparr>) wait_group"

lemma race_group_wf: "t \<in> {0, 1, 2} \<Longrightarrow> wf_call (sample_ctx t False) race_group [0, 1, 2]"
  by (auto simp: wf_call_def race_group_def wait_group_def sample_defs THREAD_ARR_SIZE_def
      la_index_ok_def la_consts)

lemma race_group_lowest:
  "lowest_of race_group {i \<in> set [0, 1, 2]. candidate race_group i} 1"
  by (auto simp: lowest_of_def race_group_def wait_group_def sample_defs candidate_def
      clock_is_lower_def get_clock_ticks_def)

lemma race_decision:
  obtains g1 where "determine_lowest_and_notify_or_wait cfg (sample_ctx 0 False) race_group = Inr (1, g1)"
    "decided (sample_ctx 0 False) race_group 1 1 g1"
proof -
  obtain w g1 where
    d: "determine_lowest_and_notify_or_wait cfg (sample_ctx 0 False) race_group = Inr (w, g1)"
      "decided (sample_ctx 0 False) race_group 1 w g1"
    using wf_call_decided[OF race_group_wf race_group_lowest, of 0 cfg] by auto
  then have "w = 1"
    by (simp add: decided_def race_group_def wait_group_def sample_defs)
  with d that show thesis by simp
qed

text \<open>Thread \<open>c\<close> reactivates thread 3, with the oldest clock, while thread 1 is recorded as the lowest.\<close>

lemma activate_old_thread:
  assumes abs: "la_abs (tg_active_threads g) [0, 1, 2]" and old: "ce_initialized (tg_clocks g 3)"
    "get_clock_ticks g 3 < get_clock_ticks g 1" and low: "tg_lowest_tid g = 1"
  obtains g' where "task_clock_entry_activate_other (sample_ctx c False) 3 g = Inr g'"
    "us_activated_lowest (tg_user_status g' c)"
    "\<And>t. us_lowest_clock (tg_user_status g' t) = us_lowest_clock (tg_user_status g t)"
    "la_abs (tg_active_threads g') ([0, 1, 2] @ [3])" "\<And>t. get_clock_ticks g' t = get_clock_ticks g t"
    "\<And>t. t \<noteq> 3 \<Longrightarrow> tg_clocks g' t = tg_clocks g t" "candidate g' 3"
    "\<not> ce_waiting (tg_clocks g' 3)" "tg_user_status_mapped g' = tg_user_status_mapped g"
proof -
  let ?h = "clear_entry_state_by_id (sample_ctx c False) 3 (upd_clock 3 (\<lambda>c. c\<lparr>ce_initialized := True\<rparr>) g)"
  have "la_abs (tg_active_threads ?h) [0, 1, 2]" using abs by (simp add: clock_macros)
  then obtain la where la: "mark_as_active 3 ?h =
      Inr ((upd_clock 3 (\<lambda>c. c\<lparr>ce_inactive := False\<rparr>) ?h)\<lparr>tg_active_threads := la\<rparr>)"
    "la_abs la ([0, 1, 2] @ [3])"
    using mark_as_active_ok[of ?h "[0, 1, 2]" 3] by (auto simp: la_index_ok_def la_consts)
  let ?k = "reset_chunk_ticks 3 ((upd_clock 3 (\<lambda>c. c\<lparr>ce_inactive := False\<rparr>) ?h)\<lparr>tg_active_threads := la\<rparr>)"
  have "clock_is_lower ?k 3 1"
    using old(2) by (simp add: clock_macros clock_is_lower_def get_clock_ticks_def)
  then have "task_clock_entry_activate_other (sample_ctx c False) 3 g =
      Inr (upd_user c (\<lambda>u. u\<lparr>us_activated_lowest := True\<rparr>) ?k)"
    using la(1) old(1) low by (simp add: task_clock_entry_activate_other_def Let_def sample_ctx_def clock_macros)
  then show thesis
    by (rule that) (use la(2) in \<open>simp_all add: clock_macros get_clock_ticks_def candidate_def\<close>)
qed

text \<open>
  C26. The thread to wake is chosen inside the critical section, but
  \<open>__wake_up_waiting_thread\<close> reads \<open>lowest_tid\<close> again outside it. From a well-formed group, thread
  0 decides that thread 1 must be woken; before it does, thread 2 reactivates the older thread
  3 and waits itself, which finds that the lowest thread is not waiting and records -1; thread
  0 then writes the status before the first of the array, and thread 1 is not told. Without the
  other two calls the same wake-up succeeds.
\<close>

theorem wake_up_race:
  "\<exists>g1 g2 g3 g1'.
     determine_lowest_and_notify_or_wait cfg (sample_ctx 0 False) race_group = Inr (1, g1) \<and>
     task_clock_entry_activate_other (sample_ctx 2 False) 3 g1 = Inr g2 \<and>
     task_clock_entry_wait cfg (sample_ctx 2 False) g2 = Inr g3 \<and>
     wake_if_found (1, g3) = Inl OutOfBounds \<and> \<not> us_lowest_clock (tg_user_status g3 1) \<and>
     wake_if_found (1, g1) = Inr g1' \<and> us_lowest_clock (tg_user_status g1' 1)"
proof -
  note sg = race_group_def wait_group_def sample_defs
  obtain g1 where g1: "determine_lowest_and_notify_or_wait cfg (sample_ctx 0 False) race_group = Inr (1, g1)"
    and d1: "decided (sample_ctx 0 False) race_group 1 1 g1"
    by (rule race_decision)
  have abs1: "la_abs (tg_active_threads g1) [0, 1, 2]"
    using d1 race_group_wf[of 0] by (simp add: decided_def wf_call_def Let_def)
  have c1: "tg_clocks g1 t = tg_clocks race_group t" if "t \<noteq> 0" for t
    using d1 that by (simp add: decided_def Let_def sample_ctx_def)
  have l1: "tg_lowest_tid g1 = 1" "\<not> us_lowest_clock (tg_user_status g1 1)"
      "tg_user_status_mapped g1" "get_clock_ticks g1 0 = 9" "ce_initialized (tg_clocks g1 0)"
      "\<not> ce_inactive (tg_clocks g1 0)"
    using d1 by (simp_all add: decided_def Let_def sg get_clock_ticks_def)
  have k1: "get_clock_ticks g1 1 = 5" "get_clock_ticks g1 2 = 9" "get_clock_ticks g1 3 = 1"
    using c1[of 1] c1[of 2] c1[of 3] by (simp_all add: get_clock_ticks_def sg)
  have "ce_initialized (tg_clocks g1 3)" "get_clock_ticks g1 3 < get_clock_ticks g1 1"
    using c1[of 3] k1 by (simp_all add: race_group_def)
  then obtain g2 where g2: "task_clock_entry_activate_other (sample_ctx 2 False) 3 g1 = Inr g2"
    and s2: "us_lowest_clock (tg_user_status g2 1) = us_lowest_clock (tg_user_status g1 1)"
      "la_abs (tg_active_threads g2) ([0, 1, 2] @ [3])" "\<not> ce_waiting (tg_clocks g2 3)"
      "tg_user_status_mapped g2 = tg_user_status_mapped g1" "candidate g2 3"
    and t2: "\<And>t. get_clock_ticks g2 t = get_clock_ticks g1 t" "\<And>t. t \<noteq> 3 \<Longrightarrow> tg_clocks g2 t = tg_clocks g1 t"
    using activate_old_thread[OF abs1 _ _ l1(1), of 2] by metis
  have wf2: "wf_call (sample_ctx 2 False) g2 ([0, 1, 2] @ [3])"
    using s2 l1(3) t2(2)[of 2] c1[of 2] by (simp add: wf_call_def THREAD_ARR_SIZE_def sg)
  have low2: "lowest_of g2 {i \<in> set ([0, 1, 2] @ [3]). candidate g2 i} 3"
    using l1(4) k1 s2(5) by (auto simp: lowest_of_def clock_is_lower_def t2(1))
  obtain w g3 where g3: "determine_lowest_and_notify_or_wait cfg (sample_ctx 2 False) g2 = Inr (w, g3)"
    "decided (sample_ctx 2 False) g2 3 w g3"
    using wf_call_decided[OF wf2 low2] .
  then have 3: "w = -1" "tg_lowest_tid g3 = -1" "\<not> us_lowest_clock (tg_user_status g3 1)"
      "tg_user_status_mapped g3"
    using s2 l1 by (simp_all add: decided_def Let_def sample_ctx_def)
  then have "task_clock_entry_wait cfg (sample_ctx 2 False) g2 = Inr g3"
    using g3(1) by (simp add: task_clock_entry_wait_def decide_and_wake_def wake_if_found_def)
  moreover have "wake_if_found (1, g3) = Inl OutOfBounds"
    using 3 by (simp add: wake_if_found_def wake_up_waiting_thread_def is_sleeping_def)
  moreover have "\<not> ce_sleeping (tg_clocks g1 1)" using c1[of 1] by (simp add: sg)
  ultimately show ?thesis
    using g1 g2 3(3) l1 by (auto simp: wake_if_found_def wake_up_waiting_thread_def is_sleeping_def)
qed

subsection \<open>One page for all user statuses\<close>

text \<open>
  The layout of the shared memory (\<open>determ_clock_info\<close>): thread 0's status follows two words, a
  200 byte file name and one more word; each status takes 72 bytes.
\<close>

definition user_status_size :: nat where
  "user_status_size = 6 * 8 + 4 * 1 + 4 + 8 + 8"

definition user_status_offset :: nat where
  "user_status_offset = 8 + 8 + 200 + 8"

definition DETERM_CLOCK_MAX_THREADS :: nat where "DETERM_CLOCK_MAX_THREADS = 1024"

text \<open>The bytes of the kernel's mapping that the status of thread \<open>t\<close> occupies.\<close>

definition status_in_mapping :: "u32 \<Rightarrow> nat \<Rightarrow> bool" where
  "status_in_mapping page_offset t \<longleftrightarrow> unat page_offset + user_status_size * (t + 1) \<le> 4096"

text \<open>
  The mapping is one page: with the shared memory at a page boundary (as \<open>mmap\<close> returns it)
  and the kernel's \<open>PAGE_ALIGN\<close> (rounding up to a multiple of 4096), \<open>task_clock_entry_init\<close> maps
  the first page, and a thread's status lies inside that mapping exactly for the threads up to
  52, although the library reserves statuses for 1024 threads and the wake-up indexes the
  mapping with any of them.
\<close>

theorem user_status_mapping_bound:
  assumes "\<forall>a. unat a + 4095 < 2 ^ 64 \<longrightarrow> unat (page_align a) = (unat a + 4095) div 4096 * 4096"
    and "unat base mod 4096 = 0" and "unat base + 8192 < 2 ^ 64" and "t < DETERM_CLOCK_MAX_THREADS"
  shows "\<exists>off. user_status_page page_align (base + of_nat user_status_offset) = (base, off) \<and>
    (status_in_mapping off t \<longleftrightarrow> t \<le> 52)"
proof -
  let ?a = "base + of_nat user_status_offset"
  have a: "unat ?a = unat base + 224"
    using assms(3) by (simp add: user_status_offset_def unat_word_ariths)
  obtain k where k: "unat base = 4096 * k" using assms(2) by fastforce
  have "unat (page_align ?a) = (unat ?a + 4095) div 4096 * 4096" using assms(1,3) a by simp
  also have "\<dots> = unat base + 4096" by (simp add: a k)
  also have "\<dots> = unat (base + 4096)" using assms(3) by (simp add: unat_word_ariths)
  finally have "page_align ?a = base + 4096" by (simp add: word_unat_eq_iff)
  then have "page_align ?a - 4096 = base" by simp
  moreover have "unat (ucast (of_nat user_status_offset :: u64) :: u32) = 224"
    by (simp add: user_status_offset_def)
  ultimately show ?thesis
    by (auto simp: user_status_page_def Let_def status_in_mapping_def user_status_size_def)
qed

theorem user_status_mapping_bound_witness:
  "\<exists>off. user_status_page (\<lambda>a. word_of_int (int ((unat a + 4095) div 4096 * 4096)))
      (8192 + of_nat user_status_offset) = (8192, off) \<and> \<not> status_in_mapping off 53"
proof -
  let ?p = "\<lambda>a :: u64. word_of_int (int ((unat a + 4095) div 4096 * 4096)) :: u64"
  have *: "\<forall>a. unat a + 4095 < 2 ^ 64 \<longrightarrow> unat (?p a) = (unat a + 4095) div 4096 * 4096"
  proof (intro allI impI)
    fix a :: u64 assume "unat a + 4095 < 2 ^ 64"
    moreover have "(unat a + 4095) div 4096 * 4096 \<le> unat a + 4095" by simp
    ultimately have "(unat a + 4095) div 4096 * 4096 < 2 ^ LENGTH(64)" by simp
    then show "unat (?p a) = (unat a + 4095) div 4096 * 4096"
      by (simp add: unat_of_nat del: of_nat_mult)
  qed
  show ?thesis
    using user_status_mapping_bound[OF *, of 8192 53] by (simp add: DETERM_CLOCK_MAX_THREADS_def)
qed

subsection \<open>Unloading\<close>

text \<open>
  Unloading is incomplete: after \<open>init_module\<close> and \<open>cleanup_module\<close>, the hooks of the kernel
  that still point into the unloaded module are exactly the five for sleep, period update,
  reset, and starting and stopping without notification.
\<close>

theorem cleanup_dangling_hooks:
  assumes "module_init cfg hooks = Inr loaded"
  shows "module_cleanup loaded h \<longleftrightarrow>
    h \<in> {Entry_Sleep, Overflow_Update_Period, Entry_Reset, Entry_Start_No_Notify, Entry_Stop_No_Notify}"
  using assms by (cases h) (auto simp: module_init_def module_cleanup_def split: if_splits)

theorem cleanup_dangling_hooks_witness:
  "\<exists>loaded. module_init plain_cfg (\<lambda>_. False) = Inr loaded \<and>
     module_cleanup loaded Entry_Sleep \<and> \<not> module_cleanup loaded Entry_Wait"
proof -
  obtain loaded where "module_init plain_cfg (\<lambda>_. False) = Inr loaded"
    by (simp add: module_init_def plain_cfg_def)
  with cleanup_dangling_hooks[OF this] show ?thesis by auto
qed

end
