(* ===== verification/Turn_Token.thy ===== *)
theory Turn_Token
  imports Clock_Turns Clock_Faults Run_Theorems
begin

text \<open>
  The token and the turn: \<open>getToken\<close> of the thread library, over the clock library, over the kernel
  module. The other threads are a script of arbitrary steps that meet a rely condition.
\<close>

subsection \<open>The caller's place in the shared state\<close>

type_synonym clock_determ = "task_clock_group clock_lib determ"

abbreviation group_of :: "clock_determ \<Rightarrow> task_clock_group" where
  "group_of d \<equiv> cl_world (ds_clock d)"

definition my_turn :: "kctx \<Rightarrow> clock_determ \<Rightarrow> bool" where
  "my_turn ctx d \<longleftrightarrow> has_turn (group_of d) (cur_tid ctx)"

definition my_flag :: "kctx \<Rightarrow> clock_determ \<Rightarrow> bool" where
  "my_flag ctx d \<longleftrightarrow> us_lowest_clock (tg_user_status (group_of d) (cur_tid ctx))"

definition callable :: "kctx \<Rightarrow> clock_determ \<Rightarrow> bool" where
  "callable ctx d \<longleftrightarrow> cl_tid (ds_clock d) = cur_tid ctx \<and> (\<exists>xs. wf_call ctx (group_of d) xs)"

text \<open>
  What a thread relies on: a step of the others that takes its turn away counts an activation, and no
  step raises its flag without giving it the turn. An activation and the count of it are
  one step, since both are made with the token.
\<close>

definition turn_rely :: "kctx \<Rightarrow> clock_determ \<Rightarrow> clock_determ \<Rightarrow> bool" where
  "turn_rely ctx d d' \<longleftrightarrow> (callable ctx d \<longrightarrow> callable ctx d' \<and>
     (my_flag ctx d' \<longrightarrow> my_flag ctx d \<or> my_turn ctx d') \<and>
     (ds_activation_counter d' = ds_activation_counter d + 1 \<or>
      ds_activation_counter d' = ds_activation_counter d \<and> (my_turn ctx d \<longrightarrow> my_turn ctx d')))"

lemma my_upds [simp]:
  "my_turn ctx (d\<lparr>ds_tokenpos := p\<rparr>) = my_turn ctx d"
  "my_turn ctx (d\<lparr>ds_last_getter := n\<rparr>) = my_turn ctx d"
  "my_flag ctx (d\<lparr>ds_tokenpos := p\<rparr>) = my_flag ctx d"
  "my_flag ctx (d\<lparr>ds_last_getter := n\<rparr>) = my_flag ctx d"
  "callable ctx (d\<lparr>ds_tokenpos := p\<rparr>) = callable ctx d"
  "callable ctx (d\<lparr>ds_last_getter := n\<rparr>) = callable ctx d"
  by (simp_all add: my_turn_def my_flag_def callable_def)

subsection \<open>Asking the kernel\<close>

lemma has_turn_cong:
  assumes "on_list g' = on_list g" "\<And>i. i \<in> on_list g \<Longrightarrow> candidate g' i = candidate g i"
    and "\<And>i. get_clock_ticks g' i = get_clock_ticks g i"
  shows "has_turn g' t = has_turn g t"
proof -
  have "active_turns g' = active_turns g" using assms(1,2) by (auto simp: active_turns_def)
  then show ?thesis using assms(3) by (simp add: has_turn_def turn_of_def)
qed

lemma has_turn_upds [simp]:
  "has_turn (upd_user u f g) t = has_turn g t"
  "has_turn (task_clock_entry_woke_up ctx g) t = has_turn g t"
  by (rule has_turn_cong;
      simp add: on_list_def task_clock_entry_woke_up_def candidate_def get_clock_ticks_def)+

lemma has_turn_lowest:
  assumes "wf_call ctx g xs"
  shows "has_turn g t \<longleftrightarrow> lowest_of g {i \<in> set xs. candidate g i} t \<and> t \<noteq> -1"
proof -
  have abs: "la_abs (tg_active_threads g) xs" using assms by (simp add: wf_call_def)
  then have "t \<noteq> -1" if "t \<in> set xs" using la_abs_nonneg[OF abs] that by auto
  then show ?thesis
    using lowest_of_turn[of t g "{i \<in> set xs. candidate g i}"]
    by (auto simp: has_turn_def active_turns_def on_list_abs[OF abs])
qed

lemma wait_keeps_turn:
  assumes wf: "wf_call ctx g xs" and run: "decide_and_wake cfg ctx g = Inr g'"
  shows "has_turn g' t = has_turn g t"
proof (rule has_turn_cong)
  obtain low where low: "lowest_of g {i \<in> set xs. candidate g i} low"
    using lowest_of_exists wf by (auto simp: wf_call_def)
  have d: "decided_woken ctx g low g'" "tg_active_threads g' = tg_active_threads g"
    using decide_and_wake_ok[OF wf low, of cfg] run by auto
  show list: "on_list g' = on_list g" using d(2) by (simp add: on_list_def)
  show "get_clock_ticks g' i = get_clock_ticks g i" for i using d(1) by (simp add: decided_woken_def)
  show "candidate g' i = candidate g i" if "i \<in> on_list g" for i
  proof (cases "i = cur_tid ctx")
    case True
    have "i \<in> set xs" using that on_list_abs[of g xs] wf by (simp add: wf_call_def)
    with True wf decide_and_wake_wf_call[OF wf run] show ?thesis by (simp add: candidate_def wf_call_def)
  next
    case False
    then show ?thesis using onlyD(2)[OF only_decide_and_wake[OF run, of "{cur_tid ctx}"]] by simp
  qed
qed

lemma wait_flag:
  assumes wf: "wf_call ctx g xs" and run: "decide_and_wake cfg ctx g = Inr g'"
    and t: "us_lowest_clock (tg_user_status g' t)" "0 \<le> t"
  shows "has_turn g' t \<or> t \<noteq> cur_tid ctx \<and> us_lowest_clock (tg_user_status g t)"
proof -
  obtain low where low: "lowest_of g {i \<in> set xs. candidate g i} low"
    using lowest_of_exists wf by (auto simp: wf_call_def)
  have "decided_woken ctx g low g'" using decide_and_wake_ok[OF wf low, of cfg] run by auto
  then have "t = low \<or> t \<noteq> cur_tid ctx \<and> us_lowest_clock (tg_user_status g t)"
    using t(1) unfolding decided_woken_def by metis
  moreover have "has_turn g' low" if "t = low"
    using wait_keeps_turn[OF wf run] has_turn_lowest[OF wf, of low] low t(2) that by simp
  ultimately show ?thesis by auto
qed

lemma handle_wait: "handle cfg ctx KWait g = Inr g' \<longleftrightarrow> decide_and_wake cfg ctx g = Inr g'"
  by (simp add: task_clock_entry_wait_def)

lemma module_ioctl:
  "ki_ioctl (module_kernel cfg ctx pmc) cmd arg g = bindR (handle cfg ctx (ioctl_call cmd arg) g) (\<lambda>g'. Inr (0, g'))"
  "ki_status (module_kernel cfg ctx pmc) t g = tg_user_status g t"
  "ki_set_status (module_kernel cfg ctx pmc) = upd_user"
  by (simp_all add: module_kernel_def)

text \<open>\<open>determ_task_clock_is_lowest\<close> leaves the flag clear, and answers yes with the turn only.\<close>

lemma woke_up_turn:
  assumes w: "woke_up (module_kernel kcfg ctx pmc) s = Inr s'" and tid: "cl_tid s = cur_tid ctx"
    and wf: "wf_call ctx (cl_world s) xs"
  shows "cl_tid s' = cur_tid ctx \<and> wf_call ctx (cl_world s') xs \<and>
    has_turn (cl_world s') t = has_turn (cl_world s) t \<and>
    \<not> us_lowest_clock (tg_user_status (cl_world s') (cur_tid ctx))"
proof -
  have "wf_call ctx (task_clock_entry_woke_up ctx (cl_world s)) xs"
    using wf by (simp add: task_clock_entry_woke_up_def wf_call_def)
  then show ?thesis
    using w tid by (auto simp: woke_up_def do_ioctl_def upd_status_def module_ioctl)
qed

lemma is_lowest_turn:
  assumes tid: "cl_tid s = cur_tid ctx" and wf: "wf_call ctx (cl_world s) xs"
    and flag: "us_lowest_clock (tg_user_status (cl_world s) (cur_tid ctx)) \<longrightarrow>
      has_turn (cl_world s) (cur_tid ctx)"
    and run: "determ_task_clock_is_lowest (module_kernel kcfg ctx pmc) s = Inr (b, s')"
  shows "cl_tid s' = cur_tid ctx \<and> wf_call ctx (cl_world s') xs \<and>
    \<not> us_lowest_clock (tg_user_status (cl_world s') (cur_tid ctx)) \<and>
    (b \<longrightarrow> has_turn (cl_world s') (cur_tid ctx))"
proof -
  let ?M = "module_kernel kcfg ctx pmc"
  let ?flag = "\<lambda>s. us_lowest_clock (tg_user_status (cl_world s) (cur_tid ctx))"
  have nonneg: "0 \<le> cur_tid ctx" using wf by (simp add: wf_call_def)
  obtain s1 where s1: "(if \<not> cl_disabled s \<and> \<not> us_lowest_clock (my_status ?M s)
        then bindR (do_ioctl ?M TASK_CLOCK_WAIT 0 s) (\<lambda>s'. Inr (s'\<lparr>cl_disabled := True\<rparr>)) else Inr s) = Inr s1"
    and rest: "(if us_lowest_clock (my_status ?M s1) then bindR (woke_up ?M s1) (\<lambda>s2. Inr (True, s2))
      else Inr (False, s1)) = Inr (b, s')"
    using run by (auto simp: determ_task_clock_is_lowest_def bindR_Inr_iff)
  have 1: "cl_tid s1 = cur_tid ctx \<and> wf_call ctx (cl_world s1) xs \<and>
      (?flag s1 \<longrightarrow> has_turn (cl_world s1) (cur_tid ctx))"
  proof (cases "\<not> cl_disabled s \<and> \<not> us_lowest_clock (my_status ?M s)")
    case True
    then obtain g where g: "decide_and_wake kcfg ctx (cl_world s) = Inr g"
      "s1 = s\<lparr>cl_world := g, cl_disabled := True\<rparr>"
      using s1 by (auto simp: do_ioctl_def module_ioctl bindR_Inr_iff task_clock_entry_wait_def split: if_splits)
    with decide_and_wake_wf_call[OF wf g(1)] wait_flag[OF wf g(1) _ nonneg] tid show ?thesis by auto
  next
    case False
    then have "s1 = s" using s1 by (metis Inr_inject)
    then show ?thesis using tid wf flag by simp
  qed
  have st: "us_lowest_clock (my_status ?M s1) \<longleftrightarrow> ?flag s1"
    using 1 by (simp add: my_status_def module_ioctl)
  show ?thesis
  proof (cases "?flag s1")
    case True
    then obtain "woke_up ?M s1 = Inr s'" b using rest st by (auto simp: bindR_Inr_iff)
    with 1 True woke_up_turn show ?thesis by blast
  next
    case False
    then show ?thesis using rest st 1 by simp
  qed
qed

subsection \<open>One round of the script\<close>

definition token_round :: "('c, 'm) run_env \<Rightarrow> nat \<Rightarrow> (('c, 'm) world \<Rightarrow> ('c, 'm) world) \<Rightarrow> token_local \<Rightarrow>
    ('c, 'm) world \<Rightarrow> (token_local \<times> ('c, 'm) world) result" where
  "token_round E t f l w = bindR (token_step (re_clock E) t (l, w_d (f w))) (\<lambda>(l', d).
     Inr (l', (f w)\<lparr>w_d := d, w_mem := with_local_mem E (tk_pc l) (w_mem (f w))\<rparr>))"

lemma get_token_round:
  "get_token_loop E t (f # fs) l w = bindR (token_round E t f l w) (\<lambda>(l', w').
     if tk_pc l' = TkHold then Inr (fs, w') else get_token_loop E t fs l' w')"
  by (cases "token_step (re_clock E) t (l, w_d (f w))")
    (auto simp: token_round_def Let_def simp del: token_step.simps)

text \<open>
  \<open>lost_unnoticed\<close>: at some round a step of the others takes the turn away from the thread after it was told that it has
  it (its flag is up), or between its check and its reading of the activation counter.
\<close>

fun lost_unnoticed :: "(task_clock_group clock_lib, 'm) run_env \<Rightarrow> kctx \<Rightarrow> nat \<Rightarrow>
    ((task_clock_group clock_lib, 'm) world \<Rightarrow> (task_clock_group clock_lib, 'm) world) list \<Rightarrow> token_local \<Rightarrow>
    (task_clock_group clock_lib, 'm) world \<Rightarrow> bool" where
  "lost_unnoticed E ctx t [] l w = False"
| "lost_unnoticed E ctx t (f # fs) l w =
     (my_turn ctx (w_d w) \<and> \<not> my_turn ctx (w_d (f w)) \<and>
        (my_flag ctx (w_d w) \<or> tk_pc l = TkRead \<and> tk_is_lowest l) \<or>
      (case token_round E t f l w of Inl e \<Rightarrow> False
       | Inr (l', w') \<Rightarrow> tk_pc l' \<noteq> TkHold \<and> lost_unnoticed E ctx t fs l' w'))"

text \<open>
  The assertion at each point of \<open>getToken\<close>, with \<open>a\<close> rounds left to this thread and \<open>b\<close> to the others. Behind
  the reading of the counter, the turn is lost only if activations have been counted since.
\<close>

definition covered :: "kctx \<Rightarrow> nat \<Rightarrow> token_local \<Rightarrow> clock_determ \<Rightarrow> bool" where
  "covered ctx b l d \<longleftrightarrow> (\<exists>n. ds_activation_counter d = tk_counter l + of_nat n \<and> n + b \<le> TOKEN_SPIN_MAX \<and>
     (n = 0 \<longrightarrow> my_turn ctx d))"

lemma covered_upds [simp]:
  "covered ctx b (l\<lparr>tk_pc := p\<rparr>) d = covered ctx b l d"
  "covered ctx b l (d\<lparr>ds_tokenpos := q\<rparr>) = covered ctx b l d"
  by (simp_all add: covered_def)

definition in_turn :: "kctx \<Rightarrow> nat \<Rightarrow> nat \<Rightarrow> token_local \<Rightarrow> clock_determ \<Rightarrow> bool" where
  "in_turn ctx a b l d \<longleftrightarrow> callable ctx d \<and> tk_spin_counter l + a \<le> TOKEN_SPIN_MAX \<and>
     tk_pc l \<notin> {TkOut, TkPoll, TkHold} \<and> (my_flag ctx d \<longrightarrow> my_turn ctx d) \<and>
     (tk_pc l = TkRead \<and> tk_is_lowest l \<longrightarrow> my_turn ctx d) \<and>
     (tk_pc l = TkLoop \<and> tk_is_lowest l \<or> tk_pc l \<in> {TkWaitFree, TkCas, TkCheck} \<longrightarrow> covered ctx b l d)"

lemma in_turn_stable:
  assumes inv: "in_turn ctx a (Suc b) l d" and rely: "turn_rely ctx d d'"
    and noticed: "\<not> (my_turn ctx d \<and> \<not> my_turn ctx d' \<and>
      (my_flag ctx d \<or> tk_pc l = TkRead \<and> tk_is_lowest l))"
  shows "in_turn ctx a b l d'"
proof -
  have "covered ctx b l d'" if c: "covered ctx (Suc b) l d"
  proof -
    obtain n where n: "ds_activation_counter d = tk_counter l + of_nat n" "n + Suc b \<le> TOKEN_SPIN_MAX"
      "n = 0 \<longrightarrow> my_turn ctx d" using c unfolding covered_def by blast
    show ?thesis
    proof (cases "ds_activation_counter d' = ds_activation_counter d + 1")
      case True
      with n have "ds_activation_counter d' = tk_counter l + of_nat (Suc n)" by simp
      with n(2) show ?thesis unfolding covered_def by (intro exI[of _ "Suc n"]) simp
    next
      case False
      with rely inv have "ds_activation_counter d' = ds_activation_counter d" "my_turn ctx d \<longrightarrow> my_turn ctx d'"
        by (auto simp: turn_rely_def in_turn_def)
      with n show ?thesis unfolding covered_def by (intro exI[of _ n]) simp
    qed
  qed
  then show ?thesis
    using inv rely noticed unfolding in_turn_def turn_rely_def by (elim conjE) (intro conjI; blast)
qed

lemma wakeup_callable:
  assumes "callable ctx d" "re_clock E = lib_clock cfg (module_kernel kcfg ctx pmc)"
  shows "callable ctx (on_wakeup (re_clock E) d) \<and> \<not> my_flag ctx (on_wakeup (re_clock E) d)"
  using assms
  by (auto simp: callable_def my_flag_def on_wakeup_def lib_clock_def determ_task_clock_on_wakeup_def
      upd_status_def module_ioctl)

lemma in_turn_step:
  assumes inv: "in_turn ctx (Suc m) m l d"
    and clock: "re_clock E = lib_clock cfg (module_kernel kcfg ctx pmc)"
    and run: "token_step (re_clock E) t (l, d) = Inr (l', d')"
  shows "if tk_pc l' = TkHold then my_turn ctx d' \<and> callable ctx d' else in_turn ctx m m l' d'"
proof (cases "tk_pc l")
  case TkLowest
  obtain xs where xs: "cl_tid (ds_clock d) = cur_tid ctx" "wf_call ctx (group_of d) xs"
    using inv by (auto simp: in_turn_def callable_def)
  obtain b c where c: "determ_task_clock_is_lowest (module_kernel kcfg ctx pmc) (ds_clock d) = Inr (b, c)"
    "l' = l\<lparr>tk_is_lowest := b, tk_pc := TkRead\<rparr>" "d' = d\<lparr>ds_clock := c\<rparr>"
    using run TkLowest clock by (auto simp: bindR_Inr_iff lib_clock_def)
  have "my_flag ctx d \<longrightarrow> my_turn ctx d" using inv by (simp add: in_turn_def)
  then have r: "cl_tid c = cur_tid ctx" "wf_call ctx (cl_world c) xs" "\<not> my_flag ctx d'" "b \<longrightarrow> my_turn ctx d'"
    using is_lowest_turn[OF xs _ c(1)] by (simp_all add: my_flag_def my_turn_def c(3))
  then have "callable ctx d'" unfolding callable_def c(3) by auto
  with r(3,4) inv show ?thesis unfolding c(2) in_turn_def by simp
next
  case TkCheck
  show ?thesis
  proof (cases "ds_activation_counter d = tk_counter l")
    case True
    obtain n where n: "ds_activation_counter d = tk_counter l + of_nat n" "n \<le> TOKEN_SPIN_MAX"
      "n = 0 \<longrightarrow> my_turn ctx d"
      using inv TkCheck by (auto simp: in_turn_def covered_def)
    then have "(of_nat n :: u64) = 0" "n < 2 ^ 64" using True by (auto simp: TOKEN_SPIN_MAX_def)
    then have "n = 0"
      by (cases "n = 0") (auto simp: word_of_nat_eq_0_iff dest: dvd_imp_le)
    then show ?thesis using run TkCheck True n(3) inv by (auto simp: in_turn_def)
  next
    case False
    then show ?thesis
      using run TkCheck inv wakeup_callable[OF _ clock, of d] by (auto simp: in_turn_def)
  qed
next
  case TkRead
  then show ?thesis using run inv by (auto simp: in_turn_def covered_def intro: exI[of _ 0])
next
  case TkStart
  with run have "l' = l\<lparr>tk_pc := TkLoop, tk_spin_counter := 0, tk_polled := False,
      tk_counter := ds_activation_counter d, tk_is_lowest := False\<rparr>" "d' = d" by auto
  then show ?thesis using inv by (simp add: in_turn_def)
next
  case TkLoop
  then have "l' = l\<lparr>tk_pc := (if tk_is_lowest l then TkWaitFree else TkLowest)\<rparr>" "d' = d"
    using run inv by (auto simp: in_turn_def split: if_splits)
  then show ?thesis using inv TkLoop by (simp add: in_turn_def)
next
  case TkWaitFree
  then have "l' = (if ds_tokenpos d = None then l\<lparr>tk_pc := TkCas\<rparr> else l)" "d' = d" using run by auto
  then show ?thesis using inv TkWaitFree by (simp add: in_turn_def)
next
  case TkCas
  then have "(l', d') = (if ds_tokenpos d = None then (l\<lparr>tk_pc := TkCheck\<rparr>, d\<lparr>ds_tokenpos := Some t\<rparr>)
      else (l\<lparr>tk_pc := TkWaitFree\<rparr>, d))" using run by simp
  then show ?thesis using inv TkCas by (simp add: in_turn_def split: if_splits)
next
  case TkRelease
  then have "l' = l\<lparr>tk_pc := TkStart\<rparr>" "d' = d\<lparr>ds_tokenpos := None\<rparr>" using run by auto
  then show ?thesis using inv by (simp add: in_turn_def)
qed (use inv in \<open>simp_all add: in_turn_def\<close>)

lemma get_token_in_turn:
  assumes clock: "re_clock E = lib_clock cfg (module_kernel kcfg ctx pmc)"
    and "in_turn ctx (length fs) (length fs) l (w_d w)"
    and rely: "\<forall>f \<in> set fs. \<forall>w. turn_rely ctx (w_d w) (w_d (f w))"
    and "get_token_loop E t fs l w = Inr (fs', w')"
  shows "my_turn ctx (w_d w') \<and> callable ctx (w_d w') \<or> lost_unnoticed E ctx t fs l w"
  using assms(2-)
proof (induction fs arbitrary: l w)
  case Nil
  then show ?case by simp
next
  case (Cons f fs)
  from Cons.prems(3) obtain l1 w1 where r: "token_round E t f l w = Inr (l1, w1)"
    and rest: "(if tk_pc l1 = TkHold then Inr (fs, w1) else get_token_loop E t fs l1 w1) = Inr (fs', w')"
    unfolding get_token_round by (auto simp: bindR_Inr_iff)
  then have st: "token_step (re_clock E) t (l, w_d (f w)) = Inr (l1, w_d w1)"
    by (auto simp: token_round_def bindR_Inr_iff simp del: token_step.simps)
  show ?case
  proof (cases "my_turn ctx (w_d w) \<and> \<not> my_turn ctx (w_d (f w)) \<and>
      (my_flag ctx (w_d w) \<or> tk_pc l = TkRead \<and> tk_is_lowest l)")
    case True
    then show ?thesis by simp
  next
    case False
    have "in_turn ctx (Suc (length fs)) (length fs) l (w_d (f w))"
      using in_turn_stable[OF _ _ False] Cons.prems(1,2) by simp
    from in_turn_step[OF this clock st] Cons.IH[of l1 w1] Cons.prems(2) rest r show ?thesis
      by (auto split: if_splits)
  qed
qed

subsection \<open>The token goes to the thread whose turn it is\<close>

lemma turn_searched:
  assumes "callable ctx d" "my_turn ctx d"
  shows "search_for_lowest ctx (group_of d) = Inr (cur_tid ctx)"
proof -
  obtain xs where xs: "wf_call ctx (group_of d) xs" using assms(1) by (auto simp: callable_def)
  have "lowest_of (group_of d) {i \<in> set xs. candidate (group_of d) i} (cur_tid ctx)"
    using assms(2) by (simp add: my_turn_def has_turn_lowest[OF xs])
  then show ?thesis
    using search_for_lowest_list[of "group_of d" xs ctx] xs lowest_of_unique
    unfolding wf_call_def by metis
qed


subsection \<open>A thread that has been told\<close>

lemma told_is_lowest:
  assumes "callable ctx d" "my_flag ctx d"
  shows "\<exists>c. ca_is_lowest (lib_clock cfg (module_kernel kcfg ctx pmc)) (ds_clock d) = Inr (True, c) \<and>
    callable ctx (d\<lparr>ds_clock := c\<rparr>) \<and> has_turn (cl_world c) t = has_turn (group_of d) t"
proof -
  let ?M = "module_kernel kcfg ctx pmc"
  obtain xs where xs: "cl_tid (ds_clock d) = cur_tid ctx" "wf_call ctx (group_of d) xs"
    using assms(1) by (auto simp: callable_def)
  obtain c where c: "woke_up ?M (ds_clock d) = Inr c" using kmod.woke_up_ok[OF xs(2,1)] by blast
  have "us_lowest_clock (my_status ?M (ds_clock d))"
    using assms(2) xs(1) by (simp add: my_flag_def my_status_def module_ioctl)
  then have "ca_is_lowest (lib_clock cfg ?M) (ds_clock d) = Inr (True, c)"
    using c by (simp add: lib_clock_def determ_task_clock_is_lowest_def)
  with woke_up_turn[OF c xs] show ?thesis by (auto simp: callable_def)
qed

lemma get_token_told:
  assumes "re_clock E = lib_clock cfg (module_kernel kcfg ctx pmc)"
    and "callable ctx (w_d w)" "my_flag ctx (w_d w)" "ds_tokenpos (w_d w) = None"
    and "tk_pc l = TkLoop" "\<not> tk_is_lowest l" "tk_spin_counter l < TOKEN_SPIN_MAX"
  shows "\<exists>w'. get_token_loop E t [id, id, id, id, id, id, id] l w = Inr ([], w') \<and> callable ctx (w_d w') \<and>
    has_turn (group_of (w_d w')) u = has_turn (group_of (w_d w)) u"
  using told_is_lowest[OF assms(2,3), of cfg kcfg pmc u] assms
  by (auto simp: callable_def)

subsection \<open>Concrete runs\<close>

text \<open>
  Thread 1 of the groups of \<open>Clock_Properties\<close> and \<open>Clock_Faults\<close>. A wait of another thread is a step that
  meets the rely condition.
\<close>

definition turn_env :: "(task_clock_group clock_lib, unit) run_env" where
  "turn_env = \<lparr>re_config = config_IC, re_clock = lib_clock plain_cfg (module_kernel plain_cfg (sample_ctx 1 False) 0),
     re_conv = sample_conv, re_update = id,
     re_alloc_lock = \<lambda>d. (16, \<lparr>lk_acquired = False, lk_waiters = 0, lk_head = 0\<rparr>),
     re_alloc_cond = \<lambda>d. 32, re_alloc_barrier = \<lambda>d. (ds_barriers d 0, 48), re_alloc_status = \<lambda>_. 64,
     re_memory = \<lambda>_. None, re_commit_heap = \<lambda>_. [], re_commit_globals = \<lambda>_. [], re_commit_obs = \<lambda>_. []\<rparr>"

definition turn_world :: "task_clock_group \<Rightarrow> (task_clock_group clock_lib, unit) world" where
  "turn_world g = \<lparr>w_d = \<lparr>ds_links = ds_links table_determ, ds_threads = ds_threads table_determ,
       ds_locks = ds_locks table_determ, ds_conds = ds_conds table_determ, ds_barriers = ds_barriers table_determ,
       ds_var = \<lambda>_. NULL, ds_tokenpos = None, ds_activation_counter = 0, ds_last_token_value = 0,
       ds_last_putter = 0, ds_last_getter = 0, ds_clock = (sample_lib 1 g)\<lparr>cl_disabled := True\<rparr>\<rparr>,
     w_mem = sample_mem, w_pool = sample_pool, w_status = \<lambda>_. \<lparr>ts_tid = 0, ts_threadIndex = 0, ts_retval = 0\<rparr>,
     w_master_finished = False, w_cloned = []\<rparr>"

definition other_waits :: "kconfig \<Rightarrow> kctx \<Rightarrow> (task_clock_group clock_lib, 'm) world \<Rightarrow>
    (task_clock_group clock_lib, 'm) world" where
  "other_waits cfg ctx w =
     (if \<exists>xs. wf_call ctx (group_of (w_d w)) xs
      then case task_clock_entry_wait cfg ctx (group_of (w_d w)) of Inl e \<Rightarrow> w
        | Inr g \<Rightarrow> w\<lparr>w_d := (w_d w)\<lparr>ds_clock := (ds_clock (w_d w))\<lparr>cl_world := g\<rparr>\<rparr>\<rparr>
      else w)"

lemma other_waits_callable:
  assumes "wf_call ctx g xs" "wf_call ctx' g ys" "cur_tid ctx \<noteq> cur_tid ctx'"
    and run: "decide_and_wake cfg ctx' g = Inr g'"
  shows "wf_call ctx g' xs"
proof -
  have "only {cur_tid ctx'} g g'" by (rule only_decide_and_wake[OF run]) simp
  then have "sched_key (tg_clocks g' (cur_tid ctx)) = sched_key (tg_clocks g (cur_tid ctx))"
    using assms(3) by (simp add: only_def)
  moreover obtain low where low: "lowest_of g {i \<in> set ys. candidate g i} low"
    using lowest_of_exists assms(2) by (auto simp: wf_call_def)
  then have "tg_active_threads g' = tg_active_threads g"
    using decide_and_wake_ok[OF assms(2) low, of cfg] run by auto
  ultimately show ?thesis
    using assms(1) decide_and_wake_wf_call[OF assms(2) run] by (auto simp: wf_call_def sched_key_def)
qed

lemma other_waits_rely:
  assumes "cur_tid ctx \<noteq> cur_tid ctx'"
  shows "turn_rely ctx (w_d w) (w_d (other_waits cfg ctx' w))"
proof (cases "(\<exists>xs. wf_call ctx' (group_of (w_d w)) xs) \<and> callable ctx (w_d w)")
  case True
  then obtain xs ys where wf: "wf_call ctx (group_of (w_d w)) xs" "wf_call ctx' (group_of (w_d w)) ys"
    and tid: "cl_tid (ds_clock (w_d w)) = cur_tid ctx"
    by (auto simp: callable_def)
  obtain low where low: "lowest_of (group_of (w_d w)) {i \<in> set ys. candidate (group_of (w_d w)) i} low"
    using lowest_of_exists wf(2) by (auto simp: wf_call_def)
  obtain g where g: "decide_and_wake cfg ctx' (group_of (w_d w)) = Inr g"
    using decide_and_wake_ok[OF wf(2) low] by blast
  have w: "w_d (other_waits cfg ctx' w) = (w_d w)\<lparr>ds_clock := (ds_clock (w_d w))\<lparr>cl_world := g\<rparr>\<rparr>"
    using wf(2) g by (auto simp: other_waits_def task_clock_entry_wait_def)
  have "0 \<le> cur_tid ctx" using wf(1) by (simp add: wf_call_def)
  with wait_flag[OF wf(2) g, of "cur_tid ctx"] wait_keeps_turn[OF wf(2) g, of "cur_tid ctx"] tid
    other_waits_callable[OF wf assms g]
  show ?thesis by (auto simp: turn_rely_def w callable_def my_flag_def my_turn_def)
next
  case False
  then show ?thesis by (auto simp: turn_rely_def other_waits_def)
qed

lemma told_by_wait:
  assumes "g \<in> {wait_group, race_group}"
  obtains g' where "decide_and_wake plain_cfg (sample_ctx 0 False) g = Inr g'"
    "us_lowest_clock (tg_user_status g' 1)" "tg_active_threads g' = tg_active_threads g"
    "wf_call (sample_ctx 1 False) g' [0, 1, 2]" "\<And>t. get_clock_ticks g' t = get_clock_ticks g t"
    "\<And>t. t \<noteq> 0 \<Longrightarrow> sched_key (tg_clocks g' t) = sched_key (tg_clocks g t)" "tg_lowest_tid g' = 1"
proof -
  have wf: "wf_call (sample_ctx t False) g [0, 1, 2]" if "t \<in> {0, 1, 2}" for t
    using assms wait_group_wf[OF that] race_group_wf[OF that] by auto
  have low: "lowest_of g {i \<in> set [0, 1, 2]. candidate g i} 1"
    using assms wait_group_lowest race_group_lowest by auto
  obtain g' where g': "decide_and_wake plain_cfg (sample_ctx 0 False) g = Inr g'"
    "decided_woken (sample_ctx 0 False) g 1 g'" "tg_active_threads g' = tg_active_threads g"
    using decide_and_wake_ok[OF wf low, of 0 plain_cfg] by auto
  have st: "ce_waiting (tg_clocks g 1)" "\<not> ce_sleeping (tg_clocks g 1)" "tg_notification_needed g"
    using assms by (auto simp: race_group_def wait_group_def Task_Clock.sample_defs)
  then have "told g g' 1" using g'(2) by (simp add: decided_woken_def sample_ctx_def)
  then have "us_lowest_clock (tg_user_status g' 1)" using st by (simp add: told_def)
  moreover have "wf_call (sample_ctx 1 False) g' [0, 1, 2]"
    by (rule other_waits_callable[OF wf wf _ g'(1)]) (simp_all add: sample_ctx_def)
  moreover have "only {0} g g'"
    using only_decide_and_wake[OF g'(1), of "{0}"] by (simp add: sample_ctx_def)
  moreover obtain w h where h: "determine_lowest_and_notify_or_wait plain_cfg (sample_ctx 0 False) g = Inr (w, h)"
    "decided (sample_ctx 0 False) g 1 w h"
    by (rule wf_call_decided[OF wf[of 0] low]) simp_all
  then have "tg_lowest_tid g' = 1"
    using g'(1) st(1) by (auto simp: decide_and_wake_def decided_def wake_if_found_def
        wake_up_waiting_thread_def upd_event_def sample_ctx_def split: if_splits)
  ultimately show thesis
    using that g' by (simp add: decided_woken_def only_def)
qed

lemma not_lost_alone: "set fs \<subseteq> {id} \<Longrightarrow> \<not> lost_unnoticed E ctx t fs l w"
  by (induction fs arbitrary: l w) (auto split: sum.splits)

definition turn_thread :: "((task_clock_group clock_lib, unit) world \<Rightarrow> (task_clock_group clock_lib, unit) world) list \<Rightarrow>
    task_clock_group \<Rightarrow> (task_clock_group clock_lib, unit) xrun" where
  "turn_thread fs g = \<lparr>xr_initialized = True, xr_thread_index = 1, xr_lock_count = 0, xr_token_holding = False,
     xr_coarsening_counter = 0, xr_coarsening_level = 20000, xr_consecutively_coarsened = 0,
     xr_monitor_next = False, xr_sleep_count = 0, xr_is_sleeping = False, xr_w = turn_world g,
     xr_script = fs, xr_commits = []\<rparr>"


text \<open>Thread 1 is told by a wait of thread 0; then thread 0 activates thread 3.\<close>

lemma overtaken_groups:
  obtains g1 g2 where "decide_and_wake plain_cfg (sample_ctx 0 False) race_group = Inr g1"
    "us_lowest_clock (tg_user_status g1 1)" "search_for_lowest (sample_ctx 1 False) g1 = Inr 1"
    "task_clock_entry_activate_other (sample_ctx 0 False) 3 g1 = Inr g2"
    "us_activated_lowest (tg_user_status g2 0)" "us_lowest_clock (tg_user_status g2 1)"
    "wf_call (sample_ctx 1 False) g2 [0, 1, 2, 3]" "has_turn g2 3"
proof -
  let ?c = "sample_ctx 1 False"
  have ids: "cur_tid (sample_ctx t b) = t" "\<not> in_nmi (sample_ctx t False)" for t b by (simp_all add: sample_ctx_def)
  obtain g1 where g1: "decide_and_wake plain_cfg (sample_ctx 0 False) race_group = Inr g1"
    "us_lowest_clock (tg_user_status g1 1)" "tg_active_threads g1 = tg_active_threads race_group"
    "wf_call ?c g1 [0, 1, 2]" "\<And>t. get_clock_ticks g1 t = get_clock_ticks race_group t"
    "\<And>t. t \<noteq> 0 \<Longrightarrow> sched_key (tg_clocks g1 t) = sched_key (tg_clocks race_group t)" "tg_lowest_tid g1 = 1"
    using told_by_wait[of race_group] by auto
  have k: "ce_initialized (tg_clocks g1 3)" "get_clock_ticks g1 0 = 9" "get_clock_ticks g1 1 = 5"
    "get_clock_ticks g1 2 = 9" "get_clock_ticks g1 3 = 1"
    using g1(6)[of 3] unfolding g1(5)
    by (simp_all add: sched_key_def race_group_def wait_group_def Task_Clock.sample_defs get_clock_ticks_def)
  obtain g2 where g2: "task_clock_entry_activate_other (sample_ctx 0 False) 3 g1 = Inr g2"
    "us_activated_lowest (tg_user_status g2 0)"
    "\<And>t. us_lowest_clock (tg_user_status g2 t) = us_lowest_clock (tg_user_status g1 t)"
    "la_abs (tg_active_threads g2) ([0, 1, 2] @ [3])" "\<And>t. get_clock_ticks g2 t = get_clock_ticks g1 t"
    "\<And>t. t \<noteq> 3 \<Longrightarrow> tg_clocks g2 t = tg_clocks g1 t" "candidate g2 3" "\<not> ce_waiting (tg_clocks g2 3)"
    "tg_user_status_mapped g2 = tg_user_status_mapped g1"
    using activate_old_thread[of g1 0] g1(4,7) k by (auto simp: wf_call_def)
  have wf2: "wf_call ?c g2 [0, 1, 2, 3]"
    using g1(4) g2(4,6,9) by (auto simp: wf_call_def ids THREAD_ARR_SIZE_def)
  have low2: "lowest_of g2 {i \<in> set [0, 1, 2, 3]. candidate g2 i} 3"
    using g2(7) k by (auto simp: lowest_of_def clock_is_lower_def g2(5))
  have "lowest_of g1 {i \<in> set [0, 1, 2]. candidate g1 i} 1"
    using g1(4) k by (auto simp: lowest_of_def clock_is_lower_def wf_call_def candidate_def ids)
  then have s1: "search_for_lowest ?c g1 = Inr 1"
    using search_for_lowest_list[of g1 "[0, 1, 2]" ?c] g1(4) lowest_of_unique unfolding wf_call_def by metis
  have "has_turn g2 3" using has_turn_lowest[OF wf2] low2 by simp
  then show thesis using that g1(1,2) s1 g2(1-3) wf2 by blast
qed

text \<open>
  C38. One of these exceptions, with the kernel's own handlers. Thread 1 waits in \<open>getToken\<close>; the wait of thread 0 tells
  it that it is the lowest. Thread 0, which has the token, then activates thread 3, whose clock is
  lower; the kernel reports that to thread 0, who counts it and gives the token back. The flag of thread 1 is
  still up, so that its next check succeeds, and it reads the counter only now: the comparison passes, and thread 1
  returns with the token although the kernel's search elects thread 3.
\<close>

theorem told_then_overtaken:
  "\<exists>g1 g2 w. handle plain_cfg (sample_ctx 0 False) KWait race_group = Inr g1 \<and>
    search_for_lowest (sample_ctx 1 False) g1 = Inr 1 \<and> us_lowest_clock (tg_user_status g1 1) \<and>
    handle plain_cfg (sample_ctx 0 False) (KActivateOther 3) g1 = Inr g2 \<and>
    us_activated_lowest (tg_user_status g2 0) \<and> search_for_lowest (sample_ctx 1 False) g2 = Inr 3 \<and>
    get_token_loop turn_env 1 [id, id, id, id, id, id, id] (token_start\<lparr>tk_pc := TkLoop, tk_spin_counter := 1\<rparr>)
      ((turn_world g2)\<lparr>w_d := (w_d (turn_world g2))\<lparr>ds_activation_counter := 1\<rparr>\<rparr>) = Inr ([], w) \<and>
    search_for_lowest (sample_ctx 1 False) (group_of (w_d w)) = Inr 3"
proof -
  let ?c = "sample_ctx 1 False" and ?l = "token_start\<lparr>tk_pc := TkLoop, tk_spin_counter := 1\<rparr>"
  have ids: "cur_tid (sample_ctx t b) = t" "\<not> in_nmi (sample_ctx t False)" for t b by (simp_all add: sample_ctx_def)
  obtain g1 g2 where g: "decide_and_wake plain_cfg (sample_ctx 0 False) race_group = Inr g1"
    "us_lowest_clock (tg_user_status g1 1)" "search_for_lowest ?c g1 = Inr 1"
    "task_clock_entry_activate_other (sample_ctx 0 False) 3 g1 = Inr g2"
    "us_activated_lowest (tg_user_status g2 0)" "us_lowest_clock (tg_user_status g2 1)"
    "wf_call ?c g2 [0, 1, 2, 3]" "has_turn g2 3" by (rule overtaken_groups)
  have s2: "search_for_lowest ?c g = Inr 3" if "has_turn g 3" "wf_call ?c g xs" for g xs
    using that(1) has_turn_lowest[OF that(2)] search_for_lowest_list[of g xs ?c] that(2) lowest_of_unique
    unfolding wf_call_def by metis
  let ?w = "(turn_world g2)\<lparr>w_d := (w_d (turn_world g2))\<lparr>ds_activation_counter := 1\<rparr>\<rparr>"
  have "callable ?c (w_d ?w)" "my_flag ?c (w_d ?w)" "ds_tokenpos (w_d ?w) = None" "group_of (w_d ?w) = g2"
    using g(6,7) by (auto simp: callable_def my_flag_def turn_world_def sample_lib_def ids)
  then obtain w where w: "get_token_loop turn_env 1 [id, id, id, id, id, id, id] ?l ?w = Inr ([], w)"
    "callable ?c (w_d w)" "has_turn (group_of (w_d w)) 3"
    using get_token_told[of turn_env plain_cfg plain_cfg ?c 0 ?w ?l 1 3] g(8)
    by (auto simp: turn_env_def token_start_def TOKEN_SPIN_MAX_def)
  have "search_for_lowest ?c (group_of (w_d w)) = Inr 3" using s2 w(2,3) by (auto simp: callable_def)
  then show ?thesis
    using g(1-5) s2[OF g(8,7)] w(1) by (auto simp: task_clock_entry_wait_def)
qed

end
