(* ===== verification/Sync_Order.thy ===== *)
theory Sync_Order
  imports Clock_Turns Determ_Clock "HOL-Library.Multiset"
begin

text \<open>
  Determinism. A fixed set of threads runs against the module: each works and reports it with
  \<open>task_clock_add_ticks\<close>, asks the kernel whether it is the
  lowest before it synchronises, and halts at its end; a schedule says who moves. The order of the
  synchronisations is a function of the threads' programs and clocks, the same in every schedule.
\<close>

subsection \<open>Threads as clients of the module\<close>

datatype action = Work nat | Sync

text \<open>\<open>or_progs\<close> is what each thread still has to do, \<open>None\<close> once it has halted; \<open>or_log\<close> lists the
  synchronisations made, with the clocks at which they were made.\<close>

record order_run =
  or_group :: task_clock_group
  or_progs :: "int \<Rightarrow> action list option"
  or_log :: "turn list"

text \<open>
  One move of thread \<open>t\<close>. To synchronise it makes the call behind \<open>determ_task_clock_is_lowest\<close> and reads its flag; when it
  is not the lowest it will ask again, and when it is, its \<open>task_clock_entry_woke_up\<close> belongs to the same move.
\<close>

definition sched_step :: "kconfig \<Rightarrow> (int \<Rightarrow> kctx) \<Rightarrow> int \<Rightarrow> order_run \<Rightarrow> order_run result" where
  "sched_step cfg ctx t s =
     (case or_progs s t of
        None \<Rightarrow> Inr s
      | Some [] \<Rightarrow> bindR (handle cfg (ctx t) KHalt (or_group s)) (\<lambda>g.
          Inr (s\<lparr>or_group := g, or_progs := (or_progs s)(t := None)\<rparr>))
      | Some (Work n # as) \<Rightarrow> bindR (handle cfg (ctx t) (KAddTicks (int n)) (or_group s)) (\<lambda>g.
          Inr (s\<lparr>or_group := g, or_progs := (or_progs s)(t := Some as)\<rparr>))
      | Some (Sync # as) \<Rightarrow> bindR (handle cfg (ctx t) KWait (or_group s)) (\<lambda>g.
          if us_lowest_clock (tg_user_status g t)
          then bindR (handle cfg (ctx t) KWokeUp g) (\<lambda>g'.
            Inr (s\<lparr>or_group := g', or_progs := (or_progs s)(t := Some as),
                   or_log := or_log s @ [turn_of g t]\<rparr>))
          else Inr (s\<lparr>or_group := g\<rparr>)))"

fun sched_run :: "kconfig \<Rightarrow> (int \<Rightarrow> kctx) \<Rightarrow> int list \<Rightarrow> order_run \<Rightarrow> order_run result" where
  "sched_run cfg ctx [] s = Inr s"
| "sched_run cfg ctx (t # ts) s = bindR (sched_step cfg ctx t s) (sched_run cfg ctx ts)"

lemma sched_run_append: "sched_run cfg ctx (us @ vs) s = bindR (sched_run cfg ctx us s) (sched_run cfg ctx vs)"
proof (induction us arbitrary: s)
  case (Cons u us)
  then show ?case by (cases "sched_step cfg ctx u s") auto
qed simp

subsection \<open>The synchronisations of a program\<close>

text \<open>The clocks at which a program synchronises when it starts at clock \<open>c\<close>.\<close>

fun sync_points :: "u64 \<Rightarrow> action list \<Rightarrow> u64 list" where
  "sync_points c [] = []"
| "sync_points c (Work n # as) = sync_points (c + word_of_nat n) as"
| "sync_points c (Sync # as) = c # sync_points c as"

definition thread_syncs :: "task_clock_group \<Rightarrow> (int \<Rightarrow> action list option) \<Rightarrow> int \<Rightarrow> turn list" where
  "thread_syncs g P t = (case P t of None \<Rightarrow> [] | Some as \<Rightarrow>
     map (\<lambda>c. Turn c t) (sync_points (get_clock_ticks g t) as))"

definition all_syncs :: "int list \<Rightarrow> task_clock_group \<Rightarrow> (int \<Rightarrow> action list option) \<Rightarrow> turn list" where
  "all_syncs ts g P = concat (map (thread_syncs g P) ts)"

text \<open>Programs whose clocks do not wrap, with work that fits the argument of the call.\<close>

fun total_work :: "action list \<Rightarrow> nat" where
  "total_work [] = 0"
| "total_work (Work n # as) = n + total_work as"
| "total_work (Sync # as) = total_work as"

definition fits :: "u64 \<Rightarrow> action list \<Rightarrow> bool" where
  "fits c as \<longleftrightarrow> unat c + total_work as < 2 ^ 64 \<and> (\<forall>n. Work n \<in> set as \<longrightarrow> n < 2 ^ 31)"

lemma fits_work:
  assumes "fits c (Work n # as)"
  shows "fits (c + word_of_nat n) as" "c \<le> c + word_of_nat n"
proof -
  have "unat c + n < 2 ^ 64" using assms by (simp add: fits_def)
  then have "unat (c + word_of_nat n) = unat c + n" by (simp add: unat_word_ariths unat_of_nat)
  then show "fits (c + word_of_nat n) as" "c \<le> c + word_of_nat n"
    using assms by (simp_all add: fits_def word_le_nat_alt)
qed

lemma fits_sync: "fits c (Sync # as) \<Longrightarrow> fits c as"
  by (simp add: fits_def)

lemma sync_points_ge: "fits c as \<Longrightarrow> c' \<in> set (sync_points c as) \<Longrightarrow> c \<le> c'"
proof (induction c as rule: sync_points.induct)
  case (2 c n as)
  then show ?case using fits_work[OF 2(2)] by fastforce
qed (auto dest: fits_sync)

lemma thread_syncs_ge:
  assumes "P t = Some as" "fits (get_clock_ticks g t) as" "k \<in> set (thread_syncs g P t)"
  shows "turn_of g t \<le> k"
proof -
  obtain c where c: "c \<in> set (sync_points (get_clock_ticks g t) as)" "k = Turn c t"
    using assms(1,3) by (auto simp: thread_syncs_def)
  from sync_points_ge[OF assms(2) c(1)] show ?thesis
    by (auto simp: c(2) turn_of_def less_eq_turn_def)
qed

lemma concat_map_first:
  assumes "distinct ts" "t \<in> set ts" "f t = k # f' t" "\<And>u. u \<in> set ts \<Longrightarrow> u \<noteq> t \<Longrightarrow> f' u = f u"
  shows "mset (concat (map f ts)) = add_mset k (mset (concat (map f' ts)))"
  using assms
proof (induction ts)
  case (Cons u ts)
  show ?case
  proof (cases "u = t")
    case True
    then have e: "map f' ts = map f ts" using Cons.prems by (intro map_cong) auto
    show ?thesis using True Cons.prems(3) by (simp only: list.map concat.simps e) simp
  next
    case False
    then have "f' u = f u" using Cons.prems(4) by simp
    then show ?thesis using False Cons by simp
  qed
qed simp

subsection \<open>The invariant of a schedule\<close>

text \<open>\<open>ys\<close> are the threads that have not halted.\<close>

definition run_ok :: "(int \<Rightarrow> kctx) \<Rightarrow> int list \<Rightarrow> int list \<Rightarrow> order_run \<Rightarrow> bool" where
  "run_ok ctx ts ys s \<longleftrightarrow> group_ok (or_group s) \<and> distinct ts \<and>
     (\<forall>t \<in> set ts. cur_tid (ctx t) = t \<and> wf_call (ctx t) (or_group s) ys) \<and>
     set ys = {t. or_progs s t \<noteq> None} \<and> set ys \<subseteq> set ts \<and>
     (\<forall>t as. or_progs s t = Some as \<longrightarrow> fits (get_clock_ticks (or_group s) t) as)"

text \<open>What a move of thread \<open>t\<close> does: it takes an action off its program, or it finds that it is not the lowest.\<close>

fun plen :: "action list option \<Rightarrow> nat" where
  "plen None = 0"
| "plen (Some as) = Suc (length as)"

definition moved :: "int list \<Rightarrow> int \<Rightarrow> order_run \<Rightarrow> order_run \<Rightarrow> bool" where
  "moved ys t s s' \<longleftrightarrow>
     (\<exists>p. or_progs s' = (or_progs s)(t := p) \<and> plen p < plen (or_progs s t)) \<or>
     or_progs s' = or_progs s \<and> (\<forall>i. get_clock_ticks (or_group s') i = get_clock_ticks (or_group s) i) \<and>
       (t \<in> set ys \<longrightarrow> (\<exists>u \<in> set ys. turn_of (or_group s) u < turn_of (or_group s) t))"

text \<open>What is logged is sorted, comes before everything left, and both make up the whole.\<close>

definition ordered :: "int list \<Rightarrow> turn list \<Rightarrow> order_run \<Rightarrow> bool" where
  "ordered ts whole s \<longleftrightarrow> sorted (or_log s) \<and>
     (\<forall>k \<in> set (or_log s). \<forall>k' \<in> set (all_syncs ts (or_group s) (or_progs s)). k \<le> k') \<and>
     mset (or_log s) + mset (all_syncs ts (or_group s) (or_progs s)) = mset whole"

lemma wf_call_frame:
  assumes "wf_call c g ys" "only {t} g g'" "cur_tid c \<noteq> t" "la_abs (tg_active_threads g') ys'"
    and "set ys' \<subseteq> set ys" "set ys - {t} \<subseteq> set ys'" "tg_user_status_mapped g'"
  shows "wf_call c g' ys'"
proof -
  have "sched_key (tg_clocks g' (cur_tid c)) = sched_key (tg_clocks g (cur_tid c))"
    using assms(2,3) by (simp add: only_def)
  then show ?thesis using assms by (auto simp: wf_call_def sched_key_def)
qed

lemma run_ok_advance:
  assumes ok: "run_ok ctx ts ys s" and t: "t \<in> set ts"
    and g': "only {t} (or_group s) g'" "group_ok g'" "wf_call (ctx t) g' ys'"
    and ys': "set ys' = (if p = None then set ys - {t} else insert t (set ys))" "t \<in> set ys"
    and fit: "\<And>as. p = Some as \<Longrightarrow> fits (get_clock_ticks g' t) as"
  shows "run_ok ctx ts ys' (s\<lparr>or_group := g', or_progs := (or_progs s)(t := p), or_log := l\<rparr>)"
proof -
  have "wf_call (ctx u) g' ys'" if "u \<in> set ts" for u
  proof (cases "u = t")
    case False
    show ?thesis
      by (rule wf_call_frame[OF _ g'(1)]) (use ok that False g'(3) ys' in \<open>auto simp: run_ok_def wf_call_def split: if_splits\<close>)
  qed (use g'(3) in simp)
  moreover have "fits (get_clock_ticks g' u) as" if "((or_progs s)(t := p)) u = Some as" for u as
    using that ok fit onlyD(1)[OF g'(1), of u] by (auto simp: run_ok_def split: if_splits)
  ultimately show ?thesis
    using ok g'(2) ys' t unfolding run_ok_def by (auto split: if_splits)
qed

lemma all_syncs_same:
  assumes "only {t} g g'" "thread_syncs g' (P(t := p)) t = thread_syncs g P t"
  shows "all_syncs ts g' (P(t := p)) = all_syncs ts g P"
proof -
  have "thread_syncs g' (P(t := p)) u = thread_syncs g P u" for u
  proof (cases "u = t")
    case False
    then show ?thesis using onlyD(1)[OF assms(1), of u] by (cases "P u") (simp_all add: thread_syncs_def)
  qed (use assms(2) in simp)
  then show ?thesis by (simp add: all_syncs_def cong: map_cong)
qed

lemma ordered_same:
  assumes "ordered ts whole s" "all_syncs ts g' P' = all_syncs ts (or_group s) (or_progs s)"
  shows "ordered ts whole (s\<lparr>or_group := g', or_progs := P'\<rparr>)"
  using assms by (simp add: ordered_def)

lemma run_okD:
  assumes "run_ok ctx ts ys s" "or_progs s t = Some as"
  shows "t \<in> set ts" "t \<in> set ys" "cur_tid (ctx t) = t" "wf_call (ctx t) (or_group s) ys" "group_ok (or_group s)"
    "fits (get_clock_ticks (or_group s) t) as"
proof -
  show ys: "t \<in> set ys" using assms by (auto simp: run_ok_def)
  then show "t \<in> set ts" "cur_tid (ctx t) = t" "wf_call (ctx t) (or_group s) ys" "group_ok (or_group s)"
    "fits (get_clock_ticks (or_group s) t) as"
    using assms by (auto simp: run_ok_def)
qed

lemma step_work:
  assumes ok: "run_ok ctx ts ys s" and ord: "ordered ts whole s" and P: "or_progs s t = Some (Work n # as)"
  shows "\<exists>s'. sched_step cfg ctx t s = Inr s' \<and> run_ok ctx ts ys s' \<and> ordered ts whole s' \<and> moved ys t s s'"
proof -
  let ?g = "or_group s"
  note D = run_okD[OF ok P]
  obtain g' where g': "handle cfg (ctx t) (KAddTicks (int n)) ?g = Inr g'" "wf_call (ctx t) g' ys"
    "get_clock_ticks g' t = get_clock_ticks ?g t + word_of_nat n"
    using kmod.add_ok[OF D(4), of cfg undefined "int n"] D(3)
    by (auto simp: module_kernel_def bindR_Inr_iff simp del: handle.simps)
  have only: "only {t} ?g g'" using only_handle[OF D(5) g'(1)] D(3) by simp
  have fit: "fits (get_clock_ticks g' t) as" using fits_work(1)[OF D(6)] g'(3) by simp
  let ?s = "s\<lparr>or_group := g', or_progs := (or_progs s)(t := Some as)\<rparr>"
  have "run_ok ctx ts ys ?s"
    using run_ok_advance[OF ok D(1) only handle_group_ok[OF D(5) g'(1)] g'(2), of "Some as" "or_log s"] D(2) fit
    by (auto simp: insert_absorb)
  moreover have "ordered ts whole ?s"
    by (rule ordered_same[OF ord all_syncs_same[OF only]]) (simp add: thread_syncs_def P g'(3))
  moreover have "sched_step cfg ctx t s = Inr ?s" using P g'(1) by (simp add: sched_step_def del: handle.simps)
  moreover have "moved ys t s ?s" unfolding moved_def using P by (intro disjI1) auto
  ultimately show ?thesis by blast
qed

lemma step_halt:
  assumes ok: "run_ok ctx ts ys s" and ord: "ordered ts whole s" and P: "or_progs s t = Some []"
  shows "\<exists>s'. sched_step cfg ctx t s = Inr s' \<and> run_ok ctx ts (remove1 t ys) s' \<and> ordered ts whole s' \<and> moved ys t s s'"
proof -
  let ?g = "or_group s"
  note D = run_okD[OF ok P]
  have c: "cur_tid (ctx t) \<in> set ys" using D(2,3) by simp
  obtain w h low where "task_clock_entry_halt cfg (ctx t) ?g = wake_if_found (w, h)"
    "\<forall>l. lowest_of ?g {i \<in> set ys - {cur_tid (ctx t)}. candidate ?g i} l \<longleftrightarrow> l = low" "low \<noteq> cur_tid (ctx t)"
    "la_abs (tg_active_threads h) (remove1 (cur_tid (ctx t)) ys)" "tg_user_status_mapped h"
    "ce_inactive (tg_clocks h (cur_tid (ctx t)))" "\<not> ce_waiting (tg_clocks h (cur_tid (ctx t)))"
    "\<not> us_lowest_clock (tg_user_status h (cur_tid (ctx t)))" "tg_clocks h low = tg_clocks ?g low"
    "w = -1 \<longrightarrow> tg_lowest_tid ?g = cur_tid (ctx t) \<longrightarrow> low \<noteq> -1 \<longrightarrow> \<not> ce_waiting (tg_clocks ?g low)"
    "w \<noteq> -1 \<longrightarrow> w = low \<and> 0 \<le> low \<and> tg_lowest_tid h = low"
    by (rule halt_decides[OF D(4) c, of cfg])
  then have h: "task_clock_entry_halt cfg (ctx t) ?g = wake_if_found (w, h)"
    "la_abs (tg_active_threads h) (remove1 t ys)" "tg_user_status_mapped h" "ce_inactive (tg_clocks h t)"
    "w \<noteq> -1 \<longrightarrow> w = low \<and> 0 \<le> low \<and> tg_lowest_tid h = low"
    unfolding D(3) by blast+
  have "distinct ys" using la.repr_ok D(4) by (auto simp: wf_call_def)
  then have "set (remove1 t ys) = set ys - {t}" by simp
  then have wf: "wf_call (ctx t) h (remove1 t ys)" using D(3,4) h by (auto simp: wf_call_def)
  have "\<exists>g'. wake_if_found (w, h) = Inr g'"
    using h(3,5) by (auto simp: wake_if_found_def wake_up_waiting_thread_def)
  then obtain g' where g': "handle cfg (ctx t) KHalt ?g = Inr g'" "wake_if_found (w, h) = Inr g'"
    using h(1) by auto
  have only: "only {t} ?g g'" using only_handle[OF D(5) g'(1)] D(3) by simp
  let ?s = "s\<lparr>or_group := g', or_progs := (or_progs s)(t := None)\<rparr>"
  have "run_ok ctx ts (remove1 t ys) ?s"
    using run_ok_advance[OF ok D(1) only handle_group_ok[OF D(5) g'(1)] wake_if_found_wf_call[OF g'(2) wf],
        of None "or_log s"] D(2) \<open>set (remove1 t ys) = set ys - {t}\<close> by simp
  moreover have "ordered ts whole ?s"
    by (rule ordered_same[OF ord all_syncs_same[OF only]]) (simp add: thread_syncs_def P)
  moreover have "sched_step cfg ctx t s = Inr ?s" using P g'(1) by (simp add: sched_step_def del: handle.simps)
  moreover have "moved ys t s ?s" unfolding moved_def using P by (intro disjI1) auto
  ultimately show ?thesis by blast
qed

lemma syncs_behind:
  assumes ok: "run_ok ctx ts ys s" and low: "lowest_of (or_group s) {i \<in> set ys. candidate (or_group s) i} t"
    and t: "t \<in> set ys" and k: "k \<in> set (all_syncs ts (or_group s) (or_progs s))"
  shows "turn_of (or_group s) t \<le> k"
proof -
  obtain u where "k \<in> set (thread_syncs (or_group s) (or_progs s) u)"
    using k by (auto simp: all_syncs_def)
  then obtain as where u: "k \<in> set (thread_syncs (or_group s) (or_progs s) u)" "or_progs s u = Some as"
    by (cases "or_progs s u") (simp_all add: thread_syncs_def)
  note D = run_okD[OF ok u(2)]
  have "0 \<le> t" using D(4) t la_abs_nonneg[of "tg_active_threads (or_group s)" ys] by (simp add: wf_call_def)
  then have "t \<noteq> -1" by simp
  have "candidate (or_group s) u" using D(2,3,4) by (simp add: candidate_def wf_call_def)
  then have "turn_of (or_group s) t \<le> turn_of (or_group s) u"
    using low D(2) unfolding lowest_of_turn[OF \<open>t \<noteq> -1\<close>] by simp
  with thread_syncs_ge[OF u(2) D(6) u(1)] show ?thesis by simp
qed

lemma not_lowest:
  assumes ok: "run_ok ctx ts ys s" and low: "lowest_of (or_group s) {i \<in> set ys. candidate (or_group s) i} low"
    and t: "t \<in> set ys" "low \<noteq> t"
  shows "\<exists>u \<in> set ys. turn_of (or_group s) u < turn_of (or_group s) t"
proof -
  obtain as where "or_progs s t = Some as" using ok t(1) by (auto simp: run_ok_def)
  note D = run_okD[OF ok this]
  have c: "candidate (or_group s) t" using D(2,3,4) by (simp add: candidate_def wf_call_def)
  have "-1 \<notin> set ys" using D(4) la_abs_nonneg[of "tg_active_threads (or_group s)" ys] by (auto simp: wf_call_def)
  then have ne: "low \<noteq> -1" using low t(1) c by (auto simp: lowest_of_def)
  have l: "low \<in> set ys" "turn_of (or_group s) low \<le> turn_of (or_group s) t"
    using low c t(1) unfolding lowest_of_turn[OF ne] by auto
  moreover have "turn_of (or_group s) low \<noteq> turn_of (or_group s) t" using t(2) by (simp add: turn_of_def)
  ultimately have "turn_of (or_group s) low < turn_of (or_group s) t" by order
  with l(1) show ?thesis by blast
qed

lemma ordered_sync:
  assumes ord: "ordered ts whole s" and dist: "distinct ts" and t: "t \<in> set ts"
    and P: "or_progs s t = Some (Sync # as)" and only: "only {t} (or_group s) g'"
    and same: "get_clock_ticks g' t = get_clock_ticks (or_group s) t"
    and least: "\<And>k. k \<in> set (all_syncs ts (or_group s) (or_progs s)) \<Longrightarrow> turn_of (or_group s) t \<le> k"
  shows "ordered ts whole (s\<lparr>or_group := g', or_progs := (or_progs s)(t := Some as),
    or_log := or_log s @ [turn_of (or_group s) t]\<rparr>)"
proof -
  let ?k = "turn_of (or_group s) t" and ?P = "(or_progs s)(t := Some as)"
  have "thread_syncs g' ?P u = thread_syncs (or_group s) (or_progs s) u" if "u \<noteq> t" for u
    using that onlyD(1)[OF only, of u] by (cases "or_progs s u") (simp_all add: thread_syncs_def)
  moreover have "thread_syncs (or_group s) (or_progs s) t = ?k # thread_syncs g' ?P t"
    by (simp add: thread_syncs_def P same turn_of_def)
  ultimately have m: "mset (all_syncs ts (or_group s) (or_progs s)) = add_mset ?k (mset (all_syncs ts g' ?P))"
    unfolding all_syncs_def by (intro concat_map_first[OF dist t]) simp_all
  then have "set (all_syncs ts (or_group s) (or_progs s)) = insert ?k (set (all_syncs ts g' ?P))"
    by (metis set_mset_add_mset_insert set_mset_mset)
  with ord least m show ?thesis by (auto simp: ordered_def sorted_append)
qed

lemma step_sync:
  assumes ok: "run_ok ctx ts ys s" and ord: "ordered ts whole s" and P: "or_progs s t = Some (Sync # as)"
  shows "\<exists>s'. sched_step cfg ctx t s = Inr s' \<and> run_ok ctx ts ys s' \<and> ordered ts whole s' \<and> moved ys t s s'"
proof -
  let ?g = "or_group s"
  note D = run_okD[OF ok P]
  obtain low where low: "lowest_of ?g {i \<in> set ys. candidate ?g i} low"
    using lowest_of_exists D(4) by (auto simp: wf_call_def)
  obtain g1 where g1: "handle cfg (ctx t) KWait ?g = Inr g1" "decide_and_wake cfg (ctx t) ?g = Inr g1"
    "decided_woken (ctx t) ?g low g1"
    using decide_and_wake_ok[OF D(4) low, of cfg] by (auto simp: task_clock_entry_wait_def)
  have only: "only {t} ?g g1" using only_handle[OF D(5) g1(1)] D(3) by simp
  have gok: "group_ok g1" using handle_group_ok[OF D(5) g1(1)] .
  have wf: "wf_call (ctx t) g1 ys" using decide_and_wake_wf_call[OF D(4) g1(2)] .
  have ticks: "get_clock_ticks g1 t = get_clock_ticks ?g t"
    and flag: "us_lowest_clock (tg_user_status g1 t) \<longleftrightarrow> low = t"
    using g1(3) D(3) by (auto simp: decided_woken_def)
  show ?thesis
  proof (cases "low = t")
    case False
    let ?s = "s\<lparr>or_group := g1, or_progs := (or_progs s)(t := Some (Sync # as))\<rparr>"
    have "run_ok ctx ts ys ?s"
      using run_ok_advance[OF ok D(1) only gok wf, of "Some (Sync # as)" "or_log s"] D(2,6) ticks
      by (auto simp: insert_absorb)
    moreover have "ordered ts whole ?s"
      by (rule ordered_same[OF ord all_syncs_same[OF only]]) (simp add: thread_syncs_def P ticks)
    moreover have "?s = s\<lparr>or_group := g1\<rparr>" using P by (simp add: fun_upd_idem)
    then have "sched_step cfg ctx t s = Inr ?s"
      using P g1(1) flag False by (simp add: sched_step_def del: handle.simps)
    moreover have "moved ys t s ?s"
      using g1(3) P not_lowest[OF ok low D(2) False] unfolding moved_def decided_woken_def by (intro disjI2) auto
    ultimately show ?thesis by blast
  next
    case True
    let ?g' = "task_clock_entry_woke_up (ctx t) g1"
    have h: "handle cfg (ctx t) KWokeUp g1 = Inr ?g'" by simp
    have wf': "wf_call (ctx t) ?g' ys" using wf by (simp add: task_clock_entry_woke_up_def wf_call_def)
    have only': "only {t} ?g ?g'" using only_trans[OF only] only_handle[OF gok h] D(3) by simp
    have ticks': "get_clock_ticks ?g' t = get_clock_ticks ?g t"
      using ticks by (simp add: task_clock_entry_woke_up_def get_clock_ticks_def)
    let ?s = "s\<lparr>or_group := ?g', or_progs := (or_progs s)(t := Some as), or_log := or_log s @ [turn_of ?g t]\<rparr>"
    have "run_ok ctx ts ys ?s"
      by (rule run_ok_advance[OF ok D(1) only' handle_group_ok[OF gok h] wf'])
        (use D(2) fits_sync[OF D(6)] ticks' in \<open>auto simp: insert_absorb\<close>)
    moreover have "distinct ts" using ok by (simp add: run_ok_def)
    then have "ordered ts whole ?s"
      using ordered_sync[OF ord _ D(1) P only' ticks'] syncs_behind[OF ok _ D(2)] low True by blast
    moreover have "turn_of g1 t = turn_of ?g t" using ticks by (simp add: turn_of_def)
    then have "sched_step cfg ctx t s = Inr ?s"
      using P g1(1) h flag True by (simp add: sched_step_def del: handle.simps)
    moreover have "moved ys t s ?s" unfolding moved_def using P by (intro disjI1) auto
    ultimately show ?thesis by blast
  qed
qed

lemma step_ok:
  assumes "run_ok ctx ts ys s" "ordered ts whole s"
  shows "\<exists>s' ys'. sched_step cfg ctx t s = Inr s' \<and> run_ok ctx ts ys' s' \<and> ordered ts whole s' \<and> moved ys t s s'"
proof (cases "or_progs s t")
  case None
  then have "moved ys t s s" using assms(1) by (auto simp: moved_def run_ok_def)
  then show ?thesis using assms None by (auto simp: sched_step_def)
next
  case (Some p)
  show ?thesis
  proof (cases p)
    case Nil
    then show ?thesis using step_halt[OF assms] Some by blast
  next
    case (Cons a as)
    then show ?thesis using step_work[OF assms] step_sync[OF assms] Some by (cases a) blast+
  qed
qed

lemma run_steps:
  assumes "run_ok ctx ts ys s" "ordered ts whole s"
  shows "\<exists>s' ys'. sched_run cfg ctx sched s = Inr s' \<and> run_ok ctx ts ys' s' \<and> ordered ts whole s'"
  using assms
proof (induction sched arbitrary: ys s)
  case (Cons t sched)
  obtain s1 ys1 where "sched_step cfg ctx t s = Inr s1" "run_ok ctx ts ys1 s1" "ordered ts whole s1"
    using step_ok[OF Cons.prems] by blast
  with Cons.IH[of ys1 s1] show ?case by auto
qed auto

subsection \<open>Fair schedules\<close>

text \<open>How much is left to do, and that every round in which all threads move does some of it.\<close>

definition left :: "int list \<Rightarrow> order_run \<Rightarrow> nat" where
  "left ts s = (\<Sum>t \<in> set ts. plen (or_progs s t))"

lemma moved_left:
  assumes "moved ys t s s'" "t \<in> set ts"
  shows "left ts s' < left ts s \<or> or_progs s' = or_progs s \<and>
    (\<forall>i. get_clock_ticks (or_group s') i = get_clock_ticks (or_group s) i)"
proof (cases "\<exists>p. or_progs s' = (or_progs s)(t := p) \<and> plen p < plen (or_progs s t)")
  case True
  then have "left ts s' < left ts s"
    unfolding left_def using assms(2) by (intro sum_strict_mono_ex1) auto
  then show ?thesis ..
qed (use assms(1) in \<open>auto simp: moved_def\<close>)

lemma run_round:
  assumes "run_ok ctx ts ys s" "ordered ts whole s" "set us \<subseteq> set ts"
  shows "\<exists>s' ys'. sched_run cfg ctx us s = Inr s' \<and> run_ok ctx ts ys' s' \<and> ordered ts whole s' \<and>
    (left ts s' < left ts s \<or> left ts s' = left ts s \<and>
       (\<forall>t \<in> set us. t \<in> set ys \<longrightarrow> (\<exists>u \<in> set ys. turn_of (or_group s) u < turn_of (or_group s) t)))"
  using assms
proof (induction us arbitrary: ys s)
  case (Cons t us)
  obtain s1 ys1 where 1: "sched_step cfg ctx t s = Inr s1" "run_ok ctx ts ys1 s1" "ordered ts whole s1" "moved ys t s s1"
    using step_ok[OF Cons.prems(1,2)] by blast
  obtain s2 ys2 where 2: "sched_run cfg ctx us s1 = Inr s2" "run_ok ctx ts ys2 s2" "ordered ts whole s2"
    "left ts s2 < left ts s1 \<or> left ts s2 = left ts s1 \<and>
       (\<forall>t \<in> set us. t \<in> set ys1 \<longrightarrow> (\<exists>u \<in> set ys1. turn_of (or_group s1) u < turn_of (or_group s1) t))"
    using Cons.IH[OF 1(2,3)] Cons.prems(3) by auto
  have "t \<in> set ts" using Cons.prems(3) by simp
  from moved_left[OF 1(4) this] have "left ts s2 < left ts s \<or> left ts s2 = left ts s \<and>
      (\<forall>t \<in> set (t # us). t \<in> set ys \<longrightarrow> (\<exists>u \<in> set ys. turn_of (or_group s) u < turn_of (or_group s) t))"
  proof
    assume "left ts s1 < left ts s"
    then show ?thesis using 2(4) by auto
  next
    assume same: "or_progs s1 = or_progs s \<and> (\<forall>i. get_clock_ticks (or_group s1) i = get_clock_ticks (or_group s) i)"
    then have "set ys1 = set ys" "left ts s1 = left ts s" "\<And>i. turn_of (or_group s1) i = turn_of (or_group s) i"
      using Cons.prems(1) 1(2) by (simp_all add: run_ok_def left_def turn_of_def)
    moreover have "t \<in> set ys \<longrightarrow> (\<exists>u \<in> set ys. turn_of (or_group s) u < turn_of (or_group s) t)"
      using 1(4) same unfolding moved_def by (metis fun_upd_same less_irrefl)
    ultimately show ?thesis using 2(4) by auto
  qed
  with 1(1) 2(1-3) show ?case by auto
qed auto

lemma least_turn:
  assumes "set ys \<noteq> {}" shows "\<exists>t \<in> set ys. \<forall>u \<in> set ys. \<not> turn_of g u < turn_of g t"
proof -
  let ?m = "Min (turn_of g ` set ys)"
  have "?m \<in> turn_of g ` set ys" using assms by (intro Min_in) auto
  then obtain t where "t \<in> set ys" "turn_of g t = ?m" by auto
  then show ?thesis by (auto simp: not_less intro!: bexI[of _ t])
qed

lemma run_rounds:
  assumes "run_ok ctx ts ys s" "ordered ts whole s" "\<forall>r \<in> set rounds. set r = set ts" "left ts s \<le> length rounds"
  shows "\<exists>s' ys'. sched_run cfg ctx (concat rounds) s = Inr s' \<and> run_ok ctx ts ys' s' \<and> ordered ts whole s' \<and>
    (\<forall>t. or_progs s' t = None)"
  using assms
proof (induction rounds arbitrary: ys s)
  case Nil
  then have "plen (or_progs s t) = 0" if "t \<in> set ts" for t using that by (simp add: left_def)
  then have "or_progs s t = None" if "t \<in> set ts" for t using that by (cases "or_progs s t") fastforce+
  then have "\<forall>t. or_progs s t = None" using Nil(1) by (auto simp: run_ok_def)
  then show ?case using Nil by auto
next
  case (Cons r rounds)
  obtain s1 ys1 where 1: "sched_run cfg ctx r s = Inr s1" "run_ok ctx ts ys1 s1" "ordered ts whole s1"
    "left ts s1 < left ts s \<or> left ts s1 = left ts s \<and>
       (\<forall>t \<in> set r. t \<in> set ys \<longrightarrow> (\<exists>u \<in> set ys. turn_of (or_group s) u < turn_of (or_group s) t))"
    using run_round[OF Cons.prems(1,2), where us = r and cfg = cfg] Cons.prems(3)
    by (metis list.set_intros(1) order_refl)
  have "left ts s1 \<le> length rounds"
  proof (cases "set ys = {}")
    case True
    then have "left ts s = 0" using Cons.prems(1) by (auto simp: run_ok_def left_def)
    then show ?thesis using 1(4) by auto
  next
    case False
    have "set ys \<subseteq> set ts" using Cons.prems(1) unfolding run_ok_def by blast
    then have "set ys \<subseteq> set r" using Cons.prems(3) by simp
    with least_turn[OF False, of "or_group s"] 1(4) have "left ts s1 < left ts s" by blast
    then show ?thesis using Cons.prems(4) by simp
  qed
  with Cons.IH[OF 1(2,3)] Cons.prems(3) obtain s2 ys2 where "sched_run cfg ctx (concat rounds) s1 = Inr s2"
    "run_ok ctx ts ys2 s2" "ordered ts whole s2" "\<forall>t. or_progs s2 t = None" by auto
  then show ?case using 1(1) sched_run_append[of cfg ctx r "concat rounds" s] by auto
qed

subsection \<open>The order does not depend on the schedule\<close>

text \<open>What the programs and the initial clocks fix: their synchronisation points, in the order of the turns.\<close>

definition sync_order :: "task_clock_group \<Rightarrow> (int \<Rightarrow> action list) \<Rightarrow> int list \<Rightarrow> turn list" where
  "sync_order g prog ts =
     sort (concat (map (\<lambda>t. map (\<lambda>c. Turn c t) (sync_points (get_clock_ticks g t) (prog t))) ts))"

definition run_start :: "task_clock_group \<Rightarrow> (int \<Rightarrow> action list) \<Rightarrow> int list \<Rightarrow> order_run" where
  "run_start g prog ts =
     \<lparr>or_group = g, or_progs = (\<lambda>t. if t \<in> set ts then Some (prog t) else None), or_log = []\<rparr>"

definition clients_ok :: "task_clock_group \<Rightarrow> (int \<Rightarrow> kctx) \<Rightarrow> (int \<Rightarrow> action list) \<Rightarrow> int list \<Rightarrow> bool" where
  "clients_ok g ctx prog ts \<longleftrightarrow> group_ok g \<and> distinct ts \<and>
     (\<forall>t \<in> set ts. cur_tid (ctx t) = t \<and> wf_call (ctx t) g ts \<and> fits (get_clock_ticks g t) (prog t))"

lemma start_ok:
  assumes "clients_ok g ctx prog ts"
  shows "run_ok ctx ts ts (run_start g prog ts)" "ordered ts (sync_order g prog ts) (run_start g prog ts)"
proof -
  show "run_ok ctx ts ts (run_start g prog ts)"
    using assms by (auto simp: run_ok_def clients_ok_def run_start_def split: if_splits)
  show "ordered ts (sync_order g prog ts) (run_start g prog ts)"
    by (simp add: ordered_def run_start_def all_syncs_def thread_syncs_def sync_order_def cong: map_cong)
qed

lemma ordered_prefix:
  assumes "ordered ts (sync_order g prog us) s"
  shows "sync_order g prog us = or_log s @ sort (all_syncs ts (or_group s) (or_progs s))"
proof -
  have "sort (sync_order g prog us) = or_log s @ sort (all_syncs ts (or_group s) (or_progs s))"
    by (rule properties_for_sort) (use assms in \<open>auto simp: ordered_def sorted_append\<close>)
  then show ?thesis by (simp add: sync_order_def sort_key_id_if_sorted)
qed

lemma all_syncs_halted: "\<forall>t. P t = None \<Longrightarrow> all_syncs ts g P = []"
  by (simp add: all_syncs_def thread_syncs_def)



text \<open>
  Threads 0, 1 and 2 of \<open>wait_group\<close> have the clocks 9, 5 and 9. Thread 1 synchronises at 5 and at 9, thread 0
  at 9 and thread 2 at 10.
\<close>

definition order_prog :: "int \<Rightarrow> action list" where
  "order_prog t = (if t = 0 then [Sync] else if t = 1 then [Sync, Work 4, Sync] else [Work 1, Sync])"

lemma wait_group_ticks: "get_clock_ticks wait_group t = (if t = 1 then 5 else 9)"
  by (simp add: wait_group_def sample_defs get_clock_ticks_def)

lemma wait_group_clients: "clients_ok wait_group (\<lambda>t. sample_ctx t False) order_prog [0, 1, 2]"
proof -
  have "\<forall>t \<in> set [0, 1, 2]. cur_tid (sample_ctx t False) = t \<and> wf_call (sample_ctx t False) wait_group [0, 1, 2]"
    using wait_group_wf by (auto simp: sample_ctx_def)
  moreover have "group_ok wait_group"
    using wait_group_wf[of 0] unfolding group_ok_def
    by (auto simp: wait_group_def sample_defs tid_or_none_def wf_call_def)
  ultimately show ?thesis by (auto simp: clients_ok_def wait_group_ticks fits_def order_prog_def)
qed

lemma wait_group_order:
  "sync_order wait_group order_prog [0, 1, 2] = [Turn 5 1, Turn 9 0, Turn 9 1, Turn 10 2]"
  by (simp add: sync_order_def wait_group_ticks order_prog_def less_eq_turn_def)



end
