(* ===== verification/Heap_Memory.thy ===== *)
theory Heap_Memory
  imports Prelude
begin

text \<open>
  Memory as bytes, for the heaps: words of eight bytes in it, ranges of addresses, \<open>memset\<close> and \<open>memcpy\<close>.
\<close>

unbundle bit_operations_syntax

type_synonym bytes = "u64 \<Rightarrow> u8"

lemma unat_u64: "unat (n :: u64) < 2 ^ 64"
  using unsigned_less[of n, where ?'a = nat] by simp

subsection \<open>Ranges of addresses\<close>

text \<open>The \<open>n\<close> addresses from \<open>p\<close> on; they may pass the end of the address space.\<close>

definition region :: "u64 \<Rightarrow> u64 \<Rightarrow> u64 set" where
  "region p n = {a. a - p < n}"

lemma region_empty [simp]: "region p 0 = {}"
  by (simp add: region_def)

lemma region_iff: "a \<in> region p n \<longleftrightarrow> unat (a - p) < unat n"
  by (simp add: region_def word_less_nat_alt)

lemma region_first: "n \<noteq> 0 \<Longrightarrow> p \<in> region p n"
  by (simp add: region_def word_neq_0_conv)

lemma offset_sum:
  assumes "unat (a - (p + k)) < unat m" "unat k + unat m \<le> unat (n :: u64)"
  shows "unat (a - p) = unat (a - (p + k)) + unat (k :: u64)"
proof -
  define x where "x = a - (p + k)"
  have "a - p = x + k" by (simp add: x_def)
  moreover have "unat x + unat k < 2 ^ 64" using assms unat_u64[of n] unfolding x_def by linarith
  ultimately have "unat (a - p) = unat x + unat k" by (simp add: unat_word_ariths)
  then show ?thesis by (simp only: x_def)
qed

lemma region_part: "unat k + unat m \<le> unat n \<Longrightarrow> region (p + k) m \<subseteq> region p n"
  by (auto simp: region_iff offset_sum)

lemma region_split: "unat k + unat m \<le> unat (n :: u64) \<Longrightarrow> region p k \<inter> region (p + k) m = {}"
  by (rule equals0I) (use offset_sum[where p = p and k = k and m = m and n = n] in \<open>fastforce simp: region_iff\<close>)

lemma region_prefix: "unat m \<le> unat n \<Longrightarrow> region p m \<subseteq> region p n"
  using region_part[of 0 m n p] by simp

subsection \<open>Words in memory\<close>

definition load64 :: "bytes \<Rightarrow> u64 \<Rightarrow> u64" where
  "load64 m a = foldr (\<lambda>i w. push_bit (8 * i) (ucast (m (a + of_nat i))) OR w) [0..<8] 0"

definition store64 :: "u64 \<Rightarrow> u64 \<Rightarrow> bytes \<Rightarrow> bytes" where
  "store64 a v m = (\<lambda>x. if x - a < 8 then ucast (drop_bit (8 * unat (x - a)) v) else m x)"

lemma load64_cong: "(\<And>x. x \<in> region a 8 \<Longrightarrow> m x = m' x) \<Longrightarrow> load64 m a = load64 m' a"
  unfolding load64_def by (rule foldr_cong) (auto simp: region_iff unat_of_nat)

lemma bit_byte_of: "bit (ucast (drop_bit n v) :: u8) k \<longleftrightarrow> k < 8 \<and> bit (v :: u64) (n + k)"
  by (auto simp: bit_simps)

lemma load_store_same [simp]: "load64 (store64 a v m) a = v"
proof (rule bit_word_eqI)
  fix n assume "n < LENGTH(64)"
  then have n: "n < 64" by simp
  have b: "store64 a v m (a + of_nat i) = ucast (drop_bit (8 * i) v)" if "i < 8" for i
    using that by (simp add: store64_def word_less_nat_alt unat_of_nat)
  define W where "W is = foldr (\<lambda>i w. push_bit (8 * i) (ucast (store64 a v m (a + of_nat i))) OR w) is (0 :: u64)" for "is"
  have W: "bit (W is) n \<longleftrightarrow> bit v n \<and> n div 8 \<in> set is" if "set is \<subseteq> {..<8}" for "is"
    using that
  proof (induction "is")
    case (Cons i "is")
    have "bit (push_bit (8 * i) (ucast (store64 a v m (a + of_nat i))) :: u64) n \<longleftrightarrow> bit v n \<and> n div 8 = i"
      using Cons.prems n by (auto simp: b bit_simps)
    with Cons show ?case by (auto simp: W_def bit_simps)
  qed (simp add: W_def)
  then have "bit (W [0..<8]) n \<longleftrightarrow> bit v n" using n by (subst W) auto
  then show "bit (load64 (store64 a v m) a) n \<longleftrightarrow> bit v n" by (simp add: W_def load64_def)
qed

lemma store_other: "x \<notin> region a 8 \<Longrightarrow> store64 a v m x = m x"
  by (simp add: store64_def region_def)

lemma load_store_other: "region a 8 \<inter> region b 8 = {} \<Longrightarrow> load64 (store64 b v m) a = load64 m a"
  by (rule load64_cong) (auto intro: store_other)

text \<open>For words at known addresses.\<close>

lemma load_store_away:
  assumes "8 \<le> a - b" "8 \<le> b - a" shows "load64 (store64 b v m) a = load64 m a"
proof (rule load_store_other, rule equals0I)
  fix x assume "x \<in> region a 8 \<inter> region b 8"
  then have x: "unat (x - a) < 8" "unat (x - b) < 8" by (auto simp: region_iff)
  define u v where "u = x - a" and "v = x - b"
  have uv: "a - b = v - u" "b - a = u - v" "unat u < 8" "unat v < 8" using x by (simp_all add: u_def v_def)
  show False
  proof (cases "u \<le> v")
    case True
    then show False using assms(1) uv by (simp add: word_le_nat_alt unat_sub)
  next
    case False
    then have "v \<le> u" by simp
    then show False using assms(2) uv by (simp add: word_le_nat_alt unat_sub)
  qed
qed

lemma store_away: "8 \<le> x - a \<Longrightarrow> store64 a v m x = m x"
  by (rule store_other) (simp add: region_def)

lemma load_upd_away: "8 \<le> a - b \<Longrightarrow> load64 (m(a := v)) b = load64 m b"
  by (rule load64_cong) (auto simp: region_def)

subsection \<open>memset and memcpy\<close>

definition memset :: "u64 \<Rightarrow> u8 \<Rightarrow> u64 \<Rightarrow> bytes \<Rightarrow> bytes" where
  "memset ptr v n bytes = (\<lambda>a. if a - ptr < n then v else bytes a)"

definition memcpy :: "u64 \<Rightarrow> u64 \<Rightarrow> u64 \<Rightarrow> bytes \<Rightarrow> bytes" where
  "memcpy dest src n bytes = (\<lambda>a. if a - dest < n then bytes (src + (a - dest)) else bytes a)"

lemma memset_at: "unat i < unat n \<Longrightarrow> memset ptr v n bytes (ptr + i) = v"
  by (simp add: memset_def word_less_nat_alt)

lemma memcpy_at: "unat i < unat n \<Longrightarrow> memcpy dest src n bytes (dest + i) = bytes (src + i)"
  by (simp add: memcpy_def word_less_nat_alt)

lemma memset_other: "a \<notin> region ptr n \<Longrightarrow> memset ptr v n bytes a = bytes a"
  by (simp add: memset_def region_def)

lemma memcpy_other: "a \<notin> region dest n \<Longrightarrow> memcpy dest src n bytes a = bytes a"
  by (simp add: memcpy_def region_def)

lemma load_memcpy_away:
  assumes "n \<le> a - dest" "8 \<le> dest - a" shows "load64 (memcpy dest src n m) a = load64 m a"
proof (rule load64_cong, rule memcpy_other, rule notI)
  fix x assume x: "x \<in> region a 8" "x \<in> region dest n"
  define u v where "u = x - a" and "v = x - dest"
  have uv: "a - dest = v - u" "dest - a = u - v" "unat u < 8" "unat v < unat n"
    using x by (simp_all add: u_def v_def region_iff)
  show False
  proof (cases "u \<le> v")
    case True
    then show False using assms(1) uv by (simp add: word_le_nat_alt unat_sub)
  next
    case False
    then have "v \<le> u" by simp
    then show False using assms(2) uv by (simp add: word_le_nat_alt unat_sub)
  qed
qed

end
