(* ===== verification/Xheap.thy ===== *)
theory Xheap
  imports Xmemory Heap_Memory
begin

text \<open>
  The bump allocator over the persistent segment (\<open>xheap.h\<close>), which is the source of the chunks of the
  size-class heap of \<open>Heap_Layers\<close>, and the headers that are put in front of objects (\<open>objectheader.h\<close>).
\<close>

subsection \<open>The bump allocator\<close>

record xheap =
  xh_start :: u64
  xh_end :: u64
  xh_position :: u64
  xh_remaining :: u64
  xh_magic :: u64

definition XHEAP_MAGIC :: u64 where "XHEAP_MAGIC = 0xCAFEBABE"

definition xheap_create :: "'m xpersist \<Rightarrow> xheap" where
  "xheap_create p = \<lparr>xh_start = xp_snapMemory p, xh_end = xp_snapMemory p + xp_size p,
     xh_position = xp_snapMemory p, xh_remaining = xp_size p, xh_magic = XHEAP_MAGIC\<rparr>"

definition getend :: "xheap \<Rightarrow> u64" where "getend h = xh_position h"

definition sanityCheck :: "xheap \<Rightarrow> bool" where "sanityCheck h = (xh_magic h = XHEAP_MAGIC)"

definition page_round :: "u64 \<Rightarrow> u64" where
  "page_round sz = PageSize * ((sz + PageSize - 1) div PageSize)"

definition xheap_malloc :: "u64 \<Rightarrow> xheap \<Rightarrow> (u64 \<times> xheap) result" where
  "xheap_malloc sz h =
     (if \<not> sanityCheck h then Inl ExitCalled
      else
        (let sz' = page_round sz in
         if xh_remaining h < sz' then Inl ExitCalled
         else Inr (xh_position h, h\<lparr>xh_remaining := xh_remaining h - sz',
                     xh_position := xh_position h + sz'\<rparr>)))"

definition xheap_free :: "u64 \<Rightarrow> xheap \<Rightarrow> xheap result" where
  "xheap_free p h = (if sanityCheck h then Inr h else Inl ExitCalled)"

definition xheap_getSize :: "u64 \<Rightarrow> xheap \<Rightarrow> u64 result" where
  "xheap_getSize p h = (if sanityCheck h then Inr 0 else Inl ExitCalled)"

subsection \<open>Object headers\<close>

record objectHeader =
  oh_magic :: u64
  oh_size :: u64

definition OBJECT_MAGIC :: u64 where "OBJECT_MAGIC = 0xCAFEBABE"

definition objectHeader_new :: "u64 \<Rightarrow> objectHeader" where
  "objectHeader_new sz = \<lparr>oh_magic = OBJECT_MAGIC, oh_size = sz\<rparr>"

definition object_getSize :: "objectHeader \<Rightarrow> u64 result" where
  "object_getSize x = (if oh_magic x \<noteq> OBJECT_MAGIC then Inl ExitCalled else Inr (oh_size x))"

definition isValidObject :: "objectHeader \<Rightarrow> bool result" where
  "isValidObject x =
     (if oh_magic x \<noteq> OBJECT_MAGIC then Inl ExitCalled else Inr (oh_size x mod 8 = 0))"

definition verifyMagic :: "objectHeader \<Rightarrow> bool" where "verifyMagic x = (oh_magic x = OBJECT_MAGIC)"

definition HEADER_SIZE :: u64 where "HEADER_SIZE = 16"

subsection \<open>Blocks of the bump allocator\<close>

lemma unat_page_sum: "unat (sz + PageSize - 1) = (unat sz + 4095) mod 2 ^ 64"
proof -
  have eq: "sz + PageSize - 1 = sz + 4095" unfolding PageSize_def by simp
  show ?thesis unfolding eq by (simp add: unat_word_ariths)
qed

lemma page_round_small:
  assumes "unat sz \<le> 2 ^ 64 - 4096"
  shows "unat (page_round sz) = 4096 * ((unat sz + 4095) div 4096)"
proof -
  have add: "unat (sz + PageSize - 1) = unat sz + 4095"
  proof -
    have "unat (sz + PageSize - 1) = (unat sz + 4095) mod 2 ^ 64" by (rule unat_page_sum)
    then show ?thesis using assms by simp
  qed
  have "4096 * ((unat sz + 4095) div 4096) \<le> unat sz + 4095" by simp
  also have "\<dots> < 2 ^ 64" using assms by simp
  finally have "4096 * ((unat sz + 4095) div 4096) < 2 ^ 64" .
  then show ?thesis
    unfolding page_round_def by (simp add: unat_word_ariths unat_div add PageSize_def)
qed

lemma page_round_wraps:
  assumes "unat sz > 2 ^ 64 - 4096"
  shows "page_round sz = 0"
proof -
  have lt: "unat sz < 2 ^ 64" using unsigned_less[of sz] by simp
  have "unat (sz + PageSize - 1) = (unat sz + 4095) mod 2 ^ 64" by (rule unat_page_sum)
  also have "\<dots> = unat sz + 4095 - 2 ^ 64" using assms lt by (simp add: mod_if)
  finally have "unat (sz + PageSize - 1) < 4096" using lt by simp
  then have "(sz + PageSize - 1) div PageSize = 0"
    by (intro word_unat_eq_iff[THEN iffD2]) (simp add: unat_div PageSize_def)
  then show ?thesis by (simp add: page_round_def)
qed

definition xheap_inv :: "nat \<Rightarrow> nat \<Rightarrow> xheap \<Rightarrow> bool" where
  "xheap_inv lo hi h \<longleftrightarrow> sanityCheck h \<and> hi < 2 ^ 64 \<and> lo \<le> unat (xh_position h) \<and>
     unat (xh_position h) + unat (xh_remaining h) = hi"

lemma xheap_malloc_inv:
  assumes "xheap_inv lo hi h" and "xheap_malloc sz h = Inr (p, h')"
  shows "p = xh_position h" and "unat (xh_position h') = unat p + unat (page_round sz)"
    and "unat p + unat (page_round sz) \<le> hi" and "lo \<le> unat p" and "xheap_inv lo hi h'"
proof -
  have h': "p = xh_position h" "\<not> xh_remaining h < page_round sz"
    "h' = h\<lparr>xh_remaining := xh_remaining h - page_round sz, xh_position := xh_position h + page_round sz\<rparr>"
    using assms(2) by (auto simp: xheap_malloc_def Let_def split: if_splits)
  have le: "unat (page_round sz) \<le> unat (xh_remaining h)" using h'(2) by (simp add: word_less_nat_alt)
  have rem: "unat (xh_remaining h - page_round sz) = unat (xh_remaining h) - unat (page_round sz)"
    using h'(2) by (simp add: unat_sub not_less)
  have pos: "unat (xh_position h + page_round sz) = unat (xh_position h) + unat (page_round sz)"
    using assms(1) le by (simp add: xheap_inv_def unat_word_ariths)
  show "p = xh_position h" by (rule h')
  show "unat (xh_position h') = unat p + unat (page_round sz)" using h' pos by simp
  show "unat p + unat (page_round sz) \<le> hi" using assms(1) h'(1) le by (simp add: xheap_inv_def)
  show "lo \<le> unat p" using assms(1) h'(1) by (simp add: xheap_inv_def)
  show "xheap_inv lo hi h'"
    using assms(1) h' pos rem le by (simp add: xheap_inv_def sanityCheck_def)
qed

fun xheap_run :: "u64 list \<Rightarrow> xheap \<Rightarrow> (nat list \<times> xheap) result" where
  "xheap_run [] h = Inr ([], h)"
| "xheap_run (sz # szs) h = bindR (xheap_malloc sz h) (\<lambda>(p, h').
     bindR (xheap_run szs h') (\<lambda>(ps, h''). Inr (unat p # ps, h'')))"

lemma xheap_run_inv:
  "xheap_inv lo hi h \<Longrightarrow> xheap_run szs h = Inr (ps, h') \<Longrightarrow> xheap_inv lo hi h'"
  by (induction szs arbitrary: h ps) (auto simp: bindR_Inr_iff dest: xheap_malloc_inv(5))

lemma page_cover:
  "n \<le> 4096 * ((n + 4095) div 4096) \<and> 4096 * ((n + 4095) div 4096) < n + (4096 :: nat)"
  using div_mult_mod_eq[of "n + 4095" 4096] mod_less_divisor[of 4096 "n + 4095"] by linarith

text \<open>What a request gets: the pages that cover it, or none at all when rounding up overflows.\<close>

definition block_size :: "u64 \<Rightarrow> nat" where
  "block_size sz = (if unat sz > 2 ^ 64 - 4096 then 0 else 4096 * ((unat sz + 4095) div 4096))"

lemma unat_page_round: "unat (page_round sz) = block_size sz"
  using page_round_small[of sz] page_round_wraps[of sz] by (simp add: block_size_def)

lemma xheap_run_blocks:
  assumes "xheap_inv lo hi h" and "xheap_run szs h = Inr (ps, h')"
  shows "length ps = length szs \<and>
    (\<forall>i<length ps. unat (xh_position h) \<le> ps ! i \<and> ps ! i + block_size (szs ! i) \<le> hi) \<and>
    (\<forall>j<length ps. \<forall>i<j. ps ! i + block_size (szs ! i) \<le> ps ! j)"
  using assms
proof (induction szs arbitrary: h ps)
  case (Cons sz szs)
  obtain p h1 qs where r: "xheap_malloc sz h = Inr (p, h1)" "xheap_run szs h1 = Inr (qs, h')"
    "ps = unat p # qs" using Cons.prems(2) by (auto simp: bindR_Inr_iff)
  note m = xheap_malloc_inv[OF Cons.prems(1) r(1)]
  have pos: "unat (xh_position h1) = unat p + block_size sz" "unat p + block_size sz \<le> hi"
    using m(2,3) by (simp_all add: unat_page_round)
  from Cons.IH[OF m(5) r(2)]
  have IH: "length qs = length szs" "\<And>i. i < length qs \<Longrightarrow> unat p + block_size sz \<le> qs ! i"
    "\<And>i. i < length qs \<Longrightarrow> qs ! i + block_size (szs ! i) \<le> hi"
    "\<And>i j. j < length qs \<Longrightarrow> i < j \<Longrightarrow> qs ! i + block_size (szs ! i) \<le> qs ! j"
    unfolding pos by auto
  show ?case
  proof (intro conjI allI impI)
    show "length ps = length (sz # szs)" using IH(1) r(3) by simp
    show "unat (xh_position h) \<le> ps ! i" if "i < length ps" for i
      using that r(3) m(1) IH(2)[of "i - 1"] by (cases i) auto
    show "ps ! i + block_size ((sz # szs) ! i) \<le> hi" if "i < length ps" for i
      using that r(3) pos(2) IH(3) by (cases i) auto
    show "ps ! i + block_size ((sz # szs) ! i) \<le> ps ! j" if "j < length ps" "i < j" for i j
      using that r(3) IH(2,4) by (cases i; cases j) auto
  qed
qed simp

text \<open>
  The blocks that a fresh heap hands out lie inside its segment, one behind the other and
  without overlap, whatever the sequence of requests; a request of up to \<open>2 ^ 64 - 4096\<close> bytes
  gets a whole number of pages that holds it. A larger request does not fail: rounding it up to
  pages wraps to zero, and it is answered with a pointer to an empty block, which is where
  the next block starts.
\<close>

theorem xheap_blocks_disjoint:
  assumes "unat (xp_snapMemory p) + unat (xp_size p) < 2 ^ 64"
    and "xheap_run szs (xheap_create p) = Inr (ps, h')"
  shows "length ps = length szs \<and>
    (\<forall>i<length ps. unat (xp_snapMemory p) \<le> ps ! i \<and>
      ps ! i + block_size (szs ! i) \<le> unat (xp_snapMemory p) + unat (xp_size p)) \<and>
    (\<forall>j<length ps. \<forall>i<j. ps ! i + block_size (szs ! i) \<le> ps ! j) \<and>
    (\<forall>sz. if unat sz \<le> 2 ^ 64 - 4096
      then unat sz \<le> block_size sz \<and> block_size sz < unat sz + 4096 \<and> 4096 dvd block_size sz
      else xheap_malloc sz h' = Inr (xh_position h', h'))"
proof -
  have I: "xheap_inv (unat (xp_snapMemory p)) (unat (xp_snapMemory p) + unat (xp_size p)) (xheap_create p)"
    using assms(1) by (simp add: xheap_inv_def xheap_create_def sanityCheck_def)
  have pos: "xh_position (xheap_create p) = xp_snapMemory p" by (simp add: xheap_create_def)
  note B = xheap_run_blocks[OF I assms(2), unfolded pos]
  have c: "sanityCheck h'" using xheap_run_inv[OF I assms(2)] by (simp add: xheap_inv_def)
  have "if unat sz \<le> 2 ^ 64 - 4096
      then unat sz \<le> block_size sz \<and> block_size sz < unat sz + 4096 \<and> 4096 dvd block_size sz
      else xheap_malloc sz h' = Inr (xh_position h', h')" for sz
    using page_cover[of "unat sz"] page_round_wraps[of sz] c
    by (simp add: block_size_def xheap_malloc_def)
  with B show ?thesis by blast
qed

text \<open>Three requests to the heap's segment, the second one of the largest size.\<close>

definition sample_segment :: "unit xpersist" where
  "sample_segment = \<lparr>xp_startaddr = 0, xp_snapMemory = 0x10000000, xp_size = PROTECTEDHEAP_SIZE,
    xp_seg = (), xp_isProtected = False, xp_trans = 0, xp_threadindex = 0\<rparr>"

theorem xheap_blocks_disjoint_witness:
  "\<exists>h. xheap_run [5000, - 1, 1] (xheap_create sample_segment) = Inr ([0x10000000, 0x10002000, 0x10002000], h) \<and>
    (0x10000000 :: nat) + block_size 5000 \<le> 0x10002000"
proof -
  obtain h where h: "xheap_run [5000, - 1, 1] (xheap_create sample_segment) =
      Inr ([0x10000000, 0x10002000, 0x10002000], h)"
    by (simp add: sample_segment_def xheap_create_def xheap_malloc_def sanityCheck_def page_round_def PageSize_def
        PROTECTEDHEAP_SIZE_def)
  have "unat (xp_snapMemory sample_segment) + unat (xp_size sample_segment) < 2 ^ 64" by (simp add: sample_segment_def PROTECTEDHEAP_SIZE_def)
  note T = xheap_blocks_disjoint[OF this h]
  have "\<forall>j<3. \<forall>i<j. [0x10000000, 0x10002000, 0x10002000] ! i + block_size ([5000, - 1, 1] ! i) \<le>
      [0x10000000, 0x10002000, 0x10002000 :: nat] ! j" using T by simp
  then have "[0x10000000, 0x10002000, 0x10002000] ! 0 + block_size ([5000, - 1, 1] ! 0) \<le>
      [0x10000000, 0x10002000, 0x10002000 :: nat] ! 1" by (meson one_less_numeral_iff zero_less_one semiring_norm(77))
  with h show ?thesis by auto
qed

end
