(* ===== verification/Heap_Layers.thy ===== *)
theory Heap_Layers
  imports Xheap
begin

text \<open>
  The size-class heap of \<open>warpheap.h\<close> as its templates put it together from \<open>heaplayers\<close>: \<open>SLList\<close>, \<open>AdaptHeap\<close>,
  \<open>ZoneHeap\<close>, \<open>NewSourceHeap\<close>, \<open>StrictSegHeap\<close> with the size classes of \<open>Kingsley\<close>, \<open>ANSIWrapper\<close>, \<open>PPHeap\<close> and
  \<open>xadaptheap\<close>. All data that the heap keeps in the memory it manages (links, arenas, object headers) is read and written
  there. The source of chunks is an argument.
\<close>

subsection \<open>State\<close>

text \<open>
  A heap: the heads of its free lists by size class, the current and the past arenas, and what it
  counts as held. It works on a source and on the memory, which the heaps share.
\<close>

record kingsley =
  ks_bins :: "int \<Rightarrow> u64"
  ks_current :: u64
  ks_past :: u64
  ks_held :: u64

record 's heap =
  hp_king :: kingsley
  hp_source :: 's
  hp_mem :: bytes

type_synonym 's source = "u64 \<Rightarrow> 's \<Rightarrow> (u64 \<times> 's) result"
type_synonym 's malloc = "u64 \<Rightarrow> 's heap \<Rightarrow> (u64 \<times> 's heap) result"

definition kingsley_new :: kingsley where
  "kingsley_new = \<lparr>ks_bins = \<lambda>c. 0, ks_current = 0, ks_past = 0, ks_held = 0\<rparr>"

definition upd_king :: "(kingsley \<Rightarrow> kingsley) \<Rightarrow> 's heap \<Rightarrow> 's heap" where
  "upd_king f h = h\<lparr>hp_king := f (hp_king h)\<rparr>"

definition write64 :: "u64 \<Rightarrow> u64 \<Rightarrow> 's heap \<Rightarrow> 's heap" where
  "write64 a v h = h\<lparr>hp_mem := store64 a v (hp_mem h)\<rparr>"

definition read64 :: "'s heap \<Rightarrow> u64 \<Rightarrow> u64" where
  "read64 h a = load64 (hp_mem h) a"

subsection \<open>Free lists\<close>

text \<open>An entry is a freed object whose first word is the link; \<open>c\<close> is the size class.\<close>

definition sl_get :: "int \<Rightarrow> 's heap \<Rightarrow> u64 \<times> 's heap" where
  "sl_get c h =
     (let e = ks_bins (hp_king h) c in
      if e = 0 then (0, h)
      else (e, upd_king (\<lambda>k. k\<lparr>ks_bins := (ks_bins k)(c := read64 h e)\<rparr>) h))"

definition sl_insert :: "int \<Rightarrow> u64 \<Rightarrow> 's heap \<Rightarrow> 's heap" where
  "sl_insert c e h =
     upd_king (\<lambda>k. k\<lparr>ks_bins := (ks_bins k)(c := e)\<rparr>) (write64 e (ks_bins (hp_king h) c) h)"

definition adapt_malloc :: "int \<Rightarrow> u64 \<Rightarrow> 's heap \<Rightarrow> u64 \<times> 's heap" where
  "adapt_malloc c sz = sl_get c"

definition adapt_free :: "int \<Rightarrow> u64 \<Rightarrow> 's heap \<Rightarrow> 's heap" where
  "adapt_free = sl_insert"

subsection \<open>Arenas\<close>

text \<open>An arena lies at the start of its chunk: the space that is left, the next arena, the first free byte, a dummy.\<close>

definition ARENA_SIZE :: u64 where "ARENA_SIZE = 32"

definition arena_remaining :: "u64 \<Rightarrow> u64" where "arena_remaining a = a"
definition arena_next :: "u64 \<Rightarrow> u64" where "arena_next a = a + 8"
definition arena_space :: "u64 \<Rightarrow> u64" where "arena_space a = a + 16"

definition arena_new :: "u64 \<Rightarrow> u64 \<Rightarrow> 's heap \<Rightarrow> 's heap" where
  "arena_new a sz h =
     write64 (arena_space a) (a + ARENA_SIZE) (write64 (arena_next a) 0 (write64 (arena_remaining a) sz h))"

definition sizeRemaining :: "u64 \<Rightarrow> 's heap \<Rightarrow> u64" where
  "sizeRemaining a h = read64 h (arena_remaining a)"

definition arena_malloc :: "u64 \<Rightarrow> u64 \<Rightarrow> 's heap \<Rightarrow> u64 \<times> 's heap" where
  "arena_malloc a sz h =
     (if sz > sizeRemaining a h then (0, h)
      else
        (let h1 = write64 (arena_remaining a) (sizeRemaining a h - sz) h;
             ptr = read64 h1 (arena_space a)
         in (ptr, write64 (arena_space a) (ptr + sz) h1)))"

subsection \<open>The zone\<close>

definition zone_align :: "u64 \<Rightarrow> u64" where
  "zone_align sz = (sz + 7) AND NOT 7"

definition retire_arena :: "'s heap \<Rightarrow> 's heap" where
  "retire_arena h =
     (let a = ks_current (hp_king h) in
      if a \<noteq> 0
      then upd_king (\<lambda>k. k\<lparr>ks_past := a, ks_current := 0\<rparr>) (write64 (arena_next a) (ks_past (hp_king h)) h)
      else h)"

definition slowMalloc :: "'s source \<Rightarrow> u64 \<Rightarrow> 's malloc" where
  "slowMalloc src chunk sz h =
     (let h1 = retire_arena h;
          alloc = (if chunk < sz then sz else chunk)
      in bindR (src (ARENA_SIZE + alloc) (hp_source h1)) (\<lambda>(buf, s).
        let h2 = h1\<lparr>hp_source := s\<rparr> in
        if buf = 0 then Inr (0, h2)
        else Inr (arena_malloc buf sz (upd_king (\<lambda>k. k\<lparr>ks_current := buf\<rparr>) (arena_new buf alloc h2)))))"

definition zoneMalloc :: "'s source \<Rightarrow> u64 \<Rightarrow> 's malloc" where
  "zoneMalloc src chunk sz h =
     (let sz' = zone_align sz; a = ks_current (hp_king h) in
      if a \<noteq> 0 \<and> sizeRemaining a h \<ge> sz' then Inr (arena_malloc a sz' h)
      else slowMalloc src chunk sz' h)"

definition zone_free :: "u64 \<Rightarrow> 's heap \<Rightarrow> 's heap" where
  "zone_free ptr h = h"

subsection \<open>Object headers in memory\<close>

definition header_at :: "'s heap \<Rightarrow> u64 \<Rightarrow> objectHeader" where
  "header_at h a = \<lparr>oh_magic = read64 h a, oh_size = read64 h (a + 8)\<rparr>"

definition put_header :: "u64 \<Rightarrow> objectHeader \<Rightarrow> 's heap \<Rightarrow> 's heap" where
  "put_header a x h = write64 a (oh_magic x) (write64 (a + 8) (oh_size x) h)"

definition getObject :: "u64 \<Rightarrow> u64" where "getObject ptr = ptr - HEADER_SIZE"
definition getPointer :: "u64 \<Rightarrow> u64" where "getPointer a = a + HEADER_SIZE"

definition new_source_malloc :: "'s malloc \<Rightarrow> 's malloc" where
  "new_source_malloc super sz h =
     bindR (super (sz + HEADER_SIZE) h) (\<lambda>(ptr, h1).
       if ptr = 0 then Inr (0, h1)
       else Inr (getPointer ptr, put_header ptr (objectHeader_new sz) h1))"

definition new_source_free :: "(u64 \<Rightarrow> 's heap \<Rightarrow> 's heap) \<Rightarrow> u64 \<Rightarrow> 's heap \<Rightarrow> 's heap" where
  "new_source_free super_free ptr = super_free (getObject ptr)"

definition new_source_getSize :: "u64 \<Rightarrow> 's heap \<Rightarrow> u64 result" where
  "new_source_getSize ptr h = object_getSize (header_at h (getObject ptr))"

subsection \<open>Size classes\<close>

definition NUMBINS :: int where "NUMBINS = 29"

definition class2Size :: "int \<Rightarrow> u64" where
  "class2Size i = push_bit (unat (word_of_int i + 3 :: u64)) 1"

definition cl :: "int list" where
  "cl = [0, 1, 2, 2, 3, 3, 3, 3, 4, 4, 4, 4, 4, 4, 4, 4]"

function class_up :: "u64 \<Rightarrow> int \<Rightarrow> int" where
  "class_up sz1 c = (if sz1 > 7 then class_up (drop_bit 1 sz1) (c + 1) else c)"
  by auto
termination
proof (relation "measure (\<lambda>(s, c). unat s)")
  show "((drop_bit 1 sz1, c + 1), sz1, c) \<in> measure (\<lambda>(s, c). unat s)" if "sz1 > 7" for sz1 :: u64 and c :: int
  proof -
    have "unat (drop_bit 1 sz1) = unat sz1 div 2" by (simp add: drop_bit_eq_div unat_div)
    moreover have "7 < unat sz1" using that by (simp add: word_less_nat_alt)
    ultimately show ?thesis by simp
  qed
qed simp

definition size2Class :: "u64 \<Rightarrow> int" where
  "size2Class sz0 =
     (let sz = (if sz0 < 8 then 8 else sz0) in
      if sz \<le> 128 then cl ! unat (drop_bit 3 (sz - 1))
      else class_up (drop_bit 5 (sz - 1)) 5)"

text \<open>
  The loop of \<open>free\<close> that looks for a class that is not larger than the object. A shift by a negative amount is
  undefined; the loop does not get there for an object of a byte or more, since \<open>class2Size (-3)\<close> is 1.
\<close>

function class_down :: "int \<Rightarrow> u64 \<Rightarrow> int result" where
  "class_down c sz =
     (if c < -3 then Inl OutOfBounds
      else if class2Size c > sz then class_down (c - 1) sz else Inr c)"
  by auto
termination by (relation "measure (\<lambda>(c, sz). nat (c + 4))") auto

declare class_up.simps [simp del] class_down.simps [simp del]

subsection \<open>Segregated fits\<close>

definition maxObjectSize :: u64 where "maxObjectSize = class2Size (NUMBINS - 1)"

definition bigheap_malloc :: "'s source \<Rightarrow> u64 \<Rightarrow> 's malloc" where
  "bigheap_malloc src chunk = new_source_malloc (zoneMalloc src chunk)"

definition bigheap_free :: "u64 \<Rightarrow> 's heap \<Rightarrow> 's heap" where
  "bigheap_free = new_source_free zone_free"

definition strict_malloc :: "'s source \<Rightarrow> u64 \<Rightarrow> 's malloc" where
  "strict_malloc src chunk sz h =
     (if sz \<le> maxObjectSize
      then
        (let sizeClass = size2Class sz; objectSize = class2Size sizeClass;
             (ptr, h1) = adapt_malloc sizeClass objectSize h
         in if ptr = 0 then bigheap_malloc src chunk objectSize h1 else Inr (ptr, h1))
      else bigheap_malloc src chunk sz h)"

definition strict_free :: "u64 \<Rightarrow> 's heap \<Rightarrow> 's heap result" where
  "strict_free ptr h =
     bindR (new_source_getSize ptr h) (\<lambda>objectSize.
       if objectSize = 0 then Inr h
       else if objectSize > maxObjectSize then Inr (bigheap_free ptr h)
       else bindR (class_down (size2Class objectSize) objectSize) (\<lambda>c.
         if c < 0 \<or> NUMBINS \<le> c then Inl OutOfBounds
         else Inr (upd_king (\<lambda>k. k\<lparr>ks_held := ks_held k + objectSize\<rparr>) (adapt_free c ptr h))))"

subsection \<open>The ANSI interface\<close>

definition ansi_align :: "u64 \<Rightarrow> u64" where
  "ansi_align sz = (sz + 7) AND NOT 7"

definition ansi_malloc :: "'s source \<Rightarrow> u64 \<Rightarrow> 's malloc" where
  "ansi_malloc src chunk sz h = strict_malloc src chunk (ansi_align (if sz < 16 then 16 else sz)) h"

definition ansi_free :: "u64 \<Rightarrow> 's heap \<Rightarrow> 's heap result" where
  "ansi_free ptr h = (if ptr \<noteq> 0 then strict_free ptr h else Inr h)"

definition ansi_getSize :: "u64 \<Rightarrow> 's heap \<Rightarrow> u64 result" where
  "ansi_getSize ptr h = (if ptr \<noteq> 0 then new_source_getSize ptr h else Inr 0)"

definition kingsley_malloc :: "'s source \<Rightarrow> u64 \<Rightarrow> 's malloc" where
  "kingsley_malloc = ansi_malloc"

subsection \<open>One heap per thread index\<close>

record 's pheap =
  pp_heap :: "int \<Rightarrow> kingsley"
  pp_source :: 's
  pp_mem :: bytes

definition pp_create :: "'s \<Rightarrow> bytes \<Rightarrow> 's pheap" where
  "pp_create s m = \<lparr>pp_heap = \<lambda>i. kingsley_new, pp_source = s, pp_mem = m\<rparr>"

definition pp_view :: "int \<Rightarrow> 's pheap \<Rightarrow> 's heap" where
  "pp_view ind P = \<lparr>hp_king = pp_heap P ind, hp_source = pp_source P, hp_mem = pp_mem P\<rparr>"

definition pp_put :: "int \<Rightarrow> 's heap \<Rightarrow> 's pheap \<Rightarrow> 's pheap" where
  "pp_put ind h P = \<lparr>pp_heap = (pp_heap P)(ind := hp_king h), pp_source = hp_source h, pp_mem = hp_mem h\<rparr>"

definition pp_malloc :: "'s source \<Rightarrow> u64 \<Rightarrow> int \<Rightarrow> u64 \<Rightarrow> 's pheap \<Rightarrow> (u64 \<times> 's pheap) result" where
  "pp_malloc src chunk ind sz P =
     (if ind < 0 \<or> NUM_HEAPS \<le> ind then Inl OutOfBounds
      else bindR (kingsley_malloc src chunk sz (pp_view ind P)) (\<lambda>(ptr, h). Inr (ptr, pp_put ind h P)))"

definition pp_free :: "int \<Rightarrow> u64 \<Rightarrow> 's pheap \<Rightarrow> 's pheap result" where
  "pp_free ind ptr P =
     (if ind < 0 \<or> NUM_HEAPS \<le> ind then Inl OutOfBounds
      else bindR (ansi_free ptr (pp_view ind P)) (\<lambda>h. Inr (pp_put ind h P)))"

text \<open>\<open>getSize\<close> is inherited from the heap type, and so goes to the heap that is the base of the \<open>PPHeap\<close>; it only reads memory.\<close>

definition pp_getSize :: "u64 \<Rightarrow> 's pheap \<Rightarrow> u64 result" where
  "pp_getSize ptr P = ansi_getSize ptr (pp_view 0 P)"

end
