(* ===== verification/Size_Classes.thy ===== *)
theory Size_Classes
  imports Heap_Layers
begin

text \<open>
  The size classes of \<open>kingsleyheap.h\<close>: every size up to the largest class gets the least class that holds it, and a class size
  is in its own class.
\<close>

lemma unat_class2Size:
  assumes "0 \<le> c" "c \<le> 60" shows "unat (class2Size c) = 8 * 2 ^ nat c"
proof -
  have "word_of_int c = (word_of_nat (nat c) :: u64)" using assms(1) by simp
  then have "unat (word_of_int c :: u64) = nat c" using assms by (simp only: unat_of_nat) simp
  then have "unat (word_of_int c + 3 :: u64) = nat c + 3" using assms by (simp add: unat_word_ariths)
  then have "class2Size c = word_of_nat (2 ^ (nat c + 3))" by (simp add: class2Size_def push_bit_eq_mult power_add)
  moreover have "(2 :: nat) ^ (nat c + 3) < 2 ^ 64" using assms by (intro power_strict_increasing) auto
  ultimately have "unat (class2Size c) = 2 ^ (nat c + 3)" by (simp only: unat_of_nat) simp
  then show ?thesis by (simp add: power_add)
qed

lemma class_up_bounds:
  "c \<le> class_up s c \<and> unat s < 8 * 2 ^ nat (class_up s c - c) \<and>
     (class_up s c = c \<or> 4 * 2 ^ nat (class_up s c - c) \<le> unat s)"
proof (induction s c rule: class_up.induct)
  case (1 s c)
  show ?case
  proof (cases "s > 7")
    case True
    let ?r = "class_up (drop_bit 1 s) (c + 1)"
    have r: "class_up s c = ?r" using True by (subst class_up.simps) simp
    have half: "unat (drop_bit 1 s) = unat s div 2" by (simp add: drop_bit_eq_div unat_div)
    have s: "7 < unat s" using True by (simp add: word_less_nat_alt)
    note IH = 1[OF True, unfolded half]
    have e: "nat (?r - c) = Suc (nat (?r - (c + 1)))" using IH by linarith
    have "unat s < 8 * 2 ^ nat (?r - c)" unfolding e power_Suc using IH by linarith
    moreover have "4 * 2 ^ nat (?r - c) \<le> unat s"
    proof (cases "?r = c + 1")
      case False
      then show ?thesis unfolding e power_Suc using IH by linarith
    qed (use s in simp)
    ultimately show ?thesis using IH r by simp
  next
    case False
    then have "class_up s c = c" by (subst class_up.simps) simp
    with False show ?thesis by (simp add: word_less_nat_alt)
  qed
qed

lemma table_class:
  assumes "8 \<le> n" "n \<le> (128 :: nat)"
  shows "0 \<le> cl ! ((n - 1) div 8) \<and> cl ! ((n - 1) div 8) \<le> 4 \<and>
    4 * 2 ^ nat (cl ! ((n - 1) div 8)) < n \<and> n \<le> 8 * 2 ^ nat (cl ! ((n - 1) div 8))"
proof -
  define q where "q = (n - 1) div 8"
  have q: "q * 8 < n" "n \<le> q * 8 + 8" "q < 16" using assms unfolding q_def by linarith+
  have "list_all (\<lambda>q. 0 \<le> cl ! q \<and> cl ! q \<le> 4 \<and> (q = 0 \<or> 4 * 2 ^ nat (cl ! q) \<le> q * 8) \<and>
      q * 8 + 8 \<le> 8 * 2 ^ nat (cl ! q) \<and> (q = 0 \<longrightarrow> cl ! q = 0)) [0..<16]"
    by code_simp
  then have "0 \<le> cl ! q \<and> cl ! q \<le> 4 \<and> (q = 0 \<or> 4 * 2 ^ nat (cl ! q) \<le> q * 8) \<and>
      q * 8 + 8 \<le> 8 * 2 ^ nat (cl ! q) \<and> (q = 0 \<longrightarrow> cl ! q = 0)"
    using q(3) unfolding list_all_iff by simp
  then show ?thesis unfolding q_def[symmetric] using q(1,2) assms(1) by (cases "q = 0") (simp, linarith)
qed

text \<open>The class of a size is the least one that holds it.\<close>

lemma size_class:
  assumes "unat sz \<le> 2 ^ 31"
  shows "0 \<le> size2Class sz" "size2Class sz < NUMBINS" "4 * 2 ^ nat (size2Class sz) < max 8 (unat sz)"
    "max 8 (unat sz) \<le> 8 * 2 ^ nat (size2Class sz)"
proof -
  let ?s = "if sz < 8 then 8 else sz" and ?c = "size2Class sz"
  have u: "unat ?s = max 8 (unat sz)" by (simp add: word_less_nat_alt)
  have one: "unat (?s - 1) = max 8 (unat sz) - 1" using u by (subst unat_sub) (auto simp: word_le_nat_alt)
  have "0 \<le> ?c \<and> 4 * 2 ^ nat ?c < max 8 (unat sz) \<and> max 8 (unat sz) \<le> 8 * 2 ^ nat ?c"
  proof (cases "?s \<le> 128")
    case True
    have "unat (drop_bit 3 (?s - 1)) = (max 8 (unat sz) - 1) div 8"
      by (simp only: drop_bit_eq_div unat_div one) simp
    then have "?c = cl ! ((max 8 (unat sz) - 1) div 8)" using True by (simp add: size2Class_def Let_def)
    then show ?thesis using table_class[of "max 8 (unat sz)"] True u by (simp add: word_le_nat_alt)
  next
    case False
    let ?d = "drop_bit 5 (?s - 1)"
    have c: "?c = class_up ?d 5" using False by (simp add: size2Class_def Let_def)
    have d: "unat ?d = (max 8 (unat sz) - 1) div 32" by (simp only: drop_bit_eq_div unat_div one) simp
    note B = class_up_bounds[of 5 ?d, folded c, unfolded d]
    have p: "(2 :: nat) ^ nat ?c = 32 * 2 ^ nat (?c - 5)"
    proof -
      have "nat ?c = 5 + nat (?c - 5)" using B by linarith
      then show ?thesis by (simp only: power_add) simp
    qed
    have "128 < max 8 (unat sz)" using False u by (simp add: word_le_nat_alt)
    then show ?thesis unfolding p using B by auto
  qed
  moreover from this have "4 * 2 ^ nat ?c < (2 :: nat) ^ 31" using assms by (auto simp: less_max_iff_disj)
  then have "(2 :: nat) ^ nat ?c < 2 ^ 29" by simp
  then have "nat ?c < 29" by (rule power_less_imp_less_exp[rotated]) simp
  ultimately show "0 \<le> ?c" "?c < NUMBINS" "4 * 2 ^ nat ?c < max 8 (unat sz)" "max 8 (unat sz) \<le> 8 * 2 ^ nat ?c"
    by (auto simp: NUMBINS_def)
qed

lemma class_holds:
  assumes "unat sz \<le> 2 ^ 31"
  shows "unat sz \<le> unat (class2Size (size2Class sz))" "unat (class2Size (size2Class sz)) < max 16 (2 * unat sz)"
  using size_class[OF assms] unat_class2Size[of "size2Class sz"] by (auto simp: NUMBINS_def)

lemma class_of_class:
  assumes "0 \<le> c" "c < NUMBINS"
  shows "size2Class (class2Size c) = c" "class_down c (class2Size c) = Inr c" "unat (class2Size c) \<le> 2 ^ 31"
proof -
  have u: "unat (class2Size c) = 8 * 2 ^ nat c" using assms by (intro unat_class2Size) (auto simp: NUMBINS_def)
  have "(2 :: nat) ^ nat c \<le> 2 ^ 28" using assms by (intro power_increasing) (auto simp: NUMBINS_def)
  then show le: "unat (class2Size c) \<le> 2 ^ 31" unfolding u by simp
  let ?d = "size2Class (class2Size c)"
  have "4 * 2 ^ nat ?d < (8 * 2 ^ nat c :: nat)" "(8 * 2 ^ nat c :: nat) \<le> 8 * 2 ^ nat ?d"
    using size_class(3,4)[OF le] u by auto
  then have "(2 :: nat) ^ nat ?d < 2 ^ Suc (nat c)" "(2 :: nat) ^ nat c \<le> 2 ^ nat ?d" by simp_all
  then have "nat ?d < Suc (nat c)" "nat c \<le> nat ?d"
    by (simp_all only: power_strict_increasing_iff power_increasing_iff one_less_numeral_iff semiring_norm)
  then show "?d = c" using assms(1) size_class(1)[OF le] by linarith
  show "class_down c (class2Size c) = Inr c" using assms(1) by (subst class_down.simps) simp
qed

lemma maxObjectSize_31: "maxObjectSize = 2147483648"
  by (simp add: maxObjectSize_def NUMBINS_def class2Size_def)

end
