(* ===== verification/Heap_Safety.thy ===== *)
theory Heap_Safety
  imports Size_Classes "HOL-Library.Disjoint_Sets"
begin

text \<open>
  The invariant of the heaps of \<open>Heap_Layers\<close>: objects with their headers, free objects with their links, arenas and the space
  in them never overlap, for any source of chunks that keeps the laws of the locale \<open>chunk_source\<close>.
\<close>

subsection \<open>The pieces of memory\<close>

text \<open>
  What the memory is made of: the objects that clients hold, with the sizes of all objects, what is left in the arena of each
  heap, and the objects on the free list of each heap and class.
\<close>

record ghost =
  g_live :: "u64 set"
  g_size :: "u64 \<Rightarrow> u64"
  g_rem :: "int \<Rightarrow> u64"
  g_space :: "int \<Rightarrow> u64"
  g_free :: "int \<times> int \<Rightarrow> u64 list"

definition blocks :: "ghost \<Rightarrow> u64 set" where
  "blocks g = g_live g \<union> (\<Union>x. set (g_free g x))"

datatype piece = Block u64 | Arena int | Space int

fun extent :: "(int \<Rightarrow> kingsley) \<Rightarrow> ghost \<Rightarrow> piece \<Rightarrow> u64 set" where
  "extent K g (Block p) = region (p - 16) (g_size g p + 16)"
| "extent K g (Arena i) = region (ks_current (K i)) 32"
| "extent K g (Space i) = region (g_space g i) (g_rem g i)"

definition active :: "(int \<Rightarrow> kingsley) \<Rightarrow> int set" where
  "active K = {i. ks_current (K i) \<noteq> 0}"

definition pieces :: "(int \<Rightarrow> kingsley) \<Rightarrow> ghost \<Rightarrow> piece set" where
  "pieces K g = Block ` blocks g \<union> Arena ` active K \<union> Space ` active K"

lemma in_pieces [simp]:
  "Block p \<in> pieces K g \<longleftrightarrow> p \<in> blocks g" "Arena i \<in> pieces K g \<longleftrightarrow> ks_current (K i) \<noteq> 0"
  "Space i \<in> pieces K g \<longleftrightarrow> ks_current (K i) \<noteq> 0"
  by (auto simp: pieces_def active_def)

fun chain :: "bytes \<Rightarrow> u64 \<Rightarrow> u64 list \<Rightarrow> bool" where
  "chain m e [] \<longleftrightarrow> e = 0"
| "chain m e (p # ps) \<longleftrightarrow> e = p \<and> p \<noteq> 0 \<and> chain m (load64 m p) ps"

text \<open>Objects up to the largest class have a class size; larger ones have the size that was asked for.\<close>

definition class_size :: "u64 \<Rightarrow> bool" where
  "class_size n \<longleftrightarrow> (n \<le> maxObjectSize \<longrightarrow> (\<exists>c. 0 \<le> c \<and> c < NUMBINS \<and> n = class2Size c))"

definition block_ok :: "bytes \<Rightarrow> ghost \<Rightarrow> u64 \<Rightarrow> bool" where
  "block_ok m g p \<longleftrightarrow> load64 m (p - 16) = OBJECT_MAGIC \<and> load64 m (p - 8) = g_size g p \<and>
     8 \<le> unat (g_size g p) \<and> unat (g_size g p) + 16 < 2 ^ 64 \<and> class_size (g_size g p) \<and> p \<noteq> 0"

definition arena_ok :: "(int \<Rightarrow> kingsley) \<Rightarrow> bytes \<Rightarrow> ghost \<Rightarrow> int \<Rightarrow> bool" where
  "arena_ok K m g i \<longleftrightarrow> load64 m (ks_current (K i)) = g_rem g i \<and> load64 m (ks_current (K i) + 16) = g_space g i"

definition free_ok :: "(int \<Rightarrow> kingsley) \<Rightarrow> bytes \<Rightarrow> ghost \<Rightarrow> bool" where
  "free_ok K m g \<longleftrightarrow>
     (\<forall>i c. chain m (ks_bins (K i) c) (g_free g (i, c)) \<and> distinct (g_free g (i, c))) \<and>
     (\<forall>i c. \<forall>p \<in> set (g_free g (i, c)). p \<notin> g_live g \<and> 0 \<le> c \<and> c < NUMBINS \<and> g_size g p = class2Size c) \<and>
     (\<forall>x y. x \<noteq> y \<longrightarrow> set (g_free g x) \<inter> set (g_free g y) = {})"

lemma free_okD:
  assumes "free_ok K m g"
  shows "chain m (ks_bins (K i) c) (g_free g (i, c))" "distinct (g_free g (i, c))"
    "p \<in> set (g_free g (i, c)) \<Longrightarrow> p \<notin> g_live g \<and> 0 \<le> c \<and> c < NUMBINS \<and> g_size g p = class2Size c"
    "x \<noteq> y \<Longrightarrow> set (g_free g x) \<inter> set (g_free g y) = {}"
  using assms unfolding free_ok_def by blast+

definition heap_inv :: "u64 set \<Rightarrow> (int \<Rightarrow> kingsley) \<Rightarrow> bytes \<Rightarrow> ghost \<Rightarrow> bool" where
  "heap_inv owned K m g \<longleftrightarrow>
     disjoint_family_on (extent K g) (pieces K g) \<and> (\<forall>x \<in> pieces K g. extent K g x \<subseteq> owned) \<and>
     (\<forall>p \<in> blocks g. block_ok m g p) \<and> (\<forall>i \<in> active K. arena_ok K m g i) \<and> free_ok K m g"

lemma extent_disjoint:
  "heap_inv owned K m g \<Longrightarrow> x \<in> pieces K g \<Longrightarrow> y \<in> pieces K g \<Longrightarrow> x \<noteq> y \<Longrightarrow> extent K g x \<inter> extent K g y = {}"
  by (auto simp: heap_inv_def disjoint_family_on_def)

lemma unat_header: "unat (n :: u64) + 16 < 2 ^ 64 \<Longrightarrow> unat (n + 16) = unat n + 16"
  by (simp add: unat_word_ariths)

text \<open>The header of an object and the object itself.\<close>

lemma block_parts:
  assumes "unat (n :: u64) + 16 < 2 ^ 64"
  shows "region (p - 16) 16 \<subseteq> region (p - 16) (n + 16)" "region p n \<subseteq> region (p - 16) (n + 16)"
    "region (p - 16) 16 \<inter> region p n = {}"
proof -
  have u: "unat (n + 16) = unat n + 16" by (rule unat_header[OF assms])
  have "p - 16 + 16 = p" by simp
  then show "region p n \<subseteq> region (p - 16) (n + 16)" "region (p - 16) 16 \<inter> region p n = {}"
    using region_part[of 16 n "n + 16" "p - 16"] region_split[of 16 n "n + 16" "p - 16"] u by simp_all
  show "region (p - 16) 16 \<subseteq> region (p - 16) (n + 16)" by (rule region_prefix) (simp add: u)
qed

lemma word_in_region:
  "unat k + 8 \<le> unat n \<Longrightarrow> region (p + k) 8 \<subseteq> region p n"
  by (rule region_part) simp

subsection \<open>Writes outside the data of the heap\<close>

text \<open>Where the heap keeps its own data: headers, links of free objects, arenas.\<close>

fun meta :: "(int \<Rightarrow> kingsley) \<Rightarrow> ghost \<Rightarrow> piece \<Rightarrow> u64 set" where
  "meta K g (Block p) = region (p - 16) 16 \<union> (if p \<in> g_live g then {} else region p 8)"
| "meta K g (Arena i) = region (ks_current (K i)) 32"
| "meta K g (Space i) = {}"

lemma chain_cong:
  "(\<And>p a. p \<in> set ps \<Longrightarrow> a \<in> region p 8 \<Longrightarrow> m' a = m a) \<Longrightarrow> chain m' e ps = chain m e ps"
proof (induction ps arbitrary: e)
  case (Cons p ps)
  have "load64 m' p = load64 m p" by (rule load64_cong) (use Cons.prems in auto)
  moreover have "chain m' e ps = chain m e ps" for e by (rule Cons.IH) (use Cons.prems in auto)
  ultimately show ?case by simp
qed simp

lemma meta_extent:
  assumes "heap_inv owned K m g" "x \<in> pieces K g" shows "meta K g x \<subseteq> extent K g x"
proof (cases x)
  case (Block p)
  then have "block_ok m g p" using assms by (auto simp: heap_inv_def)
  then have n: "unat (g_size g p) + 16 < 2 ^ 64" "8 \<le> unat (g_size g p)" by (auto simp: block_ok_def)
  have "region p 8 \<subseteq> region p (g_size g p)" using n(2) by (intro region_prefix) simp
  then show ?thesis using block_parts[OF n(1), of p] Block by auto
qed auto

lemma heap_inv_mem:
  assumes inv: "heap_inv owned K m g" and same: "\<And>a. a \<notin> W \<Longrightarrow> m' a = m a"
    and W: "\<And>x. x \<in> pieces K g \<Longrightarrow> meta K g x \<inter> W = {}"
  shows "heap_inv owned K m' g"
proof -
  have eq: "m' a = m a" if "a \<in> meta K g x" "x \<in> pieces K g" for a x using that W[of x] same by blast
  have h: "load64 m' (p - 16) = load64 m (p - 16)" "load64 m' (p - 8) = load64 m (p - 8)" if "p \<in> blocks g" for p
  proof -
    have "region (p - 16 + 8) 8 \<subseteq> region (p - 16) 16" by (rule word_in_region) simp
    then have "region (p - 8) 8 \<subseteq> region (p - 16) 16" by simp
    moreover have "region (p - 16) 8 \<subseteq> region (p - 16) 16" by (rule region_prefix) simp
    ultimately show "load64 m' (p - 16) = load64 m (p - 16)" "load64 m' (p - 8) = load64 m (p - 8)"
      using eq[of _ "Block p"] that by (auto intro!: load64_cong)
  qed
  have a: "load64 m' (ks_current (K i)) = load64 m (ks_current (K i))"
    "load64 m' (ks_current (K i) + 16) = load64 m (ks_current (K i) + 16)" if "i \<in> active K" for i
  proof -
    have "region (ks_current (K i) + 16) 8 \<subseteq> region (ks_current (K i)) 32" by (rule word_in_region) simp
    moreover have "region (ks_current (K i)) 8 \<subseteq> region (ks_current (K i)) 32" by (rule region_prefix) simp
    ultimately show "load64 m' (ks_current (K i)) = load64 m (ks_current (K i))"
      "load64 m' (ks_current (K i) + 16) = load64 m (ks_current (K i) + 16)"
      using eq[of _ "Arena i"] that by (auto intro!: load64_cong simp: active_def)
  qed
  have "chain m' (ks_bins (K i) c) (g_free g (i, c)) = chain m (ks_bins (K i) c) (g_free g (i, c))" for i c
  proof (rule chain_cong)
    fix p a assume p: "p \<in> set (g_free g (i, c))" "a \<in> region p 8"
    then have "p \<in> blocks g" "p \<notin> g_live g" using inv by (auto simp: blocks_def heap_inv_def free_ok_def)
    then show "m' a = m a" using eq[of a "Block p"] p(2) by simp
  qed
  then have "free_ok K m' g = free_ok K m g" by (simp add: free_ok_def)
  then show ?thesis using inv h a by (auto simp: heap_inv_def block_ok_def arena_ok_def)
qed

text \<open>A client that writes to its own object.\<close>

lemma client_write_inv:
  assumes inv: "heap_inv owned K m g" and p: "p \<in> g_live g" and same: "\<And>a. a \<notin> region p (g_size g p) \<Longrightarrow> m' a = m a"
  shows "heap_inv owned K m' g"
proof (rule heap_inv_mem[OF inv same])
  have p': "p \<in> blocks g" using p by (simp add: blocks_def)
  then have n: "unat (g_size g p) + 16 < 2 ^ 64" using inv by (auto simp: heap_inv_def block_ok_def)
  fix x assume x: "x \<in> pieces K g"
  show "meta K g x \<inter> region p (g_size g p) = {}"
  proof (cases "x = Block p")
    case True
    then show ?thesis using p block_parts(3)[OF n] by simp
  next
    case False
    then have "extent K g x \<inter> extent K g (Block p) = {}" using x p' by (intro extent_disjoint[OF inv]) simp_all
    then show ?thesis using meta_extent[OF inv x] block_parts(2)[OF n, of p] by auto
  qed
qed

subsection \<open>Free lists\<close>

lemma UN_free: "(\<Union>y. set (F y)) = set (F x) \<union> (\<Union>y \<in> - {x}. set (F y))"
  by blast

lemma UN_free_upd: "(\<Union>y. set ((F(x := xs)) y)) = set xs \<union> (\<Union>y \<in> - {x}. set (F y))"
  using UN_free[of "F(x := xs)" x] by simp

text \<open>Taking an object off a free list: it is an object of the client from now on.\<close>

definition g_take :: "int \<times> int \<Rightarrow> ghost \<Rightarrow> ghost" where
  "g_take x g = g\<lparr>g_live := insert (hd (g_free g x)) (g_live g), g_free := (g_free g)(x := tl (g_free g x))\<rparr>"

lemma extent_frame:
  "g_size g' = g_size g \<Longrightarrow> g_rem g' = g_rem g \<Longrightarrow> g_space g' = g_space g \<Longrightarrow>
     (\<And>i. ks_current (K' i) = ks_current (K i)) \<Longrightarrow> extent K' g' = extent K g"
  by (intro ext, rename_tac x, case_tac x) simp_all

lemma take_inv:
  assumes inv: "heap_inv owned K m g" and bin: "ks_bins (K i) c \<noteq> 0"
  shows "ks_bins (K i) c \<in> blocks g" "ks_bins (K i) c \<notin> g_live g" "g_size g (ks_bins (K i) c) = class2Size c"
    "g_live (g_take (i, c) g) = insert (ks_bins (K i) c) (g_live g)"
    "heap_inv owned (K(i := (K i)\<lparr>ks_bins := (ks_bins (K i))(c := load64 m (ks_bins (K i) c))\<rparr>)) m (g_take (i, c) g)"
proof -
  let ?p = "ks_bins (K i) c"
  let ?K = "K(i := (K i)\<lparr>ks_bins := (ks_bins (K i))(c := load64 m ?p)\<rparr>)" and ?g = "g_take (i, c) g"
  have F: "free_ok K m g" using inv by (simp add: heap_inv_def)
  then obtain ps where ps: "g_free g (i, c) = ?p # ps" "chain m (load64 m ?p) ps" "?p \<notin> set ps" "distinct ps"
    using bin unfolding free_ok_def by (cases "g_free g (i, c)") (metis chain.simps distinct.simps(2))+
  have p: "?p \<in> set (g_free g (i, c))" using ps(1) by simp
  show b: "?p \<in> blocks g" "?p \<notin> g_live g" "g_size g ?p = class2Size c" "g_live ?g = insert ?p (g_live g)"
    using p free_okD(3)[OF F p] ps(1) unfolding blocks_def g_take_def by (blast, simp_all)
  have e: "extent ?K ?g = extent K g" by (rule extent_frame) (simp_all add: g_take_def)
  have "blocks ?g = blocks g"
    using ps(1) unfolding blocks_def g_take_def
    by (simp add: UN_free_upd UN_free[of "g_free g" "(i, c)"] Un_commute del: fun_upd_apply)
  then have pc: "pieces ?K ?g = pieces K g" by (auto simp: pieces_def active_def split: if_splits)
  have "free_ok ?K m ?g" unfolding free_ok_def
  proof (intro conjI allI impI ballI)
    fix j d
    show "chain m (ks_bins (?K j) d) (g_free ?g (j, d))" "distinct (g_free ?g (j, d))"
      using F ps by (auto simp: free_ok_def g_take_def)
    fix q assume q: "q \<in> set (g_free ?g (j, d))"
    then have q': "q \<in> set (g_free g (j, d))" using ps(1) by (auto simp: g_take_def split: if_splits)
    have "q \<noteq> ?p"
    proof (cases "(j, d) = (i, c)")
      case False
      then have "set (g_free g (j, d)) \<inter> set (g_free g (i, c)) = {}" using F unfolding free_ok_def by blast
      then show ?thesis using q' ps(1) by auto
    qed (use q ps in \<open>auto simp: g_take_def\<close>)
    then show "q \<notin> g_live ?g" "0 \<le> d" "d < NUMBINS" "g_size ?g q = class2Size d"
      using F q' b(4) by (auto simp: free_ok_def g_take_def)
  next
    fix x y :: "int \<times> int" assume "x \<noteq> y"
    then have "set (g_free g x) \<inter> set (g_free g y) = {}" using F unfolding free_ok_def by blast
    then show "set (g_free ?g x) \<inter> set (g_free ?g y) = {}" using ps(1) by (auto simp: g_take_def split: if_splits)
  qed
  then show "heap_inv owned ?K m ?g"
    using inv \<open>blocks ?g = blocks g\<close> unfolding heap_inv_def e pc
    by (auto simp: block_ok_def arena_ok_def active_def g_take_def split: if_splits)
qed

definition g_give :: "int \<times> int \<Rightarrow> u64 \<Rightarrow> ghost \<Rightarrow> ghost" where
  "g_give x p g = g\<lparr>g_live := g_live g - {p}, g_free := (g_free g)(x := p # g_free g x)\<rparr>"

lemma give_inv:
  assumes inv: "heap_inv owned K m g" and p: "p \<in> g_live g" and c: "0 \<le> c" "c < NUMBINS" "g_size g p = class2Size c"
    and K: "ks_current k = ks_current (K i)" "ks_bins k = (ks_bins (K i))(c := p)"
  shows "heap_inv owned (K(i := k)) (store64 p (ks_bins (K i) c) m) (g_give (i, c) p g)"
proof -
  let ?m = "store64 p (ks_bins (K i) c) m" and ?g = "g_give (i, c) p g" and ?K = "K(i := k)"
  have p': "p \<in> blocks g" "p \<noteq> 0" "8 \<le> unat (g_size g p)"
    using p inv by (auto simp: blocks_def heap_inv_def block_ok_def)
  have inv': "heap_inv owned K ?m g"
  proof (rule client_write_inv[OF inv p])
    have "region p 8 \<subseteq> region p (g_size g p)" using p'(3) by (intro region_prefix) simp
    then show "a \<notin> region p (g_size g p) \<Longrightarrow> ?m a = m a" for a by (auto intro: store_other)
  qed
  then have F: "free_ok K ?m g" by (simp add: heap_inv_def)
  have np: "p \<notin> set (g_free g x)" for x using F p by (cases x) (auto simp: free_ok_def)
  have e: "extent ?K ?g = extent K g" by (rule extent_frame) (simp_all add: g_give_def K)
  have b: "blocks ?g = blocks g"
  proof -
    let ?rest = "\<Union>y \<in> - {(i, c)}. set (g_free g y)"
    have "blocks ?g = (g_live g - {p}) \<union> (set (p # g_free g (i, c)) \<union> ?rest)"
      by (simp add: blocks_def g_give_def UN_free_upd del: fun_upd_apply list.set)
    moreover have "blocks g = g_live g \<union> (set (g_free g (i, c)) \<union> ?rest)"
      by (simp only: blocks_def UN_free[of "g_free g" "(i, c)"])
    ultimately show ?thesis using p by auto
  qed
  then have pc: "pieces ?K ?g = pieces K g" by (auto simp: pieces_def active_def K split: if_splits)
  have "free_ok ?K ?m ?g" unfolding free_ok_def
  proof (intro conjI allI impI ballI)
    fix j d
    show "chain ?m (ks_bins (?K j) d) (g_free ?g (j, d))" "distinct (g_free ?g (j, d))"
      using F np p'(2) K(2) by (auto simp: free_ok_def g_give_def)
    fix q assume "q \<in> set (g_free ?g (j, d))"
    then show "q \<notin> g_live ?g" "0 \<le> d" "d < NUMBINS" "g_size ?g q = class2Size d"
      using F c by (auto simp: free_ok_def g_give_def split: if_splits)
  next
    fix x y :: "int \<times> int" assume "x \<noteq> y"
    then have "set (g_free g x) \<inter> set (g_free g y) = {}" using F unfolding free_ok_def by blast
    then show "set (g_free ?g x) \<inter> set (g_free ?g y) = {}" using np \<open>x \<noteq> y\<close> by (auto simp: g_give_def)
  qed
  then show ?thesis
    using inv' b unfolding heap_inv_def e pc
    by (auto simp: block_ok_def arena_ok_def active_def g_give_def K split: if_splits)
qed

end
