(* ===== verification/Zone_Safety.thy ===== *)
theory Zone_Safety
  imports Heap_Safety
begin

text \<open>
  Arenas: opening one in a new chunk, retiring it, and cutting an object with its header off its space keep the invariant of
  \<open>Heap_Safety\<close>.
\<close>

lemma words_in: "region a 8 \<subseteq> region a 32" "region (a + 8) 8 \<subseteq> region a 32" "region (a + 16) 8 \<subseteq> region a 32"
  "region a 8 \<subseteq> region a 16" "region (a + 8) 8 \<subseteq> region a 16"
  using region_prefix[of 8 32 a] word_in_region[of 8 32 a] word_in_region[of 16 32 a] region_prefix[of 8 16 a]
    word_in_region[of 8 16 a] by simp_all

lemma words_apart: "region a 8 \<inter> region (a + 8) 8 = {}" "region a 8 \<inter> region (a + 16) 8 = {}"
  "region (a + 8) 8 \<inter> region (a + 16) 8 = {}"
proof -
  show "region a 8 \<inter> region (a + 8) 8 = {}" by (rule region_split[where n = 16]) simp
  have "region a 8 \<subseteq> region a 16" by (rule words_in)
  moreover have "region a 16 \<inter> region (a + 16) 8 = {}" by (rule region_split[where n = 24]) simp
  ultimately show "region a 8 \<inter> region (a + 16) 8 = {}" by blast
  have "region (a + 8) 8 \<inter> region (a + 8 + 8) 8 = {}" by (rule region_split[where n = 16]) simp
  then show "region (a + 8) 8 \<inter> region (a + 16) 8 = {}" by (simp add: add.assoc)
qed

lemmas words_apart_sym = words_apart words_apart[THEN trans[OF Int_commute]]

subsection \<open>Retiring and opening an arena\<close>

lemma drop_inv:
  assumes inv: "heap_inv owned K m g" and k: "ks_current k = 0" "ks_bins k = ks_bins (K i)"
  shows "heap_inv owned (K(i := k)) m g"
proof -
  have sub: "pieces (K(i := k)) g \<subseteq> pieces K g" using k(1) by (auto simp: pieces_def active_def split: if_splits)
  have e: "extent (K(i := k)) g x = extent K g x" if "x \<in> pieces (K(i := k)) g" for x
    using that k(1) by (cases x) (auto split: if_splits)
  have "disjoint_family_on (extent (K(i := k)) g) (pieces (K(i := k)) g)"
    using inv sub e unfolding heap_inv_def disjoint_family_on_def by (metis subsetD)
  moreover have "arena_ok (K(i := k)) m g j" if "j \<in> active (K(i := k))" for j
    using inv that k(1) by (auto simp: heap_inv_def arena_ok_def active_def split: if_splits)
  moreover have "free_ok (K(i := k)) m g" using inv k(2) by (simp add: heap_inv_def free_ok_def)
  ultimately show ?thesis using inv sub e unfolding heap_inv_def by auto
qed

lemma disjoint_two:
  assumes "disjoint_family_on A I" "a \<notin> I" "b \<notin> I" "\<And>x. x \<in> I \<Longrightarrow> A' x = A x"
    and "A' a \<inter> A' b = {}" "\<And>x. x \<in> I \<Longrightarrow> A' a \<inter> A x = {}" "\<And>x. x \<in> I \<Longrightarrow> A' b \<inter> A x = {}"
  shows "disjoint_family_on A' (insert a (insert b I))"
proof -
  have "disjoint_family_on A' I" using assms(1,4) by (simp add: disjoint_family_on_def)
  then have "disjoint_family_on A' (insert b I)"
    using assms(3,4,7) by (subst disjoint_family_on_insert) auto
  moreover have "A' a \<inter> A' x = {} \<and> A' x \<inter> A' a = {}" if "x \<in> insert b I" for x
    using that assms(4)[of x] assms(5) assms(6)[of x] by auto
  ultimately show ?thesis unfolding disjoint_family_on_def by auto
qed

definition g_open :: "int \<Rightarrow> u64 \<Rightarrow> u64 \<Rightarrow> ghost \<Rightarrow> ghost" where
  "g_open i r sp g = g\<lparr>g_rem := (g_rem g)(i := r), g_space := (g_space g)(i := sp)\<rparr>"

lemma open_inv:
  assumes inv: "heap_inv owned K m g" and K: "ks_current (K i) = 0"
    and k: "ks_current k = buf" "ks_bins k = ks_bins (K i)" "buf \<noteq> 0"
    and new: "unat alloc + 32 < 2 ^ 64" "region buf (32 + alloc) \<inter> owned = {}" "region buf (32 + alloc) \<subseteq> owned'"
      "owned \<subseteq> owned'"
    and m': "load64 m' buf = alloc" "load64 m' (buf + 16) = buf + 32" "\<And>a. a \<notin> region buf 32 \<Longrightarrow> m' a = m a"
  shows "heap_inv owned' (K(i := k)) m' (g_open i alloc (buf + 32) g)"
proof -
  let ?K = "K(i := k)" and ?g = "g_open i alloc (buf + 32) g"
  have u: "unat (32 + alloc) = 32 + unat alloc" using new(1) by (simp add: unat_word_ariths)
  have parts: "region buf 32 \<subseteq> region buf (32 + alloc)" "region (buf + 32) alloc \<subseteq> region buf (32 + alloc)"
    "region buf 32 \<inter> region (buf + 32) alloc = {}"
    using u region_part[of 32 alloc "32 + alloc" buf] region_split[of 32 alloc "32 + alloc" buf]
    by (simp_all add: region_prefix)
  have b: "blocks ?g = blocks g" by (simp add: blocks_def g_open_def)
  have p: "pieces ?K ?g = insert (Arena i) (insert (Space i) (pieces K g))" "Arena i \<notin> pieces K g" "Space i \<notin> pieces K g"
    using K k(1,3) by (auto simp: pieces_def active_def b)
  have e: "extent ?K ?g x = extent K g x" if "x \<in> pieces K g" for x
    using that K by (cases x) (auto simp: g_open_def)
  have e': "extent ?K ?g (Arena i) = region buf 32" "extent ?K ?g (Space i) = region (buf + 32) alloc"
    using k(1) by (simp_all add: g_open_def)
  have inside: "\<forall>x \<in> pieces K g. extent K g x \<subseteq> owned" using inv by (simp add: heap_inv_def)
  have away: "region buf 32 \<inter> extent K g x = {}" "region (buf + 32) alloc \<inter> extent K g x = {}" if "x \<in> pieces K g" for x
    using inside that parts(1,2) new(2) by blast+
  have dis: "disjoint_family_on (extent ?K ?g) (pieces ?K ?g)"
    unfolding p(1)
  proof (rule disjoint_two[where A = "extent K g"])
    show "disjoint_family_on (extent K g) (pieces K g)" using inv by (simp add: heap_inv_def)
  qed (use p(2,3) e e' away parts(3) in \<open>simp_all only: not_False_eq_True\<close>)
  have "heap_inv owned K m' g"
  proof (rule heap_inv_mem[OF inv m'(3)])
    fix x assume "x \<in> pieces K g"
    then show "meta K g x \<inter> region buf 32 = {}" using away(1) meta_extent[OF inv, of x] by blast
  qed auto
  then have h: "\<forall>p \<in> blocks g. block_ok m' g p" "\<forall>j \<in> active K. arena_ok K m' g j" "free_ok K m' g"
    by (simp_all add: heap_inv_def)
  have "arena_ok ?K m' ?g j" if "j \<in> active ?K" for j
    using that h(2) m'(1,2) k(1) by (auto simp: arena_ok_def active_def g_open_def split: if_splits)
  moreover have "free_ok ?K m' ?g" using h(3) k(2) by (simp add: free_ok_def g_open_def)
  moreover have "block_ok m' ?g q" if "q \<in> blocks g" for q using h(1) that by (simp add: block_ok_def g_open_def)
  moreover have "extent ?K ?g x \<subseteq> owned'" if "x \<in> pieces ?K ?g" for x
    using that inside e[of x] e' parts(1,2) new(3,4) unfolding p(1) by (elim insertE) (simp_all, blast+)
  ultimately show ?thesis using dis b unfolding heap_inv_def by auto
qed

subsection \<open>Cutting off an object\<close>

definition g_carve :: "int \<Rightarrow> u64 \<Rightarrow> u64 \<Rightarrow> ghost \<Rightarrow> ghost" where
  "g_carve i n k g = g\<lparr>g_live := insert (g_space g i + 16) (g_live g), g_size := (g_size g)(g_space g i + 16 := k),
     g_rem := (g_rem g)(i := g_rem g i - n), g_space := (g_space g)(i := g_space g i + n)\<rparr>"

lemma disjoint_refine:
  assumes "disjoint_family_on A I" "s \<in> I" "b \<notin> I" "\<And>x. x \<in> I \<Longrightarrow> x \<noteq> s \<Longrightarrow> A' x = A x"
    and "A' s \<subseteq> A s" "A' b \<subseteq> A s" "A' s \<inter> A' b = {}"
  shows "disjoint_family_on A' (insert b I)"
proof -
  have "A' x \<inter> A' y = {}" if "x \<in> I" "y \<in> I" "x \<noteq> y" for x y
    using that assms unfolding disjoint_family_on_def by (cases "x = s"; cases "y = s") blast+
  moreover have "A' b \<inter> A' x = {}" if "x \<in> I" for x
    using that assms unfolding disjoint_family_on_def by (cases "x = s") blast+
  ultimately show ?thesis using assms(3) by (auto simp: disjoint_family_on_def)
qed

lemma carve_inv:
  assumes inv: "heap_inv owned K m g" and own: "0 \<notin> owned" and K: "ks_current (K i) \<noteq> 0"
    and n: "unat n \<le> unat (g_rem g i)" "unat k + 16 \<le> unat n" "8 \<le> unat k" "class_size k"
    and m': "load64 m' (ks_current (K i)) = g_rem g i - n" "load64 m' (ks_current (K i) + 16) = g_space g i + n"
      "load64 m' (g_space g i) = OBJECT_MAGIC" "load64 m' (g_space g i + 8) = k"
      "\<And>a. a \<notin> region (ks_current (K i)) 32 \<union> region (g_space g i) 16 \<Longrightarrow> m' a = m a"
  shows "g_space g i + 16 \<notin> blocks g" "heap_inv owned K m' (g_carve i n k g)"
proof -
  let ?sp = "g_space g i" and ?p = "g_space g i + 16" and ?g = "g_carve i n k g" and ?K = "K(i := (K i)\<lparr>ks_current := 0\<rparr>)"
  have k16: "unat (k + 16) = unat k + 16" using n unat_u64[of n] by (intro unat_header) linarith
  have rem: "unat (g_rem g i - n) = unat (g_rem g i) - unat n" using n(1) by (intro unat_sub) (simp add: word_le_nat_alt)
  have S: "extent K g (Space i) = region ?sp (g_rem g i)" "Space i \<in> pieces K g" "Arena i \<in> pieces K g" using K by simp_all
  have parts: "region ?sp (k + 16) \<subseteq> region ?sp (g_rem g i)" "region (?sp + n) (g_rem g i - n) \<subseteq> region ?sp (g_rem g i)"
    "region (?sp + n) (g_rem g i - n) \<inter> region ?sp (k + 16) = {}" "region ?sp 16 \<subseteq> region ?sp (g_rem g i)"
  proof -
    show "region ?sp (k + 16) \<subseteq> region ?sp (g_rem g i)" "region ?sp 16 \<subseteq> region ?sp (g_rem g i)"
      using n k16 by (intro region_prefix; simp)+
    show "region (?sp + n) (g_rem g i - n) \<subseteq> region ?sp (g_rem g i)" using n rem by (intro region_part) simp
    have "region ?sp n \<inter> region (?sp + n) (g_rem g i - n) = {}" using n rem by (intro region_split[where n = "g_rem g i"]) simp
    moreover have "region ?sp (k + 16) \<subseteq> region ?sp n" using n k16 by (intro region_prefix) simp
    ultimately show "region (?sp + n) (g_rem g i - n) \<inter> region ?sp (k + 16) = {}" by blast
  qed
  show new: "?p \<notin> blocks g"
  proof
    assume p: "?p \<in> blocks g"
    then have "block_ok m g ?p" using inv by (simp add: heap_inv_def)
    then have "g_size g ?p + 16 \<noteq> 0" using unat_header[of "g_size g ?p"] by (auto simp: block_ok_def)
    then have "?sp \<in> extent K g (Block ?p)" by (simp add: region_first)
    moreover have "?sp \<in> extent K g (Space i)" unfolding S using n by (intro region_first) auto
    ultimately show False using extent_disjoint[OF inv _ S(2), of "Block ?p"] p by auto
  qed
  have nz: "?p \<noteq> 0"
  proof -
    have "?sp + 16 \<in> region ?sp (g_rem g i)" using n by (simp add: region_iff)
    moreover have "extent K g (Space i) \<subseteq> owned" using inv S(2) unfolding heap_inv_def by blast
    ultimately have "?p \<in> owned" unfolding S(1) by blast
    then show ?thesis using own by auto
  qed
  have size: "g_size ?g q = (if q = ?p then k else g_size g q)" for q by (simp add: g_carve_def)
  have b: "blocks ?g = insert ?p (blocks g)" by (auto simp: blocks_def g_carve_def)
  have pc: "pieces K ?g = insert (Block ?p) (pieces K g)" by (auto simp: pieces_def b)
  have e: "extent K ?g x = extent K g x" if "x \<in> pieces K g" "x \<noteq> Space i" for x
    using that new by (cases x) (auto simp: g_carve_def)
  have e': "extent K ?g (Space i) = region (?sp + n) (g_rem g i - n)" "extent K ?g (Block ?p) = region ?sp (k + 16)"
    by (simp_all add: g_carve_def)
  have dis: "disjoint_family_on (extent K ?g) (pieces K ?g)"
    unfolding pc
  proof (rule disjoint_refine[where A = "extent K g" and s = "Space i"])
    show "disjoint_family_on (extent K g) (pieces K g)" using inv by (simp add: heap_inv_def)
  qed (use S new e e' parts in auto)
  have "heap_inv owned ?K m' g"
  proof (rule heap_inv_mem[OF _ m'(5)])
    show I: "heap_inv owned ?K m g" by (rule drop_inv[OF inv]) simp_all
    fix x assume x: "x \<in> pieces ?K g"
    then have x': "x \<in> pieces K g" "x \<noteq> Arena i" "x \<noteq> Space i" "extent ?K g x = extent K g x"
      by (cases x; auto split: if_splits)+
    show "meta ?K g x \<inter> (region (ks_current (K i)) 32 \<union> region ?sp 16) = {}"
      using meta_extent[OF I x] extent_disjoint[OF inv x'(1) S(2)] extent_disjoint[OF inv x'(1) S(3)] x' parts(4) S(1) by auto
  qed
  then have h: "\<forall>q \<in> blocks g. block_ok m' g q" "\<forall>j \<in> active ?K. arena_ok ?K m' g j" "free_ok ?K m' g"
    by (simp_all add: heap_inv_def)
  have "block_ok m' ?g q" if "q \<in> blocks ?g" for q
    using that h(1) m'(3,4) m'(4)[unfolded add.commute[of _ 8]] n k16 nz unat_u64[of "k + 16"]
    by (auto simp: block_ok_def size b)
  moreover have "arena_ok K m' ?g j" if "j \<in> active K" for j
  proof (cases "j = i")
    case False
    then have "arena_ok ?K m' g j" using h(2) that by (simp add: active_def)
    with False show ?thesis by (simp add: arena_ok_def g_carve_def)
  qed (use m'(1,2) in \<open>simp add: arena_ok_def g_carve_def\<close>)
  moreover have "free_ok K m' ?g"
  proof -
    have np: "?p \<notin> set (g_free g x)" for x using new unfolding blocks_def by blast
    have "ks_bins (?K j) = ks_bins (K j)" for j by simp
    then have "free_ok K m' g" using h(3) by (simp add: free_ok_def)
    then show ?thesis using np unfolding free_ok_def by (auto simp: g_carve_def)
  qed
  moreover have "extent K ?g x \<subseteq> owned" if "x \<in> pieces K ?g" for x
  proof -
    have own': "\<forall>x \<in> pieces K g. extent K g x \<subseteq> owned" using inv by (simp add: heap_inv_def)
    then have "region ?sp (g_rem g i) \<subseteq> owned" using S by metis
    then have S': "extent K ?g (Space i) \<subseteq> owned" "extent K ?g (Block ?p) \<subseteq> owned"
      unfolding e' using parts by blast+
    show ?thesis
    proof (cases "x = Block ?p \<or> x = Space i")
      case False
      then show ?thesis using that own' e[of x] unfolding pc by blast
    qed (use S' in blast)
  qed
  ultimately show "heap_inv owned K m' ?g" using dis unfolding heap_inv_def by auto
qed

text \<open>The memory after an object was cut off: the arena, and the header, and nothing else.\<close>

lemma carve_mem:
  assumes m': "m' = store64 sp x (store64 (sp + 8) k (store64 (a + 16) v (store64 a r m)))"
    and dis: "region a 32 \<inter> region sp 16 = {}"
  shows "load64 m' a = r" "load64 m' (a + 16) = v" "load64 m' sp = x" "load64 m' (sp + 8) = k"
    "\<And>b. b \<notin> region a 32 \<union> region sp 16 \<Longrightarrow> m' b = m b"
proof -
  have A: "region a 8 \<inter> region sp 8 = {}" "region a 8 \<inter> region (sp + 8) 8 = {}"
    "region (a + 16) 8 \<inter> region sp 8 = {}" "region (a + 16) 8 \<inter> region (sp + 8) 8 = {}"
    using dis words_in[of a] words_in[of sp] by blast+
  show "load64 m' a = r" "load64 m' (a + 16) = v" "load64 m' sp = x" "load64 m' (sp + 8) = k"
    unfolding m' by (simp_all add: load_store_other A words_apart_sym)
  show "m' b = m b" if "b \<notin> region a 32 \<union> region sp 16" for b
  proof -
    have "b \<notin> region sp 8" "b \<notin> region (sp + 8) 8" "b \<notin> region (a + 16) 8" "b \<notin> region a 8"
      using that words_in[of a] words_in[of sp] by blast+
    then show ?thesis by (simp add: m' store_other)
  qed
qed

end
