(* ===== verification/Zone_Ops.thy ===== *)
theory Zone_Ops
  imports Zone_Safety
begin

text \<open>
  The operations of a heap over any source that keeps the laws of \<open>chunk_source\<close>: \<open>malloc\<close> adds one object that
  overlaps nothing, \<open>free\<close> takes one away, and neither changes what clients hold.
\<close>

subsection \<open>Sources of chunks\<close>

text \<open>
  A chunk has the requested bytes, none of which was given out before; the null pointer says that there is none. Requests
  are below \<open>2 ^ 63\<close>.
\<close>

locale chunk_source =
  fixes src :: "'s source" and ok :: "'s \<Rightarrow> bool" and owned :: "'s \<Rightarrow> u64 set"
  assumes src_ok: "ok s \<Longrightarrow> unat n \<le> 2 ^ 63 \<Longrightarrow> src n s = Inr (p, s') \<Longrightarrow> ok s'"
    and src_grows: "ok s \<Longrightarrow> unat n \<le> 2 ^ 63 \<Longrightarrow> src n s = Inr (p, s') \<Longrightarrow> owned s \<subseteq> owned s'"
    and src_fresh: "ok s \<Longrightarrow> unat n \<le> 2 ^ 63 \<Longrightarrow> src n s = Inr (p, s') \<Longrightarrow> p \<noteq> 0 \<Longrightarrow>
      region p n \<subseteq> owned s' \<and> region p n \<inter> owned s = {}"
    and own_nonnull: "ok s \<Longrightarrow> 0 \<notin> owned s"

text \<open>Heap \<open>i\<close> is at work; \<open>K\<close> has the others.\<close>

definition heap_good ::
  "('s \<Rightarrow> bool) \<Rightarrow> ('s \<Rightarrow> u64 set) \<Rightarrow> (int \<Rightarrow> kingsley) \<Rightarrow> int \<Rightarrow> ghost \<Rightarrow> 's heap \<Rightarrow> bool" where
  "heap_good ok owned K i g h \<longleftrightarrow>
     ok (hp_source h) \<and> heap_inv (owned (hp_source h)) (K(i := hp_king h)) (hp_mem h) g"

text \<open>What all operations that allocate guarantee: the new object, and that no byte of an object has changed.\<close>

definition allocated ::
  "('s \<Rightarrow> bool) \<Rightarrow> ('s \<Rightarrow> u64 set) \<Rightarrow> (int \<Rightarrow> kingsley) \<Rightarrow> int \<Rightarrow> ghost \<Rightarrow> 's heap \<Rightarrow> nat \<Rightarrow> u64 \<Rightarrow> 's heap \<Rightarrow> bool" where
  "allocated ok owned K i g h n p h' \<longleftrightarrow>
     (\<exists>g'. heap_good ok owned K i g' h' \<and> (\<forall>q \<in> g_live g. g_size g' q = g_size g q) \<and>
       (if p = 0 then g_live g' = g_live g
        else p \<notin> g_live g \<and> g_live g' = insert p (g_live g) \<and> n \<le> unat (g_size g' p))) \<and>
     (\<forall>q \<in> g_live g. \<forall>a \<in> region q (g_size g q). hp_mem h' a = hp_mem h a)"

definition same_objects :: "ghost \<Rightarrow> 's heap \<Rightarrow> 's heap \<Rightarrow> bool" where
  "same_objects g h h' \<longleftrightarrow> (\<forall>q \<in> g_live g. \<forall>a \<in> region q (g_size g q). hp_mem h' a = hp_mem h a)"

text \<open>After a request that got nothing: the source had no chunk, and the heap has no arena.\<close>

definition no_chunk :: "'s source \<Rightarrow> ('s \<Rightarrow> bool) \<Rightarrow> 's heap \<Rightarrow> bool" where
  "no_chunk src ok h \<longleftrightarrow> ks_current (hp_king h) = 0 \<and> (\<exists>m s. ok s \<and> src m s = Inr (0, hp_source h))"

lemma allocated_mono: "allocated ok owned K i g h n p h' \<Longrightarrow> n' \<le> n \<Longrightarrow> allocated ok owned K i g h n' p h'"
  unfolding allocated_def by (smt (verit) order_trans)

lemma clear_low_bits: "(w :: u64) AND NOT 7 = w - w mod 8"
proof -
  have seven: "(7 :: u64) = mask 3" by (simp add: mask_eq_exp_minus_1)
  have "w AND NOT 7 = push_bit 3 (drop_bit 3 w)"
    unfolding seven by (rule bit_word_eqI) (auto simp: bit_simps)
  moreover have "push_bit 3 (drop_bit 3 w) + take_bit 3 w = w" by (rule bits_ident)
  ultimately show ?thesis by (simp add: take_bit_eq_mod algebra_simps)
qed

lemma align_bounds:
  assumes "unat (sz :: u64) + 7 < 2 ^ 64"
  shows "unat sz \<le> unat ((sz + 7) AND NOT 7)" "unat ((sz + 7) AND NOT 7) \<le> unat sz + 7"
proof -
  have u: "unat (sz + 7) = unat sz + 7" using assms by (simp add: unat_word_ariths)
  note m = clear_low_bits[of "sz + 7"]
  have r: "unat ((sz + 7) mod 8) = (unat sz + 7) mod 8" by (simp add: unat_mod u)
  have le: "(sz + 7) mod 8 \<le> sz + 7" by (simp add: word_le_nat_alt r u)
  have "unat ((sz + 7) AND NOT 7) = unat sz + 7 - (unat sz + 7) mod 8" unfolding m by (simp add: unat_sub le r u)
  moreover have "(unat sz + 7) mod 8 \<le> 7" by simp
  ultimately show "unat sz \<le> unat ((sz + 7) AND NOT 7)" "unat ((sz + 7) AND NOT 7) \<le> unat sz + 7" by linarith+
qed

lemmas heap_parts = upd_king_def write64_def read64_def put_header_def objectHeader_new_def

text \<open>Cutting an object off the current arena, and writing its header.\<close>

context chunk_source
begin

lemma good_parts:
  assumes "heap_good ok owned K i g h"
  shows "heap_inv (owned (hp_source h)) (K(i := hp_king h)) (hp_mem h) g" "ok (hp_source h)" "0 \<notin> owned (hp_source h)"
    "x \<in> pieces (K(i := hp_king h)) g \<Longrightarrow> extent (K(i := hp_king h)) g x \<subseteq> owned (hp_source h)"
  using assms own_nonnull unfolding heap_good_def heap_inv_def by blast+

lemma object_in_block:
  assumes "heap_inv own K m g" "q \<in> g_live g"
  shows "region q (g_size g q) \<subseteq> extent K g (Block q)" "Block q \<in> pieces K g"
proof -
  have q: "q \<in> blocks g" using assms(2) by (simp add: blocks_def)
  then have "unat (g_size g q) + 16 < 2 ^ 64" using assms(1) by (auto simp: heap_inv_def block_ok_def)
  then show "region q (g_size g q) \<subseteq> extent K g (Block q)" by (simp add: block_parts(2))
  show "Block q \<in> pieces K g" using q by simp
qed

lemma cut_object:
  assumes good: "heap_good ok owned K i g h" and a: "a = ks_current (hp_king h)" "a \<noteq> 0"
    and n: "n \<le> sizeRemaining a h" "unat k + 16 \<le> unat n" "8 \<le> unat k" "class_size k" and r: "arena_malloc a n h = (q, h1)"
  shows "q \<noteq> 0" "q + 16 \<noteq> 0" "allocated ok owned K i g h (unat k) (q + 16) (put_header q (objectHeader_new k) h1)"
proof -
  let ?K = "K(i := hp_king h)" and ?sp = "g_space g i" and ?h = "put_header q (objectHeader_new k) h1"
  note P = good_parts[OF good]
  have A: "arena_ok ?K (hp_mem h) g i" using P(1) a by (auto simp: heap_inv_def active_def)
  have rem: "sizeRemaining a h = g_rem g i" and sp: "load64 (hp_mem h) (a + 16) = ?sp"
    using A a by (simp_all add: arena_ok_def sizeRemaining_def read64_def arena_remaining_def)
  have pcs: "Arena i \<in> pieces ?K g" "Space i \<in> pieces ?K g" using a by simp_all
  have q: "q = ?sp" and h1: "h1 = h\<lparr>hp_mem := store64 (a + 16) (?sp + n) (store64 a (g_rem g i - n) (hp_mem h))\<rparr>"
    using r[unfolded arena_malloc_def if_not_P[OF leD[OF n(1)]]] sp
    by (auto simp: Let_def rem heap_parts arena_remaining_def arena_space_def load_store_other words_apart_sym)
  have nn: "unat n \<le> unat (g_rem g i)" using n(1) by (simp add: rem word_le_nat_alt)
  have "?sp \<in> extent ?K g (Space i)" "?sp + 16 \<in> extent ?K g (Space i)" using nn n(2,3) by (auto simp: region_iff)
  then have "?sp \<in> owned (hp_source h)" "?sp + 16 \<in> owned (hp_source h)" using P(4)[OF pcs(2)] by blast+
  then show "q \<noteq> 0" "q + 16 \<noteq> 0" using P(3) q by auto
  have mem: "hp_mem ?h = store64 ?sp OBJECT_MAGIC (store64 (?sp + 8) k (store64 (a + 16) (?sp + n) (store64 a (g_rem g i - n) (hp_mem h))))"
    and fields: "hp_king ?h = hp_king h" "hp_source ?h = hp_source h"
    by (simp_all add: q h1 heap_parts)
  have apart: "region a 32 \<inter> region ?sp (g_rem g i) = {}"
    using extent_disjoint[OF P(1) pcs] a(1) by simp
  moreover have sub: "region ?sp 16 \<subseteq> region ?sp (g_rem g i)" using nn n(2) by (intro region_prefix) simp
  ultimately have "region a 32 \<inter> region ?sp 16 = {}" by blast
  note M = carve_mem[OF mem this]
  have c: "ks_current (?K i) = a" using a by simp
  have C: "?sp + 16 \<notin> blocks g" "heap_inv (owned (hp_source h)) ?K (hp_mem ?h) (g_carve i n k g)"
    using carve_inv[OF P(1,3) _ nn n(2-4), where m' = "hp_mem ?h"] M a(2) unfolding c by blast+
  have "hp_mem ?h b = hp_mem h b" if "p \<in> g_live g" "b \<in> region p (g_size g p)" for p b
  proof (rule M(5))
    note O = object_in_block[OF P(1) that(1)]
    have "extent ?K g (Block p) \<inter> extent ?K g (Arena i) = {}" "extent ?K g (Block p) \<inter> extent ?K g (Space i) = {}"
      using extent_disjoint[OF P(1) O(2)] pcs by blast+
    then show "b \<notin> region a 32 \<union> region ?sp 16" using O(1) that(2) sub a(1) by auto
  qed
  moreover have "heap_good ok owned K i (g_carve i n k g) ?h" using C(2) P(2) fields by (simp add: heap_good_def)
  ultimately show "allocated ok owned K i g h (unat k) (q + 16) ?h"
    unfolding allocated_def using C(1) q \<open>q + 16 \<noteq> 0\<close>
    by (intro conjI exI[of _ "g_carve i n k g"]) (auto simp: g_carve_def blocks_def)
qed

subsection \<open>The zone\<close>

lemma same_objects_outside:
  assumes inv: "heap_inv own K (hp_mem h) g" and W: "\<And>x. x \<in> pieces K g \<Longrightarrow> x \<noteq> Arena i \<Longrightarrow> extent K g x \<inter> W = {}"
    and m: "\<And>a. a \<notin> W \<Longrightarrow> hp_mem h' a = hp_mem h a"
  shows "same_objects g h h'"
  unfolding same_objects_def using object_in_block[OF inv] W m by blast

lemma allocated_after:
  assumes "allocated ok owned K i g1 h1 n p h'" "g_live g1 = g_live g" "g_size g1 = g_size g" "same_objects g h h1"
  shows "allocated ok owned K i g h n p h'"
proof -
  have "\<forall>q \<in> g_live g. \<forall>a \<in> region q (g_size g q). hp_mem h' a = hp_mem h a"
    using assms by (simp add: allocated_def same_objects_def)
  then show ?thesis using assms(1) unfolding allocated_def assms(2,3) by blast
qed

lemma heap_inv_mono: "heap_inv own K m g \<Longrightarrow> own \<subseteq> own' \<Longrightarrow> heap_inv own' K m g"
  unfolding heap_inv_def by blast

lemma retire_good:
  assumes good: "heap_good ok owned K i g h"
  shows "heap_good ok owned K i g (retire_arena h)" "ks_current (hp_king (retire_arena h)) = 0"
    "ks_bins (hp_king (retire_arena h)) = ks_bins (hp_king h)" "same_objects g h (retire_arena h)"
proof -
  let ?a = "ks_current (hp_king h)" and ?K = "K(i := hp_king h)" and ?h = "retire_arena h"
  note P = good_parts[OF good]
  show "ks_current (hp_king ?h) = 0" "ks_bins (hp_king ?h) = ks_bins (hp_king h)"
    by (simp_all add: retire_arena_def Let_def heap_parts)
  have "heap_good ok owned K i g ?h \<and> same_objects g h ?h"
  proof (cases "?a = 0")
    case True
    then show ?thesis using good by (simp add: retire_arena_def same_objects_def)
  next
    case False
    let ?W = "region (?a + 8) 8"
    have mem: "hp_mem ?h = store64 (?a + 8) (ks_past (hp_king h)) (hp_mem h)" and src: "hp_source ?h = hp_source h"
      and king: "ks_current (hp_king ?h) = 0" "ks_bins (hp_king ?h) = ks_bins (hp_king h)"
      using False by (simp_all add: retire_arena_def Let_def heap_parts arena_next_def)
    have out: "b \<notin> ?W \<Longrightarrow> hp_mem ?h b = hp_mem h b" for b unfolding mem by (rule store_other)
    have away: "extent ?K g x \<inter> ?W = {}" if "x \<in> pieces ?K g" "x \<noteq> Arena i" for x
      using extent_disjoint[OF P(1), of x "Arena i"] that False words_in(2)[of ?a] by auto
    have D: "heap_inv (owned (hp_source h)) (?K(i := hp_king ?h)) (hp_mem h) g"
      by (rule drop_inv[OF P(1)]) (simp_all add: king)
    have "heap_inv (owned (hp_source h)) (?K(i := hp_king ?h)) (hp_mem ?h) g"
    proof (rule heap_inv_mem[OF D out])
      fix x assume x: "x \<in> pieces (?K(i := hp_king ?h)) g"
      then have x': "x \<in> pieces ?K g" "x \<noteq> Arena i" "extent (?K(i := hp_king ?h)) g x = extent ?K g x"
        using king(1) by (cases x; auto split: if_splits)+
      show "meta (?K(i := hp_king ?h)) g x \<inter> ?W = {}" using meta_extent[OF D x] away[OF x'(1,2)] x'(3) by auto
    qed
    then have "heap_good ok owned K i g ?h" using P(2) by (simp add: heap_good_def src)
    moreover have "same_objects g h ?h" by (rule same_objects_outside[OF P(1) away out])
    ultimately show ?thesis by blast
  qed
  then show "heap_good ok owned K i g ?h" "same_objects g h ?h" by blast+
qed

lemma open_good:
  assumes good: "heap_good ok owned K i g h" and none: "ks_current (hp_king h) = 0"
    and n: "unat (32 + alloc) \<le> 2 ^ 63" "unat alloc + 32 < 2 ^ 64"
    and src: "src (32 + alloc) (hp_source h) = Inr (buf, s)" and buf: "buf \<noteq> 0"
    and h': "h' = upd_king (\<lambda>k. k\<lparr>ks_current := buf\<rparr>) (arena_new buf alloc (h\<lparr>hp_source := s\<rparr>))"
  shows "heap_good ok owned K i (g_open i alloc (buf + 32) g) h'" "ks_current (hp_king h') = buf"
    "sizeRemaining buf h' = alloc" "same_objects g h h'"
proof -
  let ?K = "K(i := hp_king h)"
  note P = good_parts[OF good] and S = src_ok[OF P(2) n(1) src] src_grows[OF P(2) n(1) src] src_fresh[OF P(2) n(1) src buf]
  have mem: "hp_mem h' = store64 (buf + 16) (buf + 32) (store64 (buf + 8) 0 (store64 buf alloc (hp_mem h)))"
    and king: "hp_king h' = (hp_king h)\<lparr>ks_current := buf\<rparr>" and s: "hp_source h' = s"
    by (simp_all add: h' heap_parts arena_new_def arena_space_def arena_next_def arena_remaining_def ARENA_SIZE_def)
  show "ks_current (hp_king h') = buf" by (simp add: king)
  have loads: "load64 (hp_mem h') buf = alloc" "load64 (hp_mem h') (buf + 16) = buf + 32"
    unfolding mem by (simp_all add: load_store_other words_apart_sym)
  show "sizeRemaining buf h' = alloc" using loads by (simp add: sizeRemaining_def read64_def arena_remaining_def)
  have out: "hp_mem h' b = hp_mem h b" if "b \<notin> region buf 32" for b
  proof -
    have "b \<notin> region (buf + 16) 8" "b \<notin> region (buf + 8) 8" "b \<notin> region buf 8" using that words_in[of buf] by blast+
    then show ?thesis by (simp add: mem store_other)
  qed
  have "heap_inv (owned s) (?K(i := hp_king h')) (hp_mem h') (g_open i alloc (buf + 32) g)"
    by (rule open_inv[OF P(1), where buf = buf]) (use none king buf n(2) S loads out in auto)
  then show "heap_good ok owned K i (g_open i alloc (buf + 32) g) h'" using S(1) by (simp add: heap_good_def s)
  have "region buf 32 \<subseteq> region buf (32 + alloc)"
    using n(2) by (intro region_prefix) (simp add: unat_word_ariths)
  then have "extent ?K g x \<inter> region buf 32 = {}" if "x \<in> pieces ?K g" for x using P(4)[OF that] S(3) by blast
  then show "same_objects g h h'" by (intro same_objects_outside[OF P(1) _ out])
qed

text \<open>The heap for large objects, from which the size classes are filled, too.\<close>

lemma bigheap_allocates:
  assumes good: "heap_good ok owned K i g h" and c: "unat chunk \<le> 2 ^ 62" and k: "8 \<le> unat k" "unat k \<le> 2 ^ 62" "class_size k"
    and r: "bigheap_malloc src chunk k h = Inr (p, h')"
  shows "allocated ok owned K i g h (unat k) p h' \<and> (p = 0 \<longrightarrow> no_chunk src ok h')"
proof -
  let ?n = "zone_align (k + 16)" and ?a = "ks_current (hp_king h)"
  have k16: "unat (k + 16) = unat k + 16" using k by (intro unat_header) simp
  have n: "unat k + 16 \<le> unat ?n" "unat ?n \<le> unat k + 23"
    using align_bounds[of "k + 16"] k k16 by (simp_all add: zone_align_def)
  have header: "bigheap_malloc src chunk k h = bindR (zoneMalloc src chunk (k + 16) h) (\<lambda>(ptr, h1).
      if ptr = 0 then Inr (0, h1) else Inr (ptr + 16, put_header ptr (objectHeader_new k) h1))"
    unfolding bigheap_malloc_def new_source_malloc_def HEADER_SIZE_def getPointer_def ..
  show ?thesis
  proof (cases "?a \<noteq> 0 \<and> sizeRemaining ?a h \<ge> ?n")
    case True
    obtain q h1 where q: "arena_malloc ?a ?n h = (q, h1)" by fastforce
    note C = cut_object[OF good refl _ _ n(1) k(1,3) q]
    have "zoneMalloc src chunk (k + 16) h = Inr (q, h1)"
      using True unfolding zoneMalloc_def Let_def q[symmetric] by (rule if_P)
    then show ?thesis using r C True unfolding header by auto
  next
    case False
    then have z: "zoneMalloc src chunk (k + 16) h = slowMalloc src chunk ?n h"
      unfolding zoneMalloc_def Let_def by (rule if_not_P)
    let ?h1 = "retire_arena h" and ?alloc = "if chunk < ?n then ?n else chunk"
    note R = retire_good[OF good]
    have alloc: "unat ?alloc \<le> 2 ^ 62 + 23" using n(2) k(2) c by auto
    have u: "unat (32 + ?alloc) \<le> 2 ^ 63" "unat ?alloc + 32 < 2 ^ 64"
      using alloc by (auto simp: unat_word_ariths simp del: if_split_asm intro: order_trans[OF mod_less_eq_dividend])
    obtain buf s where src: "src (32 + ?alloc) (hp_source ?h1) = Inr (buf, s)"
      using r unfolding header z slowMalloc_def Let_def ARENA_SIZE_def by (auto simp: bindR_Inr_iff)
    show ?thesis
    proof (cases "buf = 0")
      case True
      then have h': "p = 0" "h' = ?h1\<lparr>hp_source := s\<rparr>"
        using r src unfolding header z slowMalloc_def Let_def ARENA_SIZE_def by auto
      note P = good_parts[OF R(1)]
      have "heap_good ok owned K i g h'"
        using src_ok[OF P(2) u(1) src] heap_inv_mono[OF P(1) src_grows[OF P(2) u(1) src]] by (simp add: heap_good_def h')
      moreover have "no_chunk src ok h'"
        using R(2) P(2) src unfolding no_chunk_def h' True by auto
      ultimately show ?thesis using R(4) h' unfolding allocated_def same_objects_def by auto
    next
      case False
      define h3 where "h3 = upd_king (\<lambda>k. k\<lparr>ks_current := buf\<rparr>) (arena_new buf ?alloc (?h1\<lparr>hp_source := s\<rparr>))"
      note O = open_good[OF R(1,2) u src False h3_def]
      obtain q h4 where q: "arena_malloc buf ?n h3 = (q, h4)" by fastforce
      have fit: "?n \<le> sizeRemaining buf h3" unfolding O(3) by auto
      note C = cut_object[OF O(1) O(2)[symmetric] False fit n(1) k(1,3) q]
      have "p = q + 16" "p \<noteq> 0" "h' = put_header q (objectHeader_new k) h4"
        using r src q[unfolded h3_def] C(1,2) False unfolding header z slowMalloc_def Let_def ARENA_SIZE_def by auto
      then have A: "allocated ok owned K i (g_open i ?alloc (buf + 32) g) h3 (unat k) p h'" using C(3) by simp
      have "same_objects g h h3" using R(4) O(4) by (simp add: same_objects_def)
      then have "allocated ok owned K i g h (unat k) p h'"
        by (rule allocated_after[OF A, rotated -1]) (simp_all add: g_open_def)
      with \<open>p \<noteq> 0\<close> show ?thesis by blast
    qed
  qed
qed

end

end
