(* ===== verification/Heap_Clients.thy ===== *)
theory Heap_Clients
  imports Zone_Ops
begin

text \<open>
  The heap as its clients see it: \<open>malloc\<close> and \<open>free\<close> on all the heaps of a \<open>PPHeap\<close>, with clients that write to what they
  hold. The abstract view has the objects that are held and the bytes that were written; the heaps, with all their data in the same
  memory, refine it.
\<close>

subsection \<open>malloc and free of one heap\<close>

text \<open>What \<open>free\<close> does to an object of the client: it is gone, and the other objects are as they were.\<close>

definition freed :: 
  "('s \<Rightarrow> bool) \<Rightarrow> ('s \<Rightarrow> u64 set) \<Rightarrow> (int \<Rightarrow> kingsley) \<Rightarrow> int \<Rightarrow> ghost \<Rightarrow> 's heap \<Rightarrow> u64 \<Rightarrow> 's heap \<Rightarrow> bool" where
  "freed ok owned K i g h p h' \<longleftrightarrow>
     (\<exists>g'. heap_good ok owned K i g' h' \<and> g_size g' = g_size g \<and> g_live g' = g_live g - {p}) \<and>
     (\<forall>q \<in> g_live g - {p}. \<forall>a \<in> region q (g_size g q). hp_mem h' a = hp_mem h a)"

context chunk_source
begin

lemma live_block:
  assumes "heap_good ok owned K i g h" "p \<in> g_live g"
  shows "new_source_getSize p h = Inr (g_size g p)" "p \<noteq> 0" "8 \<le> unat (g_size g p)" "class_size (g_size g p)"
proof -
  have "block_ok (hp_mem h) g p" using assms by (auto simp: heap_good_def heap_inv_def blocks_def)
  moreover have "p - 16 + 8 = p - 8" by simp
  ultimately show "new_source_getSize p h = Inr (g_size g p)" "p \<noteq> 0" "8 \<le> unat (g_size g p)" "class_size (g_size g p)"
    by (simp_all add: block_ok_def new_source_getSize_def getObject_def HEADER_SIZE_def header_at_def read64_def object_getSize_def)
qed

lemma strict_allocates:
  assumes good: "heap_good ok owned K i g h" and c: "unat chunk \<le> 2 ^ 62" and sz: "8 \<le> unat sz" "unat sz \<le> 2 ^ 62"
    and r: "strict_malloc src chunk sz h = Inr (p, h')"
  shows "allocated ok owned K i g h (unat sz) p h' \<and> (p = 0 \<longrightarrow> no_chunk src ok h')"
proof (cases "sz \<le> maxObjectSize")
  case False
  then have "class_size sz" by (simp add: class_size_def)
  moreover have "bigheap_malloc src chunk sz h = Inr (p, h')" using r False by (simp add: strict_malloc_def)
  ultimately show ?thesis using bigheap_allocates[OF good c sz] by blast
next
  case True
  let ?c = "size2Class sz" and ?n = "class2Size (size2Class sz)"
  have small: "unat sz \<le> 2 ^ 31" using True by (simp add: maxObjectSize_31 word_le_nat_alt)
  note C = size_class(1,2)[OF small] class_holds(1)[OF small]
  have n: "8 \<le> unat ?n" "unat ?n \<le> 2 ^ 62" "class_size ?n"
    using C sz(1) class_of_class(3)[OF C(1,2)] by (auto simp: class_size_def)
  show ?thesis
  proof (cases "ks_bins (hp_king h) ?c = 0")
    case True': True
    then have "bigheap_malloc src chunk ?n h = Inr (p, h')"
      using r True by (simp add: strict_malloc_def adapt_malloc_def sl_get_def Let_def)
    then show ?thesis using bigheap_allocates[OF good c n] C(3) allocated_mono by blast
  next
    case False
    then have h': "p = ks_bins (hp_king h) ?c"
      "h' = upd_king (\<lambda>k. k\<lparr>ks_bins := (ks_bins k)(?c := read64 h p)\<rparr>) h"
      using r True by (auto simp: strict_malloc_def adapt_malloc_def sl_get_def Let_def)
    have K: "ks_bins ((K(i := hp_king h)) i) ?c = p" by (simp add: h')
    note P = good_parts[OF good]
    note T = take_inv[OF P(1), where i = i and c = ?c, unfolded K]
    have "heap_good ok owned K i (g_take (i, ?c) g) h'"
      using T(5) False P(2) h' by (simp add: heap_good_def upd_king_def read64_def)
    moreover have "g_size (g_take (i, ?c) g) = g_size g" by (simp add: g_take_def)
    moreover have "hp_mem h' = hp_mem h" by (simp add: h' upd_king_def)
    ultimately show ?thesis using T(2-4) False C(3) h'(1) unfolding allocated_def by auto
  qed
qed

lemma malloc_allocates:
  assumes good: "heap_good ok owned K i g h" and c: "unat chunk \<le> 2 ^ 62" and sz: "unat sz \<le> 2 ^ 61"
    and r: "kingsley_malloc src chunk sz h = Inr (p, h')"
  shows "allocated ok owned K i g h (unat sz) p h' \<and> (p = 0 \<longrightarrow> no_chunk src ok h')"
proof -
  let ?s = "if sz < 16 then 16 else sz"
  have s: "unat sz \<le> unat ?s" "16 \<le> unat ?s" "unat ?s \<le> 2 ^ 61" using sz by (auto simp: word_less_nat_alt)
  have a: "unat ?s \<le> unat (ansi_align ?s)" "unat (ansi_align ?s) \<le> unat ?s + 7"
    using align_bounds[of ?s] s(3) by (simp_all add: ansi_align_def)
  have "strict_malloc src chunk (ansi_align ?s) h = Inr (p, h')" using r by (simp add: kingsley_malloc_def ansi_malloc_def)
  then have "allocated ok owned K i g h (unat (ansi_align ?s)) p h' \<and> (p = 0 \<longrightarrow> no_chunk src ok h')"
    by (rule strict_allocates[OF good c, rotated -1]) (use a s in auto)
  then show ?thesis using allocated_mono a s by (meson order_trans)
qed

lemma forget_inv:
  assumes "heap_inv own K m g" shows "heap_inv own K m (g\<lparr>g_live := g_live g - {p}\<rparr>)"
proof -
  let ?g = "g\<lparr>g_live := g_live g - {p}\<rparr>"
  have sub: "pieces K ?g \<subseteq> pieces K g" by (auto simp: pieces_def blocks_def)
  have e: "extent K ?g = extent K g" by (rule extent_frame) simp_all
  have "blocks ?g \<subseteq> blocks g" by (auto simp: blocks_def)
  then have "\<forall>q \<in> blocks ?g. block_ok m ?g q" using assms by (auto simp: heap_inv_def block_ok_def)
  moreover have "free_ok K m ?g" using assms by (auto simp: heap_inv_def free_ok_def)
  moreover have "disjoint_family_on (extent K g) (pieces K ?g)"
    using assms disjoint_family_on_mono[OF sub] unfolding heap_inv_def by blast
  ultimately show ?thesis using assms sub unfolding heap_inv_def e by (auto simp: arena_ok_def)
qed

lemma free_frees:
  assumes good: "heap_good ok owned K i g h" and p: "p \<in> g_live g"
  shows "\<exists>h'. ansi_free p h = Inr h' \<and> freed ok owned K i g h p h'"
proof -
  let ?n = "g_size g p"
  note B = live_block[OF good p] and P = good_parts[OF good]
  have start: "ansi_free p h = strict_free p h" using B(2) by (simp add: ansi_free_def)
  have nz: "?n \<noteq> 0" using B(3) by auto
  show ?thesis
  proof (cases "?n > maxObjectSize")
    case True
    then have "strict_free p h = Inr h"
      using B(1) nz by (simp add: strict_free_def bigheap_free_def new_source_free_def zone_free_def)
    moreover have "freed ok owned K i g h p h"
      using forget_inv[OF P(1), of p] P(2) unfolding freed_def heap_good_def
      by (intro conjI exI[of _ "g\<lparr>g_live := g_live g - {p}\<rparr>"]) auto
    ultimately show ?thesis using start by auto
  next
    case False
    then obtain c where c: "0 \<le> c" "c < NUMBINS" "?n = class2Size c" using B(4) by (auto simp: class_size_def)
    let ?h = "upd_king (\<lambda>k. k\<lparr>ks_held := ks_held k + ?n\<rparr>) (adapt_free c p h)"
    have "strict_free p h = Inr ?h"
      using B(1) nz False c class_of_class[OF c(1,2)] by (simp add: strict_free_def)
    moreover have mem: "hp_mem ?h = store64 p (ks_bins (hp_king h) c) (hp_mem h)" and src: "hp_source ?h = hp_source h"
      and king: "ks_current (hp_king ?h) = ks_current (hp_king h)" "ks_bins (hp_king ?h) = (ks_bins (hp_king h))(c := p)"
      by (simp_all add: adapt_free_def sl_insert_def heap_parts)
    have "heap_inv (owned (hp_source h)) ((K(i := hp_king h))(i := hp_king ?h))
        (store64 p (ks_bins ((K(i := hp_king h)) i) c) (hp_mem h)) (g_give (i, c) p g)"
      by (rule give_inv[OF P(1) p c]) (simp_all add: king)
    then have good': "heap_good ok owned K i (g_give (i, c) p g) ?h" using P(2) by (simp add: heap_good_def src mem)
    have "hp_mem ?h a = hp_mem h a" if q: "q \<in> g_live g - {p}" and a: "a \<in> region q (g_size g q)" for q a
      unfolding mem
    proof (rule store_other)
      have "region p 8 \<subseteq> region p ?n" using B(3) by (intro region_prefix) simp
      moreover have "extent (K(i := hp_king h)) g (Block q) \<inter> extent (K(i := hp_king h)) g (Block p) = {}"
        using q p by (intro extent_disjoint[OF P(1)]) (auto simp: blocks_def)
      ultimately show "a \<notin> region p 8"
        using object_in_block(1)[OF P(1) p] object_in_block(1)[OF P(1), of q] q a by blast
    qed
    then have "freed ok owned K i g h p ?h"
      using good' unfolding freed_def by (intro conjI exI[of _ "g_give (i, c) p g"]) (auto simp: g_give_def)
    ultimately show ?thesis using start by auto
  qed
qed

text \<open>Only the source can make \<open>malloc\<close> fail with a fault.\<close>

lemma zone_fault: "zoneMalloc src chunk sz h = Inl e \<Longrightarrow> \<exists>n s. src n s = Inl e"
  by (auto simp: zoneMalloc_def slowMalloc_def Let_def bindR_Inl_iff split: if_splits)

lemma bigheap_fault: "bigheap_malloc src chunk sz h = Inl e \<Longrightarrow> \<exists>n s. src n s = Inl e"
  using zone_fault by (fastforce simp: bigheap_malloc_def new_source_malloc_def bindR_Inl_iff split: if_splits)

lemma malloc_fault: "kingsley_malloc src chunk sz h = Inl e \<Longrightarrow> \<exists>n s. src n s = Inl e"
  by (auto simp: kingsley_malloc_def ansi_malloc_def strict_malloc_def Let_def split: if_splits prod.splits
      dest: bigheap_fault)

end

subsection \<open>Clients\<close>

datatype heap_call = Malloc int u64 | Free int u64 | Write u64 u8

text \<open>
  The abstract view: the objects that are held with the sizes that were asked for, and the bytes that were written to them.
  A call that the rules of \<open>malloc\<close> do not allow is refused.
\<close>

record 's client =
  cl_heap :: "'s pheap"
  cl_live :: "(u64 \<times> u64) list"
  cl_bytes :: "u64 \<Rightarrow> u8 option"

definition within :: "u64 \<Rightarrow> u64 \<times> u64 \<Rightarrow> bool" where
  "within a o1 \<longleftrightarrow> a - fst o1 < snd o1"

definition call_ok :: "heap_call \<Rightarrow> 's client \<Rightarrow> bool" where
  "call_ok call C = (case call of
      Malloc i n \<Rightarrow> 0 \<le> i \<and> i < NUM_HEAPS \<and> n \<le> 0x2000000000000000
    | Free i p \<Rightarrow> 0 \<le> i \<and> i < NUM_HEAPS \<and> p \<in> fst ` set (cl_live C)
    | Write a v \<Rightarrow> list_ex (within a) (cl_live C))"

definition client_call :: "'s source \<Rightarrow> u64 \<Rightarrow> heap_call \<Rightarrow> 's client \<Rightarrow> 's client result" where
  "client_call src chunk call C =
     (if \<not> call_ok call C then Inl AssertFailed
      else case call of
        Malloc i n \<Rightarrow> bindR (pp_malloc src chunk i n (cl_heap C)) (\<lambda>(p, P).
          Inr (C\<lparr>cl_heap := P, cl_live := (if p = 0 then cl_live C else (p, n) # cl_live C)\<rparr>))
      | Free i p \<Rightarrow> bindR (pp_free i p (cl_heap C)) (\<lambda>P.
          Inr (C\<lparr>cl_heap := P, cl_live := filter (\<lambda>x. fst x \<noteq> p) (cl_live C),
            cl_bytes := (\<lambda>a. if list_ex (\<lambda>x. fst x = p \<and> within a x) (cl_live C) then None else cl_bytes C a)\<rparr>))
      | Write a v \<Rightarrow>
          Inr (C\<lparr>cl_heap := (cl_heap C)\<lparr>pp_mem := (pp_mem (cl_heap C))(a := v)\<rparr>,
            cl_bytes := (\<lambda>b. if b = a then Some v else cl_bytes C b)\<rparr>))"

fun client_run :: "'s source \<Rightarrow> u64 \<Rightarrow> heap_call list \<Rightarrow> 's client \<Rightarrow> 's client result" where
  "client_run src chunk [] C = Inr C"
| "client_run src chunk (c # cs) C = bindR (client_call src chunk c C) (client_run src chunk cs)"

definition client_start :: "'s pheap \<Rightarrow> 's client" where
  "client_start P = \<lparr>cl_heap = P, cl_live = [], cl_bytes = \<lambda>a. None\<rparr>"

lemma within_region: "within a (p, n) \<longleftrightarrow> a \<in> region p n"
  by (simp add: within_def region_def)

definition pp_good :: "('s \<Rightarrow> bool) \<Rightarrow> ('s \<Rightarrow> u64 set) \<Rightarrow> ghost \<Rightarrow> 's pheap \<Rightarrow> bool" where
  "pp_good ok owned g P \<longleftrightarrow> ok (pp_source P) \<and> heap_inv (owned (pp_source P)) (pp_heap P) (pp_mem P) g"

definition client_inv :: "('s \<Rightarrow> bool) \<Rightarrow> ('s \<Rightarrow> u64 set) \<Rightarrow> 's client \<Rightarrow> bool" where
  "client_inv ok owned C \<longleftrightarrow> distinct (map fst (cl_live C)) \<and>
     (\<exists>g. pp_good ok owned g (cl_heap C) \<and>
       (\<forall>(p, n) \<in> set (cl_live C). p \<in> g_live g \<and> unat n \<le> unat (g_size g p))) \<and>
     (\<forall>a v. cl_bytes C a = Some v \<longrightarrow> pp_mem (cl_heap C) a = v \<and> list_ex (within a) (cl_live C))"

lemma view_good: "heap_good ok owned (pp_heap P) i g (pp_view i P) = pp_good ok owned g P"
  by (simp add: heap_good_def pp_good_def pp_view_def)

lemma put_good: "heap_good ok owned (pp_heap P) i g h = pp_good ok owned g (pp_put i h P)"
  by (simp add: heap_good_def pp_good_def pp_put_def)

lemma view_mem [simp]: "hp_mem (pp_view i P) = pp_mem P" "pp_mem (pp_put i h P) = hp_mem h"
  by (simp_all add: pp_view_def pp_put_def)

context chunk_source
begin

lemma start_inv: "ok s \<Longrightarrow> client_inv ok owned (client_start (pp_create s m))"
  unfolding client_inv_def
proof (intro conjI exI)
  let ?g = "\<lparr>g_live = {}, g_size = \<lambda>p. 0, g_rem = \<lambda>i. 0, g_space = \<lambda>i. 0, g_free = \<lambda>x. []\<rparr>"
  assume "ok s"
  then show "pp_good ok owned ?g (cl_heap (client_start (pp_create s m)))"
    by (simp add: pp_good_def client_start_def pp_create_def kingsley_new_def heap_inv_def pieces_def blocks_def active_def
        free_ok_def disjoint_family_on_def)
qed (simp_all add: client_start_def)

lemma byte_in_object:
  assumes "list_ex (within a) xs" "\<forall>(p, n) \<in> set xs. p \<in> g_live g \<and> unat n \<le> unat (g_size g p)"
  obtains p n where "(p, n) \<in> set xs" "a \<in> region p n" "p \<in> g_live g" "a \<in> region p (g_size g p)"
proof -
  from assms(1) obtain p n where pn: "(p, n) \<in> set xs" "a \<in> region p n"
    by (auto simp: list_ex_iff within_region)
  then have "p \<in> g_live g" "unat n \<le> unat (g_size g p)" using assms(2) by auto
  then show thesis using that pn region_prefix[of n "g_size g p" p] by blast
qed

lemma malloc_client:
  assumes inv: "client_inv ok owned C" and c: "unat chunk \<le> 2 ^ 62" and ok: "call_ok (Malloc i n) C"
    and r: "client_call src chunk (Malloc i n) C = Inr C'"
  shows "client_inv ok owned C'"
proof -
  let ?P = "cl_heap C"
  obtain g where g: "pp_good ok owned g ?P" "\<forall>(p, n) \<in> set (cl_live C). p \<in> g_live g \<and> unat n \<le> unat (g_size g p)"
    using inv by (auto simp: client_inv_def)
  have i: "\<not> (i < 0 \<or> NUM_HEAPS \<le> i)" and n: "unat n \<le> 2 ^ 61" using ok by (auto simp: call_ok_def word_le_nat_alt)
  obtain p h where m: "kingsley_malloc src chunk n (pp_view i ?P) = Inr (p, h)"
    and C': "C' = C\<lparr>cl_heap := pp_put i h ?P, cl_live := (if p = 0 then cl_live C else (p, n) # cl_live C)\<rparr>"
    using r ok i by (auto simp: client_call_def pp_malloc_def bindR_Inr_iff)
  have "heap_good ok owned (pp_heap ?P) i g (pp_view i ?P)" using g(1) by (simp add: view_good)
  note A = malloc_allocates[OF this c n m, THEN conjunct1, unfolded allocated_def view_mem]
  then obtain g' where g': "heap_good ok owned (pp_heap ?P) i g' h" "\<forall>q \<in> g_live g. g_size g' q = g_size g q"
    "if p = 0 then g_live g' = g_live g else p \<notin> g_live g \<and> g_live g' = insert p (g_live g) \<and> unat n \<le> unat (g_size g' p)"
    by blast
  have "hp_mem h a = v" if v: "cl_bytes C a = Some v" for a v
  proof -
    have "pp_mem ?P a = v" "list_ex (within a) (cl_live C)" using inv v by (auto simp: client_inv_def)
    moreover from this(2) g(2) obtain q where "q \<in> g_live g" "a \<in> region q (g_size g q)" by (rule byte_in_object)
    ultimately show ?thesis using A by blast
  qed
  moreover have "distinct (map fst (cl_live C'))"
    using inv g(2) g'(3) by (force simp: client_inv_def C' split: if_splits)
  moreover have "\<forall>(q, k) \<in> set (cl_live C'). q \<in> g_live g' \<and> unat k \<le> unat (g_size g' q)"
    using g(2) g'(2,3) by (auto simp: C' split: if_splits)
  moreover have "pp_good ok owned g' (cl_heap C')" using g'(1) by (simp add: put_good C')
  ultimately show ?thesis using inv unfolding client_inv_def by (auto simp: C')
qed

lemma free_client:
  assumes inv: "client_inv ok owned C" and ok: "call_ok (Free i p) C"
  shows "\<exists>C'. client_call src chunk (Free i p) C = Inr C' \<and> client_inv ok owned C'"
proof -
  let ?P = "cl_heap C"
  obtain g where g: "pp_good ok owned g ?P" "\<forall>(p, n) \<in> set (cl_live C). p \<in> g_live g \<and> unat n \<le> unat (g_size g p)"
    using inv by (auto simp: client_inv_def)
  have i: "\<not> (i < 0 \<or> NUM_HEAPS \<le> i)" and p: "p \<in> g_live g" using ok g(2) by (auto simp: call_ok_def)
  have G: "heap_good ok owned (pp_heap ?P) i g (pp_view i ?P)" using g(1) by (simp add: view_good)
  obtain h where h: "ansi_free p (pp_view i ?P) = Inr h" "freed ok owned (pp_heap ?P) i g (pp_view i ?P) p h"
    using free_frees[OF G p] by blast
  then obtain g' where g': "heap_good ok owned (pp_heap ?P) i g' h" "g_size g' = g_size g" "g_live g' = g_live g - {p}"
    "\<forall>q \<in> g_live g - {p}. \<forall>a \<in> region q (g_size g q). hp_mem h a = pp_mem ?P a"
    by (auto simp: freed_def)
  let ?C = "C\<lparr>cl_heap := pp_put i h ?P, cl_live := filter (\<lambda>x. fst x \<noteq> p) (cl_live C),
      cl_bytes := (\<lambda>a. if list_ex (\<lambda>x. fst x = p \<and> within a x) (cl_live C) then None else cl_bytes C a)\<rparr>"
  have "client_call src chunk (Free i p) C = Inr ?C" using ok i h(1) by (simp add: client_call_def pp_free_def)
  moreover have "hp_mem h a = v \<and> list_ex (within a) (cl_live ?C)" if v: "cl_bytes ?C a = Some v" for a v
  proof -
    have v': "cl_bytes C a = Some v" and np: "\<not> list_ex (\<lambda>x. fst x = p \<and> within a x) (cl_live C)"
      using v by (auto split: if_splits)
    then have "pp_mem ?P a = v" "list_ex (within a) (cl_live C)" using inv by (auto simp: client_inv_def)
    moreover from this(2) g(2) obtain q k where q: "(q, k) \<in> set (cl_live C)" "a \<in> region q k" "q \<in> g_live g"
      "a \<in> region q (g_size g q)" by (rule byte_in_object)
    moreover have "q \<noteq> p" using np q(1,2) by (force simp: list_ex_iff within_region)
    ultimately show ?thesis using g'(4) by (force simp: list_ex_iff within_region)
  qed
  moreover have "pp_good ok owned g' (pp_put i h ?P)" using g'(1) by (simp add: put_good)
  moreover have "distinct (map fst (cl_live ?C))" using inv by (simp add: client_inv_def distinct_map_filter)
  moreover have "\<forall>(q, k) \<in> set (cl_live ?C). q \<in> g_live g' \<and> unat k \<le> unat (g_size g' q)" using g(2) g'(2,3) by auto
  ultimately have "client_inv ok owned ?C" unfolding client_inv_def by auto
  with \<open>client_call src chunk (Free i p) C = Inr ?C\<close> show ?thesis by blast
qed

lemma fill_client:
  assumes inv: "client_inv ok owned C" and p: "(p, n) \<in> set (cl_live C)"
    and m: "\<And>a. a \<notin> region p n \<Longrightarrow> m' a = pp_mem (cl_heap C) a"
    and b: "\<And>a v. b a = Some v \<Longrightarrow> m' a = v \<and> list_ex (within a) (cl_live C)"
  shows "client_inv ok owned (C\<lparr>cl_heap := (cl_heap C)\<lparr>pp_mem := m'\<rparr>, cl_bytes := b\<rparr>)"
proof -
  let ?P = "cl_heap C"
  obtain g where g: "pp_good ok owned g ?P" "\<forall>(p, n) \<in> set (cl_live C). p \<in> g_live g \<and> unat n \<le> unat (g_size g p)"
    using inv by (auto simp: client_inv_def)
  have p': "p \<in> g_live g" "region p n \<subseteq> region p (g_size g p)" using g(2) p by (auto intro: region_prefix[THEN subsetD])
  have "heap_inv (owned (pp_source ?P)) (pp_heap ?P) m' g"
    by (rule client_write_inv[where m = "pp_mem ?P", OF _ p'(1)]) (use g(1) p'(2) m in \<open>auto simp: pp_good_def\<close>)
  then have "pp_good ok owned g (?P\<lparr>pp_mem := m'\<rparr>)" using g(1) by (simp add: pp_good_def)
  then show ?thesis using g(2) inv b unfolding client_inv_def by auto
qed

lemma write_client:
  assumes inv: "client_inv ok owned C" and ok: "call_ok (Write a v) C"
  shows "\<exists>C'. client_call src chunk (Write a v) C = Inr C' \<and> client_inv ok owned C'"
proof -
  let ?m = "(pp_mem (cl_heap C))(a := v)" and ?b = "\<lambda>b. if b = a then Some v else cl_bytes C b"
  have w: "list_ex (within a) (cl_live C)" using ok by (simp add: call_ok_def)
  then obtain p n where "(p, n) \<in> set (cl_live C)" "a \<in> region p n" by (auto simp: list_ex_iff within_region)
  then have "client_inv ok owned (C\<lparr>cl_heap := (cl_heap C)\<lparr>pp_mem := ?m\<rparr>, cl_bytes := ?b\<rparr>)"
    by (intro fill_client[OF inv]) (use w inv in \<open>auto simp: client_inv_def split: if_splits\<close>)
  then show ?thesis using ok by (simp add: client_call_def)
qed

lemma client_run_inv:
  assumes "client_inv ok owned C" "unat chunk \<le> 2 ^ 62" "client_run src chunk cs C = Inr C'"
  shows "client_inv ok owned C'"
  using assms
proof (induction cs arbitrary: C)
  case (Cons c cs)
  obtain C1 where 1: "client_call src chunk c C = Inr C1" "client_run src chunk cs C1 = Inr C'"
    using Cons.prems(3) by (auto simp: bindR_Inr_iff)
  have ok: "call_ok c C" using 1(1) by (auto simp: client_call_def split: if_splits)
  have "client_inv ok owned C1"
  proof (cases c)
    case (Malloc i n)
    then show ?thesis using malloc_client[OF Cons.prems(1,2)] ok 1(1) by blast
  next
    case (Free i p)
    then show ?thesis using free_client[OF Cons.prems(1), where i = i and p = p and chunk = chunk] ok 1(1) by auto
  next
    case (Write a v)
    then show ?thesis using write_client[OF Cons.prems(1), where a = a and v = v and chunk = chunk] ok 1(1) by auto
  qed
  then show ?case using Cons.IH 1(2) Cons.prems(2) by blast
qed simp

text \<open>What the invariant says to a client.\<close>

lemma client_view:
  assumes inv: "client_inv ok owned C"
  shows "(p, n) \<in> set (cl_live C) \<Longrightarrow> \<exists>k. pp_getSize p (cl_heap C) = Inr k \<and> n \<le> k"
    and "(p, n) \<in> set (cl_live C) \<Longrightarrow> region p n \<subseteq> owned (pp_source (cl_heap C))"
    and "(p, n) \<in> set (cl_live C) \<Longrightarrow> (q, k) \<in> set (cl_live C) \<Longrightarrow> (p, n) \<noteq> (q, k) \<Longrightarrow> region p n \<inter> region q k = {}"
    and "cl_bytes C a = Some v \<Longrightarrow> pp_mem (cl_heap C) a = v"
    and "(p, n) \<in> set (cl_live C) \<Longrightarrow> p \<noteq> 0"
proof -
  let ?P = "cl_heap C"
  obtain g where g: "pp_good ok owned g ?P" "\<forall>(p, n) \<in> set (cl_live C). p \<in> g_live g \<and> unat n \<le> unat (g_size g p)"
    using inv by (auto simp: client_inv_def)
  have I: "heap_inv (owned (pp_source ?P)) (pp_heap ?P) (pp_mem ?P) g" using g(1) by (simp add: pp_good_def)
  have own: "\<forall>x \<in> pieces (pp_heap ?P) g. extent (pp_heap ?P) g x \<subseteq> owned (pp_source ?P)" using I by (simp add: heap_inv_def)
  have sub: "p \<in> g_live g \<and> region p n \<subseteq> extent (pp_heap ?P) g (Block p) \<and> Block p \<in> pieces (pp_heap ?P) g"
    if "(p, n) \<in> set (cl_live C)" for p n
  proof -
    have "p \<in> g_live g" "unat n \<le> unat (g_size g p)" using that g(2) by auto
    then show ?thesis using object_in_block[OF I] region_prefix[of n "g_size g p" p] by blast
  qed
  show "\<exists>k. pp_getSize p ?P = Inr k \<and> n \<le> k" "p \<noteq> 0" if "(p, n) \<in> set (cl_live C)"
  proof -
    have "heap_good ok owned (pp_heap ?P) 0 g (pp_view 0 ?P)" using g(1) by (simp add: view_good)
    then show "\<exists>k. pp_getSize p ?P = Inr k \<and> n \<le> k" "p \<noteq> 0" using live_block[of "pp_heap ?P" 0 g "pp_view 0 ?P" p] that g(2)
      by (auto simp: pp_getSize_def ansi_getSize_def word_le_nat_alt)
  qed
  show "region p n \<subseteq> owned (pp_source ?P)" if "(p, n) \<in> set (cl_live C)" using sub[OF that] own by blast
  show "region p n \<inter> region q k = {}" if "(p, n) \<in> set (cl_live C)" "(q, k) \<in> set (cl_live C)" "(p, n) \<noteq> (q, k)"
  proof -
    have "distinct (map fst (cl_live C))" using inv by (simp add: client_inv_def)
    then have "p \<noteq> q" using that eq_key_imp_eq_value by fastforce
    then show ?thesis using sub[OF that(1)] sub[OF that(2)] extent_disjoint[OF I, of "Block p" "Block q"] by blast
  qed
  show "pp_mem ?P a = v" if "cl_bytes C a = Some v" using inv that by (simp add: client_inv_def)
qed

end

end
