(* ===== verification/Conseq_Malloc.thy ===== *)
theory Conseq_Malloc
  imports Heap_Clients
begin

text \<open>
  The allocation interface: \<open>malloc\<close>, \<open>calloc\<close>, \<open>realloc\<close> and \<open>free\<close> of \<open>xmemory.h\<close> and \<open>conseq_malloc.h\<close> over the heaps of
  \<open>Heap_Layers\<close> and the bump allocator of \<open>xheap.h\<close>, and the heap of \<open>internalheap.h\<close>. Both sources of chunks are instances of
  \<open>chunk_source\<close>.
\<close>

subsection \<open>The protected heap\<close>

definition PROTECTEDHEAP_CHUNK :: u64 where "PROTECTEDHEAP_CHUNK = 10485760"

record process_heap =
  ph_heap :: "xheap pheap"
  ph_heapid :: int

definition xm_malloc :: "u64 \<Rightarrow> process_heap \<Rightarrow> (u64 \<times> process_heap) result" where
  "xm_malloc sz h =
     bindR (pp_malloc xheap_malloc PROTECTEDHEAP_CHUNK (ph_heapid h) sz (ph_heap h)) (\<lambda>(ptr, P).
       Inr (ptr, h\<lparr>ph_heap := P\<rparr>))"

definition xm_free :: "u64 \<Rightarrow> process_heap \<Rightarrow> process_heap result" where
  "xm_free ptr h = bindR (pp_free (ph_heapid h) ptr (ph_heap h)) (\<lambda>P. Inr (h\<lparr>ph_heap := P\<rparr>))"

definition xm_getSize :: "u64 \<Rightarrow> process_heap \<Rightarrow> u64 result" where
  "xm_getSize ptr h = pp_getSize ptr (ph_heap h)"

definition upd_bytes :: "(bytes \<Rightarrow> bytes) \<Rightarrow> process_heap \<Rightarrow> process_heap" where
  "upd_bytes f h = h\<lparr>ph_heap := (ph_heap h)\<lparr>pp_mem := f (pp_mem (ph_heap h))\<rparr>\<rparr>"

definition xm_realloc :: "u64 \<Rightarrow> u64 \<Rightarrow> process_heap \<Rightarrow> (u64 \<times> process_heap) result" where
  "xm_realloc ptr sz h =
     bindR (xm_getSize ptr h) (\<lambda>s.
     bindR (xm_malloc sz h) (\<lambda>(newptr, h1).
       let h2 = (if newptr \<noteq> 0 then upd_bytes (memcpy newptr ptr (if s < sz then s else sz)) h1 else h1)
       in bindR (xm_free ptr h2) (\<lambda>h3. Inr (newptr, h3))))"

definition conseq_malloc :: "u64 \<Rightarrow> process_heap \<Rightarrow> (u64 \<times> process_heap) result" where
  "conseq_malloc = xm_malloc"

definition conseq_calloc :: "u64 \<Rightarrow> u64 \<Rightarrow> process_heap \<Rightarrow> (u64 \<times> process_heap) result" where
  "conseq_calloc nmemb sz h =
     bindR (xm_malloc (nmemb * sz) h) (\<lambda>(ptr, h1).
       if ptr = 0 \<and> nmemb * sz \<noteq> 0 then Inl NullDeref
       else Inr (ptr, upd_bytes (memset ptr 0 (nmemb * sz)) h1))"

definition conseq_free :: "u64 \<Rightarrow> process_heap \<Rightarrow> process_heap result" where
  "conseq_free = xm_free"

definition conseq_getSize :: "u64 \<Rightarrow> process_heap \<Rightarrow> u64 result" where
  "conseq_getSize = xm_getSize"

definition conseq_realloc :: "u64 \<Rightarrow> u64 \<Rightarrow> process_heap \<Rightarrow> (u64 \<times> process_heap) result" where
  "conseq_realloc ptr sz h =
     (if ptr = 0 then xm_malloc sz h
      else if sz = 0 then bindR (xm_free ptr h) (\<lambda>h1. Inr (0, h1))
      else xm_realloc ptr sz h)"

subsection \<open>The internal heap\<close>

text \<open>
  Its source maps all of its memory at the first request, whatever was asked for, and has nothing after that. \<open>base\<close> is the
  result of \<open>mmap\<close>.
\<close>

definition INTERNALHEAP_SIZE :: u64 where "INTERNALHEAP_SIZE = 1048576 * 30"

definition internal_source :: "u64 \<Rightarrow> bool source" where
  "internal_source base sz alreadyMalloced =
     (if alreadyMalloced then Inr (0, True) else if base = 0 then Inl ExitCalled else Inr (base, True))"

definition internal_malloc :: "u64 \<Rightarrow> u64 \<Rightarrow> bool heap \<Rightarrow> (u64 \<times> bool heap) result" where
  "internal_malloc base sz h = kingsley_malloc (internal_source base) INTERNALHEAP_SIZE sz h"

definition internal_free :: "u64 \<Rightarrow> bool heap \<Rightarrow> bool heap result" where
  "internal_free ptr h = ansi_free ptr h"

definition internal_initialize :: "u64 \<Rightarrow> bytes \<Rightarrow> bool heap result" where
  "internal_initialize base m =
     bindR (internal_malloc base 8 \<lparr>hp_king = kingsley_new, hp_source = False, hp_mem = m\<rparr>) (\<lambda>(testptr, h). Inr h)"

subsection \<open>The bump allocator as a source of chunks\<close>

definition xheap_ok :: "nat \<Rightarrow> nat \<Rightarrow> xheap \<Rightarrow> bool" where
  "xheap_ok lo hi h \<longleftrightarrow> 0 < lo \<and> xheap_inv lo hi h"

definition xheap_owned :: "nat \<Rightarrow> xheap \<Rightarrow> u64 set" where
  "xheap_owned lo h = {a. lo \<le> unat a \<and> unat a < unat (xh_position h)}"

lemma region_interval:
  assumes "unat p + n \<le> 2 ^ 64" "unat k \<le> n"
  shows "a \<in> region p k \<Longrightarrow> unat p \<le> unat a \<and> unat a < unat p + n"
proof -
  assume a: "a \<in> region p k"
  have "a = p + (a - p)" by simp
  moreover have lt: "unat (a - p) < n" using a assms(2) by (simp add: region_iff)
  then have "unat (p + (a - p)) = unat p + unat (a - p)" using assms(1) by (simp only: unat_word_ariths) simp
  ultimately show ?thesis using lt by simp
qed

interpretation xh: chunk_source xheap_malloc "xheap_ok lo hi" "xheap_owned lo" for lo hi
proof unfold_locales
  fix s s' :: xheap and n p :: u64
  assume A: "xheap_ok lo hi s" "unat n \<le> 2 ^ 63" "xheap_malloc n s = Inr (p, s')"
  then have inv: "xheap_inv lo hi s" "0 < lo" by (simp_all add: xheap_ok_def)
  note M = xheap_malloc_inv[OF inv(1) A(3)]
  show "xheap_ok lo hi s'" using M(5) inv(2) by (simp add: xheap_ok_def)
  show "xheap_owned lo s \<subseteq> xheap_owned lo s'" using M(1,2) by (auto simp: xheap_owned_def)
  have hi: "unat p + unat (page_round n) \<le> 2 ^ 64" using M(3) inv(1) by (simp add: xheap_inv_def)
  have "unat n \<le> unat (page_round n)" using page_cover[of "unat n"] A(2) by (simp add: unat_page_round block_size_def)
  from region_interval[OF hi this]
  show "region p n \<subseteq> xheap_owned lo s' \<and> region p n \<inter> xheap_owned lo s = {}" using M(1,2,4) by (force simp: xheap_owned_def)
next
  fix s :: xheap
  show "xheap_ok lo hi s \<Longrightarrow> 0 \<notin> xheap_owned lo s" by (simp add: xheap_ok_def xheap_owned_def)
qed

definition heap_start :: "'m xpersist \<Rightarrow> bytes \<Rightarrow> xheap client" where
  "heap_start p m = client_start (pp_create (xheap_create p) m)"

definition segment :: "'m xpersist \<Rightarrow> u64 set" where
  "segment p = {a. unat (xp_snapMemory p) \<le> unat a \<and> unat a < unat (xp_snapMemory p) + unat (xp_size p)}"

definition segment_ok :: "'m xpersist \<Rightarrow> bool" where
  "segment_ok p \<longleftrightarrow> xp_snapMemory p \<noteq> 0 \<and> unat (xp_snapMemory p) + unat (xp_size p) < 2 ^ 64"

abbreviation segment_client :: "'m xpersist \<Rightarrow> xheap client \<Rightarrow> bool" where
  "segment_client p \<equiv> client_inv (xheap_ok (unat (xp_snapMemory p)) (unat (xp_snapMemory p) + unat (xp_size p)))
     (xheap_owned (unat (xp_snapMemory p)))"

lemma chunk_small: "unat PROTECTEDHEAP_CHUNK \<le> 2 ^ 62"
  by (simp add: PROTECTEDHEAP_CHUNK_def)

lemma heap_run_inv:
  assumes "segment_ok p" "client_run xheap_malloc PROTECTEDHEAP_CHUNK calls (heap_start p m) = Inr C"
  shows "segment_client p C"
proof -
  have "xheap_ok (unat (xp_snapMemory p)) (unat (xp_snapMemory p) + unat (xp_size p)) (xheap_create p)"
    using assms(1) by (simp add: segment_ok_def xheap_ok_def xheap_inv_def xheap_create_def sanityCheck_def unat_gt_0)
  from xh.client_run_inv[OF xh.start_inv[OF this] chunk_small assms(2)[unfolded heap_start_def]] show ?thesis .
qed

lemma xheap_gives:
  assumes "no_chunk xheap_malloc (xheap_ok lo hi) h" shows False
proof -
  from assms obtain n s where s: "xheap_ok lo hi s" "xheap_malloc n s = Inr (0, hp_source h)" by (auto simp: no_chunk_def)
  then have "xheap_inv lo hi s" "0 < lo" by (simp_all add: xheap_ok_def)
  from xheap_malloc_inv(4)[OF this(1) s(2)] this(2) show False by simp
qed

lemma xheap_fault: "xheap_malloc n s = Inl e \<Longrightarrow> e = ExitCalled"
  by (auto simp: xheap_malloc_def Let_def split: if_splits)

end
