(* ===== verification/Libdthread.thy ===== *)
theory Libdthread
  imports Run_Theorems Conseq_Malloc
begin

text \<open>
  The functions of \<open>libdthread.cpp\<close> that replace those of the C library and of pthreads: most forward
  to the runtime once the library is initialised and do nothing before; \<open>read\<close> and \<open>write\<close> touch the
  pages of their buffer before the system call sees them.
\<close>

subsection \<open>State\<close>

record ('c, 'm) lib =
  lb_initialized :: bool
  lb_tid :: int
  lb_run :: "('c, 'm) xrun"
  lb_heap :: process_heap

text \<open>
  The result of a function is \<open>None\<close> where it ends without returning a value. \<open>asserts\<close> is off with \<open>NDEBUG\<close>.
\<close>

type_synonym ('c, 'm) lib_call = "('c, 'm) lib \<Rightarrow> (int option \<times> ('c, 'm) lib) result"

definition forward :: "('c, 'm) xstep \<Rightarrow> int option \<Rightarrow> ('c, 'm) lib_call" where
  "forward f r s = bindR (f (lb_run s)) (\<lambda>x. Inr (r, s\<lparr>lb_run := x\<rparr>))"

definition guarded :: "('c, 'm) xstep \<Rightarrow> int option \<Rightarrow> ('c, 'm) lib_call" where
  "guarded f r s = (if lb_initialized s then forward f r s else Inr (Some 0, s))"

definition unsupported :: "bool \<Rightarrow> ('c, 'm) lib_call" where
  "unsupported asserts s = (if asserts then Inl AssertFailed else Inr (None, s))"

definition lib_initialize ::
  "('c, 'm) run_env \<Rightarrow> int \<Rightarrow> 'm xmemory \<Rightarrow> ('c, 'm) lib \<Rightarrow> ('c, 'm) lib result" where
  "lib_initialize E pid mem s =
     bindR (initialize E pid mem (lb_run s)) (\<lambda>x. Inr (s\<lparr>lb_run := x, lb_tid := pid, lb_initialized := True\<rparr>))"

definition lib_finalize :: "('c, 'm) run_env \<Rightarrow> ('c, 'm) lib \<Rightarrow> ('c, 'm) lib result" where
  "lib_finalize E s =
     bindR (done_run E (lb_run s)) (\<lambda>x. Inr (s\<lparr>lb_initialized := False, lb_run := x\<rparr>))"

subsection \<open>Allocation\<close>

text \<open>Before the initialisation, memory comes from \<open>mmap\<close>, whose failure is the address \<open>2 ^ 64 - 1\<close>.\<close>

definition MAP_FAILED :: u64 where "MAP_FAILED = - 1"

definition lib_malloc :: "(u64 \<Rightarrow> process_heap \<Rightarrow> u64 \<times> process_heap) \<Rightarrow> u64 \<Rightarrow> ('c, 'm) lib \<Rightarrow>
    (u64 \<times> ('c, 'm) lib) result" where
  "lib_malloc mmap sz s =
     bindR (if lb_initialized s then conseq_malloc sz (lb_heap s) else Inr (mmap sz (lb_heap s))) (\<lambda>(ptr, h).
       if ptr = 0 then Inl ExitCalled else Inr (ptr, s\<lparr>lb_heap := h\<rparr>))"

definition lib_calloc :: "(u64 \<Rightarrow> process_heap \<Rightarrow> u64 \<times> process_heap) \<Rightarrow> u64 \<Rightarrow> u64 \<Rightarrow> ('c, 'm) lib \<Rightarrow>
    (u64 \<times> ('c, 'm) lib) result" where
  "lib_calloc mmap nmemb sz s =
     bindR (if lb_initialized s then conseq_calloc nmemb sz (lb_heap s)
            else (case mmap (sz * nmemb) (lb_heap s) of (ptr, h) \<Rightarrow>
              if ptr = MAP_FAILED \<and> sz * nmemb \<noteq> 0 then Inl OutOfBounds
              else Inr (ptr, upd_bytes (memset ptr 0 (sz * nmemb)) h))) (\<lambda>(ptr, h).
     if ptr = 0 then Inl ExitCalled
     else Inr (ptr, s\<lparr>lb_heap := upd_bytes (memset ptr 0 (sz * nmemb)) h\<rparr>))"

definition lib_free :: "u64 \<Rightarrow> ('c, 'm) lib \<Rightarrow> ('c, 'm) lib result" where
  "lib_free ptr s =
     (if lb_initialized s then bindR (conseq_free ptr (lb_heap s)) (\<lambda>h. Inr (s\<lparr>lb_heap := h\<rparr>)) else Inr s)"

definition malloc_usable_size :: "u64 \<Rightarrow> ('c, 'm) lib \<Rightarrow> u64 result" where
  "malloc_usable_size ptr s = (if lb_initialized s then conseq_getSize ptr (lb_heap s) else Inr 0)"

definition lib_realloc :: "u64 \<Rightarrow> u64 \<Rightarrow> ('c, 'm) lib \<Rightarrow> (u64 \<times> ('c, 'm) lib) result" where
  "lib_realloc ptr sz s =
     (if lb_initialized s
      then bindR (conseq_realloc ptr sz (lb_heap s)) (\<lambda>(p, h). Inr (p, s\<lparr>lb_heap := h\<rparr>))
      else Inr (0, s))"

definition memalign :: "u64 \<Rightarrow> u64 \<Rightarrow> ('c, 'm) lib \<Rightarrow> u64 \<times> ('c, 'm) lib" where
  "memalign boundary sz s = (0, s)"

subsection \<open>Threads\<close>

definition lib_getpid :: "('c, 'm) lib \<Rightarrow> int" where
  "lib_getpid s = (if lb_initialized s then lb_tid s else 0)"

definition pthread_self :: "('c, 'm) lib \<Rightarrow> int" where
  "pthread_self s = (if lb_initialized s then lb_tid s else 0)"

definition pthread_create :: "('c, 'm) run_env \<Rightarrow> nat \<Rightarrow> u64 \<Rightarrow> u64 \<Rightarrow> ('c, 'm) lib \<Rightarrow>
    ((int option \<times> addr option) \<times> ('c, 'm) lib) result" where
  "pthread_create E fn arg end_of_stack s =
     (if lb_initialized s
      then bindR (spawn E fn arg end_of_stack (lb_run s)) (\<lambda>(tid, x). Inr ((Some 0, Some tid), s\<lparr>lb_run := x\<rparr>))
      else Inr ((Some 0, None), s))"

definition pthread_join :: "('c, 'm) run_env \<Rightarrow> addr \<Rightarrow> ('c, 'm) lib \<Rightarrow>
    ((int option \<times> addr option) \<times> ('c, 'm) lib) result" where
  "pthread_join E v s =
     (if lb_initialized s
      then bindR (join E v (lb_run s)) (\<lambda>(res, x). Inr ((Some 0, res), s\<lparr>lb_run := x\<rparr>))
      else Inr ((Some 0, None), s))"

definition pthread_cancel :: "('c, 'm) run_env \<Rightarrow> bool \<Rightarrow> addr \<Rightarrow> ('c, 'm) lib_call" where
  "pthread_cancel E asserts v = guarded (cancel_run E asserts v) (Some 0)"

definition pthread_exit :: "bool \<Rightarrow> ('c, 'm) lib_call" where "pthread_exit = unsupported"
definition pthread_kill :: "bool \<Rightarrow> ('c, 'm) lib_call" where "pthread_kill = unsupported"
definition lib_sigwait :: "bool \<Rightarrow> ('c, 'm) lib_call" where "lib_sigwait = unsupported"

text \<open>Attributes, \<open>sched_yield\<close> and \<open>pthread_setconcurrency\<close> succeed without doing anything.\<close>

definition pthread_ignored :: "('c, 'm) lib_call" where "pthread_ignored s = Inr (Some 0, s)"

subsection \<open>Synchronisation\<close>

definition pthread_mutex_init :: "('c, 'm) run_env \<Rightarrow> nat \<Rightarrow> ('c, 'm) lib_call" where
  "pthread_mutex_init E m = guarded (mutex_init E m) (Some 0)"

definition pthread_mutex_lock :: "('c, 'm) run_env \<Rightarrow> nat \<Rightarrow> ('c, 'm) lib_call" where
  "pthread_mutex_lock E m = guarded (mutex_lock E m) (Some 0)"

definition pthread_mutex_trylock :: "nat \<Rightarrow> ('c, 'm) lib_call" where
  "pthread_mutex_trylock m s = Inr (Some 0, s)"

definition pthread_mutex_unlock :: "('c, 'm) run_env \<Rightarrow> nat \<Rightarrow> ('c, 'm) lib_call" where
  "pthread_mutex_unlock E m = guarded (mutex_unlock E m) (Some 0)"

text \<open>The name is misspelt in the code, so that it does not replace \<open>pthread_mutex_destroy\<close>.\<close>

definition pthread_mutex_destory :: "('c, 'm) run_env \<Rightarrow> nat \<Rightarrow> ('c, 'm) lib_call" where
  "pthread_mutex_destory E m = guarded (mutex_destroy E m) (Some 0)"

definition pthread_cond_init :: "('c, 'm) run_env \<Rightarrow> nat \<Rightarrow> ('c, 'm) lib_call" where
  "pthread_cond_init E c = forward (cond_init_run E c) None"

definition pthread_cond_broadcast :: "('c, 'm) run_env \<Rightarrow> nat \<Rightarrow> ('c, 'm) lib_call" where
  "pthread_cond_broadcast E c = forward (cond_broadcast_run E c) None"

definition pthread_cond_signal :: "('c, 'm) run_env \<Rightarrow> nat \<Rightarrow> ('c, 'm) lib_call" where
  "pthread_cond_signal E c = forward (cond_signal_run E c) None"

definition pthread_cond_wait :: "('c, 'm) run_env \<Rightarrow> nat \<Rightarrow> nat \<Rightarrow> ('c, 'm) lib_call" where
  "pthread_cond_wait E c m = forward (cond_wait_run E c m) None"

definition pthread_cond_destroy :: "bool \<Rightarrow> ('c, 'm) lib_call" where "pthread_cond_destroy = unsupported"

definition pthread_barrier_init :: "('c, 'm) run_env \<Rightarrow> nat \<Rightarrow> u32 \<Rightarrow> ('c, 'm) lib_call" where
  "pthread_barrier_init E b count = guarded (barrier_init_run E b count) (Some 0)"

definition pthread_barrier_destroy :: "bool \<Rightarrow> ('c, 'm) lib_call" where
  "pthread_barrier_destroy asserts = guarded (barrier_destroy_run asserts) (Some 0)"

definition pthread_barrier_wait :: "('c, 'm) run_env \<Rightarrow> nat \<Rightarrow> ('c, 'm) lib_call" where
  "pthread_barrier_wait E b = guarded (barrier_wait_run E b) None"

subsection \<open>Input and output\<close>

text \<open>
  The loops over the pages of a buffer. The index is a \<open>size_t\<close>, so the loop does not end when the buffer
  reaches into the last page of the address range; a write to the buffer clears the byte.
\<close>

partial_function (option) prefault :: "u64 \<Rightarrow> u64 \<Rightarrow> u64 \<Rightarrow> (u64 \<Rightarrow> u8) \<Rightarrow> (u64 \<Rightarrow> u8) option" where
  "prefault buf count i bytes =
     (if i < count then prefault buf count (i + PageSize) (bytes(buf + i := 0)) else Some bytes)"

definition lib_read :: "(u64 \<Rightarrow> u64 \<Rightarrow> (u64 \<Rightarrow> u8) \<Rightarrow> int \<times> (u64 \<Rightarrow> u8)) \<Rightarrow> u64 \<Rightarrow> u64 \<Rightarrow> (u64 \<Rightarrow> u8) \<Rightarrow>
    (int \<times> (u64 \<Rightarrow> u8)) option" where
  "lib_read real_read buf count bytes =
     (case prefault buf count 0 bytes of None \<Rightarrow> None
      | Some b \<Rightarrow> Some (real_read buf count (b(buf + (count - 1) := 0))))"

text \<open>\<open>write\<close> reads the same bytes; the result lists their addresses.\<close>

partial_function (option) touched :: "u64 \<Rightarrow> u64 \<Rightarrow> u64 \<Rightarrow> u64 list \<Rightarrow> u64 list option" where
  "touched buf count i as =
     (if i < count then touched buf count (i + PageSize) (as @ [buf + i])
      else Some (as @ [buf + (count - 1)]))"

definition lib_write :: "(u64 \<Rightarrow> u64 \<Rightarrow> (u64 \<Rightarrow> u8) \<Rightarrow> int) \<Rightarrow> u64 \<Rightarrow> u64 \<Rightarrow> (u64 \<Rightarrow> u8) \<Rightarrow>
    (u64 list \<times> int) option" where
  "lib_write real_write buf count bytes =
     (case touched buf count 0 [] of None \<Rightarrow> None | Some as \<Rightarrow> Some (as, real_write buf count bytes))"

subsection \<open>Sequences of pthread calls\<close>

datatype pthread_call = PMutexInit nat | PMutexLock nat | PMutexTrylock nat | PMutexUnlock nat
  | PCondInit nat | PCondWait nat nat | PCondSignal nat | PCondBroadcast nat | PCondDestroy
  | PBarrierInit nat u32 | PBarrierWait nat | PCreate nat u64 u64 | PJoin addr | PCancel addr
  | PExit | PKill | PIgnored

text \<open>What each call does in a build without assertions, with its results left out.\<close>

fun lib_do :: "('c, 'm) run_env \<Rightarrow> pthread_call \<Rightarrow> ('c, 'm) lib \<Rightarrow> ('c, 'm) lib result" where
  "lib_do E (PMutexInit m) s = bindR (pthread_mutex_init E m s) (\<lambda>r. Inr (snd r))"
| "lib_do E (PMutexLock m) s = bindR (pthread_mutex_lock E m s) (\<lambda>r. Inr (snd r))"
| "lib_do E (PMutexTrylock m) s = bindR (pthread_mutex_trylock m s) (\<lambda>r. Inr (snd r))"
| "lib_do E (PMutexUnlock m) s = bindR (pthread_mutex_unlock E m s) (\<lambda>r. Inr (snd r))"
| "lib_do E (PCondInit c) s = bindR (pthread_cond_init E c s) (\<lambda>r. Inr (snd r))"
| "lib_do E (PCondWait c m) s = bindR (pthread_cond_wait E c m s) (\<lambda>r. Inr (snd r))"
| "lib_do E (PCondSignal c) s = bindR (pthread_cond_signal E c s) (\<lambda>r. Inr (snd r))"
| "lib_do E (PCondBroadcast c) s = bindR (pthread_cond_broadcast E c s) (\<lambda>r. Inr (snd r))"
| "lib_do E PCondDestroy s = bindR (pthread_cond_destroy False s) (\<lambda>r. Inr (snd r))"
| "lib_do E (PBarrierInit b k) s = bindR (pthread_barrier_init E b k s) (\<lambda>r. Inr (snd r))"
| "lib_do E (PBarrierWait b) s = bindR (pthread_barrier_wait E b s) (\<lambda>r. Inr (snd r))"
| "lib_do E (PCreate f a e) s = bindR (pthread_create E f a e s) (\<lambda>r. Inr (snd r))"
| "lib_do E (PJoin v) s = bindR (pthread_join E v s) (\<lambda>r. Inr (snd r))"
| "lib_do E (PCancel v) s = bindR (pthread_cancel E False v s) (\<lambda>r. Inr (snd r))"
| "lib_do E PExit s = bindR (pthread_exit False s) (\<lambda>r. Inr (snd r))"
| "lib_do E PKill s = bindR (pthread_kill False s) (\<lambda>r. Inr (snd r))"
| "lib_do E PIgnored s = bindR (pthread_ignored s) (\<lambda>r. Inr (snd r))"

text \<open>The runtime's call behind a call of the library, if there is one.\<close>

fun runtime_call :: "pthread_call \<Rightarrow> run_call list" where
  "runtime_call (PMutexInit m) = [MutexInit m]"
| "runtime_call (PMutexLock m) = [MutexLock m]"
| "runtime_call (PMutexUnlock m) = [MutexUnlock m]"
| "runtime_call (PCondInit c) = [CondInit c]"
| "runtime_call (PCondWait c m) = [CondWait c m]"
| "runtime_call (PCondSignal c) = [CondSignal c]"
| "runtime_call (PCondBroadcast c) = [CondBroadcast c]"
| "runtime_call (PBarrierInit b k) = [BarrierInit b k]"
| "runtime_call (PBarrierWait b) = [BarrierWait b]"
| "runtime_call (PCreate f a e) = [Spawn f a e]"
| "runtime_call (PJoin v) = [Join v]"
| "runtime_call (PCancel v) = [Cancel v]"
| "runtime_call _ = []"

fun unguarded :: "pthread_call \<Rightarrow> bool" where
  "unguarded (PCondInit c) = True"
| "unguarded (PCondWait c m) = True"
| "unguarded (PCondSignal c) = True"
| "unguarded (PCondBroadcast c) = True"
| "unguarded _ = False"

lemmas lib_call_defs = pthread_mutex_init_def pthread_mutex_lock_def pthread_mutex_trylock_def
  pthread_mutex_unlock_def pthread_cond_init_def pthread_cond_wait_def pthread_cond_signal_def
  pthread_cond_broadcast_def pthread_cond_destroy_def pthread_barrier_init_def pthread_barrier_wait_def
  pthread_create_def pthread_join_def pthread_cancel_def pthread_exit_def pthread_kill_def
  pthread_ignored_def unsupported_def guarded_def forward_def

lemma lib_run_simps [simp]: "s\<lparr>lb_run := x, lb_run := y\<rparr> = s\<lparr>lb_run := y\<rparr>" "s\<lparr>lb_run := lb_run s\<rparr> = s"
  by simp_all

lemma bindR_comp [simp]: "bindR (bindR m (\<lambda>x. Inr (f x))) (\<lambda>y. Inr (g y)) = bindR m (\<lambda>x. Inr (g (f x)))"
  by (cases m) auto

lemma lib_do_run:
  assumes "lb_initialized s \<or> unguarded c"
  shows "lib_do E c s = bindR (steps (map (do_call E) (runtime_call c)) (lb_run s)) (\<lambda>x. Inr (s\<lparr>lb_run := x\<rparr>))"
  using assms
  by (cases c) (simp_all add: lib_call_defs bindR_assoc case_prod_unfold)

lemma lib_do_idle: "\<not> lb_initialized s \<Longrightarrow> \<not> unguarded c \<Longrightarrow> lib_do E c s = Inr s"
  by (cases c) (simp_all add: lib_call_defs)

lemma steps_append: "steps (fs @ gs) x = bindR (steps fs x) (steps gs)"
proof (induction fs arbitrary: x)
  case (Cons f fs)
  then show ?case by (cases "f x") auto
qed simp


subsection \<open>Touching the pages of a buffer\<close>

declare prefault.simps [simp del] touched.simps [simp del]

lemma page_step:
  assumes "i < count" "unat count \<le> 2 ^ 64 - 4096"
  shows "unat (i + PageSize) = unat i + 4096"
proof -
  have "unat i < unat count" using assms(1) by (simp add: word_less_nat_alt)
  with assms(2) show ?thesis by (simp add: unat_word_ariths PageSize_def)
qed

lemma prefault_exact:
  assumes "unat count \<le> 2 ^ 64 - 4096" "4096 dvd unat i"
  shows "prefault buf count i bytes = Some (\<lambda>a. if 4096 dvd unat (a - buf) \<and> i \<le> a - buf \<and> a - buf < count
    then 0 else bytes a)"
  using assms(2)
proof (induction "unat count - unat i" arbitrary: i bytes rule: less_induct)
  case less
  show ?case
  proof (cases "i < count")
    case False
    then show ?thesis by (subst prefault.simps) (auto simp: fun_eq_iff)
  next
    case True
    have u: "unat (i + PageSize) = unat i + 4096" using page_step[OF True assms(1)] .
    have lt: "unat i < unat count" using True by (simp add: word_less_nat_alt)
    have dvd: "4096 dvd unat (i + PageSize)" using less.prems u by simp
    have eq: "4096 dvd unat k \<Longrightarrow> i \<le> k \<longleftrightarrow> k = i \<or> i + PageSize \<le> k" for k
    proof -
      assume k: "4096 dvd unat k"
      obtain a b where "unat k = 4096 * a" "unat i = 4096 * b" using k less.prems by (auto elim!: dvdE)
      then have "unat i \<le> unat k \<longleftrightarrow> unat k = unat i \<or> unat i + 4096 \<le> unat k" by auto
      then show ?thesis using u by (simp add: word_le_nat_alt word_unat_eq_iff)
    qed
    have "prefault buf count i bytes = prefault buf count (i + PageSize) (bytes(buf + i := 0))"
      using True by (subst prefault.simps) simp
    also have "\<dots> = Some (\<lambda>a. if 4096 dvd unat (a - buf) \<and> i + PageSize \<le> a - buf \<and> a - buf < count
        then 0 else (bytes(buf + i := 0)) a)"
      using less.hyps[of "i + PageSize"] lt u dvd by simp
    also have "\<dots> = Some (\<lambda>a. if 4096 dvd unat (a - buf) \<and> i \<le> a - buf \<and> a - buf < count
        then 0 else bytes a)"
      using eq True less.prems by (auto simp: fun_eq_iff)
    finally show ?thesis .
  qed
qed

lemma prefault_diverges:
  assumes "2 ^ 64 - 4096 < unat count" "4096 dvd unat i"
  shows "prefault buf count i bytes = None"
proof (rule ccontr)
  assume "prefault buf count i bytes \<noteq> None"
  then obtain b where b: "prefault buf count i bytes = Some b" by auto
  have "unat count \<le> 2 ^ 64 - 4096 \<or> \<not> 4096 dvd unat i"
  proof (rule prefault.raw_induct[OF _ b,
        where P = "\<lambda>buf count i bytes b. unat count \<le> 2 ^ 64 - 4096 \<or> \<not> 4096 dvd unat i"])
    fix f buf count i bytes b
    assume IH: "\<And>buf count i bytes y. f buf count i bytes = Some y \<Longrightarrow>
        unat count \<le> 2 ^ 64 - 4096 \<or> \<not> 4096 dvd unat i"
      and run: "(if i < count then f buf count (i + PageSize) (bytes(buf + i := 0)) else Some bytes) = Some b"
    have "i < count" if big: "2 ^ 64 - 4096 < unat count" and page: "4096 dvd unat i"
    proof -
      obtain b where b: "unat i = 4096 * b" using page by (auto elim!: dvdE)
      moreover have "unat i < 2 ^ 64" using unsigned_less[where 'a = nat, of i] by simp
      ultimately have "unat i \<le> 2 ^ 64 - 4096" by simp
      then show ?thesis using big by (simp add: word_less_nat_alt)
    qed
    moreover have "4096 dvd unat (i + PageSize)" if "4096 dvd unat i"
      using dvd_mod[of 4096 "unat i + 4096" "2 ^ 64"] that by (simp add: unat_word_ariths PageSize_def)
    moreover have "f buf count (i + PageSize) (bytes(buf + i := 0)) = Some b" if "i < count"
      using run that by simp
    ultimately show "unat count \<le> 2 ^ 64 - 4096 \<or> \<not> 4096 dvd unat i"
      using IH[of buf count "i + PageSize" "bytes(buf + i := 0)" b] not_le by blast
  qed
  with assms show False by simp
qed

text \<open>
  C40. What the replaced \<open>read\<close> does to the buffer. It ends exactly for sizes up to \<open>2 ^ 64 - 4096\<close>. It then clears
  one byte in every page of the buffer and the last one before the system call; so when the call
  returns fewer than \<open>count\<close> bytes, those bytes of the rest are lost, which the C library would have kept. With
  size 0 the byte in front of the buffer is cleared.
\<close>

theorem read_clears_bytes:
  assumes "\<And>b i. n \<le> i \<Longrightarrow> i < 2 ^ 64 \<Longrightarrow>
      snd (real_read buf count b) (buf + word_of_nat i) = b (buf + word_of_nat i)"
  shows "if unat count \<le> 2 ^ 64 - 4096
    then \<exists>r bytes'. lib_read real_read buf count bytes = Some (r, bytes') \<and>
      (\<forall>i. n \<le> i \<longrightarrow> i < 2 ^ 64 \<longrightarrow> bytes' (buf + word_of_nat i) =
        (if 4096 dvd i \<and> i < unat count \<or> i = (unat count + 2 ^ 64 - 1) mod 2 ^ 64 then 0
         else bytes (buf + word_of_nat i)))
    else lib_read real_read buf count bytes = None"
proof (cases "unat count \<le> 2 ^ 64 - 4096")
  case True
  let ?z = "\<lambda>a. if 4096 dvd unat (a - buf) \<and> 0 \<le> a - buf \<and> a - buf < count then 0 else bytes a"
  let ?b = "?z(buf + (count - 1) := 0)"
  obtain r bytes' where r: "real_read buf count ?b = (r, bytes')" by force
  have run: "lib_read real_read buf count bytes = Some (r, bytes')"
    using prefault_exact[OF True, of 0 buf bytes] r by (simp add: lib_read_def)
  have last: "unat (count - 1) = (unat count + 2 ^ 64 - 1) mod 2 ^ 64"
  proof (cases "count = 0")
    case True
    then show ?thesis by (simp add: unsigned_minus_1_eq_mask mask_eq_exp_minus_1)
  next
    case False
    then obtain k where "unat count = Suc k" by (metis not0_implies_Suc unat_eq_zero)
    with False unsigned_less[where 'a = nat, of count] show ?thesis by (simp add: unat_minus_one)
  qed
  have "bytes' (buf + word_of_nat i) =
      (if 4096 dvd i \<and> i < unat count \<or> i = (unat count + 2 ^ 64 - 1) mod 2 ^ 64 then 0
       else bytes (buf + word_of_nat i))" if i: "n \<le> i" "i < 2 ^ 64" for i
  proof -
    have u: "unat (word_of_nat i :: u64) = i" using i(2) by (simp add: unat_of_nat take_bit_nat_eq_self)
    have "bytes' (buf + word_of_nat i) = ?b (buf + word_of_nat i)"
      using assms[OF i, of ?b] r by simp
    moreover have "buf + word_of_nat i = buf + (count - 1) \<longleftrightarrow> i = (unat count + 2 ^ 64 - 1) mod 2 ^ 64"
      by (simp add: word_unat_eq_iff[of "word_of_nat i" "count - 1"] u last del: of_nat_eq_iff)
    moreover have "(word_of_nat i :: u64) < count \<longleftrightarrow> i < unat count" by (simp add: word_less_nat_alt u)
    ultimately show ?thesis by (auto simp: u)
  qed
  with run True show ?thesis by auto
next
  case False
  then show ?thesis using prefault_diverges[of count 0 buf bytes] by (simp add: lib_read_def)
qed

text \<open>A file of 3 bytes is read into a buffer of 10.\<close>

theorem read_clears_bytes_witness:
  "\<exists>bytes. lib_read (\<lambda>buf count b. (3, b(buf := 1, buf + 1 := 2, buf + 2 := 3))) 4096 10 (\<lambda>_. 7) = Some (3, bytes) \<and>
    bytes 4098 = 3 \<and> bytes 4104 = 7 \<and> bytes 4105 = 0"
proof -
  let ?r = "\<lambda>buf count b. (3 :: int, b(buf := 1, buf + 1 := 2, buf + 2 := 3)) :: int \<times> (u64 \<Rightarrow> u8)"
  have h: "snd (?r 4096 (10 :: u64) b) (4096 + word_of_nat i) = b (4096 + word_of_nat i)"
    if "3 \<le> i" "i < 2 ^ 64" for i :: nat and b
  proof -
    have "unat (word_of_nat i :: u64) = i" using that(2) by (simp add: unat_of_nat take_bit_nat_eq_self)
    then have "(word_of_nat i :: u64) \<noteq> 0 \<and> (word_of_nat i :: u64) \<noteq> 1 \<and> (word_of_nat i :: u64) \<noteq> 2"
      using that(1) by auto
    moreover have "(4096 :: u64) + word_of_nat i = 4097 \<longleftrightarrow> (word_of_nat i :: u64) = 1"
      "(4096 :: u64) + word_of_nat i = 4098 \<longleftrightarrow> (word_of_nat i :: u64) = 2"
      using add_left_cancel[of "4096 :: u64" "word_of_nat i" 1] add_left_cancel[of "4096 :: u64" "word_of_nat i" 2]
      by simp_all
    ultimately show ?thesis by simp
  qed
  from read_clears_bytes[where real_read = ?r and buf = 4096 and count = 10 and n = 3 and bytes = "\<lambda>_. 7", OF h]
  obtain bytes where
    r: "lib_read ?r 4096 10 (\<lambda>_. 7) = Some (3, bytes)" and
    b: "\<And>i. 3 \<le> i \<Longrightarrow> i < 2 ^ 64 \<Longrightarrow> bytes (4096 + word_of_nat i) = (if 4096 dvd i \<and> i < 10 \<or> i = 9 then 0 else 7)"
    by (auto simp: lib_read_def split: option.splits)
  have "bytes 4098 = 3"
    using r by (auto simp: lib_read_def split: option.splits)
  with r b[of 8] b[of 9] show ?thesis by auto
qed

end
