(* ===== verification/Heap_Theorems.thy ===== *)
theory Heap_Theorems
  imports Conseq_Malloc
begin

text \<open>
  The properties of the allocation interface: the heap serves its clients, \<open>realloc\<close> moves an object, and what happens with sizes
  near \<open>2 ^ 64\<close>, with threads that share a heap, and with an internal heap that is used up.
\<close>


lemmas heap_eval = client_call_def call_ok_def pp_malloc_def pp_free_def kingsley_malloc_def ansi_malloc_def ansi_free_def
  ansi_align_def strict_malloc_def strict_free_def maxObjectSize_31 size2Class_def class2Size_def cl_def class_up.simps
  class_down.simps adapt_malloc_def adapt_free_def sl_get_def sl_insert_def bigheap_malloc_def new_source_malloc_def zoneMalloc_def
  slowMalloc_def zone_align_def retire_arena_def arena_new_def arena_malloc_def sizeRemaining_def arena_remaining_def
  arena_space_def arena_next_def ARENA_SIZE_def HEADER_SIZE_def getPointer_def getObject_def put_header_def objectHeader_new_def
  write64_def read64_def upd_king_def new_source_getSize_def header_at_def object_getSize_def OBJECT_MAGIC_def NUMBINS_def
  NUM_HEAPS_def pp_view_def pp_put_def Let_def load_store_away load_upd_away client_start_def pp_create_def kingsley_new_def within_def

lemmas segment_eval = xheap_malloc_def sanityCheck_def page_round_def PageSize_def PROTECTEDHEAP_CHUNK_def

lemma sample_heap_start: "heap_start sample_segment m = client_start (pp_create \<lparr>xh_start = 0x10000000, xh_end = 0x204000000,
    xh_position = 0x10000000, xh_remaining = 0x1F4000000, xh_magic = XHEAP_MAGIC\<rparr> m)"
  by (simp add: heap_start_def xheap_create_def sample_segment_def PROTECTEDHEAP_SIZE_def)

lemma sample_segment_ok: "segment_ok sample_segment"
  by (simp add: segment_ok_def sample_segment_def PROTECTEDHEAP_SIZE_def)

text \<open>The second thread gets its object from its own heap; the first reuses the one it freed, next to an object with a byte in it.\<close>

definition sample_calls :: "heap_call list" where
  "sample_calls = [Malloc 0 100, Malloc 1 200, Malloc 0 20, Write 0x100000C1 7, Free 0 0x10000030, Malloc 0 120]"

lemma sample_calls_run:
  "\<exists>C. client_run xheap_malloc PROTECTEDHEAP_CHUNK sample_calls (heap_start sample_segment m) = Inr C \<and>
    cl_live C = [(0x10000030, 120), (0x100000C0, 20), (0x10A01030, 200)] \<and> cl_bytes C 0x100000C1 = Some 7"
  by (simp add: sample_calls_def heap_eval segment_eval sample_heap_start)


subsection \<open>realloc\<close>

lemma segment_malloc:
  assumes inv: "segment_client p C" and i: "0 \<le> i" "i < NUM_HEAPS" and n: "unat n \<le> 2 ^ 61"
    and r: "pp_malloc xheap_malloc PROTECTEDHEAP_CHUNK i n (cl_heap C) = Inr (q, P)"
  shows "q \<noteq> 0" "segment_client p (C\<lparr>cl_heap := P, cl_live := (q, n) # cl_live C\<rparr>)"
proof -
  have ok: "call_ok (Malloc i n) C" using i n by (simp add: call_ok_def word_le_nat_alt)
  obtain g where "pp_good (xheap_ok (unat (xp_snapMemory p)) (unat (xp_snapMemory p) + unat (xp_size p)))
      (xheap_owned (unat (xp_snapMemory p))) g (cl_heap C)" using inv by (auto simp: client_inv_def)
  then have G: "heap_good (xheap_ok (unat (xp_snapMemory p)) (unat (xp_snapMemory p) + unat (xp_size p)))
      (xheap_owned (unat (xp_snapMemory p))) (pp_heap (cl_heap C)) i g (pp_view i (cl_heap C))" by (simp add: view_good)
  obtain h where "kingsley_malloc xheap_malloc PROTECTEDHEAP_CHUNK n (pp_view i (cl_heap C)) = Inr (q, h)"
    using r i by (auto simp: pp_malloc_def bindR_Inr_iff)
  from xh.malloc_allocates[OF G chunk_small n this] xheap_gives show "q \<noteq> 0" by blast
  have "client_call xheap_malloc PROTECTEDHEAP_CHUNK (Malloc i n) C = Inr (C\<lparr>cl_heap := P, cl_live := (q, n) # cl_live C\<rparr>)"
    using ok r \<open>q \<noteq> 0\<close> by (simp add: client_call_def)
  then show "segment_client p (C\<lparr>cl_heap := P, cl_live := (q, n) # cl_live C\<rparr>)"
    by (rule xh.malloc_client[OF inv chunk_small ok])
qed

text \<open>A client that remembers every byte of its objects.\<close>

definition full_view :: "'s client \<Rightarrow> 's client" where
  "full_view C = C\<lparr>cl_bytes := \<lambda>a. if list_ex (within a) (cl_live C) then Some (pp_mem (cl_heap C) a) else None\<rparr>"

lemma full_view_inv: "client_inv ok owned C \<Longrightarrow> client_inv ok owned (full_view C)"
  by (auto simp: client_inv_def full_view_def split: if_splits)

lemma within_live: "(q, n) \<in> set (cl_live C) \<Longrightarrow> a \<in> region q n \<Longrightarrow> list_ex (within a) (cl_live C)"
  unfolding list_ex_iff by (rule bexI[of _ "(q, n)"]) (simp_all add: within_region)

text \<open>\<open>malloc\<close> gives an object that overlaps none of the client's, whose contents it leaves.\<close>

lemma malloc_keeps:
  assumes inv: "segment_client p (full_view C)" and i: "0 \<le> i" "i < NUM_HEAPS" and n: "unat sz \<le> 2 ^ 61"
    and r: "pp_malloc xheap_malloc PROTECTEDHEAP_CHUNK i sz (cl_heap C) = Inr (new, P)"
  shows "new \<noteq> 0" "segment_client p ((full_view C)\<lparr>cl_heap := P, cl_live := (new, sz) # cl_live C\<rparr>)"
    "new \<notin> fst ` set (cl_live C)" "(q, k) \<in> set (cl_live C) \<Longrightarrow> region new sz \<inter> region q k = {}"
    "(q, k) \<in> set (cl_live C) \<Longrightarrow> a \<in> region q k \<Longrightarrow> pp_mem P a = pp_mem (cl_heap C) a"
proof -
  have live: "cl_live (full_view C) = cl_live C" "cl_heap (full_view C) = cl_heap C" by (simp_all add: full_view_def)
  note M = segment_malloc[OF inv i n r[folded live(2)], unfolded live]
  show "new \<noteq> 0" "segment_client p ((full_view C)\<lparr>cl_heap := P, cl_live := (new, sz) # cl_live C\<rparr>)" by (rule M)+
  show new: "new \<notin> fst ` set (cl_live C)" using M(2) by (simp add: client_inv_def)
  show "region new sz \<inter> region q k = {}" if "(q, k) \<in> set (cl_live C)"
    using xh.client_view(3)[OF M(2), of new sz q k] that new by force
  show "pp_mem P a = pp_mem (cl_heap C) a" if "(q, k) \<in> set (cl_live C)" "a \<in> region q k"
    using xh.client_view(4)[OF M(2), of a "pp_mem (cl_heap C) a"] within_live[OF that] by (simp add: full_view_def)
qed

text \<open>\<open>free\<close> leaves the bytes of the other objects.\<close>

lemma free_keeps:
  assumes inv: "segment_client p C" and q: "(q, n) \<in> set (cl_live C)" and i: "0 \<le> i" "i < NUM_HEAPS"
    and r: "pp_free i q (cl_heap C) = Inr P"
  shows "\<exists>C'. segment_client p C' \<and> cl_heap C' = P \<and> cl_live C' = filter (\<lambda>x. fst x \<noteq> q) (cl_live C)"
    "cl_bytes C a = Some v \<Longrightarrow> a \<notin> region q n \<Longrightarrow> pp_mem P a = v"
proof -
  have ok: "call_ok (Free i q) C" using q i by (force simp: call_ok_def)
  obtain C' where C': "client_call xheap_malloc PROTECTEDHEAP_CHUNK (Free i q) C = Inr C'" "segment_client p C'"
    using xh.free_client[OF inv ok] by blast
  have parts: "cl_heap C' = P" "cl_live C' = filter (\<lambda>x. fst x \<noteq> q) (cl_live C)"
    "\<not> list_ex (\<lambda>x. fst x = q \<and> within a x) (cl_live C) \<Longrightarrow> cl_bytes C' a = cl_bytes C a"
    using C'(1) ok r by (auto simp: client_call_def)
  then show "\<exists>C'. segment_client p C' \<and> cl_heap C' = P \<and> cl_live C' = filter (\<lambda>x. fst x \<noteq> q) (cl_live C)"
    using C'(2) by blast
  show "pp_mem P a = v" if "cl_bytes C a = Some v" "a \<notin> region q n"
  proof -
    have "k = n" if "(q, k) \<in> set (cl_live C)" for k
      using that q inv eq_key_imp_eq_value[of "cl_live C" q k n] by (simp add: client_inv_def)
    then have "\<not> list_ex (\<lambda>x. fst x = q \<and> within a x) (cl_live C)"
      using that(2) by (auto simp: list_ex_iff within_region)
    then show ?thesis using xh.client_view(4)[OF C'(2), of a v] that(1) parts by simp
  qed
qed

text \<open>
  C31. \<open>realloc\<close> of an object that a client holds gives an object of at least the new size that overlaps no other, with
  the contents of the old one as far as both sizes go; the other objects keep their contents.
\<close>

theorem realloc_moves:
  assumes "segment_ok p" and "client_run xheap_malloc PROTECTEDHEAP_CHUNK calls (heap_start p m) = Inr C"
    and "(q, n) \<in> set (cl_live C)" and "0 \<le> i" and "i < NUM_HEAPS" and "sz \<noteq> 0" and "unat sz \<le> 2 ^ 61"
    and "conseq_realloc q sz \<lparr>ph_heap = cl_heap C, ph_heapid = i\<rparr> = Inr (new, h')"
  shows "new \<noteq> 0 \<and> (\<exists>k. conseq_getSize new h' = Inr k \<and> sz \<le> k) \<and>
    (\<forall>j. unat j < min (unat n) (unat sz) \<longrightarrow> pp_mem (ph_heap h') (new + j) = pp_mem (cl_heap C) (q + j)) \<and>
    (\<forall>r k. (r, k) \<in> set (cl_live C) \<longrightarrow> r \<noteq> q \<longrightarrow>
      region new sz \<inter> region r k = {} \<and> (\<forall>a \<in> region r k. pp_mem (ph_heap h') a = pp_mem (cl_heap C) a))"
proof -
  let ?P = "cl_heap C"
  have I: "segment_client p (full_view C)" by (rule full_view_inv[OF heap_run_inv[OF assms(1,2)]])
  then obtain s where q: "q \<noteq> 0" "pp_getSize q ?P = Inr s" "n \<le> s"
    using xh.client_view(1,5)[OF I, of q n] assms(3) by (auto simp: full_view_def)
  let ?c = "if s < sz then s else sz"
  obtain P1 P3 where m: "pp_malloc xheap_malloc PROTECTEDHEAP_CHUNK i sz ?P = Inr (new, P1)"
    and f: "new \<noteq> 0 \<Longrightarrow> pp_free i q (P1\<lparr>pp_mem := memcpy new q ?c (pp_mem P1)\<rparr>) = Inr P3" "ph_heap h' = P3"
    using assms(6,8) q
    by (auto simp: conseq_realloc_def xm_realloc_def xm_getSize_def xm_malloc_def xm_free_def upd_bytes_def Let_def bindR_Inr_iff
        split: if_splits)
  note M = malloc_keeps[OF I assms(4,5,7) m]
  let ?m = "memcpy new q ?c (pp_mem P1)" and ?C1 = "(full_view C)\<lparr>cl_heap := P1, cl_live := (new, sz) # cl_live C\<rparr>"
  define b where "b = (\<lambda>a. if a \<in> region new sz then Some (?m a) else cl_bytes (full_view C) a)"
  have copied: "?m a = pp_mem P1 a" if "a \<notin> region new sz" for a
    using that region_prefix[of ?c sz new] by (intro memcpy_other) (auto simp: word_less_nat_alt)
  have I2: "segment_client p (?C1\<lparr>cl_heap := P1\<lparr>pp_mem := ?m\<rparr>, cl_bytes := b\<rparr>)"
  proof -
    have "?m a = v \<and> list_ex (within a) (cl_live ?C1)" if v: "b a = Some v" for a v
      using v xh.client_view(4)[OF M(2), of a v] copied[of a]
      by (auto simp: b_def within_region full_view_def split: if_splits)
    then show ?thesis using xh.fill_client[OF M(2), of new sz ?m b] copied by simp
  qed
  let ?C2 = "?C1\<lparr>cl_heap := P1\<lparr>pp_mem := ?m\<rparr>, cl_bytes := b\<rparr>"
  have q2: "(q, n) \<in> set (cl_live ?C2)" "pp_free i q (cl_heap ?C2) = Inr P3" using assms(3) f(1)[OF M(1)] by simp_all
  note F = free_keeps[OF I2 q2(1) assms(4,5) q2(2)]
  have kept: "pp_mem (ph_heap h') a = v" if "b a = Some v" "a \<notin> region q n" for a v
    using F(2) f(2) that by simp
  have "pp_mem (ph_heap h') (new + j) = pp_mem ?P (q + j)" if j: "unat j < min (unat n) (unat sz)" for j
  proof -
    have r: "new + j \<in> region new sz" "q + j \<in> region q n" using j by (simp_all add: region_iff)
    then have "new + j \<notin> region q n" "b (new + j) = Some (?m (new + j))" using M(4)[OF assms(3)] by (auto simp: b_def)
    moreover have "?m (new + j) = pp_mem P1 (q + j)" using j q(3) by (intro memcpy_at) (auto simp: word_le_nat_alt)
    ultimately show ?thesis using kept M(5)[OF assms(3) r(2)] by simp
  qed
  moreover have "pp_mem (ph_heap h') a = pp_mem ?P a" if r: "(r, k) \<in> set (cl_live C)" "r \<noteq> q" "a \<in> region r k" for r k a
  proof (rule kept)
    show "b a = Some (pp_mem ?P a)" using M(4)[OF r(1)] r(3) within_live[OF r(1,3)] by (auto simp: b_def full_view_def)
    show "a \<notin> region q n" using xh.client_view(3)[OF I, of r k q n] r assms(3) by (auto simp: full_view_def)
  qed
  moreover have "\<exists>k. conseq_getSize new h' = Inr k \<and> sz \<le> k"
  proof -
    have "new \<noteq> q" using M(3) assms(3) by force
    then obtain C' where C': "segment_client p C'" "cl_heap C' = P3" "(new, sz) \<in> set (cl_live C')" using F(1) by auto
    then show ?thesis using xh.client_view(1)[OF C'(1,3)] f(2) by (simp add: conseq_getSize_def xm_getSize_def)
  qed
  ultimately show ?thesis using M(1,4) by blast
qed

text \<open>The second object of the sample grows: its byte moves with it.\<close>

theorem realloc_moves_witness:
  "\<exists>C h'. client_run xheap_malloc PROTECTEDHEAP_CHUNK sample_calls (heap_start sample_segment (\<lambda>a. 0)) = Inr C \<and>
    conseq_realloc 0x100000C0 300 \<lparr>ph_heap = cl_heap C, ph_heapid = 0\<rparr> = Inr (0x100000F0, h') \<and>
    pp_mem (ph_heap h') (0x100000F0 + 1) = pp_mem (cl_heap C) (0x100000C0 + 1)"
proof -
  obtain C where C: "client_run xheap_malloc PROTECTEDHEAP_CHUNK sample_calls (heap_start sample_segment (\<lambda>a. 0)) = Inr C"
    "(0x100000C0, 20) \<in> set (cl_live C)"
    "\<exists>h'. conseq_realloc 0x100000C0 300 \<lparr>ph_heap = cl_heap C, ph_heapid = 0\<rparr> = Inr (0x100000F0, h')"
    by (simp add: sample_calls_def heap_eval segment_eval sample_heap_start conseq_realloc_def xm_realloc_def xm_getSize_def
        pp_getSize_def ansi_getSize_def xm_malloc_def xm_free_def upd_bytes_def load_memcpy_away)
  then obtain h' where h': "conseq_realloc 0x100000C0 300 \<lparr>ph_heap = cl_heap C, ph_heapid = 0\<rparr> = Inr (0x100000F0, h')" by blast
  have "\<forall>j. unat j < min (unat (20 :: u64)) (unat (300 :: u64)) \<longrightarrow>
      pp_mem (ph_heap h') (0x100000F0 + j) = pp_mem (cl_heap C) (0x100000C0 + j)"
    using realloc_moves[OF sample_segment_ok C(1,2) _ _ _ _ h'] by (simp add: NUM_HEAPS_def)
  then have "pp_mem (ph_heap h') (0x100000F0 + 1) = pp_mem (cl_heap C) (0x100000C0 + 1)" by (rule allE[of _ 1]) simp
  with C(1) h' show ?thesis by blast
qed

subsection \<open>calloc\<close>

text \<open>
  A successful \<open>calloc\<close> clears the first \<open>nmemb * sz\<close> bytes modulo \<open>2 ^ 64\<close> and changes no other byte of what \<open>malloc\<close> gave;
  that is also all that it asks of the heap. So when the product overflows, the block is smaller than the caller's array, and no
  error is reported.
\<close>

theorem calloc_zeroes_wrapped:
  assumes "xm_malloc (nmemb * sz) h = Inr (ptr, h1)" and "ptr \<noteq> 0"
  shows "\<exists>h2. conseq_calloc nmemb sz h = Inr (ptr, h2) \<and>
    (\<forall>i. pp_mem (ph_heap h2) (ptr + i) =
      (if unat i < (unat nmemb * unat sz) mod 2 ^ 64 then 0 else pp_mem (ph_heap h1) (ptr + i)))"
proof -
  have n: "unat (nmemb * sz) = (unat nmemb * unat sz) mod 2 ^ 64" by (simp add: unat_word_ariths)
  have "memset ptr 0 (nmemb * sz) b (ptr + i) = (if unat i < (unat nmemb * unat sz) mod 2 ^ 64 then 0 else b (ptr + i))" for b i
    unfolding n[symmetric] by (simp add: memset_def word_less_nat_alt)
  then show ?thesis using assms by (simp add: conseq_calloc_def upd_bytes_def)
qed

text \<open>An array of \<open>2 ^ 61 + 2\<close> elements of eight bytes gets 16 bytes.\<close>

theorem calloc_zeroes_wrapped_witness:
  "\<exists>h2. conseq_calloc 0x2000000000000002 8
      \<lparr>ph_heap = cl_heap (heap_start sample_segment (\<lambda>a. 1)), ph_heapid = 0\<rparr> = Inr (0x10000030, h2) \<and>
    pp_mem (ph_heap h2) (0x10000030 + 15) = 0 \<and> pp_mem (ph_heap h2) (0x10000030 + 16) = 1"
proof -
  obtain h1 where h1: "xm_malloc (0x2000000000000002 * 8)
      \<lparr>ph_heap = cl_heap (heap_start sample_segment (\<lambda>a. 1)), ph_heapid = 0\<rparr> = Inr (0x10000030, h1)"
    "pp_mem (ph_heap h1) 0x10000040 = 1"
    by (simp add: xm_malloc_def heap_eval segment_eval sample_heap_start store_away)
  from calloc_zeroes_wrapped[OF this(1)] obtain h2 where h2: "conseq_calloc 0x2000000000000002 8
      \<lparr>ph_heap = cl_heap (heap_start sample_segment (\<lambda>a. 1)), ph_heapid = 0\<rparr> = Inr (0x10000030, h2)"
    "\<forall>i. pp_mem (ph_heap h2) (0x10000030 + i) = (if unat i < 16 then 0 else pp_mem (ph_heap h1) (0x10000030 + i))" by auto
  have "pp_mem (ph_heap h2) (0x10000030 + 15) = 0" "pp_mem (ph_heap h2) (0x10000030 + 16) = 1"
    unfolding h2(2)[rule_format] using h1(2) by simp_all
  with h2(1) show ?thesis by blast
qed

end
