(* ===== verification/Heap_Faults.thy ===== *)
theory Heap_Faults
  imports Heap_Theorems
begin

text \<open>
  The edges of the heaps: sizes near \<open>2 ^ 64\<close>, threads that share a heap, and the internal heap, which has a single chunk.
\<close>

subsection \<open>Sizes that wrap\<close>

lemma ansi_align_top:
  assumes "unat sz > 2 ^ 64 - 8" shows "ansi_align sz = 0"
proof -
  have "unat (sz + 7) = (unat sz + 7) mod 2 ^ 64" by (simp add: unat_word_ariths)
  also have "\<dots> = unat sz + 7 - 2 ^ 64" using assms unat_u64[of sz] by (simp add: mod_if)
  finally have lt: "unat (sz + 7) < 8" using unat_u64[of sz] by linarith
  have "(sz + 7) mod 8 = sz + 7" using lt by (intro word_unat_eq_iff[THEN iffD2]) (simp add: unat_mod)
  then show ?thesis unfolding ansi_align_def clear_low_bits by simp
qed

lemma heap_at_arena:
  assumes inv: "segment_client p C" and a: "a = ks_current (pp_heap (cl_heap C) i)" "a \<noteq> 0"
    and r: "unat (load64 (pp_mem (cl_heap C)) a) \<ge> 16"
  shows "region a 32 \<inter> region (load64 (pp_mem (cl_heap C)) (a + 16)) 16 = {}"
    "load64 (pp_mem (cl_heap C)) (a + 16) \<noteq> 0" "load64 (pp_mem (cl_heap C)) (a + 16) + 16 \<noteq> 0 \<or> unat (load64 (pp_mem (cl_heap C)) a) = 16"
proof -
  let ?P = "cl_heap C" and ?own = "xheap_owned (unat (xp_snapMemory p)) (pp_source (cl_heap C))"
  obtain g where g: "heap_inv ?own (pp_heap ?P) (pp_mem ?P) g" "0 \<notin> ?own"
    using inv by (auto simp: client_inv_def pp_good_def xheap_ok_def xheap_owned_def)
  then have "arena_ok (pp_heap ?P) (pp_mem ?P) g i" using a by (auto simp: heap_inv_def active_def)
  then have A: "load64 (pp_mem ?P) a = g_rem g i" "load64 (pp_mem ?P) (a + 16) = g_space g i" using a by (simp_all add: arena_ok_def)
  have pcs: "Arena i \<in> pieces (pp_heap ?P) g" "Space i \<in> pieces (pp_heap ?P) g" using a by simp_all
  have "region a 32 \<inter> region (g_space g i) (g_rem g i) = {}" using extent_disjoint[OF g(1) pcs] a(1) by simp
  moreover have "region (g_space g i) 16 \<subseteq> region (g_space g i) (g_rem g i)" using r A by (intro region_prefix) simp
  ultimately show "region a 32 \<inter> region (load64 (pp_mem ?P) (a + 16)) 16 = {}" unfolding A by blast
  have own: "extent (pp_heap ?P) g (Space i) \<subseteq> ?own" using g(1) pcs(2) unfolding heap_inv_def by blast
  moreover have "g_space g i \<in> extent (pp_heap ?P) g (Space i)" using r A by (simp add: region_iff)
  ultimately show "load64 (pp_mem ?P) (a + 16) \<noteq> 0" using g(2) A by auto
  show "load64 (pp_mem ?P) (a + 16) + 16 \<noteq> 0 \<or> unat (load64 (pp_mem ?P) a) = 16"
  proof (cases "unat (g_rem g i) = 16")
    case False
    then have "g_space g i + 16 \<in> extent (pp_heap ?P) g (Space i)" using r A by (simp add: region_iff)
    then show ?thesis using own g(2) A by auto
  qed (use A in simp)
qed

lemma malloc_minus_16:
  assumes a: "a = ks_current (hp_king h)" "a \<noteq> 0"
    and sp: "sp = load64 (hp_mem h) (a + 16)" "sp \<noteq> 0" "region a 32 \<inter> region sp 16 = {}"
  shows "\<exists>h'. kingsley_malloc src chunk (- 16) h = Inr (sp + 16, h') \<and> hp_king h' = hp_king h \<and> hp_source h' = hp_source h \<and>
    load64 (hp_mem h') a = load64 (hp_mem h) a \<and> load64 (hp_mem h') (a + 16) = sp"
proof -
  define h1 where "h1 = h\<lparr>hp_mem := store64 (a + 16) sp (store64 a (load64 (hp_mem h) a) (hp_mem h))\<rparr>"
  have am: "arena_malloc a 0 h = (sp, h1)"
    by (simp add: arena_malloc_def sizeRemaining_def arena_remaining_def arena_space_def heap_parts Let_def load_store_other
        words_apart_sym sp(1) h1_def)
  have "zoneMalloc src chunk 0 h = Inr (sp, h1)"
    using a(2) by (simp add: zoneMalloc_def zone_align_def Let_def am a(1)[symmetric])
  then have "bigheap_malloc src chunk (- 16) h = Inr (sp + 16, put_header sp (objectHeader_new (- 16)) h1)"
    using sp(2) by (simp add: bigheap_malloc_def new_source_malloc_def HEADER_SIZE_def getPointer_def)
  then have "kingsley_malloc src chunk (- 16) h = Inr (sp + 16, put_header sp (objectHeader_new (- 16)) h1)"
    by (simp add: kingsley_malloc_def ansi_malloc_def ansi_align_def strict_malloc_def maxObjectSize_31)
  moreover have "hp_mem (put_header sp (objectHeader_new (- 16)) h1) =
      store64 sp OBJECT_MAGIC (store64 (sp + 8) (- 16) (store64 (a + 16) sp (store64 a (load64 (hp_mem h) a) (hp_mem h))))"
    by (simp add: heap_parts h1_def)
  note carve_mem(1,2)[OF this sp(3)]
  ultimately show ?thesis by (simp add: heap_parts h1_def)
qed

text \<open>
  C32. Sizes near \<open>2 ^ 64\<close> do not fail. A size in the last seven wraps to 0 when it is rounded up to words, and gets an
  object of the smallest class. Sixteen less than \<open>2 ^ 64\<close>, with the header added, is 0: the object is empty, and the next such
  request gets the same address, as long as the arena has room for a header.
\<close>

theorem malloc_huge_sizes:
  assumes "segment_ok p" and "client_run xheap_malloc PROTECTEDHEAP_CHUNK calls (heap_start p m) = Inr C"
    and "0 \<le> i" and "i < NUM_HEAPS" and "h = \<lparr>ph_heap = cl_heap C, ph_heapid = i\<rparr>"
    and "ks_current (pp_heap (cl_heap C) i) \<noteq> 0"
    and "16 < unat (load64 (pp_mem (cl_heap C)) (ks_current (pp_heap (cl_heap C) i)))"
  shows "(\<forall>sz. unat sz > 2 ^ 64 - 8 \<longrightarrow> conseq_malloc sz h =
      bindR (strict_malloc xheap_malloc PROTECTEDHEAP_CHUNK 8 (pp_view i (cl_heap C))) (\<lambda>(q, x).
        Inr (q, \<lparr>ph_heap = pp_put i x (cl_heap C), ph_heapid = i\<rparr>))) \<and>
    (\<exists>q h1 h2. q \<noteq> 0 \<and> conseq_malloc (- 16) h = Inr (q, h1) \<and> conseq_malloc (- 16) h1 = Inr (q, h2))"
proof (intro conjI allI impI)
  fix sz :: u64 assume sz: "unat sz > 2 ^ 64 - 8"
  then have "\<not> sz < 16" by (simp add: word_less_nat_alt)
  then have "kingsley_malloc xheap_malloc PROTECTEDHEAP_CHUNK sz x = strict_malloc xheap_malloc PROTECTEDHEAP_CHUNK 0 x" for x
    using ansi_align_top[OF sz] by (simp add: kingsley_malloc_def ansi_malloc_def)
  moreover have "strict_malloc xheap_malloc PROTECTEDHEAP_CHUNK 0 x = strict_malloc xheap_malloc PROTECTEDHEAP_CHUNK 8 x" for x
    by (simp add: strict_malloc_def size2Class_def maxObjectSize_31)
  ultimately show "conseq_malloc sz h =
      bindR (strict_malloc xheap_malloc PROTECTEDHEAP_CHUNK 8 (pp_view i (cl_heap C))) (\<lambda>(q, x).
        Inr (q, \<lparr>ph_heap = pp_put i x (cl_heap C), ph_heapid = i\<rparr>))"
    using assms(3-5) by (auto simp: conseq_malloc_def xm_malloc_def pp_malloc_def bindR_assoc intro!: bindR_cong)
next
  let ?P = "cl_heap C" and ?a = "ks_current (pp_heap (cl_heap C) i)"
  let ?sp = "load64 (pp_mem ?P) (?a + 16)"
  note A = heap_at_arena[OF heap_run_inv[OF assms(1,2)] refl assms(6) less_imp_le[OF assms(7)]]
  have run: "conseq_malloc (- 16) \<lparr>ph_heap = Q, ph_heapid = i\<rparr> =
      bindR (kingsley_malloc xheap_malloc PROTECTEDHEAP_CHUNK (- 16) (pp_view i Q)) (\<lambda>(q, x).
        Inr (q, \<lparr>ph_heap = pp_put i x Q, ph_heapid = i\<rparr>))" for Q
    using assms(3,4) by (auto simp: conseq_malloc_def xm_malloc_def pp_malloc_def bindR_assoc intro!: bindR_cong)
  obtain x where x: "kingsley_malloc xheap_malloc PROTECTEDHEAP_CHUNK (- 16) (pp_view i ?P) = Inr (?sp + 16, x)"
    "hp_king x = pp_heap ?P i" "load64 (hp_mem x) (?a + 16) = ?sp"
    using malloc_minus_16[of ?a "pp_view i ?P" ?sp xheap_malloc PROTECTEDHEAP_CHUNK] A(1,2) assms(6) by (auto simp: pp_view_def)
  let ?Q = "pp_put i x ?P"
  have "pp_view i ?Q = x" by (simp add: pp_view_def pp_put_def)
  then obtain y where "kingsley_malloc xheap_malloc PROTECTEDHEAP_CHUNK (- 16) (pp_view i ?Q) = Inr (?sp + 16, y)"
    using malloc_minus_16[of ?a x ?sp xheap_malloc PROTECTEDHEAP_CHUNK] x A(1,2) assms(6) by auto
  then have "conseq_malloc (- 16) h = Inr (?sp + 16, \<lparr>ph_heap = ?Q, ph_heapid = i\<rparr>)"
    "\<exists>h2. conseq_malloc (- 16) \<lparr>ph_heap = ?Q, ph_heapid = i\<rparr> = Inr (?sp + 16, h2)"
    using run[of ?P] run[of ?Q] x(1) assms(5) by auto
  moreover have "?sp + 16 \<noteq> 0" using A(3) assms(7) by auto
  ultimately show "\<exists>q h1 h2. q \<noteq> 0 \<and> conseq_malloc (- 16) h = Inr (q, h1) \<and> conseq_malloc (- 16) h1 = Inr (q, h2)"
    by blast
qed

theorem malloc_huge_sizes_witness:
  "\<exists>C q h1 h2. client_run xheap_malloc PROTECTEDHEAP_CHUNK [Malloc 0 100] (heap_start sample_segment (\<lambda>a. 0)) = Inr C \<and> q \<noteq> 0 \<and>
    conseq_malloc (- 16) \<lparr>ph_heap = cl_heap C, ph_heapid = 0\<rparr> = Inr (q, h1) \<and> conseq_malloc (- 16) h1 = Inr (q, h2)"
proof -
  obtain C where C: "client_run xheap_malloc PROTECTEDHEAP_CHUNK [Malloc 0 100] (heap_start sample_segment (\<lambda>a. 0)) = Inr C"
    "ks_current (pp_heap (cl_heap C) 0) = 0x10000000" "load64 (pp_mem (cl_heap C)) 0x10000000 = 0x9FFF70"
    by (simp add: heap_eval segment_eval sample_heap_start)
  then show ?thesis using malloc_huge_sizes[OF sample_segment_ok C(1), where i = 0, OF _ _ refl] by (auto simp: NUM_HEAPS_def)
qed

subsection \<open>Threads that share a heap\<close>

lemma align_multiple:
  assumes "8 dvd unat (x :: u64)" "unat x + 7 < 2 ^ 64" shows "(x + 7) AND NOT 7 = x"
proof -
  have "unat (x + 7) = unat x + 7" using assms(2) by (simp add: unat_word_ariths)
  then have "unat ((x + 7) mod 8) = 7" using assms(1) by (simp add: unat_mod mod_add_left_eq[symmetric])
  then have "(x + 7) mod 8 = 7" by (simp add: word_unat_eq_iff)
  then show ?thesis unfolding clear_low_bits by simp
qed

text \<open>An allocation from the arena changes memory only.\<close>

lemma arena_only_memory:
  fixes P :: "'s pheap"
  assumes sz: "unat sz \<le> 2 ^ 31 - 8" and c: "c = size2Class (ansi_align (if sz < 16 then 16 else sz))"
    and empty: "ks_bins (pp_heap P i) c = 0" and a: "ks_current (pp_heap P i) \<noteq> 0"
    and room: "unat (class2Size c) + 16 \<le> unat (load64 (pp_mem P) (ks_current (pp_heap P i)))"
    and i: "0 \<le> i" "i < NUM_HEAPS"
  shows "\<exists>q P'. pp_malloc src chunk i sz P = Inr (q, P') \<and> P'\<lparr>pp_mem := pp_mem P\<rparr> = P"
proof -
  let ?s = "ansi_align (if sz < 16 then 16 else sz)" and ?h = "pp_view i P" and ?a = "ks_current (pp_heap P i)"
  let ?n = "class2Size c"
  have up: "unat (ansi_align x) \<le> 2 ^ 31" if "unat x \<le> 2 ^ 31 - 8" for x
    using align_bounds(2)[of x] that by (simp add: ansi_align_def)
  have s: "unat ?s \<le> 2 ^ 31" by (rule up) (use sz in simp)
  note C = size_class(1,2)[OF s, folded c]
  have n: "unat ?n \<le> 2 ^ 31" "unat ?n = 8 * 2 ^ nat c"
    using class_of_class(3)[OF C] unat_class2Size[of c] C by (simp_all add: NUMBINS_def)
  have n16: "unat (?n + 16) = unat ?n + 16" by (rule unat_header) (use n(1) in simp)
  have al: "zone_align (?n + 16) = ?n + 16"
    unfolding zone_align_def by (rule align_multiple) (use n n16 in auto)
  obtain q h1 where am: "arena_malloc ?a (?n + 16) ?h = (q, h1)" "hp_king h1 = hp_king ?h" "hp_source h1 = hp_source ?h"
    by (cases "?n + 16 > sizeRemaining ?a ?h") (simp_all add: arena_malloc_def Let_def heap_parts)
  have cond: "ks_current (hp_king ?h) \<noteq> 0 \<and> sizeRemaining (ks_current (hp_king ?h)) ?h \<ge> ?n + 16"
    using a room n16 by (simp add: pp_view_def sizeRemaining_def arena_remaining_def read64_def word_le_nat_alt)
  have "zoneMalloc src chunk (?n + 16) ?h = Inr (arena_malloc (ks_current (hp_king ?h)) (?n + 16) ?h)"
    unfolding zoneMalloc_def Let_def al using cond by (rule if_P)
  then have "zoneMalloc src chunk (?n + 16) ?h = Inr (q, h1)" using am(1) by (simp add: pp_view_def)
  then have "\<exists>q h'. bigheap_malloc src chunk ?n ?h = Inr (q, h') \<and> hp_king h' = hp_king ?h \<and> hp_source h' = hp_source ?h"
    using am(2,3) by (simp add: bigheap_malloc_def new_source_malloc_def HEADER_SIZE_def heap_parts)
  moreover have "kingsley_malloc src chunk sz ?h = bigheap_malloc src chunk ?n ?h"
    using s empty by (simp add: kingsley_malloc_def ansi_malloc_def strict_malloc_def maxObjectSize_31 word_le_nat_alt c
        adapt_malloc_def sl_get_def Let_def pp_view_def)
  ultimately have "\<exists>q h'. kingsley_malloc src chunk sz ?h = Inr (q, h') \<and> hp_king h' = hp_king ?h \<and> hp_source h' = hp_source ?h"
    by simp
  then obtain q h' where h': "kingsley_malloc src chunk sz ?h = Inr (q, h')" "hp_king h' = hp_king ?h" "hp_source h' = hp_source ?h"
    by blast
  then have "(pp_put i h' P)\<lparr>pp_mem := pp_mem P\<rparr> = P" by (simp add: pp_put_def pp_view_def)
  then show ?thesis using h'(1) i by (auto simp: pp_malloc_def)
qed

text \<open>
  C33. Threads whose indices are equal modulo 32 use the same heap, and no lock orders their memory: the heads of the free lists
  and the arena pointer are shared at once, but the arena itself lies in versioned memory. When one of them allocates from the
  arena, everything the allocation changes is in its own copy of that memory. Another thread that has not updated its copy since
  gets the same object.
\<close>

theorem threads_share_objects:
  assumes "segment_ok p" and "client_run xheap_malloc PROTECTEDHEAP_CHUNK calls (heap_start p m) = Inr C"
    and "0 \<le> t" and "0 \<le> u" and "t mod NUM_HEAPS = u mod NUM_HEAPS" and "i = t mod NUM_HEAPS"
    and "unat sz \<le> 2 ^ 31 - 8" and "c = size2Class (ansi_align (if sz < 16 then 16 else sz))"
    and "ks_bins (pp_heap (cl_heap C) i) c = 0" and "ks_current (pp_heap (cl_heap C) i) \<noteq> 0"
    and "unat (class2Size c) + 16 \<le> unat (load64 (pp_mem (cl_heap C)) (ks_current (pp_heap (cl_heap C) i)))"
  shows "\<exists>q P. q \<noteq> 0 \<and>
    xm_malloc sz \<lparr>ph_heap = cl_heap C, ph_heapid = t mod NUM_HEAPS\<rparr> = Inr (q, \<lparr>ph_heap = P, ph_heapid = t mod NUM_HEAPS\<rparr>) \<and>
    (\<exists>h. xm_malloc sz \<lparr>ph_heap = P\<lparr>pp_mem := pp_mem (cl_heap C)\<rparr>, ph_heapid = u mod NUM_HEAPS\<rparr> = Inr (q, h))"
proof -
  let ?P = "cl_heap C" and ?a = "ks_current (pp_heap (cl_heap C) i)" and ?n = "class2Size c"
  have i: "0 \<le> i" "i < NUM_HEAPS" using assms(6) by (simp_all add: NUM_HEAPS_def)
  have n61: "unat sz \<le> 2 ^ 61" using assms(7) by simp
  obtain q P where m: "pp_malloc xheap_malloc PROTECTEDHEAP_CHUNK i sz ?P = Inr (q, P)" "P\<lparr>pp_mem := pp_mem ?P\<rparr> = ?P"
    using arena_only_memory[OF assms(7-11)] i by metis
  note M = segment_malloc(1)[OF heap_run_inv[OF assms(1,2)] i n61 m(1)]
  show ?thesis using m M assms(5,6) by (auto simp: xm_malloc_def)
qed

text \<open>Threads 1 and 33.\<close>

theorem threads_share_objects_witness:
  "\<exists>C q P h. client_run xheap_malloc PROTECTEDHEAP_CHUNK [Malloc 1 100] (heap_start sample_segment (\<lambda>a. 0)) = Inr C \<and> q \<noteq> 0 \<and>
    xm_malloc 24 \<lparr>ph_heap = cl_heap C, ph_heapid = 1\<rparr> = Inr (q, \<lparr>ph_heap = P, ph_heapid = 1\<rparr>) \<and>
    xm_malloc 24 \<lparr>ph_heap = P\<lparr>pp_mem := pp_mem (cl_heap C)\<rparr>, ph_heapid = 33 mod NUM_HEAPS\<rparr> = Inr (q, h)"
proof -
  obtain C where C: "client_run xheap_malloc PROTECTEDHEAP_CHUNK [Malloc 1 100] (heap_start sample_segment (\<lambda>a. 0)) = Inr C"
    "ks_current (pp_heap (cl_heap C) 1) = 0x10000000" "load64 (pp_mem (cl_heap C)) 0x10000000 = 0x9FFF70"
    "ks_bins (pp_heap (cl_heap C) 1) 2 = 0"
    by (simp add: heap_eval segment_eval sample_heap_start)
  have c: "(2 :: int) = size2Class (ansi_align (if (24 :: u64) < 16 then 16 else 24))"
    by (simp add: ansi_align_def size2Class_def cl_def)
  have "1 mod NUM_HEAPS = 33 mod NUM_HEAPS" "(1 :: int) = 1 mod NUM_HEAPS" by (simp_all add: NUM_HEAPS_def)
  from threads_share_objects[OF sample_segment_ok C(1) _ _ this _ c] C
  show ?thesis by (auto simp: class2Size_def NUM_HEAPS_def)
qed

subsection \<open>The internal heap\<close>

text \<open>
  Until the mapping is taken the source must not be asked for more than it maps; \<open>guarded_source\<close> refuses that. The first request
  of \<open>internal_initialize\<close> stays below, so that it makes no difference.
\<close>

definition internal_mapping :: u64 where "internal_mapping = INTERNALHEAP_SIZE + PageSize"

definition guarded_source :: "u64 \<Rightarrow> bool source" where
  "guarded_source base n b =
     (if \<not> b \<and> n > internal_mapping then Inl ExitCalled else internal_source base n b)"

definition mapping_ok :: "u64 \<Rightarrow> bool \<Rightarrow> bool" where
  "mapping_ok base b \<longleftrightarrow> 0 \<notin> region base internal_mapping"

definition mapping_owned :: "u64 \<Rightarrow> bool \<Rightarrow> u64 set" where
  "mapping_owned base b = (if b then region base internal_mapping else {})"

interpretation ih: chunk_source "guarded_source base" "mapping_ok base" "mapping_owned base" for base
  by unfold_locales
    (auto simp: guarded_source_def internal_source_def mapping_ok_def mapping_owned_def word_le_nat_alt not_less
      dest: region_prefix[THEN subsetD] split: if_splits)

text \<open>A heap asks its source in the source's present state only.\<close>

lemma kingsley_source_cong:
  assumes "\<And>n. src n (hp_source h) = src' n (hp_source h)"
  shows "kingsley_malloc src chunk sz h = kingsley_malloc src' chunk sz h"
proof -
  have "hp_source (retire_arena h) = hp_source h" for h :: "'a heap" by (simp add: retire_arena_def Let_def heap_parts)
  then have "zoneMalloc src chunk n h = zoneMalloc src' chunk n h" if "hp_source h = hp_source h0" "h0 = h" for n h0
    using assms by (simp add: zoneMalloc_def slowMalloc_def Let_def)
  then have z: "zoneMalloc src chunk n h = zoneMalloc src' chunk n h" for n by blast
  then show ?thesis
    by (simp add: kingsley_malloc_def ansi_malloc_def strict_malloc_def adapt_malloc_def sl_get_def bigheap_malloc_def
        new_source_malloc_def Let_def)
qed

lemma kingsley_source_kept:
  assumes "\<And>n p s. src n (hp_source h) = Inr (p, s) \<Longrightarrow> s = hp_source h" "kingsley_malloc src chunk sz h = Inr (p, h')"
  shows "hp_source h' = hp_source h"
proof -
  have r: "hp_source (retire_arena h) = hp_source h" by (simp add: retire_arena_def Let_def heap_parts)
  have am: "arena_malloc a n x = (q, y) \<Longrightarrow> hp_source y = hp_source x" for a n q and x y :: "'a heap"
    by (auto simp: arena_malloc_def Let_def heap_parts split: if_splits)
  have z: "zoneMalloc src chunk n h = Inr (q, x) \<Longrightarrow> hp_source x = hp_source h" for n q x
    using assms(1) r by (auto simp: zoneMalloc_def slowMalloc_def Let_def bindR_Inr_iff heap_parts arena_new_def
        split: if_splits dest!: am)
  have "bigheap_malloc src chunk n h = Inr (q, x) \<Longrightarrow> hp_source x = hp_source h" for n q x
    by (auto simp: bigheap_malloc_def new_source_malloc_def bindR_Inr_iff heap_parts split: if_splits dest: z)
  then show ?thesis
    using assms(2) by (auto simp: kingsley_malloc_def ansi_malloc_def strict_malloc_def adapt_malloc_def sl_get_def Let_def
        heap_parts split: if_splits)
qed

lemma free_source_kept: "ansi_free q h = Inr h' \<Longrightarrow> hp_source h' = hp_source h"
  by (auto simp: ansi_free_def strict_free_def bindR_Inr_iff bigheap_free_def new_source_free_def zone_free_def adapt_free_def
      sl_insert_def heap_parts split: if_splits)

lemma taken_call:
  assumes "pp_source (cl_heap C)"
  shows "client_call (internal_source base) chunk call C = client_call (guarded_source base) chunk call C"
    "client_call (internal_source base) chunk call C = Inr C' \<Longrightarrow> pp_source (cl_heap C')"
proof -
  have v: "hp_source (pp_view i (cl_heap C))" for i using assms by (simp add: pp_view_def)
  have "pp_malloc (internal_source base) chunk i n (cl_heap C) = pp_malloc (guarded_source base) chunk i n (cl_heap C)" for i n
    using kingsley_source_cong[of "internal_source base" "pp_view i (cl_heap C)" "guarded_source base"] v
    by (simp add: pp_malloc_def guarded_source_def internal_source_def)
  then show "client_call (internal_source base) chunk call C = client_call (guarded_source base) chunk call C"
    by (simp add: client_call_def split: heap_call.split)
  have "hp_source h" if "kingsley_malloc (internal_source base) chunk n (pp_view i (cl_heap C)) = Inr (q, h)" for i n q h
    using kingsley_source_kept[OF _ that] v[of i] by (auto simp: internal_source_def)
  then show "pp_source (cl_heap C')" if "client_call (internal_source base) chunk call C = Inr C'"
    using that assms by (auto simp: client_call_def pp_malloc_def pp_free_def pp_put_def pp_view_def bindR_Inr_iff
        split: heap_call.splits if_splits dest!: free_source_kept)
qed

lemma taken_run:
  assumes "pp_source (cl_heap C)" "client_run (internal_source base) chunk cs C = Inr C'"
  shows "client_run (guarded_source base) chunk cs C = Inr C'" "pp_source (cl_heap C')"
proof -
  have "client_run (guarded_source base) chunk cs C = Inr C' \<and> pp_source (cl_heap C')"
    using assms
  proof (induction cs arbitrary: C)
    case (Cons c cs)
    obtain D where D: "client_call (internal_source base) chunk c C = Inr D" "client_run (internal_source base) chunk cs D = Inr C'"
      using Cons.prems(2) by (auto simp: bindR_Inr_iff)
    have "client_call (guarded_source base) chunk c C = Inr D" using taken_call(1)[OF Cons.prems(1), of base chunk c] D(1) by simp
    then show ?case using Cons.IH[OF taken_call(2)[OF Cons.prems(1) D(1)] D(2)] by simp
  qed simp
  then show "client_run (guarded_source base) chunk cs C = Inr C'" "pp_source (cl_heap C')" by blast+
qed

definition internal_start :: "bytes \<Rightarrow> bool client" where
  "internal_start m = client_start (pp_create False m)"

abbreviation internal_run :: "u64 \<Rightarrow> heap_call list \<Rightarrow> bytes \<Rightarrow> bool client result" where
  "internal_run base calls m \<equiv> client_run (internal_source base) INTERNALHEAP_SIZE (Malloc 0 8 # calls) (internal_start m)"

lemma internal_inv:
  assumes base: "0 \<notin> region base internal_mapping" and run: "internal_run base calls m = Inr C"
  shows "client_inv (mapping_ok base) (mapping_owned base) C" "pp_source (cl_heap C)"
proof -
  have base0: "base \<noteq> 0" using base by (auto simp: region_iff internal_mapping_def INTERNALHEAP_SIZE_def PageSize_def)
  have size: "unat INTERNALHEAP_SIZE \<le> 2 ^ 62" by (simp add: INTERNALHEAP_SIZE_def)
  obtain D where D: "client_call (internal_source base) INTERNALHEAP_SIZE (Malloc 0 8) (internal_start m) = Inr D"
    "client_run (internal_source base) INTERNALHEAP_SIZE calls D = Inr C" using run by (auto simp: bindR_Inr_iff)
  have first: "client_call (guarded_source base) INTERNALHEAP_SIZE (Malloc 0 8) (internal_start m) =
      client_call (internal_source base) INTERNALHEAP_SIZE (Malloc 0 8) (internal_start m)"
    using base0 by (simp add: heap_eval internal_start_def guarded_source_def internal_source_def internal_mapping_def
        INTERNALHEAP_SIZE_def PageSize_def)
  have "pp_source (cl_heap D)"
    using D(1) base0 by (simp add: heap_eval internal_start_def internal_source_def INTERNALHEAP_SIZE_def split: if_splits prod.splits)
      (auto split: if_splits)
  from taken_run[OF this D(2)] show "pp_source (cl_heap C)"
    and "client_inv (mapping_ok base) (mapping_owned base) C"
    using ih.client_run_inv[OF ih.start_inv[of base False m] size, of "Malloc 0 8 # calls" C] first D(1) base
    by (simp_all add: internal_start_def mapping_ok_def)
qed

text \<open>
  The internal heap, of which one heap is used: after \<open>initialize\<close>, and any sequence of calls, every object has at
  least the requested size and lies in the mapping, objects do not overlap, bytes read as they were last written, and no allowed
  call faults.
\<close>

theorem internal_heap_serves:
  assumes "0 \<notin> region base internal_mapping" and "internal_run base calls m = Inr C"
  shows "(\<forall>q n. (q, n) \<in> set (cl_live C) \<longrightarrow>
      region q n \<subseteq> region base internal_mapping \<and> (\<exists>k. pp_getSize q (cl_heap C) = Inr k \<and> n \<le> k)) \<and>
    (\<forall>q n q' n'. (q, n) \<in> set (cl_live C) \<longrightarrow> (q', n') \<in> set (cl_live C) \<longrightarrow> (q, n) \<noteq> (q', n') \<longrightarrow>
      region q n \<inter> region q' n' = {}) \<and>
    (\<forall>a v. cl_bytes C a = Some v \<longrightarrow> pp_mem (cl_heap C) a = v) \<and>
    (\<forall>call. call_ok call C \<longrightarrow> (\<exists>C'. client_call (internal_source base) INTERNALHEAP_SIZE call C = Inr C'))"
proof -
  note I = internal_inv[OF assms]
  have "\<exists>C'. client_call (internal_source base) INTERNALHEAP_SIZE call C = Inr C'" if ok: "call_ok call C" for call
  proof (cases call)
    case (Malloc i n)
    have "kingsley_malloc (internal_source base) INTERNALHEAP_SIZE n (pp_view i (cl_heap C)) \<noteq> Inl e" for e
    proof
      assume "kingsley_malloc (internal_source base) INTERNALHEAP_SIZE n (pp_view i (cl_heap C)) = Inl e"
      then have "kingsley_malloc (\<lambda>n b. Inr (0, b)) INTERNALHEAP_SIZE n (pp_view i (cl_heap C)) = Inl e"
        using kingsley_source_cong[of "internal_source base" "pp_view i (cl_heap C)" "\<lambda>n b. Inr (0, b)"] I(2)
        by (simp add: internal_source_def pp_view_def)
      moreover have "chunk_source (\<lambda>n b. Inr (0, b)) (\<lambda>b. True) (\<lambda>b :: bool. {})" by unfold_locales auto
      ultimately show False by (auto dest: chunk_source.malloc_fault)
    qed
    then obtain q h where "kingsley_malloc (internal_source base) INTERNALHEAP_SIZE n (pp_view i (cl_heap C)) = Inr (q, h)"
      by (cases "kingsley_malloc (internal_source base) INTERNALHEAP_SIZE n (pp_view i (cl_heap C))") auto
    then show ?thesis using ok Malloc by (simp add: client_call_def call_ok_def pp_malloc_def)
  next
    case (Free i q)
    then show ?thesis
      using ih.free_client[OF I(1), where i = i and p = q and chunk = INTERNALHEAP_SIZE] ok by (auto simp: taken_call(1)[OF I(2)])
  next
    case (Write a v)
    then show ?thesis
      using ih.write_client[OF I(1), where a = a and v = v and chunk = INTERNALHEAP_SIZE] ok by (auto simp: taken_call(1)[OF I(2)])
  qed
  then show ?thesis using ih.client_view[OF I(1)] I(2) unfolding mapping_owned_def by simp
qed

text \<open>
  C34. One request that the internal heap cannot serve ends it: the arena is retired before the source is asked for another one,
  and the source has none, so that from then on every request that no free list serves gets the null pointer,
  however much of the mapping is left.
\<close>

theorem internal_heap_ends:
  assumes "0 \<notin> region base internal_mapping" and "internal_run base calls m = Inr C"
    and "0 \<le> i" and "i < NUM_HEAPS" and "unat n \<le> 2 ^ 61"
    and "pp_malloc (internal_source base) INTERNALHEAP_SIZE i n (cl_heap C) = Inr (0, P)"
    and "sz = ansi_align (if k < 16 then 16 else k)"
    and "sz > maxObjectSize \<or> ks_bins (pp_heap P i) (size2Class sz) = 0"
  shows "pp_malloc (internal_source base) INTERNALHEAP_SIZE i k P = Inr (0, P)"
proof -
  note I = internal_inv[OF assms(1,2)]
  have size: "unat INTERNALHEAP_SIZE \<le> 2 ^ 62" by (simp add: INTERNALHEAP_SIZE_def)
  have i: "\<not> (i < 0 \<or> NUM_HEAPS \<le> i)" using assms(3,4) by simp
  obtain h where h: "kingsley_malloc (internal_source base) INTERNALHEAP_SIZE n (pp_view i (cl_heap C)) = Inr (0, h)"
    "P = pp_put i h (cl_heap C)" using assms(6) i by (auto simp: pp_malloc_def bindR_Inr_iff)
  obtain g where "pp_good (mapping_ok base) (mapping_owned base) g (cl_heap C)" using I(1) by (auto simp: client_inv_def)
  then have G: "heap_good (mapping_ok base) (mapping_owned base) (pp_heap (cl_heap C)) i g (pp_view i (cl_heap C))"
    by (simp add: view_good)
  have v: "hp_source (pp_view i (cl_heap C))" using I(2) by (simp add: pp_view_def)
  have "kingsley_malloc (guarded_source base) INTERNALHEAP_SIZE n (pp_view i (cl_heap C)) = Inr (0, h)"
    using h(1) kingsley_source_cong[of "internal_source base" "pp_view i (cl_heap C)" "guarded_source base"] v
    by (simp add: guarded_source_def)
  from ih.malloc_allocates[OF G size assms(5) this] have none: "ks_current (hp_king h) = 0" by (simp add: no_chunk_def)
  have src: "hp_source h" using kingsley_source_kept[OF _ h(1)] v by (auto simp: internal_source_def)
  have view: "pp_view i P = h" by (simp add: h(2) pp_view_def pp_put_def)
  have z: "zoneMalloc (internal_source base) INTERNALHEAP_SIZE x h = Inr (0, h)" for x
    using none src by (simp add: zoneMalloc_def slowMalloc_def retire_arena_def internal_source_def Let_def)
  have b: "bigheap_malloc (internal_source base) INTERNALHEAP_SIZE x h = Inr (0, h)" for x
    by (simp add: bigheap_malloc_def new_source_malloc_def z)
  have "ks_bins (hp_king h) (size2Class sz) = 0" if "sz \<le> maxObjectSize"
    using assms(8) that view by (auto simp: pp_view_def h(2) pp_put_def)
  then have "kingsley_malloc (internal_source base) INTERNALHEAP_SIZE k h = Inr (0, h)"
    using b by (simp add: kingsley_malloc_def ansi_malloc_def assms(7)[symmetric] strict_malloc_def adapt_malloc_def sl_get_def Let_def)
  then show ?thesis using i view by (simp add: pp_malloc_def h(2) pp_put_def)
qed

text \<open>The mapping at \<open>0x70000000\<close>: a request of 32 megabytes fails, and so does the next one of 8 bytes, with 30 megabytes left.\<close>

lemmas internal_eval = internal_start_def internal_source_def INTERNALHEAP_SIZE_def

lemma sample_mapping: "0 \<notin> region 0x70000000 internal_mapping"
  by (simp add: region_def internal_mapping_def INTERNALHEAP_SIZE_def PageSize_def)

theorem internal_heap_serves_witness:
  "\<exists>C. internal_run 0x70000000 [Malloc 0 80, Write 0x70000051 7] (\<lambda>a. 0) = Inr C \<and>
    region 0x70000050 80 \<inter> region 0x70000030 8 = {} \<and> pp_mem (cl_heap C) 0x70000051 = 7"
proof -
  obtain C where C: "internal_run 0x70000000 [Malloc 0 80, Write 0x70000051 7] (\<lambda>a. 0) = Inr C"
    "cl_live C = [(0x70000050, 80), (0x70000030, 8)]" "cl_bytes C 0x70000051 = Some 7"
    by (simp add: heap_eval internal_eval)
  note T = internal_heap_serves[OF sample_mapping C(1), unfolded C(2)]
  have "region 0x70000050 80 \<inter> region 0x70000030 8 = {}" using T by auto
  moreover have "pp_mem (cl_heap C) 0x70000051 = 7" using T C(3) by blast
  ultimately show ?thesis using C(1) by blast
qed

theorem internal_heap_ends_witness:
  "\<exists>C P. internal_run 0x70000000 [] (\<lambda>a. 0) = Inr C \<and> sizeRemaining 0x70000000 (pp_view 0 (cl_heap C)) = 31457248 \<and>
    pp_malloc (internal_source 0x70000000) INTERNALHEAP_SIZE 0 0x2000000 (cl_heap C) = Inr (0, P) \<and>
    pp_malloc (internal_source 0x70000000) INTERNALHEAP_SIZE 0 8 P = Inr (0, P)"
proof -
  obtain C P where C: "internal_run 0x70000000 [] (\<lambda>a. 0) = Inr C" "sizeRemaining 0x70000000 (pp_view 0 (cl_heap C)) = 31457248"
    "pp_malloc (internal_source 0x70000000) INTERNALHEAP_SIZE 0 0x2000000 (cl_heap C) = Inr (0, P)" "ks_bins (pp_heap P 0) 1 = 0"
    by (simp add: heap_eval internal_eval)
  have "pp_malloc (internal_source 0x70000000) INTERNALHEAP_SIZE 0 8 P = Inr (0, P)"
    by (rule internal_heap_ends[OF sample_mapping C(1) _ _ _ C(3) refl])
      (use C(4) in \<open>simp_all add: NUM_HEAPS_def ansi_align_def size2Class_def cl_def\<close>)
  with C show ?thesis by blast
qed

end
