(* ===== verification/Sync_Entries.thy ===== *)
theory Sync_Entries
  imports Heap_Faults Determ_Reach
begin

text \<open>
  Where the entries of locks, condition variables and barriers come from (\<open>determ.h\<close>): the internal heap, of which they are the
  only clients. With it, what the model of \<open>Determ\<close> takes as given of a new entry is a theorem.
\<close>

subsection \<open>Entries in memory\<close>

text \<open>
  The classes on x86-64, where \<open>pthread_cond_t\<close> has 48 bytes and \<open>pthread_barrier_t\<close> 32. A lock: the flag at 4, the waiters at 8,
  the queue at 16, the condition variable at 24. A condition variable: the waiters at 8, the user's variable at 16, the condition
  variable at 24, the queue at 72. A barrier: the number of threads at 8, those that wait at 16, the phase at 24, the barrier at 32,
  the queue at 64, versions at 72 and 76, the counter at 80, the next versions at 82 and 84, the dirty pages at 88, the commits at 96.
\<close>

definition LOCK_ENTRY_SIZE :: u64 where "LOCK_ENTRY_SIZE = 24 + 48"
definition COND_ENTRY_SIZE :: u64 where "COND_ENTRY_SIZE = 24 + 48 + 8"
definition BARRIER_ENTRY_SIZE :: u64 where "BARRIER_ENTRY_SIZE = 32 + 32 + 40"

definition lock_at :: "bytes \<Rightarrow> u64 \<Rightarrow> LockEntry" where
  "lock_at m p = \<lparr>lk_acquired = (m (p + 4) \<noteq> 0), lk_waiters = load64 m (p + 8), lk_head = unat (load64 m (p + 16))\<rparr>"

definition upd_mem :: "(bytes \<Rightarrow> bytes) \<Rightarrow> 's heap \<Rightarrow> 's heap" where
  "upd_mem f h = h\<lparr>hp_mem := f (hp_mem h)\<rparr>"

text \<open>The C library's functions that initialise its objects in place.\<close>

record pthread_lib =
  pt_cond_init :: "u64 \<Rightarrow> bytes \<Rightarrow> bytes"
  pt_barrier_init :: "u64 \<Rightarrow> int \<Rightarrow> bytes \<Rightarrow> bytes"

text \<open>The heap, the first word of each of the user's objects, and the entries in use with their sizes.\<close>

record entries =
  en_heap :: "bool heap"
  en_var :: "u64 \<Rightarrow> u64"
  en_live :: "(u64 \<times> u64) list"

subsection \<open>Allocation and release\<close>

definition allocSyncEntry :: "u64 \<Rightarrow> u64 \<Rightarrow> entries \<Rightarrow> (u64 \<times> entries) result" where
  "allocSyncEntry base sz S =
     bindR (internal_malloc base sz (en_heap S)) (\<lambda>(p, h).
       Inr (p, S\<lparr>en_heap := h, en_live := (if p = 0 then en_live S else (p, sz) # en_live S)\<rparr>))"

definition freeSyncEntry :: "u64 \<Rightarrow> entries \<Rightarrow> entries result" where
  "freeSyncEntry p S =
     (if p \<noteq> 0
      then bindR (internal_free p (en_heap S)) (\<lambda>h.
        Inr (S\<lparr>en_heap := h, en_live := filter (\<lambda>x. fst x \<noteq> p) (en_live S)\<rparr>))
      else Inr S)"

definition allocLockEntry :: "u64 \<Rightarrow> entries \<Rightarrow> (u64 \<times> entries) result" where
  "allocLockEntry base = allocSyncEntry base LOCK_ENTRY_SIZE"

definition allocCondEntry :: "u64 \<Rightarrow> entries \<Rightarrow> (u64 \<times> entries) result" where
  "allocCondEntry base = allocSyncEntry base COND_ENTRY_SIZE"

definition allocBarrierEntry :: "u64 \<Rightarrow> entries \<Rightarrow> (u64 \<times> entries) result" where
  "allocBarrierEntry base = allocSyncEntry base BARRIER_ENTRY_SIZE"

definition getSyncEntry :: "u64 \<Rightarrow> entries \<Rightarrow> u64" where
  "getSyncEntry v S = en_var S v"

definition setSyncEntry :: "u64 \<Rightarrow> u64 \<Rightarrow> entries \<Rightarrow> entries" where
  "setSyncEntry v p S = S\<lparr>en_var := (en_var S)(v := p)\<rparr>"

text \<open>The shared copy is not written: \<open>mem_write\<close> is given the null pointer as address.\<close>

definition clearSyncEntry :: "u64 \<Rightarrow> entries \<Rightarrow> entries" where
  "clearSyncEntry v = setSyncEntry v 0"

definition on_bytes :: "(bytes \<Rightarrow> bytes) \<Rightarrow> entries \<Rightarrow> entries" where
  "on_bytes f S = S\<lparr>en_heap := upd_mem f (en_heap S)\<rparr>"

definition lock_init_entry :: "u64 \<Rightarrow> pthread_lib \<Rightarrow> u64 \<Rightarrow> entries \<Rightarrow> (u64 \<times> entries) result" where
  "lock_init_entry base L mutex S =
     bindR (allocLockEntry base S) (\<lambda>(p, S1).
       if p = 0 then Inl NullDeref
       else
         (let S2 = setSyncEntry mutex p (on_bytes (\<lambda>m. m(p + 4 := 0)) S1)
          in Inr (p, on_bytes (pt_cond_init L (p + 24)) (on_bytes (store64 (p + 16) 0) S2))))"

definition cond_init_entry :: "u64 \<Rightarrow> pthread_lib \<Rightarrow> u64 \<Rightarrow> entries \<Rightarrow> (u64 \<times> entries) result" where
  "cond_init_entry base L cond S =
     bindR (allocCondEntry base S) (\<lambda>(p, S1).
       if p = 0 then Inl NullDeref
       else
         (let S2 = on_bytes (store64 (p + 16) cond) (on_bytes (store64 (p + 72) 0) (on_bytes (store64 (p + 8) 0) S1))
          in Inr (p, on_bytes (pt_cond_init L (p + 24)) (setSyncEntry cond p S2))))"

definition barrier_init_entry :: "u64 \<Rightarrow> pthread_lib \<Rightarrow> u64 \<Rightarrow> int \<Rightarrow> entries \<Rightarrow> (u64 \<times> entries) result" where
  "barrier_init_entry base L bar count S =
     bindR (allocBarrierEntry base S) (\<lambda>(p, S1).
       if p = 0 then Inl NullDeref
       else
         (let S2 = on_bytes (store64 (p + 16) 0) (on_bytes (store64 (p + 8) (word_of_int count)) S1);
              S3 = on_bytes (store64 (p + 64) 0) (on_bytes (\<lambda>m. m(p + 24 := 1)) S2);
              S4 = on_bytes (memset (p + 84) 0 2) (on_bytes (memset (p + 82) 0 2) (on_bytes (memset (p + 80) 0 2) S3));
              S5 = on_bytes (memset (p + 88) 0 4) (on_bytes (store64 (p + 96) 0) S4)
          in Inr (p, setSyncEntry bar p (on_bytes (pt_barrier_init L (p + 32) count) S5))))"

definition lock_destroy_entry :: "u64 \<Rightarrow> entries \<Rightarrow> entries result" where
  "lock_destroy_entry mutex S = freeSyncEntry (getSyncEntry mutex S) (clearSyncEntry mutex S)"

subsection \<open>Runs\<close>

text \<open>
  The calls of the thread library: entries are made, locks are destroyed, and the fields of entries are written. A lock may be
  destroyed when nobody waits for it.
\<close>

datatype entry_call = InitLock u64 | InitCond u64 | InitBarrier u64 int | DestroyLock u64 | SetByte u64 u8

definition entry_ok :: "entry_call \<Rightarrow> entries \<Rightarrow> bool" where
  "entry_ok call S = (case call of
      DestroyLock v \<Rightarrow> getSyncEntry v S = 0 \<or> getSyncEntry v S \<in> fst ` set (en_live S) \<and>
        lk_waiters (lock_at (hp_mem (en_heap S)) (getSyncEntry v S)) = 0
    | SetByte a b \<Rightarrow> list_ex (within a) (en_live S)
    | _ \<Rightarrow> True)"

definition entry_exec :: "u64 \<Rightarrow> pthread_lib \<Rightarrow> entry_call \<Rightarrow> entries \<Rightarrow> entries result" where
  "entry_exec base L call S =
     (if \<not> entry_ok call S then Inl AssertFailed
      else case call of
        InitLock v \<Rightarrow> bindR (lock_init_entry base L v S) (\<lambda>(p, S'). Inr S')
      | InitCond v \<Rightarrow> bindR (cond_init_entry base L v S) (\<lambda>(p, S'). Inr S')
      | InitBarrier v count \<Rightarrow> bindR (barrier_init_entry base L v count S) (\<lambda>(p, S'). Inr S')
      | DestroyLock v \<Rightarrow> lock_destroy_entry v S
      | SetByte a b \<Rightarrow> Inr (on_bytes (\<lambda>m. m(a := b)) S))"

fun entry_run :: "u64 \<Rightarrow> pthread_lib \<Rightarrow> entry_call list \<Rightarrow> entries \<Rightarrow> entries result" where
  "entry_run base L [] S = Inr S"
| "entry_run base L (c # cs) S = bindR (entry_exec base L c S) (entry_run base L cs)"

definition entries_start :: "bool heap \<Rightarrow> entries" where
  "entries_start h = \<lparr>en_heap = h, en_var = \<lambda>v. 0, en_live = []\<rparr>"

definition pthread_lib_ok :: "pthread_lib \<Rightarrow> bool" where
  "pthread_lib_ok L \<longleftrightarrow>
     (\<forall>a m x. x \<notin> region a 48 \<longrightarrow> pt_cond_init L a m x = m x) \<and>
     (\<forall>a n m x. x \<notin> region a 32 \<longrightarrow> pt_barrier_init L a n m x = m x)"

end
