(* ===== verification/Entry_Pool.thy ===== *)
theory Entry_Pool
  imports Sync_Entries
begin

text \<open>
  The internal heap, seen from the entries of synchronisation objects, is a pool of equal slots behind the arena: the next entry is
  the slot freed last, or a new one as long as there are any.
\<close>

subsection \<open>Addresses as offsets\<close>

text \<open>Offsets into the mapping are natural numbers, so that arithmetic on them does not wrap.\<close>

lemma region_off:
  assumes "c + unat n \<le> 2 ^ 64"
  shows "a \<in> region (base + of_nat c) n \<longleftrightarrow> c \<le> unat (a - base) \<and> unat (a - base) < c + unat n"
proof (cases "unat n = 0")
  case False
  define x where "x = a - base"
  have c: "unat (of_nat c :: u64) = c" using assms False by (simp add: unat_of_nat)
  have d: "a - (base + of_nat c) = x - of_nat c" by (simp add: x_def)
  show ?thesis
  proof (cases "c \<le> unat x")
    case True
    then have "unat (x - of_nat c) = unat x - c" using c by (simp add: unat_sub word_le_nat_alt)
    then show ?thesis using True unfolding region_iff d by (auto simp: x_def)
  next
    case False
    then have "x < of_nat c" using c by (simp add: word_less_nat_alt)
    then have "unat (x - of_nat c) = unat x + 2 ^ 64 - c" using c False by (simp add: unat_sub_if_size word_size word_le_nat_alt)
    then show ?thesis using False assms unfolding region_iff d by (auto simp: x_def)
  qed
qed (simp add: region_iff)

lemma store_off:
  "c + 8 \<le> 2 ^ 64 \<Longrightarrow> \<not> (c \<le> unat (a - base) \<and> unat (a - base) < c + 8) \<Longrightarrow> store64 (base + of_nat c) v m a = m a"
  by (rule store_other) (simp add: region_off)

lemma load_off:
  assumes "c + 8 \<le> 2 ^ 64" "\<And>a. c \<le> unat (a - base) \<Longrightarrow> unat (a - base) < c + 8 \<Longrightarrow> m' a = m a"
  shows "load64 m' (base + of_nat c) = load64 m (base + of_nat c)"
  using assms by (intro load64_cong) (auto simp: region_off)

lemma load_store_off:
  assumes "c + 8 \<le> 2 ^ 64" "d + 8 \<le> 2 ^ 64" "c + 8 \<le> d \<or> d + 8 \<le> c"
  shows "load64 (store64 (base + of_nat c) v m) (base + of_nat d) = load64 m (base + of_nat d)"
  using assms by (intro load_off store_off) auto

lemma load_zero: "load64 (\<lambda>a. 0) p = 0"
proof -
  have "foldr (\<lambda>i w. w) (xs :: nat list) (0 :: u64) = 0" for xs by (induction xs) simp_all
  then show ?thesis by (simp add: load64_def)
qed

subsection \<open>The pool\<close>

definition POOL_SLOTS :: nat where "POOL_SLOTS = 218453"

definition slot :: "u64 \<Rightarrow> nat \<Rightarrow> u64" where
  "slot base k = base + of_nat (80 + 144 * k)"

text \<open>\<open>n\<close> slots were cut off the arena; \<open>fs\<close> are free, \<open>ls\<close> are in use.\<close>

definition slots_inv :: "u64 \<Rightarrow> nat \<Rightarrow> nat list \<Rightarrow> nat list \<Rightarrow> bool heap \<Rightarrow> bool" where
  "slots_inv base n fs ls h \<longleftrightarrow>
     hp_source h \<and> ks_current (hp_king h) = base \<and> n \<le> POOL_SLOTS \<and>
     load64 (hp_mem h) (base + of_nat 0) = of_nat (31457248 - 144 * n) \<and>
     load64 (hp_mem h) (base + of_nat 16) = base + of_nat (64 + 144 * n) \<and>
     chain (hp_mem h) (ks_bins (hp_king h) 4) (map (slot base) fs) \<and>
     distinct (fs @ ls) \<and> set (fs @ ls) = {..<n} \<and>
     (\<forall>k < n. load64 (hp_mem h) (base + of_nat (64 + 144 * k)) = OBJECT_MAGIC \<and>
        load64 (hp_mem h) (base + of_nat (72 + 144 * k)) = 128) \<and>
     (\<forall>k \<in> set fs. load64 (hp_mem h) (base + of_nat (88 + 144 * k)) = 0) \<and>
     (\<forall>a. 64 + 144 * n \<le> unat (a - base) \<and> unat (a - base) < 31457312 \<longrightarrow> hp_mem h a = 0)"

lemma slots_apart:
  assumes "j \<noteq> (k :: nat)" shows "144 * j + 144 \<le> 144 * k \<or> 144 * k + 144 \<le> 144 * j"
  using assms by linarith

text \<open>Writes to entries in use.\<close>

lemma pool_write:
  assumes inv: "slots_inv base n fs ls h" and k: "k \<in> set ls"
    and same: "\<And>a. \<not> (80 + 144 * k \<le> unat (a - base) \<and> unat (a - base) < 208 + 144 * k) \<Longrightarrow> f (hp_mem h) a = hp_mem h a"
  shows "slots_inv base n fs ls (upd_mem f h)"
proof -
  have n: "n \<le> 218453" "k < n" "k \<notin> set fs" using inv k by (auto simp: slots_inv_def POOL_SLOTS_def)
  have ld: "load64 (f (hp_mem h)) (base + of_nat c) = load64 (hp_mem h) (base + of_nat c)"
    if "c + 8 \<le> 80 + 144 * k \<or> 208 + 144 * k \<le> c" "c < 40000000" for c
    using that by (intro load_off same) auto
  have "chain (f (hp_mem h)) e (map (slot base) fs) = chain (hp_mem h) e (map (slot base) fs)" for e
  proof (rule chain_cong)
    fix p a assume "p \<in> set (map (slot base) fs)" and a: "a \<in> region p 8"
    then obtain j where j: "j \<in> set fs" "p = base + of_nat (80 + 144 * j)" by (auto simp: slot_def)
    have "j \<noteq> k" "j < n" using j n inv by (auto simp: slots_inv_def)
    then show "f (hp_mem h) a = hp_mem h a"
      using a n slots_apart[of j k] unfolding j(2) by (subst (asm) region_off) (auto intro!: same)
  qed
  moreover have "load64 (f (hp_mem h)) (base + of_nat (64 + 144 * j)) = load64 (hp_mem h) (base + of_nat (64 + 144 * j))"
    "load64 (f (hp_mem h)) (base + of_nat (72 + 144 * j)) = load64 (hp_mem h) (base + of_nat (72 + 144 * j))" if "j < n" for j
    using that n slots_apart[of j k] by (cases "j = k"; intro ld; auto)+
  moreover have "load64 (f (hp_mem h)) (base + of_nat (88 + 144 * j)) = load64 (hp_mem h) (base + of_nat (88 + 144 * j))"
    if "j \<in> set fs" for j
  proof -
    have "j \<noteq> k" "j < n" using that n inv by (auto simp: slots_inv_def)
    then show ?thesis using n slots_apart[of j k] by (intro ld) auto
  qed
  moreover have "f (hp_mem h) a = hp_mem h a" if "64 + 144 * n \<le> unat (a - base)" for a
    using that n(2) by (intro same) auto
  moreover note ld[of 0] ld[of 16]
  ultimately show ?thesis using inv by (auto simp: slots_inv_def upd_mem_def)
qed

subsection \<open>Allocation\<close>

lemma entry_class:
  assumes "sz \<in> {LOCK_ENTRY_SIZE, COND_ENTRY_SIZE, BARRIER_ENTRY_SIZE}"
  shows "internal_malloc base sz h =
    (if ks_bins (hp_king h) 4 = 0 then bigheap_malloc (internal_source base) INTERNALHEAP_SIZE 128 h
     else Inr (ks_bins (hp_king h) 4, upd_king (\<lambda>k. k\<lparr>ks_bins := (ks_bins k)(4 := read64 h (ks_bins (hp_king h) 4))\<rparr>) h))"
  using assms
  by (auto simp: LOCK_ENTRY_SIZE_def COND_ENTRY_SIZE_def BARRIER_ENTRY_SIZE_def internal_malloc_def kingsley_malloc_def
      ansi_malloc_def ansi_align_def strict_malloc_def maxObjectSize_31 size2Class_def cl_def class2Size_def adapt_malloc_def
      sl_get_def Let_def)

lemma arena_cut:
  assumes "ks_current (hp_king h) = a" "a \<noteq> 0" "load64 (hp_mem h) a = r" "load64 (hp_mem h) (a + 16) = sp" "144 \<le> r"
  shows "zoneMalloc src chunk 144 h = Inr (sp, h\<lparr>hp_mem := store64 (a + 16) (sp + 144) (store64 a (r - 144) (hp_mem h))\<rparr>)"
  using assms
  by (simp add: zoneMalloc_def zone_align_def arena_malloc_def Let_def heap_parts arena_space_def arena_remaining_def
      sizeRemaining_def load_store_other words_apart_sym not_less[symmetric])

lemma pool_reuse:
  assumes inv: "slots_inv base n (k # fs) ls h" and sz: "sz \<in> {LOCK_ENTRY_SIZE, COND_ENTRY_SIZE, BARRIER_ENTRY_SIZE}"
  shows "\<exists>h'. internal_malloc base sz h = Inr (slot base k, h') \<and> slots_inv base n fs (k # ls) h' \<and> hp_mem h' = hp_mem h"
proof -
  have c: "ks_bins (hp_king h) 4 = slot base k" "slot base k \<noteq> 0" using inv by (simp_all add: slots_inv_def)
  let ?h = "upd_king (\<lambda>q. q\<lparr>ks_bins := (ks_bins q)(4 := read64 h (slot base k))\<rparr>) h"
  have "slots_inv base n fs (k # ls) ?h" using inv c by (auto simp: slots_inv_def upd_king_def read64_def)
  then show ?thesis unfolding entry_class[OF sz] c(1) using c(2) by (auto simp: upd_king_def)
qed

lemma pool_new:
  assumes inv: "slots_inv base n [] ls h" and n: "n < POOL_SLOTS" and base: "0 \<notin> region base internal_mapping"
    and sz: "sz \<in> {LOCK_ENTRY_SIZE, COND_ENTRY_SIZE, BARRIER_ENTRY_SIZE}"
  shows "\<exists>h'. internal_malloc base sz h = Inr (slot base n, h') \<and> slots_inv base (Suc n) [] (n # ls) h' \<and>
    load64 (hp_mem h') (base + of_nat (88 + 144 * n)) = 0"
proof -
  have n': "n < 218453" using n by (simp add: POOL_SLOTS_def)
  let ?sp = "base + of_nat (64 + 144 * n)" and ?m = "hp_mem h"
  have F: "ks_bins (hp_king h) 4 = 0" "ks_current (hp_king h) = base" "load64 ?m base = of_nat (31457248 - 144 * n)"
    "load64 ?m (base + 16) = ?sp" "base \<noteq> 0" "hp_source h"
    using inv base by (auto simp: slots_inv_def region_iff internal_mapping_def INTERNALHEAP_SIZE_def PageSize_def)
  have rem: "unat (of_nat (31457248 - 144 * n) :: u64) = 31457248 - 144 * n"
    unfolding unat_of_nat by (rule mod_less) simp
  let ?m1 = "store64 (base + 16) (?sp + 144) (store64 base (of_nat (31457248 - 144 * n) - 144) ?m)"
  have arena: "zoneMalloc (internal_source base) INTERNALHEAP_SIZE 144 h = Inr (?sp, h\<lparr>hp_mem := ?m1\<rparr>)"
  proof (rule arena_cut[OF F(2,5,3,4)])
    show "144 \<le> (of_nat (31457248 - 144 * n) :: u64)" unfolding word_le_nat_alt rem using n' by simp
  qed
  have sp0: "?sp \<noteq> 0" "slot base n \<noteq> 0"
  proof -
    have "unat (0 - base) \<ge> 31461376"
      using base by (simp add: region_iff internal_mapping_def INTERNALHEAP_SIZE_def PageSize_def)
    moreover have "unat (base + of_nat c - base) = c" if "c < 2 ^ 64" for c using that by (simp add: unat_of_nat)
    from this[of "64 + 144 * n"] this[of "80 + 144 * n"] n'
    have "unat (?sp - base) < 31461376" "unat (slot base n - base) < 31461376" by (simp_all add: slot_def)
    ultimately show "?sp \<noteq> 0" "slot base n \<noteq> 0" by (metis not_le)+
  qed
  let ?m2 = "store64 ?sp OBJECT_MAGIC (store64 (?sp + 8) 128 ?m1)" and ?h = "h\<lparr>hp_mem := store64 ?sp OBJECT_MAGIC (store64 (?sp + 8) 128 ?m1)\<rparr>"
  have sp16: "?sp + 16 = slot base n" by (simp add: slot_def)
  have alloc: "internal_malloc base sz h = Inr (slot base n, ?h)"
    unfolding entry_class[OF sz] bigheap_malloc_def new_source_malloc_def HEADER_SIZE_def getPointer_def
    using F(1) arena sp0 sp16 by (simp add: heap_parts)
  have off0: "a \<in> region base 32 \<longleftrightarrow> unat (a - base) < 32" for a using region_off[of 0 32 a base] by simp
  have off16: "a \<in> region ?sp 16 \<longleftrightarrow> 64 + 144 * n \<le> unat (a - base) \<and> unat (a - base) < 80 + 144 * n" for a
    using n' by (subst region_off) auto
  have "region base 32 \<inter> region ?sp 16 = {}" using off0 off16 by auto
  note C = carve_mem[OF refl this, where x = OBJECT_MAGIC and k = 128 and v = "?sp + 144"
      and r = "of_nat (31457248 - 144 * n) - 144" and m = ?m]
  have out: "?m2 a = ?m a" if "\<not> unat (a - base) < 32" "\<not> (64 + 144 * n \<le> unat (a - base) \<and> unat (a - base) < 80 + 144 * n)" for a
    by (rule C(5)) (use that off0 off16 in simp)
  have ld: "load64 ?m2 (base + of_nat c) = load64 ?m (base + of_nat c)"
    if "32 \<le> c" "c + 8 \<le> 64 + 144 * n \<or> 80 + 144 * n \<le> c" "c < 40000000" for c
    using that by (intro load_off out) auto
  have next_word: "of_nat (31457248 - 144 * n) - 144 = (of_nat (31457248 - 144 * Suc n) :: u64)" "?sp + 144 = base + of_nat (64 + 144 * Suc n)"
    "?sp + 8 = base + of_nat (72 + 144 * n)"
    using n' by (simp_all add: of_nat_diff)
  have at0: "load64 ?m2 (base + of_nat 0) = of_nat (31457248 - 144 * Suc n)"
    "load64 ?m2 (base + of_nat 16) = base + of_nat (64 + 144 * Suc n)"
    "load64 ?m2 (base + of_nat (64 + 144 * n)) = OBJECT_MAGIC" "load64 ?m2 (base + of_nat (72 + 144 * n)) = 128"
    using C(1-4) unfolding next_word by simp_all
  have zero: "?m2 a = 0" if "64 + 144 * Suc n \<le> unat (a - base)" "unat (a - base) < 31457312" for a
    using inv that by (subst out) (auto simp: slots_inv_def)
  have "?m a = 0" if "88 + 144 * n \<le> unat (a - base)" "unat (a - base) < 88 + 144 * n + 8" for a
    using inv that n' by (auto simp: slots_inv_def)
  then have "load64 ?m (base + of_nat (88 + 144 * n)) = load64 (\<lambda>a. 0) (base + of_nat (88 + 144 * n))"
    using n' by (intro load_off) auto
  then have "load64 ?m2 (base + of_nat (88 + 144 * n)) = load64 (\<lambda>a. 0) (base + of_nat (88 + 144 * n))"
    using n' by (subst ld) simp_all
  also have "\<dots> = 0" by (rule load_zero)
  finally have w: "load64 ?m2 (base + of_nat (88 + 144 * n)) = 0" .
  have "slots_inv base (Suc n) [] (n # ls) ?h"
    unfolding slots_inv_def
  proof (intro conjI allI impI ballI)
    fix k assume k: "k < Suc n"
    show "load64 (hp_mem ?h) (base + of_nat (64 + 144 * k)) = OBJECT_MAGIC" "load64 (hp_mem ?h) (base + of_nat (72 + 144 * k)) = 128"
    proof -
      have "load64 ?m2 (base + of_nat (64 + 144 * k)) = OBJECT_MAGIC \<and> load64 ?m2 (base + of_nat (72 + 144 * k)) = 128"
      proof (cases "k = n")
        case False
        then have "k < n" using k by simp
        then show ?thesis using inv n' by (subst ld; (subst ld)?) (auto simp: slots_inv_def)
      qed (use at0 in blast)
      then show "load64 (hp_mem ?h) (base + of_nat (64 + 144 * k)) = OBJECT_MAGIC" "load64 (hp_mem ?h) (base + of_nat (72 + 144 * k)) = 128"
        by simp_all
    qed
  qed (use inv n F at0 zero in \<open>auto simp: slots_inv_def\<close>)
  with alloc w show ?thesis by (intro exI[of _ ?h]) simp
qed

lemma pool_empty:
  assumes inv: "slots_inv base POOL_SLOTS [] ls h" and base: "base \<noteq> 0"
    and sz: "sz \<in> {LOCK_ENTRY_SIZE, COND_ENTRY_SIZE, BARRIER_ENTRY_SIZE}"
  shows "\<exists>h'. internal_malloc base sz h = Inr (0, h')"
proof -
  have F: "ks_bins (hp_king h) 4 = 0" "ks_current (hp_king h) = base" "load64 (hp_mem h) base = 16" "hp_source h"
    using inv by (auto simp: slots_inv_def POOL_SLOTS_def)
  have "\<exists>h'. zoneMalloc (internal_source base) INTERNALHEAP_SIZE 144 h = Inr (0, h')"
    using F base by (simp add: zoneMalloc_def zone_align_def sizeRemaining_def read64_def arena_remaining_def slowMalloc_def Let_def
        retire_arena_def internal_source_def heap_parts)
  then show ?thesis
    unfolding entry_class[OF sz] bigheap_malloc_def new_source_malloc_def HEADER_SIZE_def using F(1) by auto
qed

text \<open>Release.\<close>

lemma pool_free:
  assumes inv: "slots_inv base n fs ls h" and k: "k \<in> set ls" and w: "load64 (hp_mem h) (base + of_nat (88 + 144 * k)) = 0"
    and nz: "slot base k \<noteq> 0"
  shows "\<exists>h'. internal_free (slot base k) h = Inr h' \<and> slots_inv base n (k # fs) (filter (\<lambda>j. j \<noteq> k) ls) h' \<and>
    (\<forall>a. \<not> (80 + 144 * k \<le> unat (a - base) \<and> unat (a - base) < 88 + 144 * k) \<longrightarrow> hp_mem h' a = hp_mem h a)"
proof -
  let ?p = "slot base k" and ?m = "hp_mem h"
  have n: "n \<le> 218453" "k < n" "k \<notin> set fs" "distinct ls" using inv k by (auto simp: slots_inv_def POOL_SLOTS_def)
  have hd: "load64 ?m (?p - 16) = OBJECT_MAGIC" "load64 ?m (?p - 8) = 128"
  proof -
    have "?p - 16 = base + of_nat (64 + 144 * k)" "?p - 8 = base + of_nat (72 + 144 * k)" by (simp_all add: slot_def)
    then show "load64 ?m (?p - 16) = OBJECT_MAGIC" "load64 ?m (?p - 8) = 128" using inv n(2) by (simp_all only: slots_inv_def)
  qed
  have size: "new_source_getSize ?p h = Inr 128"
  proof -
    have "?p - 16 + 8 = ?p - 8" by simp
    then show ?thesis
      using hd by (simp add: new_source_getSize_def getObject_def HEADER_SIZE_def header_at_def read64_def object_getSize_def)
  qed
  have cls: "size2Class 128 = 4" "class_down 4 128 = Inr 4"
    using class_of_class[of 4] by (simp_all add: NUMBINS_def class2Size_def)
  let ?f = "store64 ?p (ks_bins (hp_king h) 4)"
  let ?h = "upd_king (\<lambda>q. q\<lparr>ks_held := ks_held q + 128\<rparr>) (adapt_free 4 ?p h)"
  have free: "internal_free ?p h = Inr ?h"
    using size nz cls by (simp add: internal_free_def ansi_free_def strict_free_def maxObjectSize_31 NUMBINS_def)
  have mem: "hp_mem ?h = ?f ?m" and king: "ks_bins (hp_king ?h) 4 = ?p" "ks_current (hp_king ?h) = ks_current (hp_king h)"
    and src: "hp_source ?h = hp_source h"
    by (simp_all add: adapt_free_def sl_insert_def heap_parts)
  have out: "?f ?m a = ?m a" if "\<not> (80 + 144 * k \<le> unat (a - base) \<and> unat (a - base) < 88 + 144 * k)" for a
    unfolding slot_def using that n(1,2) by (intro store_off) auto
  have W: "slots_inv base n fs ls (upd_mem ?f h)" by (rule pool_write[OF inv k], rule out) auto
  then have W': "chain (?f ?m) (ks_bins (hp_king h) 4) (map (slot base) fs)" by (simp add: slots_inv_def upd_mem_def)
  have "load64 (?f ?m) (base + of_nat (88 + 144 * k)) = load64 ?m (base + of_nat (88 + 144 * k))"
    using n(1,2) by (intro load_off out) auto
  then have "slots_inv base n (k # fs) (filter (\<lambda>j. j \<noteq> k) ls) ?h"
    using W W' n k nz w by (auto simp: slots_inv_def upd_mem_def mem king src)
  then show ?thesis using free mem out by auto
qed

subsection \<open>Entries\<close>

definition entry_inv :: "u64 \<Rightarrow> nat \<Rightarrow> nat list \<Rightarrow> nat list \<Rightarrow> entries \<Rightarrow> bool" where
  "entry_inv base n fs ls S \<longleftrightarrow> slots_inv base n fs ls (en_heap S) \<and> map fst (en_live S) = map (slot base) ls \<and>
     (\<forall>(p, sz) \<in> set (en_live S). unat sz \<le> 104)"

lemma pool_counts:
  assumes "slots_inv base n fs ls h"
  shows "length fs + length ls = n" "n \<le> 218453" "k \<in> set ls \<Longrightarrow> k < 218453"
proof -
  have "length (fs @ ls) = card {..<n}" using assms distinct_card[of "fs @ ls"] by (simp add: slots_inv_def)
  then show "length fs + length ls = n" by simp
  show "n \<le> 218453" "k \<in> set ls \<Longrightarrow> k < 218453" using assms by (auto simp: slots_inv_def POOL_SLOTS_def)
qed

lemma slot_off: "k < 218453 \<Longrightarrow> unat (slot base k - base) = 80 + 144 * k"
  unfolding slot_def add_diff_cancel_left' by (rule of_nat_inverse) simp_all

lemma slot_eq: "j < 218453 \<Longrightarrow> k < 218453 \<Longrightarrow> slot base j = slot base k \<longleftrightarrow> j = k"
proof -
  assume "j < 218453" "k < 218453"
  then have "slot base j = slot base k \<Longrightarrow> 80 + 144 * j = 80 + 144 * k" using slot_off by metis
  then show ?thesis by auto
qed

lemma slot_region:
  assumes "k < 218453" "unat sz \<le> 128" "unat d + unat sz \<le> 128"
  shows "a \<in> region (slot base k + d) sz \<longleftrightarrow> 80 + 144 * k + unat d \<le> unat (a - base) \<and> unat (a - base) < 80 + 144 * k + unat d + unat sz"
proof -
  have "slot base k + d = base + of_nat (80 + 144 * k + unat d)" by (simp add: slot_def)
  moreover have "80 + 144 * k + unat d + unat sz \<le> 2 ^ 64" using assms by simp
  ultimately show ?thesis by (simp only: region_off)
qed

lemma slot_nonnull:
  assumes "0 \<notin> region base internal_mapping" "k < 218453" shows "slot base k \<noteq> 0"
proof
  assume "slot base k = 0"
  then have "unat (0 - base) = 80 + 144 * k" using slot_off[OF assms(2), of base] by simp
  then show False using assms by (simp add: region_iff internal_mapping_def INTERNALHEAP_SIZE_def PageSize_def)
qed

lemma entry_write:
  assumes inv: "entry_inv base n fs ls S" and k: "k \<in> set ls" and same: "\<And>m a. a \<notin> region (slot base k) 104 \<Longrightarrow> f m a = m a"
  shows "entry_inv base n fs ls (on_bytes f S)"
proof -
  have p: "slots_inv base n fs ls (en_heap S)" using inv by (simp add: entry_inv_def)
  have "slots_inv base n fs ls (upd_mem f (en_heap S))"
  proof (rule pool_write[OF p k], rule same)
    fix a assume "\<not> (80 + 144 * k \<le> unat (a - base) \<and> unat (a - base) < 208 + 144 * k)"
    then show "a \<notin> region (slot base k) 104" using slot_region[of k 104 0 a base] pool_counts(3)[OF p k] by auto
  qed
  then show ?thesis using inv by (simp add: entry_inv_def on_bytes_def)
qed

lemma entry_alloc:
  assumes inv: "entry_inv base n fs ls S" and base: "0 \<notin> region base internal_mapping"
    and sz: "sz \<in> {LOCK_ENTRY_SIZE, COND_ENTRY_SIZE, BARRIER_ENTRY_SIZE}" and room: "length (en_live S) < POOL_SLOTS"
  shows "\<exists>k n' fs' S'. allocSyncEntry base sz S = Inr (slot base k, S') \<and> entry_inv base n' fs' (k # ls) S' \<and> k \<notin> set ls \<and>
    slot base k \<noteq> 0 \<and> en_live S' = (slot base k, sz) # en_live S \<and> en_var S' = en_var S \<and>
    load64 (hp_mem (en_heap S')) (slot base k + 8) = 0"
proof -
  have p: "slots_inv base n fs ls (en_heap S)" using inv by (simp add: entry_inv_def)
  have off: "slot base k + 8 = base + of_nat (88 + 144 * k)" for k by (simp add: slot_def)
  have small: "unat sz \<le> 104" using sz by (auto simp: LOCK_ENTRY_SIZE_def COND_ENTRY_SIZE_def BARRIER_ENTRY_SIZE_def)
  have "length (map fst (en_live S)) = length ls" using inv unfolding entry_inv_def by simp
  then have l: "length ls < POOL_SLOTS" using room by simp
  have "\<exists>k n' fs' h. internal_malloc base sz (en_heap S) = Inr (slot base k, h) \<and> slots_inv base n' fs' (k # ls) h \<and> k \<notin> set ls \<and>
    load64 (hp_mem h) (slot base k + 8) = 0"
  proof (cases fs)
    case Nil
    then have "n < POOL_SLOTS" "n \<notin> set ls" using pool_counts(1)[OF p] l p by (auto simp: slots_inv_def)
    then show ?thesis using pool_new[OF p[unfolded Nil] _ base sz] off by metis
  next
    case (Cons k fs')
    have "k \<notin> set ls" "load64 (hp_mem (en_heap S)) (slot base k + 8) = 0" using p Cons unfolding off by (auto simp: slots_inv_def)
    then show ?thesis using pool_reuse[OF p[unfolded Cons] sz] by metis
  qed
  then obtain k n' fs' h where h: "internal_malloc base sz (en_heap S) = Inr (slot base k, h)" "slots_inv base n' fs' (k # ls) h"
    "k \<notin> set ls" "load64 (hp_mem h) (slot base k + 8) = 0" by blast
  have "slot base k \<noteq> 0" using slot_nonnull[OF base] pool_counts(3)[OF h(2), of k] by simp
  then show ?thesis using h inv small by (auto simp: allocSyncEntry_def entry_inv_def)
qed

lemma entry_none:
  assumes inv: "entry_inv base n fs ls S" and base: "base \<noteq> 0" and full: "length (en_live S) = POOL_SLOTS"
    and sz: "sz \<in> {LOCK_ENTRY_SIZE, COND_ENTRY_SIZE, BARRIER_ENTRY_SIZE}"
  shows "\<exists>S'. allocSyncEntry base sz S = Inr (0, S')"
proof -
  have p: "slots_inv base n fs ls (en_heap S)" using inv by (simp add: entry_inv_def)
  have "length (map fst (en_live S)) = length ls" using inv unfolding entry_inv_def by simp
  then have "fs = []" "n = POOL_SLOTS" using pool_counts(1,2)[OF p] full by (auto simp: POOL_SLOTS_def)
  then obtain h where "internal_malloc base sz (en_heap S) = Inr (0, h)" using pool_empty[OF _ base sz] p by blast
  then show ?thesis by (simp add: allocSyncEntry_def)
qed

lemma set_inv: "entry_inv base n fs ls (setSyncEntry v p S) = entry_inv base n fs ls S"
  by (simp add: entry_inv_def setSyncEntry_def)

lemma field_kept:
  assumes "k < 218453" "unat d + unat sz \<le> 104" "a \<notin> region (slot base k) 104" shows "a \<notin> region (slot base k + d) sz"
  using assms slot_region[of k sz d a base] slot_region[of k 104 0 a base] by auto

lemma fields_apart:
  assumes "k < 218453" "unat d + unat n \<le> unat e" "unat e + unat l \<le> 128"
  shows "region (slot base k + d) n \<inter> region (slot base k + e) l = {}"
  using assms by (auto simp: slot_region)

lemma init_lock:
  assumes inv: "entry_inv base n fs ls S" and base: "0 \<notin> region base internal_mapping" and L: "pthread_lib_ok L"
    and room: "length (en_live S) < POOL_SLOTS"
  shows "\<exists>k n' fs' S'. lock_init_entry base L v S = Inr (slot base k, S') \<and> entry_inv base n' fs' (k # ls) S' \<and> k \<notin> set ls \<and>
    slot base k \<noteq> 0 \<and> en_live S' = (slot base k, LOCK_ENTRY_SIZE) # en_live S \<and>
    lock_at (hp_mem (en_heap S')) (slot base k) = \<lparr>lk_acquired = False, lk_waiters = 0, lk_head = NULL\<rparr>"
proof -
  obtain k n' fs' S1 where a: "allocLockEntry base S = Inr (slot base k, S1)" "entry_inv base n' fs' (k # ls) S1" "k \<notin> set ls"
    "slot base k \<noteq> 0" "en_live S1 = (slot base k, LOCK_ENTRY_SIZE) # en_live S" "load64 (hp_mem (en_heap S1)) (slot base k + 8) = 0"
    using entry_alloc[OF inv base _ room, of LOCK_ENTRY_SIZE] by (auto simp: allocLockEntry_def)
  let ?p = "slot base k"
  have k: "k < 218453" using pool_counts(3)[of base n' fs' "k # ls" _ k] a(2) by (auto simp: entry_inv_def)
  define S' where "S' = on_bytes (pt_cond_init L (?p + 24)) (on_bytes (store64 (?p + 16) 0)
    (setSyncEntry v ?p (on_bytes (\<lambda>m. m(?p + 4 := 0)) S1)))"
  have r: "lock_init_entry base L v S = Inr (?p, S')" using a(1,4) by (simp add: lock_init_entry_def S'_def Let_def)
  have I: "entry_inv base n' fs' (k # ls) S'"
    unfolding S'_def
  proof (intro entry_write set_inv[THEN iffD2] a(2))
    fix m :: bytes and x assume x: "x \<notin> region ?p 104"
    have "?p + 4 \<in> region ?p 104" by (simp add: region_iff)
    then show "(m(?p + 4 := 0)) x = m x" using x by auto
    show "store64 (?p + 16) 0 m x = m x" by (rule store_other, rule field_kept[OF k _ x]) simp
    show "pt_cond_init L (?p + 24) m x = m x" using L field_kept[OF k _ x, of 24 48] by (simp add: pthread_lib_ok_def)
  qed simp_all
  define m where "m = hp_mem (en_heap S1)"
  have mem: "hp_mem (en_heap S') = pt_cond_init L (?p + 24) (store64 (?p + 16) 0 (m(?p + 4 := 0)))"
    by (simp add: S'_def on_bytes_def setSyncEntry_def upd_mem_def m_def)
  have out: "hp_mem (en_heap S') x = store64 (?p + 16) 0 (m(?p + 4 := 0)) x" if "x \<notin> region (?p + 24) 48" for x
    using L that unfolding mem by (simp add: pthread_lib_ok_def)
  have f: "region (?p + 8) 8 \<inter> region (?p + 24) 48 = {}" "region (?p + 16) 8 \<inter> region (?p + 24) 48 = {}"
    "region (?p + 8) 8 \<inter> region (?p + 16) 8 = {}" "?p + 4 \<notin> region (?p + 24) 48" "?p + 4 \<notin> region (?p + 16) 8" "?p + 4 \<notin> region (?p + 8) 8"
    using fields_apart[OF k, of 8 8 24 48 base] fields_apart[OF k, of 16 8 24 48 base] fields_apart[OF k, of 8 8 16 8 base]
    by (simp_all add: region_iff)
  have "load64 (hp_mem (en_heap S')) (?p + 8) = load64 m (?p + 8)"
  proof (rule load64_cong)
    fix x assume x: "x \<in> region (?p + 8) 8"
    then have "x \<notin> region (?p + 24) 48" "x \<notin> region (?p + 16) 8" "x \<noteq> ?p + 4" using f by auto
    then show "hp_mem (en_heap S') x = m x" using out store_other[of x "?p + 16" 0] by simp
  qed
  moreover have "load64 (hp_mem (en_heap S')) (?p + 16) = 0"
    using load64_cong[of "?p + 16" "hp_mem (en_heap S')" "store64 (?p + 16) 0 (m(?p + 4 := 0))"] f(2) out by auto
  moreover have "hp_mem (en_heap S') (?p + 4) = 0" using out[OF f(4)] store_other[OF f(5), of 0 "m(?p + 4 := 0)"] by simp
  ultimately have "lock_at (hp_mem (en_heap S')) ?p = \<lparr>lk_acquired = False, lk_waiters = 0, lk_head = NULL\<rparr>"
    using a(6) by (simp add: lock_at_def m_def NULL_def)
  moreover have "en_live S' = en_live S1" by (simp add: S'_def on_bytes_def setSyncEntry_def)
  ultimately show ?thesis using r I a(3-5) by metis
qed

lemma mem_live: "en_live (on_bytes f S) = en_live S" "en_live (setSyncEntry v p S) = en_live S"
  by (simp_all add: on_bytes_def setSyncEntry_def)

lemma init_cond:
  assumes inv: "entry_inv base n fs ls S" and base: "0 \<notin> region base internal_mapping" and L: "pthread_lib_ok L"
    and room: "length (en_live S) < POOL_SLOTS"
  shows "\<exists>k n' fs' S'. cond_init_entry base L v S = Inr (slot base k, S') \<and> entry_inv base n' fs' (k # ls) S'"
proof -
  obtain k n' fs' S1 where a: "allocCondEntry base S = Inr (slot base k, S1)" "entry_inv base n' fs' (k # ls) S1" "slot base k \<noteq> 0"
    using entry_alloc[OF inv base _ room, of COND_ENTRY_SIZE] by (auto simp: allocCondEntry_def)
  let ?p = "slot base k"
  have k: "k < 218453" using pool_counts(3)[of base n' fs' "k # ls" _ k] a(2) by (auto simp: entry_inv_def)
  define S' where "S' = on_bytes (pt_cond_init L (?p + 24)) (setSyncEntry v ?p
    (on_bytes (store64 (?p + 16) v) (on_bytes (store64 (?p + 72) 0) (on_bytes (store64 (?p + 8) 0) S1))))"
  have "entry_inv base n' fs' (k # ls) S'"
    unfolding S'_def
  proof (intro entry_write set_inv[THEN iffD2] a(2))
    fix m :: bytes and x assume x: "x \<notin> region ?p 104"
    show "store64 (?p + 16) v m x = m x" "store64 (?p + 72) 0 m x = m x" "store64 (?p + 8) 0 m x = m x"
      by (rule store_other, rule field_kept[OF k _ x], simp)+
    show "pt_cond_init L (?p + 24) m x = m x" using L field_kept[OF k _ x, of 24 48] by (simp add: pthread_lib_ok_def)
  qed simp_all
  moreover have "cond_init_entry base L v S = Inr (?p, S')" using a(1,3) by (simp add: cond_init_entry_def S'_def Let_def)
  ultimately show ?thesis by blast
qed

lemma init_barrier:
  assumes inv: "entry_inv base n fs ls S" and base: "0 \<notin> region base internal_mapping" and L: "pthread_lib_ok L"
    and room: "length (en_live S) < POOL_SLOTS"
  shows "\<exists>k n' fs' S'. barrier_init_entry base L v c S = Inr (slot base k, S') \<and> entry_inv base n' fs' (k # ls) S'"
proof -
  obtain k n' fs' S1 where a: "allocBarrierEntry base S = Inr (slot base k, S1)" "entry_inv base n' fs' (k # ls) S1" "slot base k \<noteq> 0"
    using entry_alloc[OF inv base _ room, of BARRIER_ENTRY_SIZE] by (auto simp: allocBarrierEntry_def)
  let ?p = "slot base k"
  have k: "k < 218453" using pool_counts(3)[of base n' fs' "k # ls" _ k] a(2) by (auto simp: entry_inv_def)
  obtain p S' where r: "barrier_init_entry base L v c S = Inr (p, S')" using a(1,3) by (simp add: barrier_init_entry_def Let_def)
  then have S': "p = ?p" "S' = setSyncEntry v ?p (on_bytes (pt_barrier_init L (?p + 32) c) (on_bytes (memset (?p + 88) 0 4)
    (on_bytes (store64 (?p + 96) 0) (on_bytes (memset (?p + 84) 0 2) (on_bytes (memset (?p + 82) 0 2) (on_bytes (memset (?p + 80) 0 2)
    (on_bytes (store64 (?p + 64) 0) (on_bytes (\<lambda>m. m(?p + 24 := 1)) (on_bytes (store64 (?p + 16) 0)
    (on_bytes (store64 (?p + 8) (word_of_int c)) S1))))))))))"
    using a(1,3) by (auto simp: barrier_init_entry_def Let_def)
  have "entry_inv base n' fs' (k # ls) S'"
    unfolding S'(2)
  proof (intro set_inv[THEN iffD2] entry_write a(2))
    fix m :: bytes and x assume x: "x \<notin> region ?p 104"
    show "store64 (?p + 8) (word_of_int c) m x = m x" "store64 (?p + 16) 0 m x = m x" "store64 (?p + 64) 0 m x = m x"
      "store64 (?p + 96) 0 m x = m x"
      by (rule store_other, rule field_kept[OF k _ x], simp)+
    show "memset (?p + 80) 0 2 m x = m x" "memset (?p + 82) 0 2 m x = m x" "memset (?p + 84) 0 2 m x = m x"
      "memset (?p + 88) 0 4 m x = m x"
      by (rule memset_other, rule field_kept[OF k _ x], simp)+
    have "?p + 24 \<in> region ?p 104" by (simp add: region_iff)
    then show "(m(?p + 24 := 1)) x = m x" using x by auto
    show "pt_barrier_init L (?p + 32) c m x = m x" using L field_kept[OF k _ x, of 32 32] by (simp add: pthread_lib_ok_def)
  qed simp_all
  then show ?thesis using r S'(1) by blast
qed

lemma destroy_entry:
  assumes inv: "entry_inv base n fs ls S" and base: "0 \<notin> region base internal_mapping" and p: "p \<in> fst ` set (en_live S)"
    and w: "lk_waiters (lock_at (hp_mem (en_heap S)) p) = 0"
  shows "\<exists>fs' ls' S'. freeSyncEntry p S = Inr S' \<and> entry_inv base n fs' ls' S'"
proof -
  have i: "slots_inv base n fs ls (en_heap S)" "map fst (en_live S) = map (slot base) ls" using inv by (auto simp: entry_inv_def)
  from p have "p \<in> set (map fst (en_live S))" by simp
  then obtain k where k: "p = slot base k" "k \<in> set ls" unfolding i(2) by auto
  have "load64 (hp_mem (en_heap S)) (base + of_nat (88 + 144 * k)) = 0" using w by (simp add: lock_at_def k(1) slot_def add.assoc)
  moreover have nz: "slot base k \<noteq> 0" by (rule slot_nonnull[OF base pool_counts(3)[OF i(1) k(2)]])
  ultimately obtain h where h: "internal_free (slot base k) (en_heap S) = Inr h"
    "slots_inv base n (k # fs) (filter (\<lambda>j. j \<noteq> k) ls) h" using pool_free[OF i(1) k(2)] by blast
  have "map fst (filter (\<lambda>x. fst x \<noteq> p) (en_live S)) = filter (\<lambda>q. q \<noteq> p) (map fst (en_live S))" by (simp add: filter_map o_def)
  also have "\<dots> = map (slot base) (filter (\<lambda>j. slot base j \<noteq> p) ls)" unfolding i(2) by (simp add: filter_map o_def)
  also have "filter (\<lambda>j. slot base j \<noteq> p) ls = filter (\<lambda>j. j \<noteq> k) ls"
    using k slot_eq pool_counts(3)[OF i(1)] by (intro filter_cong) auto
  finally have "entry_inv base n (k # fs) (filter (\<lambda>j. j \<noteq> k) ls) (S\<lparr>en_heap := h, en_live := filter (\<lambda>x. fst x \<noteq> p) (en_live S)\<rparr>)"
    using h(2) inv by (simp add: entry_inv_def)
  then show ?thesis using h(1) nz k(1) by (auto simp: freeSyncEntry_def)
qed

lemma byte_entry:
  assumes inv: "entry_inv base n fs ls S" and a: "list_ex (within a) (en_live S)"
  shows "entry_inv base n fs ls (on_bytes (\<lambda>m. m(a := b)) S)"
proof -
  have i: "slots_inv base n fs ls (en_heap S)" "map fst (en_live S) = map (slot base) ls" using inv by (auto simp: entry_inv_def)
  obtain p sz where ps: "(p, sz) \<in> set (en_live S)" "a \<in> region p sz" using a by (auto simp: list_ex_iff within_region)
  then have "p \<in> set (map fst (en_live S))" by force
  then obtain k where k: "p = slot base k" "k \<in> set ls" unfolding i(2) by auto
  have "unat sz \<le> 104" using inv ps(1) by (auto simp: entry_inv_def)
  then have "a \<in> region (slot base k) 104" using ps(2) region_prefix[of sz 104 p] k(1) by auto
  then show ?thesis by (intro entry_write[OF inv k(2)]) auto
qed

text \<open>The calls that make an entry.\<close>

fun makes_entry :: "entry_call \<Rightarrow> bool" where
  "makes_entry (InitLock v) = True"
| "makes_entry (InitCond v) = True"
| "makes_entry (InitBarrier v c) = True"
| "makes_entry call = False"

lemma entry_step:
  assumes inv: "entry_inv base n fs ls S" and base: "0 \<notin> region base internal_mapping" and L: "pthread_lib_ok L"
    and ok: "entry_ok call S" and room: "makes_entry call \<Longrightarrow> length (en_live S) < POOL_SLOTS"
  shows "\<exists>n' fs' ls' S'. entry_exec base L call S = Inr S' \<and> entry_inv base n' fs' ls' S'"
proof (cases call)
  case (InitLock v)
  then have "length (en_live S) < POOL_SLOTS" using room by simp
  from init_lock[OF inv base L this, of v] show ?thesis using InitLock ok by (auto simp: entry_exec_def) blast
next
  case (InitCond v)
  then have "length (en_live S) < POOL_SLOTS" using room by simp
  from init_cond[OF inv base L this, of v] show ?thesis using InitCond ok by (auto simp: entry_exec_def) blast
next
  case (InitBarrier v c)
  then have "length (en_live S) < POOL_SLOTS" using room by simp
  from init_barrier[OF inv base L this, of v c] show ?thesis using InitBarrier ok by (auto simp: entry_exec_def) blast
next
  case (SetByte a b)
  then show ?thesis using byte_entry[OF inv, of a b] ok by (auto simp: entry_exec_def entry_ok_def)
next
  case (DestroyLock v)
  let ?S = "clearSyncEntry v S" and ?p = "getSyncEntry v S"
  have S: "entry_inv base n fs ls ?S" "en_live ?S = en_live S" "en_heap ?S = en_heap S"
    using inv by (simp_all add: clearSyncEntry_def set_inv mem_live) (simp add: setSyncEntry_def)
  have "\<exists>fs' ls' S'. freeSyncEntry ?p ?S = Inr S' \<and> entry_inv base n fs' ls' S'"
  proof (cases "?p = 0")
    case True
    then show ?thesis using S(1) by (auto simp: freeSyncEntry_def)
  next
    case False
    then have "?p \<in> fst ` set (en_live ?S)" "lk_waiters (lock_at (hp_mem (en_heap ?S)) ?p) = 0"
      using ok DestroyLock S by (simp_all add: entry_ok_def)
    from destroy_entry[OF S(1) base this] show ?thesis .
  qed
  then show ?thesis using DestroyLock ok by (auto simp: entry_exec_def lock_destroy_entry_def)
qed

lemma entry_full:
  assumes inv: "entry_inv base n fs ls S" and base: "base \<noteq> 0" and full: "length (en_live S) = POOL_SLOTS" and m: "makes_entry call"
  shows "entry_exec base L call S = Inl NullDeref"
proof -
  note N = entry_none[OF inv base full]
  show ?thesis
    using m N[of LOCK_ENTRY_SIZE] N[of COND_ENTRY_SIZE] N[of BARRIER_ENTRY_SIZE]
    by (cases call) (auto simp: entry_exec_def entry_ok_def lock_init_entry_def cond_init_entry_def barrier_init_entry_def
        allocLockEntry_def allocCondEntry_def allocBarrierEntry_def)
qed

lemma live_bound:
  assumes "entry_inv base n fs ls S" shows "length (en_live S) \<le> POOL_SLOTS"
proof -
  have i: "slots_inv base n fs ls (en_heap S)" "length (map fst (en_live S)) = length ls" using assms by (auto simp: entry_inv_def)
  then show ?thesis using pool_counts(1,2)[OF i(1)] by (simp add: POOL_SLOTS_def)
qed

lemma entry_run_inv:
  assumes "entry_inv base n fs ls S" "0 \<notin> region base internal_mapping" "pthread_lib_ok L" "entry_run base L calls S = Inr S'"
  shows "\<exists>n' fs' ls'. entry_inv base n' fs' ls' S'"
  using assms(1,4)
proof (induction calls arbitrary: n fs ls S)
  case (Cons c cs)
  obtain S1 where 1: "entry_exec base L c S = Inr S1" "entry_run base L cs S1 = Inr S'" using Cons.prems(2) by (auto simp: bindR_Inr_iff)
  have base0: "base \<noteq> 0" using assms(2) by (auto simp: region_iff internal_mapping_def INTERNALHEAP_SIZE_def PageSize_def)
  have "makes_entry c \<Longrightarrow> length (en_live S) \<noteq> POOL_SLOTS" using entry_full[OF Cons.prems(1) base0] 1(1) by auto
  then have "makes_entry c \<Longrightarrow> length (en_live S) < POOL_SLOTS" using live_bound[OF Cons.prems(1)] by simp
  moreover have "entry_ok c S" using 1(1) by (auto simp: entry_exec_def split: if_splits)
  ultimately obtain n' fs' ls' where "entry_inv base n' fs' ls' S1"
    using entry_step[OF Cons.prems(1) assms(2,3)] 1(1) by fastforce
  then show ?case using Cons.IH 1(2) by blast
qed auto

text \<open>Entries in use do not overlap, and lie in the mapping.\<close>

lemma live_distinct:
  assumes "entry_inv base n fs ls S" shows "distinct (map fst (en_live S))"
proof -
  have i: "slots_inv base n fs ls (en_heap S)" "map fst (en_live S) = map (slot base) ls" using assms by (auto simp: entry_inv_def)
  have "inj_on (slot base) (set ls)" using slot_eq pool_counts(3)[OF i(1)] by (intro inj_onI) blast
  moreover have "distinct ls" using i(1) by (simp add: slots_inv_def)
  ultimately show ?thesis unfolding i(2) by (simp add: distinct_map)
qed

lemma live_region:
  assumes inv: "entry_inv base n fs ls S"
  shows "\<forall>(p, l) \<in> set (en_live S). region p l \<subseteq> region base internal_mapping"
    and "x \<in> set (en_live S) \<Longrightarrow> y \<in> set (en_live S) \<Longrightarrow> x \<noteq> y \<Longrightarrow> region (fst x) (snd x) \<inter> region (fst y) (snd y) = {}"
proof -
  have i: "slots_inv base n fs ls (en_heap S)" "map fst (en_live S) = map (slot base) ls" using inv by (auto simp: entry_inv_def)
  have at: "\<exists>k. fst x = slot base k \<and> k < 218453 \<and>
      (\<forall>a \<in> region (fst x) (snd x). 80 + 144 * k \<le> unat (a - base) \<and> unat (a - base) < 184 + 144 * k)"
    if x: "x \<in> set (en_live S)" for x
  proof -
    have "fst x \<in> set (map fst (en_live S))" using x by simp
    then obtain k where k: "fst x = slot base k" "k \<in> set ls" unfolding i(2) by auto
    have "unat (snd x) \<le> 104" using inv x by (auto simp: entry_inv_def)
    then have "a \<in> region (slot base k) 104" if "a \<in> region (fst x) (snd x)" for a
      using that region_prefix[of "snd x" 104 "fst x"] k(1) by auto
    then show ?thesis using slot_region[of k 104 0 _ base] pool_counts(3)[OF i(1) k(2)] k(1) by (intro exI[of _ k]) auto
  qed
  show "\<forall>(p, l) \<in> set (en_live S). region p l \<subseteq> region base internal_mapping"
  proof clarify
    fix p l a assume "(p, l) \<in> set (en_live S)" "a \<in> region p l"
    then have "unat (a - base) < 31461376" using at[of "(p, l)"] by fastforce
    then show "a \<in> region base internal_mapping" by (simp add: region_iff internal_mapping_def INTERNALHEAP_SIZE_def PageSize_def)
  qed
  show "region (fst x) (snd x) \<inter> region (fst y) (snd y) = {}"
    if xy: "x \<in> set (en_live S)" "y \<in> set (en_live S)" "x \<noteq> y"
  proof -
    obtain j k where j: "fst x = slot base j" "\<forall>a \<in> region (fst x) (snd x). 80 + 144 * j \<le> unat (a - base) \<and> unat (a - base) < 184 + 144 * j"
      and k: "fst y = slot base k" "\<forall>a \<in> region (fst y) (snd y). 80 + 144 * k \<le> unat (a - base) \<and> unat (a - base) < 184 + 144 * k"
      using at[OF xy(1)] at[OF xy(2)] by blast
    have "fst x \<noteq> fst y" using live_distinct[OF inv] xy by (meson distinct_map inj_onD)
    then have "j \<noteq> k" using j(1) k(1) by auto
    then have False if "a \<in> region (fst x) (snd x)" "a \<in> region (fst y) (snd y)" for a
      using j(2)[rule_format, OF that(1)] k(2)[rule_format, OF that(2)] slots_apart[of j k] by linarith
    then show ?thesis by blast
  qed
qed

end
