(* ===== verification/Entry_Theorems.thy ===== *)
theory Entry_Theorems
  imports Entry_Pool
begin

text \<open>
  The entries of synchronisation objects over the internal heap: what a new entry holds, how many there are, and that no two overlap.
\<close>

lemma fresh_unat:
  assumes "p \<noteq> 0" "p \<notin> A" "lk_waiters e = 0" shows "fresh_lock (unat (p :: u64), e) (unat ` A)"
proof -
  have "unat p \<noteq> 0" using assms(1) by (simp add: unat_eq_zero)
  moreover have "unat p \<notin> unat ` A"
  proof
    assume "unat p \<in> unat ` A"
    then obtain q where "q \<in> A" "unat p = unat q" by blast
    then show False using assms(2) by (simp add: word_unat_eq_iff[symmetric])
  qed
  ultimately show ?thesis using assms(3) by (simp add: fresh_lock_def NULL_def)
qed

lemma pool_start:
  assumes base: "0 \<notin> region base internal_mapping" and zero: "\<forall>a \<in> region base internal_mapping. m a = 0"
    and init: "internal_initialize base m = Inr h"
  shows "slots_inv base 0 [] [] h"
proof -
  have nz: "base \<noteq> 0" "base + 32 \<noteq> 0"
  proof -
    have "unat (0 - base) \<ge> 31461376"
      using base by (simp add: region_iff internal_mapping_def INTERNALHEAP_SIZE_def PageSize_def)
    then show "base \<noteq> 0" "base + 32 \<noteq> 0" by (auto simp flip: eq_neg_iff_add_eq_0)
  qed
  have h: "hp_source h" "hp_king h = kingsley_new\<lparr>ks_current := base\<rparr>"
    "hp_mem h = store64 (base + 32) OBJECT_MAGIC (store64 (40 + base) 16 (store64 (base + 16) (64 + base) (store64 base 31457248
      (store64 (base + 16) (base + 32) (store64 (base + 8) 0 (store64 base 31457280 m))))))"
    using init nz
    by (auto simp: internal_initialize_def internal_malloc_def kingsley_malloc_def ansi_malloc_def ansi_align_def strict_malloc_def
        maxObjectSize_31 size2Class_def cl_def class2Size_def adapt_malloc_def sl_get_def Let_def kingsley_new_def bigheap_malloc_def
        new_source_malloc_def HEADER_SIZE_def getPointer_def zoneMalloc_def zone_align_def slowMalloc_def retire_arena_def
        internal_source_def INTERNALHEAP_SIZE_def ARENA_SIZE_def arena_new_def arena_malloc_def heap_parts arena_space_def
        arena_next_def arena_remaining_def sizeRemaining_def load_store_away)
  have "hp_mem h a = 0" if "64 \<le> unat (a - base)" "unat (a - base) < 31457312" for a
  proof -
    have "store64 (base + of_nat c) v x a = x a" if "c \<in> {0, 8, 16, 32, 40}" for c v x
      using that \<open>64 \<le> unat (a - base)\<close> by (intro store_off) auto
    from this[of 0] this[of 8] this[of 16] this[of 32] this[of 40, unfolded add.commute[of base "of_nat 40"]] have "hp_mem h a = m a" unfolding h(3) by simp
    then show ?thesis using zero that by (simp add: region_iff internal_mapping_def INTERNALHEAP_SIZE_def PageSize_def)
  qed
  then show ?thesis
    using h(1,2) unfolding slots_inv_def h(3) by (simp add: kingsley_new_def load_store_away)
qed

text \<open>
  C35. The entries of locks, condition variables and barriers, over the internal heap that was mapped and initialised, after any
  calls that make entries, write to their fields, and destroy locks for which nobody waits: the entries in use lie in the mapping
  and do not overlap; there are at most 218453 of them; a call that makes another one beyond that follows a null pointer, and every
  other call succeeds; and a new lock is free and has no waiters and an empty queue, although \<open>lock_init\<close> does not
  set the number of waiters and the memory may be that of another lock. So it is a fresh lock as the synchronisation
  calls require it.
\<close>

theorem sync_entries_pool:
  assumes "0 \<notin> region base internal_mapping" and "\<forall>a \<in> region base internal_mapping. m a = 0" and "pthread_lib_ok L"
    and "internal_initialize base m = Inr h" and "entry_run base L calls (entries_start h) = Inr S"
  shows "(\<forall>(p, n) \<in> set (en_live S). region p n \<subseteq> region base internal_mapping) \<and>
    (\<forall>x \<in> set (en_live S). \<forall>y \<in> set (en_live S). x \<noteq> y \<longrightarrow> region (fst x) (snd x) \<inter> region (fst y) (snd y) = {}) \<and>
    length (en_live S) \<le> POOL_SLOTS \<and>
    (\<forall>call. entry_ok call S \<longrightarrow>
      (if makes_entry call \<and> length (en_live S) = POOL_SLOTS then entry_exec base L call S = Inl NullDeref
       else \<exists>S'. entry_exec base L call S = Inr S')) \<and>
    (\<forall>mutex. length (en_live S) < POOL_SLOTS \<longrightarrow> (\<exists>p S'. lock_init_entry base L mutex S = Inr (p, S') \<and>
      (\<forall>(q, n) \<in> set (en_live S). region p LOCK_ENTRY_SIZE \<inter> region q n = {}) \<and>
      lock_at (hp_mem (en_heap S')) p = \<lparr>lk_acquired = False, lk_waiters = 0, lk_head = NULL\<rparr> \<and>
      fresh_lock (unat p, lock_at (hp_mem (en_heap S')) p) (unat ` fst ` set (en_live S))))"
proof -
  have "entry_inv base 0 [] [] (entries_start h)"
    using pool_start[OF assms(1,2,4)] by (simp add: entry_inv_def entries_start_def)
  from entry_run_inv[OF this assms(1,3,5)] obtain n fs ls where I: "entry_inv base n fs ls S" by blast
  have base0: "base \<noteq> 0" using assms(1) by (auto simp: region_iff internal_mapping_def INTERNALHEAP_SIZE_def PageSize_def)
  note B = live_bound[OF I] and R = live_region[OF I]
  have new: "\<exists>p S'. lock_init_entry base L mutex S = Inr (p, S') \<and> (\<forall>(q, n) \<in> set (en_live S). region p LOCK_ENTRY_SIZE \<inter> region q n = {}) \<and>
      lock_at (hp_mem (en_heap S')) p = \<lparr>lk_acquired = False, lk_waiters = 0, lk_head = NULL\<rparr> \<and>
      fresh_lock (unat p, lock_at (hp_mem (en_heap S')) p) (unat ` fst ` set (en_live S))"
    if room: "length (en_live S) < POOL_SLOTS" for mutex
  proof -
    obtain k n' fs' S' where k: "lock_init_entry base L mutex S = Inr (slot base k, S')" "entry_inv base n' fs' (k # ls) S'"
      "slot base k \<noteq> 0" "en_live S' = (slot base k, LOCK_ENTRY_SIZE) # en_live S"
      "lock_at (hp_mem (en_heap S')) (slot base k) = \<lparr>lk_acquired = False, lk_waiters = 0, lk_head = NULL\<rparr>"
      using init_lock[OF I assms(1,3) room, of mutex] by blast
    have "slot base k \<notin> fst ` set (en_live S)" using live_distinct[OF k(2)] unfolding k(4) by simp
    then have "fresh_lock (unat (slot base k), lock_at (hp_mem (en_heap S')) (slot base k)) (unat ` fst ` set (en_live S))"
      using k(3,5) by (intro fresh_unat) simp_all
    moreover have "region (slot base k) LOCK_ENTRY_SIZE \<inter> region q l = {}" if "(q, l) \<in> set (en_live S)" for q l
    proof -
      have "(slot base k, LOCK_ENTRY_SIZE) \<noteq> (q, l)" using that \<open>slot base k \<notin> fst ` set (en_live S)\<close> by force
      then show ?thesis using live_region(2)[OF k(2), of "(slot base k, LOCK_ENTRY_SIZE)" "(q, l)"] that unfolding k(4) by simp
    qed
    ultimately show ?thesis using k(1,5) by blast
  qed
  have exec: "if makes_entry call \<and> length (en_live S) = POOL_SLOTS then entry_exec base L call S = Inl NullDeref
       else \<exists>S'. entry_exec base L call S = Inr S'" if ok: "entry_ok call S" for call
  proof (cases "makes_entry call \<and> length (en_live S) = POOL_SLOTS")
    case True
    then show ?thesis using entry_full[OF I base0] by simp
  next
    case False
    then have "makes_entry call \<Longrightarrow> length (en_live S) < POOL_SLOTS" using B by simp
    from entry_step[OF I assms(1,3) ok this] obtain S' where "entry_exec base L call S = Inr S'" by blast
    then show ?thesis unfolding if_not_P[OF False] by blast
  qed
  have apart: "\<forall>x \<in> set (en_live S). \<forall>y \<in> set (en_live S). x \<noteq> y \<longrightarrow> region (fst x) (snd x) \<inter> region (fst y) (snd y) = {}"
    by (intro ballI impI R(2))
  show ?thesis by (rule conjI[OF R(1)], rule conjI[OF apart], rule conjI[OF B]) (intro conjI allI impI exec new, assumption+)
qed

text \<open>The second lock gets the memory of the first, which was destroyed after it had been used.\<close>

definition sample_pthread :: pthread_lib where
  "sample_pthread = \<lparr>pt_cond_init = \<lambda>a m. m(a := 1), pt_barrier_init = \<lambda>a n m. m(a := 1)\<rparr>"

definition sample_entry_calls :: "entry_call list" where
  "sample_entry_calls = [InitLock 10, InitCond 11, SetByte 0x7000006E 1, DestroyLock 10]"

lemma sample_pthread_ok: "pthread_lib_ok sample_pthread"
  by (auto simp: pthread_lib_ok_def sample_pthread_def region_def)

lemmas entry_eval = entry_exec_def entry_ok_def lock_init_entry_def cond_init_entry_def lock_destroy_entry_def allocLockEntry_def
  allocCondEntry_def allocSyncEntry_def freeSyncEntry_def getSyncEntry_def setSyncEntry_def clearSyncEntry_def on_bytes_def upd_mem_def
  lock_at_def LOCK_ENTRY_SIZE_def COND_ENTRY_SIZE_def internal_malloc_def internal_free_def internal_initialize_def internal_source_def
  INTERNALHEAP_SIZE_def entries_start_def kingsley_new_def within_def

theorem sync_entries_pool_witness:
  "\<exists>h S p S'. internal_initialize 0x70000000 (\<lambda>a. 0) = Inr h \<and>
    entry_run 0x70000000 sample_pthread sample_entry_calls (entries_start h) = Inr S \<and> en_live S = [(0x700000E0, 80)] \<and>
    hp_mem (en_heap S) 0x7000006E = 1 \<and>
    lock_init_entry 0x70000000 sample_pthread 12 S = Inr (p, S') \<and>
    lock_at (hp_mem (en_heap S')) p = \<lparr>lk_acquired = False, lk_waiters = 0, lk_head = NULL\<rparr>"
proof -
  obtain h where h: "internal_initialize 0x70000000 (\<lambda>a. 0) = Inr h"
    "\<exists>S. entry_run 0x70000000 sample_pthread sample_entry_calls (entries_start h) = Inr S \<and> en_live S = [(0x700000E0, 80)] \<and>
      hp_mem (en_heap S) 0x7000006E = 1"
    by (simp add: sample_entry_calls_def sample_pthread_def entry_eval heap_eval store_away load_zero)
  then obtain S where S: "entry_run 0x70000000 sample_pthread sample_entry_calls (entries_start h) = Inr S" "en_live S = [(0x700000E0, 80)]"
    "hp_mem (en_heap S) 0x7000006E = 1" by blast
  have "length (en_live S) < POOL_SLOTS" by (simp add: S(2) POOL_SLOTS_def)
  then have "\<exists>p S'. lock_init_entry 0x70000000 sample_pthread 12 S = Inr (p, S') \<and>
      lock_at (hp_mem (en_heap S')) p = \<lparr>lk_acquired = False, lk_waiters = 0, lk_head = NULL\<rparr>"
    using sync_entries_pool[OF sample_mapping _ sample_pthread_ok h(1) S(1)] by blast
  then show ?thesis using h(1) S by blast
qed

end
