(* ===== verification/Clock_Setup.thy ===== *)
theory Clock_Setup
  imports Determ_Clock Clock_Faults
begin

text \<open>
  Setting up the clocks of a process: the shared memory of \<open>determ_clock.c\<close>, the performance counter of \<open>perf_counter.c\<close>, and what the
  library lets its caller read. The system calls are parameters.
\<close>

subsection \<open>The system\<close>

text \<open>The fields of \<open>perf_event_attr\<close> that are set; the others are 0.\<close>

record perf_attr =
  pa_raw :: bool
  pa_config :: u64
  pa_disabled :: bool
  pa_exclude_kernel :: bool
  pa_exclude_hv :: bool
  pa_sample_period :: u32
  pa_task_clock :: bool

record 'w clock_os =
  co_mkstemp :: "'w \<Rightarrow> int \<times> string \<times> 'w"
  co_open :: "string \<Rightarrow> 'w \<Rightarrow> int \<times> 'w"
  co_ftruncate :: "int \<Rightarrow> u64 \<Rightarrow> 'w \<Rightarrow> 'w"
  co_mmap :: "int \<Rightarrow> u64 \<Rightarrow> 'w \<Rightarrow> u64 \<times> 'w"
  co_mlock :: "u64 \<Rightarrow> u64 \<Rightarrow> 'w \<Rightarrow> 'w"
  co_task_clock :: "u64 \<Rightarrow> u64 \<Rightarrow> u64 \<Rightarrow> 'w \<Rightarrow> 'w"
  co_perf_event_open :: "perf_attr \<Rightarrow> int \<Rightarrow> 'w \<Rightarrow> int \<times> 'w"
  co_getpid :: int

definition mmap_failed :: u64 where "mmap_failed = - 1"

subsection \<open>State\<close>

record perf_counter_info =
  pci_pid :: int
  pci_fd :: int
  pci_ring_buffer :: u64
  pci_ring_buffer_current :: u64

text \<open>\<open>determ_clock_info\<close>, but for the statuses, which the kernel interface has.\<close>

record determ_clock_info =
  di_leader :: "perf_counter_info option"
  di_id_counter :: u64
  di_clock_file_name :: string
  di_event_debugging :: "nat \<Rightarrow> u64"
  di_event_tick_debugging :: "nat \<Rightarrow> u64"

record 'w clock_process =
  cp_lib :: "'w clock_lib"
  cp_clock_info :: u64
  cp_shared :: determ_clock_info
  cp_user_status :: u64
  cp_perf_counter :: perf_counter_info

definition DETERM_EVENT_DEBUGGING_SIZE :: nat where "DETERM_EVENT_DEBUGGING_SIZE = 100000"
definition DETERM_CLOCK_SAMPLE_PERIOD :: u32 where "DETERM_CLOCK_SAMPLE_PERIOD = 5000"

definition clock_info_size :: u64 where
  "clock_info_size = of_nat (user_status_offset + DETERM_CLOCK_MAX_THREADS * user_status_size + 2 * 8 * DETERM_EVENT_DEBUGGING_SIZE)"

definition in_world :: "('w \<Rightarrow> 'w) \<Rightarrow> 'w clock_process \<Rightarrow> 'w clock_process" where
  "in_world f S = S\<lparr>cp_lib := (cp_lib S)\<lparr>cl_world := f (cl_world (cp_lib S))\<rparr>\<rparr>"

subsection \<open>Shared memory\<close>

definition create_shared_mem :: "'w clock_os \<Rightarrow> 'w \<Rightarrow> (u64 \<times> string \<times> 'w) result" where
  "create_shared_mem Q w =
     (let (fd, file_name, w1) = co_mkstemp Q w in
      if fd = -1 then Inl ExitCalled
      else
        (let (mem, w2) = co_mmap Q fd clock_info_size (co_ftruncate Q fd clock_info_size w1) in
         if mem = 0 then Inl ExitCalled
         else Inr (mem, file_name, co_mlock Q mem clock_info_size w2)))"

definition open_shared_mem :: "'w clock_os \<Rightarrow> string \<Rightarrow> 'w \<Rightarrow> (u64 \<times> 'w) result" where
  "open_shared_mem Q clock_file_name w =
     (let (fd, w1) = co_open Q clock_file_name w in
      if fd = -1 then Inl ExitCalled
      else
        (let (mem, w2) = co_mmap Q fd clock_info_size w1 in
         if mem = 0 then Inl ExitCalled
         else Inr (mem, co_mlock Q mem clock_info_size w2)))"

definition make_clock_sys_call :: "'w clock_os \<Rightarrow> u64 \<Rightarrow> u64 \<Rightarrow> u64 \<Rightarrow> 'w \<Rightarrow> 'w" where
  "make_clock_sys_call Q address tid fd = co_task_clock Q fd address tid"

subsection \<open>The performance counter\<close>

definition PERF_PAGE_SIZE :: u64 where "PERF_PAGE_SIZE = 4096"

definition perf_event_open :: "'w clock_os \<Rightarrow> perf_attr \<Rightarrow> int \<Rightarrow> 'w \<Rightarrow> int \<times> 'w" where
  "perf_event_open Q hw_event group_fd = co_perf_event_open Q hw_event group_fd"

definition perf_counter_init ::
  "'w clock_os \<Rightarrow> u32 \<Rightarrow> int \<Rightarrow> 'w \<Rightarrow> (perf_counter_info \<times> 'w) result" where
  "perf_counter_init Q sample_period group_fd w =
     (let pe = \<lparr>pa_raw = True, pa_config = 0xC0, pa_disabled = True, pa_exclude_kernel = True, pa_exclude_hv = True,
            pa_sample_period = sample_period, pa_task_clock = True\<rparr>;
          (fd, w1) = perf_event_open Q pe group_fd w in
      if fd = -1 then Inl ExitCalled
      else
        (let (ring_buffer, w2) = co_mmap Q fd (PERF_PAGE_SIZE + PERF_PAGE_SIZE * 64) w1 in
         if ring_buffer = mmap_failed then Inl ExitCalled
         else Inr (\<lparr>pci_pid = co_getpid Q, pci_fd = fd, pci_ring_buffer = ring_buffer,
                     pci_ring_buffer_current = ring_buffer + PERF_PAGE_SIZE\<rparr>, w2)))"

subsection \<open>Initialising a clock\<close>

definition init_counter :: "'w clock_os \<Rightarrow> u64 \<Rightarrow> int \<Rightarrow> int \<Rightarrow> 'w \<Rightarrow> (perf_counter_info \<times> 'w) result" where
  "init_counter Q user_status fd tid w =
     perf_counter_init Q DETERM_CLOCK_SAMPLE_PERIOD (if tid = 0 then -1 else fd)
       (make_clock_sys_call Q user_status (word_of_int tid) 0 w)"

definition clock_init_with_id ::
  "'w clock_os \<Rightarrow> 'w kernel_if \<Rightarrow> int \<Rightarrow> 'w clock_process \<Rightarrow> 'w clock_process result" where
  "clock_init_with_id Q K tid S =
     bindR (if tid \<noteq> 0 then open_shared_mem Q (di_clock_file_name (cp_shared S)) (cl_world (cp_lib S))
            else Inr (cp_clock_info S, cl_world (cp_lib S))) (\<lambda>(info, w).
     let user_status = info + of_nat user_status_offset + of_nat user_status_size * word_of_int tid;
         s1 = (cp_lib S)\<lparr>cl_tid := tid, cl_world := w\<rparr>;
         s2 = upd_status K (\<lambda>_. \<lparr>us_lowest_clock = False, us_ticks = 0, us_notifying_clock = 0,
                us_notifying_id = 0, us_notifying_sample = 0, us_notifying_diff = 0,
                us_single_active_thread = False, us_activated_lowest = False,
                us_scaling_whole = 0, us_scaling_fraction = 0, us_hwc_idx = 0,
                us_period_sets = 0, us_hit_bounded_fence = False\<rparr>) s1;
         s3 = s2\<lparr>cl_disabled := False, cl_last_clock_value := 0, cl_last_raw_perf := 0,
                cl_coarsened_ticks_counter := 0, cl_in_coarsened_tx := False, cl_estimator := tx_estimate_init\<rparr> in
     bindR (init_counter Q user_status (pci_fd (cp_perf_counter S)) tid (cl_world s3)) (\<lambda>(pci, w').
     Inr (S\<lparr>cp_lib := determ_task_set_scaling_factor K 1 0 (s3\<lparr>cl_world := w', cl_started := False\<rparr>),
            cp_clock_info := info, cp_user_status := user_status, cp_perf_counter := pci\<rparr>)))"

definition clock_init :: "'w clock_os \<Rightarrow> 'w kernel_if \<Rightarrow> 'w clock_process \<Rightarrow> 'w clock_process result" where
  "clock_init Q K S =
     (let n = di_id_counter (cp_shared S) in
      clock_init_with_id Q K (uint (ucast n :: u32)) (S\<lparr>cp_shared := (cp_shared S)\<lparr>di_id_counter := n + 1\<rparr>\<rparr>))"

text \<open>The constructor of the library; the new file is zero.\<close>

definition determ_clock_init :: "'w clock_os \<Rightarrow> 'w kernel_if \<Rightarrow> 'w clock_process \<Rightarrow> 'w clock_process result" where
  "determ_clock_init Q K S =
     bindR (create_shared_mem Q (cl_world (cp_lib S))) (\<lambda>(info, file_name, w).
     let sh = \<lparr>di_leader = None, di_id_counter = 0, di_clock_file_name = file_name, di_event_debugging = \<lambda>_. 0,
            di_event_tick_debugging = \<lambda>_. 0\<rparr> in
     bindR (clock_init Q K (S\<lparr>cp_lib := (cp_lib S)\<lparr>cl_world := w\<rparr>, cp_clock_info := info, cp_shared := sh\<rparr>)) (\<lambda>S'.
     Inr (S'\<lparr>cp_shared := (cp_shared S')\<lparr>di_leader := Some (cp_perf_counter S')\<rparr>\<rparr>)))"

subsection \<open>What the caller can read\<close>

definition determ_task_clock_get_info :: "'w clock_process \<Rightarrow> 'w clock_lib" where
  "determ_task_clock_get_info S = cp_lib S"

definition determ_task_get_id :: "'w clock_lib \<Rightarrow> int" where "determ_task_get_id s = cl_tid s"

definition determ_task_clock_last_raw_perf :: "'w clock_lib \<Rightarrow> u64" where
  "determ_task_clock_last_raw_perf s = cl_last_raw_perf s"

definition determ_task_clock_current_raw_perf :: "'w clock_lib \<Rightarrow> u64" where
  "determ_task_clock_current_raw_perf s = cl_current_raw_perf s"

definition determ_task_clock_period_sets :: "'w kernel_if \<Rightarrow> 'w clock_lib \<Rightarrow> u64" where
  "determ_task_clock_period_sets K s = us_period_sets (my_status K s)"

definition determ_task_clock_get_coarsened_ticks :: "'w clock_lib \<Rightarrow> u64" where
  "determ_task_clock_get_coarsened_ticks s = cl_coarsened_ticks_counter s"

definition determ_task_clock_in_coarsened_tx :: "'w clock_lib \<Rightarrow> bool" where
  "determ_task_clock_in_coarsened_tx s = cl_in_coarsened_tx s"

definition determ_debug_notifying_clock_read :: "'w kernel_if \<Rightarrow> 'w clock_lib \<Rightarrow> u64" where
  "determ_debug_notifying_clock_read K s = us_notifying_clock (my_status K s)"

text \<open>The other three are returned as an \<open>int\<close>.\<close>

definition determ_debug_notifying_id_read :: "'w kernel_if \<Rightarrow> 'w clock_lib \<Rightarrow> int" where
  "determ_debug_notifying_id_read K s = sint (ucast (us_notifying_id (my_status K s)) :: u32)"

definition determ_debug_notifying_sample_read :: "'w kernel_if \<Rightarrow> 'w clock_lib \<Rightarrow> int" where
  "determ_debug_notifying_sample_read K s = sint (ucast (us_notifying_sample (my_status K s)) :: u32)"

definition determ_debug_notifying_diff_read :: "'w kernel_if \<Rightarrow> 'w clock_lib \<Rightarrow> int" where
  "determ_debug_notifying_diff_read K s = sint (ucast (us_notifying_diff (my_status K s)) :: u32)"

subsection \<open>The clock that is set up\<close>

text \<open>
  Initialising a clock is, from the mapping of the shared memory on, what the model of \<open>Determ_Clock\<close> has; the status that the kernel
  is told of is the thread's slot in the mapping, and the counter of every thread but the first joins the group of
  the counter that the process had.
\<close>

theorem clock_init_refines:
  assumes "clock_init_with_id Q K tid S = Inr S'"
  shows "\<exists>w. determ_task_clock_init_with_id K
      (\<lambda>t v. bindR (init_counter Q (cp_user_status S') (pci_fd (cp_perf_counter S)) t v) (\<lambda>(pci, v'). Inr v')) tid
      ((cp_lib S)\<lparr>cl_world := w\<rparr>) = Inr (cp_lib S') \<and>
    cp_user_status S' = cp_clock_info S' + of_nat user_status_offset + of_nat user_status_size * word_of_int tid \<and>
    (tid = 0 \<longrightarrow> w = cl_world (cp_lib S) \<and> cp_clock_info S' = cp_clock_info S) \<and>
    (tid \<noteq> 0 \<longrightarrow> open_shared_mem Q (di_clock_file_name (cp_shared S)) (cl_world (cp_lib S)) = Inr (cp_clock_info S', w)) \<and>
    cl_tid (cp_lib S') = tid \<and> \<not> cl_started (cp_lib S')"
  using assms
  by (cases "tid = 0")
    (auto simp: clock_init_with_id_def determ_task_clock_init_with_id_def Let_def bindR_Inr_iff upd_status_def
      determ_task_set_scaling_factor_def)

text \<open>The constructor makes clock 0, and the next one that is made gets the number 1.\<close>

theorem constructor_clock:
  assumes "determ_clock_init Q K S = Inr S'"
  shows "cl_tid (cp_lib S') = 0 \<and> di_id_counter (cp_shared S') = 1 \<and>
    cp_user_status S' = cp_clock_info S' + of_nat user_status_offset \<and> di_leader (cp_shared S') = Some (cp_perf_counter S')"
  using assms
  by (auto simp: determ_clock_init_def clock_init_def clock_init_with_id_def Let_def bindR_Inr_iff upd_status_def
      determ_task_set_scaling_factor_def)

text \<open>\<open>mmap\<close> reports a failure as \<open>MAP_FAILED\<close>; the test is for the null pointer, and the failure becomes the address of the clocks.\<close>

theorem failed_mapping_used:
  assumes "co_mkstemp Q w = (fd, file_name, w1)" and "fd \<noteq> -1"
    and "co_mmap Q fd clock_info_size (co_ftruncate Q fd clock_info_size w1) = (mmap_failed, w2)"
  shows "create_shared_mem Q w = Inr (mmap_failed, file_name, co_mlock Q mmap_failed clock_info_size w2)"
  using assms by (simp add: create_shared_mem_def mmap_failed_def)

end
