(* ===== verification/Event_Viewer.thy ===== *)
theory Event_Viewer
  imports Prelude
begin

text \<open>
  The event viewer of \<open>determ.h\<close>, which the configurations with \<open>EVENT_VIEWER\<close> have: each thread logs what it does in an array of
  fixed size. The specification is a log that keeps the first entries and the event in progress.
\<close>

subsection \<open>Entries\<close>

definition MAX_EVENTS :: nat where "MAX_EVENTS = 12000"

record debugging_event =
  de_begin_time_us :: u64
  de_end_time_us :: u64
  de_event_type :: int
  de_begin_clock :: u64
  de_end_clock :: u64
  de_dirty_pages :: int
  de_updated_pages :: int
  de_partial_pages :: int
  de_merged_pages :: int
  de_sync_object :: u64
  de_coarsening_counter :: int
  de_coarsening_level :: int
  de_perf_counter_last :: u64
  de_perf_counter_current :: u64
  de_cpu :: int
  de_period_sets :: u64

definition no_event :: debugging_event where
  "no_event = \<lparr>de_begin_time_us = 0, de_end_time_us = 0, de_event_type = 0, de_begin_clock = 0, de_end_clock = 0,
     de_dirty_pages = 0, de_updated_pages = 0, de_partial_pages = 0, de_merged_pages = 0, de_sync_object = 0,
     de_coarsening_counter = 0, de_coarsening_level = 0, de_perf_counter_last = 0, de_perf_counter_current = 0, de_cpu = 0,
     de_period_sets = 0\<rparr>"

definition DEBUG_TYPE_COMMIT :: int where "DEBUG_TYPE_COMMIT = 2"
definition DEBUG_TYPE_TX_COARSE_SUCCESS :: int where "DEBUG_TYPE_TX_COARSE_SUCCESS = 28"
definition DEBUG_TYPE_TX_COARSE_FAILED :: int where "DEBUG_TYPE_TX_COARSE_FAILED = 29"

record event_entry =
  ee_event_counter :: nat
  ee_events :: "nat \<Rightarrow> debugging_event"

text \<open>What is read while an event is logged: the time since the start, the clock library, the processor.\<close>

record reading =
  rd_time_us :: u64
  rd_clock :: u64
  rd_coarsened_ticks :: u64
  rd_last_raw_perf :: u64
  rd_current_raw_perf :: u64
  rd_cpu :: u32
  rd_period_sets :: u64

text \<open>The shared object is zero when it is mapped.\<close>

definition event_entry_new :: event_entry where
  "event_entry_new = \<lparr>ee_event_counter = 0, ee_events = \<lambda>i. no_event\<rparr>"

definition upd_event_at :: "(debugging_event \<Rightarrow> debugging_event) \<Rightarrow> event_entry \<Rightarrow> event_entry" where
  "upd_event_at f e = e\<lparr>ee_events := (ee_events e)(ee_event_counter e := f (ee_events e (ee_event_counter e)))\<rparr>"

definition has_room :: "event_entry \<Rightarrow> bool" where
  "has_room e \<longleftrightarrow> ee_event_counter e < MAX_EVENTS"

subsection \<open>Operations\<close>

definition start_event :: "int \<Rightarrow> reading \<Rightarrow> u64 \<Rightarrow> event_entry \<Rightarrow> event_entry" where
  "start_event type r sync_object e =
     (if has_room e
      then upd_event_at (\<lambda>x. x\<lparr>de_event_type := type, de_begin_time_us := rd_time_us r, de_begin_clock := rd_clock r,
             de_sync_object := sync_object\<rparr>) e
      else e)"

text \<open>The ticks of a transaction are cut to an \<open>int\<close>.\<close>

definition end_fields :: "reading \<Rightarrow> debugging_event \<Rightarrow> debugging_event" where
  "end_fields r x = x\<lparr>de_end_time_us := rd_time_us r, de_end_clock := rd_clock r,
     de_coarsening_counter := sint (ucast (rd_coarsened_ticks r) :: u32), de_perf_counter_last := rd_last_raw_perf r,
     de_perf_counter_current := rd_current_raw_perf r, de_cpu := sint (rd_cpu r), de_period_sets := rd_period_sets r\<rparr>"

definition end_event :: "int \<Rightarrow> reading \<Rightarrow> event_entry \<Rightarrow> event_entry" where
  "end_event type r e =
     (if has_room e
      then
        (let n = ee_event_counter e; x = ee_events e n;
             e1 = (if de_begin_time_us x = 0 \<and> de_begin_clock x = 0 \<and> n > 0
                   then upd_event_at (\<lambda>x. x\<lparr>de_event_type := type, de_begin_time_us := de_end_time_us (ee_events e (n - 1)),
                          de_begin_clock := de_end_clock (ee_events e (n - 1))\<rparr>) e
                   else e);
             e2 = upd_event_at (end_fields r) e1
         in e2\<lparr>ee_event_counter := n + 1\<rparr>)
      else e)"

definition entry_add_event_commit_stats :: "int \<Rightarrow> int \<Rightarrow> int \<Rightarrow> int \<Rightarrow> event_entry \<Rightarrow> event_entry" where
  "entry_add_event_commit_stats updated_pages merged_pages partial_updated_pages dirty_pages e =
     (if has_room e \<and> de_event_type (ee_events e (ee_event_counter e)) = DEBUG_TYPE_COMMIT
      then upd_event_at (\<lambda>x. x\<lparr>de_updated_pages := updated_pages, de_partial_pages := partial_updated_pages,
             de_dirty_pages := dirty_pages, de_merged_pages := merged_pages\<rparr>) e
      else e)"

text \<open>Each field has a reading of its own; \<open>r\<close> is for the beginning, \<open>r'\<close> for the end.\<close>

definition entry_add_atomic_event :: "int \<Rightarrow> reading \<Rightarrow> reading \<Rightarrow> u64 \<Rightarrow> event_entry \<Rightarrow> event_entry" where
  "entry_add_atomic_event type r r' sync_object e =
     (if has_room e
      then (upd_event_at (\<lambda>x. x\<lparr>de_event_type := type, de_begin_time_us := rd_time_us r, de_end_time_us := rd_time_us r,
              de_begin_clock := rd_clock r, de_end_clock := rd_clock r', de_sync_object := sync_object\<rparr>) e)
           \<lparr>ee_event_counter := ee_event_counter e + 1\<rparr>
      else e)"

definition entry_add_coarsening_stats :: "int \<Rightarrow> int \<Rightarrow> event_entry \<Rightarrow> event_entry" where
  "entry_add_coarsening_stats coarsening_counter coarsening_level e =
     (if has_room e
      then upd_event_at (\<lambda>x. x\<lparr>de_coarsening_counter := coarsening_counter, de_coarsening_level := coarsening_level\<rparr>) e
      else e)"

definition print_last_n_events :: "nat \<Rightarrow> nat \<Rightarrow> event_entry \<Rightarrow> debugging_event list" where
  "print_last_n_events start n e = map (ee_events e) [start..<start + n]"

definition print_all_events :: "event_entry \<Rightarrow> debugging_event list" where
  "print_all_events e = map (ee_events e) [0..<ee_event_counter e]"

subsection \<open>The logs of all threads\<close>

definition MAX_EVENT_ENTRIES :: nat where "MAX_EVENT_ENTRIES = 1024"

type_synonym event_entries = "nat \<Rightarrow> event_entry"

definition on_entry :: "nat \<Rightarrow> (event_entry \<Rightarrow> event_entry) \<Rightarrow> event_entries \<Rightarrow> event_entries result" where
  "on_entry threadindex f L =
     (if threadindex < MAX_EVENT_ENTRIES then Inr (L(threadindex := f (L threadindex))) else Inl OutOfBounds)"

definition start_thread_event :: "nat \<Rightarrow> int \<Rightarrow> reading \<Rightarrow> u64 \<Rightarrow> event_entries \<Rightarrow> event_entries result" where
  "start_thread_event threadindex event_type r sync_object = on_entry threadindex (start_event event_type r sync_object)"

definition end_thread_event :: "nat \<Rightarrow> int \<Rightarrow> reading \<Rightarrow> event_entries \<Rightarrow> event_entries result" where
  "end_thread_event threadindex event_type r = on_entry threadindex (end_event event_type r)"

definition add_event_commit_stats :: "nat \<Rightarrow> int \<Rightarrow> int \<Rightarrow> int \<Rightarrow> int \<Rightarrow> event_entries \<Rightarrow> event_entries result" where
  "add_event_commit_stats threadindex u m p d = on_entry threadindex (entry_add_event_commit_stats u m p d)"

definition add_atomic_event :: "nat \<Rightarrow> int \<Rightarrow> reading \<Rightarrow> reading \<Rightarrow> u64 \<Rightarrow> event_entries \<Rightarrow> event_entries result" where
  "add_atomic_event threadindex event_type r r' sync_object =
     on_entry threadindex (entry_add_atomic_event event_type r r' sync_object)"

definition add_coarsening_stats :: "nat \<Rightarrow> int \<Rightarrow> int \<Rightarrow> bool \<Rightarrow> reading \<Rightarrow> reading \<Rightarrow> event_entries \<Rightarrow> event_entries result" where
  "add_coarsening_stats threadindex counter level successful r r' L =
     bindR (start_thread_event threadindex
              (if successful then DEBUG_TYPE_TX_COARSE_SUCCESS else DEBUG_TYPE_TX_COARSE_FAILED) r 0 L) (\<lambda>L1.
     bindR (on_entry threadindex (entry_add_coarsening_stats counter level) L1)
       (end_thread_event threadindex DEBUG_TYPE_TX_COARSE_FAILED r'))"

subsection \<open>The specification\<close>

text \<open>The finished events, and the one in progress; when the log is full nothing is in progress any more.\<close>

type_synonym event_log = "debugging_event list \<times> debugging_event"

datatype log_call = StartEvent int reading u64 | EndEvent int reading | CommitStats int int int int
  | AtomicEvent int reading reading u64 | CoarseStats int int

definition log_add :: "debugging_event \<Rightarrow> debugging_event list \<Rightarrow> event_log" where
  "log_add x xs = (xs @ [x], no_event)"

fun log_exec :: "log_call \<Rightarrow> event_log \<Rightarrow> event_log" where
  "log_exec (StartEvent ty r obj) (xs, x) =
     (xs, x\<lparr>de_event_type := ty, de_begin_time_us := rd_time_us r, de_begin_clock := rd_clock r, de_sync_object := obj\<rparr>)"
| "log_exec (EndEvent ty r) (xs, x) =
     log_add (end_fields r
       (if de_begin_time_us x = 0 \<and> de_begin_clock x = 0 \<and> xs \<noteq> []
        then x\<lparr>de_event_type := ty, de_begin_time_us := de_end_time_us (last xs), de_begin_clock := de_end_clock (last xs)\<rparr>
        else x)) xs"
| "log_exec (CommitStats u m p d) (xs, x) =
     (xs, if de_event_type x = DEBUG_TYPE_COMMIT
          then x\<lparr>de_updated_pages := u, de_partial_pages := p, de_dirty_pages := d, de_merged_pages := m\<rparr> else x)"
| "log_exec (AtomicEvent ty r r' obj) (xs, x) =
     log_add (x\<lparr>de_event_type := ty, de_begin_time_us := rd_time_us r, de_end_time_us := rd_time_us r,
       de_begin_clock := rd_clock r, de_end_clock := rd_clock r', de_sync_object := obj\<rparr>) xs"
| "log_exec (CoarseStats c l) (xs, x) = (xs, x\<lparr>de_coarsening_counter := c, de_coarsening_level := l\<rparr>)"

fun log_entry_call :: "log_call \<Rightarrow> event_entry \<Rightarrow> event_entry" where
  "log_entry_call (StartEvent ty r obj) = start_event ty r obj"
| "log_entry_call (EndEvent ty r) = end_event ty r"
| "log_entry_call (CommitStats u m p d) = entry_add_event_commit_stats u m p d"
| "log_entry_call (AtomicEvent ty r r' obj) = entry_add_atomic_event ty r r' obj"
| "log_entry_call (CoarseStats c l) = entry_add_coarsening_stats c l"

definition log_rel :: "event_entry \<Rightarrow> event_log \<Rightarrow> bool" where
  "log_rel e l \<longleftrightarrow> (case l of (xs, x) \<Rightarrow>
     ee_event_counter e = min (length xs) MAX_EVENTS \<and> (\<forall>i < ee_event_counter e. ee_events e i = xs ! i) \<and>
     (length xs < MAX_EVENTS \<longrightarrow> ee_events e (length xs) = x) \<and> (\<forall>i > ee_event_counter e. ee_events e i = no_event))"

lemma log_rel_step:
  assumes "log_rel e l" shows "log_rel (log_entry_call c e) (log_exec c l)"
proof -
  obtain xs x where l: "l = (xs, x)" by (cases l)
  show ?thesis
  proof (cases "length xs < MAX_EVENTS")
    case True
    then have R: "ee_event_counter e = length xs" "\<forall>i < length xs. ee_events e i = xs ! i" "ee_events e (length xs) = x"
      "\<forall>i > length xs. ee_events e i = no_event" "has_room e"
      using assms by (auto simp: log_rel_def l has_room_def)
    have prev: "xs \<noteq> [] \<Longrightarrow> ee_events e (length xs - Suc 0) = last xs" using R(2) by (simp add: last_conv_nth)
    show ?thesis
      using True R prev
      by (cases c) (auto simp: l log_rel_def log_add_def start_event_def end_event_def entry_add_event_commit_stats_def
          entry_add_atomic_event_def entry_add_coarsening_stats_def upd_event_at_def Let_def nth_append less_Suc_eq)
  next
    case False
    then have "\<not> has_room e" using assms by (auto simp: log_rel_def l has_room_def)
    then have "log_entry_call c e = e"
      by (cases c) (simp_all add: start_event_def end_event_def entry_add_event_commit_stats_def entry_add_atomic_event_def
          entry_add_coarsening_stats_def)
    moreover have "fst (log_exec c l) = xs \<or> (\<exists>y. fst (log_exec c l) = xs @ [y])"
      by (cases c) (simp_all add: l log_add_def)
    ultimately show ?thesis using assms False by (auto simp: log_rel_def l nth_append split: prod.splits)
  qed
qed

text \<open>
  The log of a thread: after any calls, what is printed is the first 12000 of the events that the calls make one after the
  other; no event that was finished is changed, and when the log is full further events are dropped.
\<close>

theorem event_log_prefix:
  "print_all_events (fold log_entry_call calls event_entry_new) = take MAX_EVENTS (fst (fold log_exec calls ([], no_event)))"
proof -
  have "log_rel (fold log_entry_call calls e) (fold log_exec calls l)" if "log_rel e l" for e l
    using that by (induction calls arbitrary: e l) (simp_all add: log_rel_step)
  moreover have "log_rel event_entry_new ([], no_event)" by (simp add: log_rel_def event_entry_new_def)
  ultimately have R: "log_rel (fold log_entry_call calls event_entry_new) (fold log_exec calls ([], no_event))" by blast
  then show ?thesis
    by (intro nth_equalityI) (auto simp: log_rel_def print_all_events_def split: prod.splits)
qed

text \<open>
  The counter that is handed to \<open>add_coarsening_stats\<close> never reaches the log: \<open>end_event\<close> writes over it what the clock library has
  at that moment.
\<close>

theorem coarsening_counter_overwritten:
  assumes "t < MAX_EVENT_ENTRIES" and "has_room (L t)"
  shows "\<exists>L'. add_coarsening_stats t c l ok r r' L = Inr L' \<and>
    de_coarsening_counter (last (print_all_events (L' t))) = sint (ucast (rd_coarsened_ticks r') :: u32)"
  using assms
  by (simp add: add_coarsening_stats_def start_thread_event_def end_thread_event_def on_entry_def start_event_def end_event_def
      entry_add_coarsening_stats_def upd_event_at_def has_room_def print_all_events_def end_fields_def Let_def)

end
